(* ===== verification/Mynta_Prelude.thy ===== *)
theory Mynta_Prelude
  imports Main "HOL-Library.Word" "HOL-Library.List_Lexorder" "HOL-Library.Signed_Division"
begin

text \<open>
  Shared vocabulary of the development.

  \<^item> machine integers and bytes: the word synonyms and little-endian byte strings
    (\<open>word_bytes\<close>, \<open>bytes_word\<close>), the layout \<open>WriteLE16/32/64\<close> and the raw
    \<open>base_blob\<close> arrays have in memory;
  \<^item> \<open>uint256\<close>, the opaque 256-bit blob of src/src/uint256.h, ordered by \<open>memcmp\<close>
    of its bytes as \<open>base_blob::Compare\<close> does (so \<^emph>\<open>not\<close> by its value as an
    integer), an instance of the library's \<open>linorder\<close>;
  \<^item> \<open>omap\<close>, the ordered map \<open>std::map\<close>: an association list kept strictly sorted
    by key, whose entries are what a range-for over the map visits, in that order.
\<close>

named_theorems om_eval \<open>equations that evaluate ordered maps on concrete arguments\<close>
named_theorems bytes_eval \<open>equations that evaluate byte strings on concrete arguments\<close>

type_synonym byte = "8 word"
type_synonym u16 = "16 word"
type_synonym u32 = "32 word"
type_synonym u64 = "64 word"

section \<open>Little-endian byte strings\<close>

primrec word_bytes :: "nat \<Rightarrow> 'a::len word \<Rightarrow> byte list" where
  "word_bytes 0 w = []"
| "word_bytes (Suc n) w = ucast w # word_bytes n (drop_bit 8 w)"

primrec bytes_word :: "byte list \<Rightarrow> 'a::len word" where
  "bytes_word [] = 0"
| "bytes_word (b # bs) = or (ucast b) (push_bit 8 (bytes_word bs))"

lemma word_bytes_numeral [bytes_eval]:
  "word_bytes (numeral k) w = ucast w # word_bytes (pred_numeral k) (drop_bit 8 w)"
  by (simp add: numeral_eq_Suc)

lemma length_word_bytes [simp]: "length (word_bytes n w) = n"
  by (induction n arbitrary: w) auto

lemma bit_bytes_word:
  "bit (bytes_word bs :: 'a::len word) i \<longleftrightarrow>
     i < LENGTH('a) \<and> i div 8 < length bs \<and> bit (bs ! (i div 8)) (i mod 8)"
proof (induction bs arbitrary: i)
  case Nil
  then show ?case by simp
next
  case (Cons b bs)
  show ?case
  proof (cases "i < 8")
    case True
    then show ?thesis
      by (auto simp: bit_or_iff bit_push_bit_iff bit_ucast_iff)
  next
    case False
    then have "i div 8 = Suc ((i - 8) div 8)" and "(i - 8) mod 8 = i mod 8"
      by (simp_all add: div_if le_mod_geq)
    moreover have "\<not> bit (ucast b :: 'a word) i"
      using False by (auto simp: bit_ucast_iff dest: bit_imp_le_length)
    ultimately show ?thesis
      using False Cons.IH [of "i - 8"]
      by (auto simp: bit_or_iff bit_push_bit_iff)
  qed
qed

lemma nth_word_bytes: "j < n \<Longrightarrow> word_bytes n w ! j = ucast (drop_bit (8 * j) w)"
proof (induction n arbitrary: j w)
  case 0
  then show ?case by simp
next
  case (Suc n)
  then show ?case
    by (cases j) (simp_all add: drop_bit_drop_bit algebra_simps)
qed

lemma bytes_word_word_bytes:
  fixes w :: "'a::len word"
  assumes "LENGTH('a) = 8 * n"
  shows "bytes_word (word_bytes n w) = w"
proof (rule bit_word_eqI)
  fix i assume i: "i < LENGTH('a)"
  then have d: "i div 8 < n" using assms by auto
  have "8 * (i div 8) + i mod 8 = i" by simp
  with d i show "bit (bytes_word (word_bytes n w) :: 'a word) i = bit w i"
    by (simp add: bit_bytes_word nth_word_bytes bit_ucast_iff bit_drop_bit_eq)
qed

lemma word_bytes_bytes_word:
  assumes "length bs = n" and "8 * n \<le> LENGTH('a)"
  shows "word_bytes n (bytes_word bs :: 'a::len word) = bs"
proof (rule nth_equalityI)
  show "length (word_bytes n (bytes_word bs :: 'a word)) = length bs"
    using assms by simp
next
  fix j assume "j < length (word_bytes n (bytes_word bs :: 'a word))"
  then have j: "j < n" by simp
  show "word_bytes n (bytes_word bs :: 'a word) ! j = bs ! j"
  proof (rule bit_word_eqI)
    fix i assume i: "i < LENGTH(8)"
    have "8 * j + i < LENGTH('a)" using assms(2) j i by simp
    moreover have "(8 * j + i) div 8 = j" and "(8 * j + i) mod 8 = i" using i by simp_all
    ultimately show "bit (word_bytes n (bytes_word bs :: 'a word) ! j) i = bit (bs ! j) i"
      using j i assms(1)
      by (simp add: nth_word_bytes bit_ucast_iff bit_drop_bit_eq bit_bytes_word)
  qed
qed

lemma word_bytes_inject:
  fixes v w :: "'a::len word"
  assumes "LENGTH('a) = 8 * n" and "word_bytes n v = word_bytes n w"
  shows "v = w"
  using assms bytes_word_word_bytes by metis

section \<open>Opaque 256-bit blobs\<close>

text \<open>
  A \<open>uint256\<close> is 32 bytes; \<open>UintToArith256\<close> reads them as a little-endian integer,
  which is how the constructor below stores them.
\<close>

datatype uint256 = UINT256 (UintToArith256: "256 word")

definition blob_data :: "uint256 \<Rightarrow> byte list" where
  "blob_data u = word_bytes 32 (UintToArith256 u)"

definition uint256_null :: uint256 where
  "uint256_null = UINT256 0"

lemma blob_data_inject: "blob_data u = blob_data v \<longleftrightarrow> u = v"
proof
  assume "blob_data u = blob_data v"
  then have "UintToArith256 u = UintToArith256 v"
    unfolding blob_data_def by (rule word_bytes_inject [rotated]) simp
  then show "u = v" by (cases u, cases v) simp
qed simp

lemma length_blob_data [simp]: "length (blob_data u) = 32"
  by (simp add: blob_data_def)

instantiation uint256 :: linorder
begin

definition less_eq_uint256 :: "uint256 \<Rightarrow> uint256 \<Rightarrow> bool" where
  "u \<le> v \<longleftrightarrow> blob_data u \<le> blob_data v"

definition less_uint256 :: "uint256 \<Rightarrow> uint256 \<Rightarrow> bool" where
  "u < v \<longleftrightarrow> blob_data u < blob_data v"

instance
  by standard
    (auto simp: less_eq_uint256_def less_uint256_def blob_data_inject less_le_not_le)

end

section \<open>Ordered maps\<close>

fun al_put :: "'k::linorder \<Rightarrow> 'v \<Rightarrow> ('k \<times> 'v) list \<Rightarrow> ('k \<times> 'v) list" where
  "al_put k v [] = [(k, v)]"
| "al_put k v ((k', v') # xs) =
     (if k < k' then (k, v) # (k', v') # xs
      else if k = k' then (k, v) # xs
      else (k', v') # al_put k v xs)"

definition al_erase :: "'k \<Rightarrow> ('k \<times> 'v) list \<Rightarrow> ('k \<times> 'v) list" where
  "al_erase k xs = filter (\<lambda>p. fst p \<noteq> k) xs"

abbreviation al_sorted :: "('k::linorder \<times> 'v) list \<Rightarrow> bool" where
  "al_sorted xs \<equiv> sorted_wrt (<) (map fst xs)"

lemma set_al_put_fst: "fst ` set (al_put k v xs) = insert k (fst ` set xs)"
  by (induction k v xs rule: al_put.induct) auto

lemma al_sorted_put: "al_sorted xs \<Longrightarrow> al_sorted (al_put k v xs)"
proof (induction k v xs rule: al_put.induct)
  case (1 k v)
  then show ?case by simp
next
  case (2 k v k' v' xs)
  then show ?case
    by (auto simp: set_al_put_fst [unfolded set_map [symmetric]] simp flip: set_map)
qed

lemma al_sorted_erase: "al_sorted xs \<Longrightarrow> al_sorted (al_erase k xs)"
  by (induction xs) (auto simp: al_erase_def)

lemma map_of_al_put: "al_sorted xs \<Longrightarrow> map_of (al_put k v xs) = (map_of xs)(k \<mapsto> v)"
proof (induction k v xs rule: al_put.induct)
  case (1 k v)
  then show ?case by simp
next
  case (2 k v k' v' xs)
  then show ?case by (auto simp: fun_eq_iff)
qed

lemma map_of_al_erase: "map_of (al_erase k xs) = (map_of xs)(k := None)"
  by (induction xs) (auto simp: al_erase_def fun_eq_iff)

lemma al_sorted_distinct: "al_sorted xs \<Longrightarrow> distinct (map fst xs)"
  using strict_sorted_iff by auto

lemma al_key_value: "distinct (map fst xs) \<Longrightarrow> map (\<lambda>k. (k, the (map_of xs k))) (map fst xs) = xs"
  by (auto intro!: map_idI)

lemma al_sorted_ext:
  assumes "al_sorted xs" and "al_sorted ys" and "map_of xs = map_of ys"
  shows "xs = ys"
proof -
  have d: "distinct (map fst xs)" "distinct (map fst ys)"
    using assms(1,2) by (auto dest: al_sorted_distinct)
  have "set (map fst xs) = set (map fst ys)"
    using arg_cong [OF assms(3), of dom] by (simp add: dom_map_of_conv_image_fst)
  then have "map fst xs = map fst ys"
    using assms(1,2) strict_sorted_equal by blast
  then show ?thesis
    using al_key_value [OF d(1)] al_key_value [OF d(2)] assms(3) by metis
qed

typedef (overloaded) ('k::linorder, 'v) omap = "{xs :: ('k \<times> 'v) list. al_sorted xs}"
  morphisms om_entries Abs_omap
  by (rule exI [of _ "[]"]) simp

setup_lifting type_definition_omap

lift_definition om_empty :: "('k::linorder, 'v) omap" is "[]" by simp

lift_definition om_put :: "'k::linorder \<Rightarrow> 'v \<Rightarrow> ('k, 'v) omap \<Rightarrow> ('k, 'v) omap" is al_put
  by (rule al_sorted_put)

lift_definition om_erase :: "'k::linorder \<Rightarrow> ('k, 'v) omap \<Rightarrow> ('k, 'v) omap" is al_erase
  by (rule al_sorted_erase)

definition om_find :: "('k::linorder, 'v) omap \<Rightarrow> 'k \<Rightarrow> 'v option" where
  "om_find m = map_of (om_entries m)"

definition om_size :: "('k::linorder, 'v) omap \<Rightarrow> nat" where
  "om_size m = length (om_entries m)"

lemma om_entries_sorted [simp]: "al_sorted (om_entries m)"
  using om_entries by blast

lemma om_distinct [simp]: "distinct (map fst (om_entries m))"
  by (rule al_sorted_distinct) simp

lemma om_find_empty [simp]: "om_find om_empty = Map.empty"
  by (simp add: om_find_def om_empty.rep_eq)

lemma om_find_put [simp]: "om_find (om_put k v m) = (om_find m)(k \<mapsto> v)"
  by (simp add: om_find_def om_put.rep_eq map_of_al_put)

lemma om_find_erase [simp]: "om_find (om_erase k m) = (om_find m)(k := None)"
  by (simp add: om_find_def om_erase.rep_eq map_of_al_erase)

lemma om_ext: "om_find m = om_find m' \<Longrightarrow> m = m'"
  by (simp add: om_find_def om_entries_inject [symmetric] al_sorted_ext)

lemma om_entries_iff: "(k, v) \<in> set (om_entries m) \<longleftrightarrow> om_find m k = Some v"
  by (simp add: om_find_def)

lemma om_key_iff: "k \<in> fst ` set (om_entries m) \<longleftrightarrow> om_find m k \<noteq> None"
  by (simp add: om_find_def map_of_eq_None_iff)

lemma om_value_iff: "v \<in> snd ` set (om_entries m) \<longleftrightarrow> (\<exists>k. om_find m k = Some v)"
  by (force simp: om_entries_iff [symmetric] image_iff)

lemma om_finite_dom [simp]: "finite (dom (om_find m))"
  by (simp add: om_find_def finite_dom_map_of)

lemma om_size_card: "om_size m = card (dom (om_find m))"
proof -
  have "dom (om_find m) = set (map fst (om_entries m))"
    by (simp add: om_find_def dom_map_of_conv_image_fst)
  then show ?thesis
    by (metis om_size_def om_distinct distinct_card length_map)
qed

lemmas om_rep_eqs [om_eval] =
  om_empty.rep_eq om_put.rep_eq om_erase.rep_eq al_erase_def om_size_def

instantiation omap :: (linorder, equal) equal
begin

definition equal_omap :: "('a, 'b) omap \<Rightarrow> ('a, 'b) omap \<Rightarrow> bool" where
  "equal_omap m m' \<longleftrightarrow> HOL.equal (om_entries m) (om_entries m')"

instance
  by standard (simp add: equal_omap_def equal_eq om_entries_inject)

end

section \<open>Exact secondary indexes\<close>

text \<open>
  An index maps every key of every stored object to the handle of that object, and nothing else.
  Adding, replacing and removing an object together with its keys keeps the index exact.
\<close>

definition index_exact :: "('h \<rightharpoonup> 'm) \<Rightarrow> ('k \<rightharpoonup> 'h) \<Rightarrow> ('m \<Rightarrow> 'k set) \<Rightarrow> bool" where
  "index_exact obj idx ks \<longleftrightarrow> (\<forall>k h. idx k = Some h \<longleftrightarrow> (\<exists>m. obj h = Some m \<and> k \<in> ks m))"

lemma index_exactD: "index_exact obj idx ks \<Longrightarrow> idx k = Some h \<longleftrightarrow> (\<exists>m. obj h = Some m \<and> k \<in> ks m)"
  by (simp add: index_exact_def)

lemma index_exact_unique:
  "index_exact obj idx ks \<Longrightarrow> obj h = Some m \<Longrightarrow> obj h' = Some m' \<Longrightarrow> k \<in> ks m \<Longrightarrow> k \<in> ks m' \<Longrightarrow> h = h'"
  using index_exactD [of obj idx ks k h] index_exactD [of obj idx ks k h'] by simp

lemma index_exact_update:
  assumes ex: "index_exact obj idx ks" and m: "obj h = Some m \<or> obj h = None \<and> ks m = {}"
    and free: "\<And>k. k \<in> ks m' \<Longrightarrow> idx k = None \<or> idx k = Some h"
  shows "index_exact (obj(h \<mapsto> m')) (\<lambda>k. if k \<in> ks m' then Some h else if k \<in> ks m then None else idx k) ks"
  unfolding index_exact_def
proof (intro allI)
  fix k g
  show "(if k \<in> ks m' then Some h else if k \<in> ks m then None else idx k) = Some g \<longleftrightarrow>
      (\<exists>n. (obj(h \<mapsto> m')) g = Some n \<and> k \<in> ks n)"
    using index_exactD [OF ex, of k g] index_exactD [OF ex, of k h] free [of k] m
    by (cases "g = h") auto
qed

lemma index_exact_remove:
  assumes ex: "index_exact obj idx ks" and m: "obj h = Some m"
  shows "index_exact (obj(h := None)) (\<lambda>k. if k \<in> ks m then None else idx k) ks"
  unfolding index_exact_def
proof (intro allI)
  fix k g
  show "(if k \<in> ks m then None else idx k) = Some g \<longleftrightarrow> (\<exists>n. (obj(h := None)) g = Some n \<and> k \<in> ks n)"
    using index_exactD [OF ex, of k g] index_exactD [OF ex, of k h] m
    by (cases "g = h") auto
qed

lemma index_exact_add:
  assumes ex: "index_exact obj idx ks" and "obj h = None" and free: "\<And>k. k \<in> ks m \<Longrightarrow> idx k = None"
  shows "index_exact (obj(h \<mapsto> m)) (\<lambda>k. if k \<in> ks m then Some h else idx k) ks"
  unfolding index_exact_def
proof (intro allI)
  fix k g
  show "(if k \<in> ks m then Some h else idx k) = Some g \<longleftrightarrow> (\<exists>n. (obj(h \<mapsto> m)) g = Some n \<and> k \<in> ks n)"
    using index_exactD [OF ex, of k g] index_exactD [OF ex, of k h] free [of k] assms(2)
    by (cases "g = h") auto
qed

end
