(* ===== verification/Serialization.thy ===== *)
theory Serialization
  imports Mynta_Prelude "HOL-Library.Monad_Syntax"
begin

text \<open>
  The wire format of src/src/serialize.h and src/src/streams.h.

  A writer is a function to bytes; a reader takes the unread bytes of a stream and returns
  the value with the rest, or \<open>None\<close> where the C++ reader throws
  \<open>std::ios_base::failure\<close>. The locale \<open>codec\<close> is the contract every serialisable type
  meets: what is written is read back, whatever follows it, and only what a writer produces
  is accepted. It is interpreted for the integers, compact sizes and byte vectors here and
  for the transaction payloads in the theories that declare them.
\<close>

type_synonym 'a reader = "byte list \<Rightarrow> ('a \<times> byte list) option"

section \<open>The stream and the integers\<close>

definition stream_read :: "nat \<Rightarrow> byte list reader" where
  "stream_read n bs = (if n \<le> length bs then Some (take n bs, drop n bs) else None)"

definition ser_writedata8 :: "byte \<Rightarrow> byte list" where
  "ser_writedata8 obj = word_bytes 1 obj"

definition ser_writedata16 :: "u16 \<Rightarrow> byte list" where
  "ser_writedata16 obj = word_bytes 2 obj"

definition ser_writedata32 :: "u32 \<Rightarrow> byte list" where
  "ser_writedata32 obj = word_bytes 4 obj"

definition ser_writedata64 :: "u64 \<Rightarrow> byte list" where
  "ser_writedata64 obj = word_bytes 8 obj"

definition ser_readdata8 :: "byte reader" where
  "ser_readdata8 bs = do { (d, bs) \<leftarrow> stream_read 1 bs; Some (bytes_word d, bs) }"

definition ser_readdata16 :: "u16 reader" where
  "ser_readdata16 bs = do { (d, bs) \<leftarrow> stream_read 2 bs; Some (bytes_word d, bs) }"

definition ser_readdata32 :: "u32 reader" where
  "ser_readdata32 bs = do { (d, bs) \<leftarrow> stream_read 4 bs; Some (bytes_word d, bs) }"

definition ser_readdata64 :: "u64 reader" where
  "ser_readdata64 bs = do { (d, bs) \<leftarrow> stream_read 8 bs; Some (bytes_word d, bs) }"

section \<open>Compact sizes\<close>

definition MAX_SIZE :: u64 where
  "MAX_SIZE = 0x02000000"

definition GetSizeOfCompactSize :: "u64 \<Rightarrow> nat" where
  "GetSizeOfCompactSize nSize =
     (if nSize < 253 then 1
      else if nSize \<le> 0xFFFF then 1 + 2
      else if nSize \<le> 0xFFFFFFFF then 1 + 4
      else 1 + 8)"

definition WriteCompactSize :: "u64 \<Rightarrow> byte list" where
  "WriteCompactSize nSize =
     (if nSize < 253 then ser_writedata8 (ucast nSize)
      else if nSize \<le> 0xFFFF then ser_writedata8 253 @ ser_writedata16 (ucast nSize)
      else if nSize \<le> 0xFFFFFFFF then ser_writedata8 254 @ ser_writedata32 (ucast nSize)
      else ser_writedata8 255 @ ser_writedata64 nSize)"

definition ReadCompactSize :: "u64 reader" where
  "ReadCompactSize is = do {
     (chSize, is) \<leftarrow> ser_readdata8 is;
     (nSizeRet, is) \<leftarrow>
       (if chSize < 253 then Some (ucast chSize, is)
        else if chSize = 253 then do {
          (n, is) \<leftarrow> ser_readdata16 is;
          (if n < 253 then None else Some (ucast n, is)) }
        else if chSize = 254 then do {
          (n, is) \<leftarrow> ser_readdata32 is;
          (if n < 0x10000 then None else Some (ucast n, is)) }
        else do {
          (n, is) \<leftarrow> ser_readdata64 is;
          (if n < 0x100000000 then None else Some (n, is)) });
     (if nSizeRet > MAX_SIZE then None else Some (nSizeRet, is)) }"

section \<open>Byte vectors, strings and vectors of objects\<close>

text \<open>
  A byte vector is read in blocks of at most 5,000,000 bytes so that a bogus length does not
  allocate memory for data the stream does not hold.
\<close>

function read_blocks :: "nat \<Rightarrow> byte list reader" where
  "read_blocks n is =
     (if n = 0 then Some ([], is)
      else do {
        (blk, is) \<leftarrow> stream_read (min n 5000000) is;
        (v, is) \<leftarrow> read_blocks (n - min n 5000000) is;
        Some (blk @ v, is) })"
  by pat_completeness auto
termination
  by (relation "measure fst") auto

declare read_blocks.simps [simp del]

definition Serialize_bytes :: "byte list \<Rightarrow> byte list" where
  "Serialize_bytes v = WriteCompactSize (of_nat (length v)) @ v"

definition Unserialize_bytes :: "byte list reader" where
  "Unserialize_bytes is = do {
     (nSize, is) \<leftarrow> ReadCompactSize is;
     read_blocks (unat nSize) is }"

definition Serialize_string :: "string \<Rightarrow> byte list" where
  "Serialize_string s = Serialize_bytes (map of_char s)"

primrec read_objects :: "'a reader \<Rightarrow> nat \<Rightarrow> 'a list reader" where
  "read_objects r 0 is = Some ([], is)"
| "read_objects r (Suc n) is = do {
     (x, is) \<leftarrow> r is;
     (xs, is) \<leftarrow> read_objects r n is;
     Some (x # xs, is) }"

definition Serialize_vector :: "('a \<Rightarrow> byte list) \<Rightarrow> 'a list \<Rightarrow> byte list" where
  "Serialize_vector ser v = WriteCompactSize (of_nat (length v)) @ concat (map ser v)"

definition Unserialize_vector :: "'a reader \<Rightarrow> 'a list reader" where
  "Unserialize_vector r is = do {
     (nSize, is) \<leftarrow> ReadCompactSize is;
     read_objects r (unat nSize) is }"

section \<open>Variable-length integers\<close>

lemma unat_varint_next:
  fixes n :: u64
  assumes "\<not> n \<le> 0x7F"
  shows "unat (drop_bit 7 n - 1) = unat n div 128 - 1"
proof -
  have "unat (drop_bit 7 n) = unat n div 128"
    by (simp add: unat_div drop_bit_eq_div)
  moreover have "127 < unat n"
    using assms by (simp add: word_le_nat_alt)
  ultimately show ?thesis
    by (simp add: unat_sub_if')
qed

lemma varint_next_less: "\<not> n \<le> (0x7F :: u64) \<Longrightarrow> unat (drop_bit 7 n - 1) < unat n"
  by (simp add: unat_varint_next word_le_nat_alt)

text \<open>
  \<open>WriteVarInt\<close> fills a fixed array \<open>tmp\<close> from the low digit up and writes it backwards;
  the list below is that array.
\<close>

function WriteVarInt_tmp :: "bool \<Rightarrow> u64 \<Rightarrow> byte list" where
  "WriteVarInt_tmp len n =
     or (ucast (and n 0x7F)) (if len then 0x80 else 0) #
     (if n \<le> 0x7F then [] else WriteVarInt_tmp True (drop_bit 7 n - 1))"
  by pat_completeness auto
termination
  by (relation "measure (unat \<circ> snd)") (auto dest: varint_next_less)

declare WriteVarInt_tmp.simps [simp del]

definition WriteVarInt :: "u64 \<Rightarrow> byte list" where
  "WriteVarInt n = rev (WriteVarInt_tmp False n)"

fun ReadVarInt_from :: "u64 \<Rightarrow> u64 reader" where
  "ReadVarInt_from n [] = None"
| "ReadVarInt_from n (chData # is) =
     (if n > drop_bit 7 (- 1) then None
      else (let n = or (push_bit 7 n) (ucast (and chData 0x7F)) in
        if and chData 0x80 \<noteq> 0
        then (if n = - 1 then None else ReadVarInt_from (n + 1) is)
        else Some (n, is)))"

definition ReadVarInt :: "u64 reader" where
  "ReadVarInt is = ReadVarInt_from 0 is"

function GetSizeOfVarInt :: "u64 \<Rightarrow> nat" where
  "GetSizeOfVarInt n = (if n \<le> 0x7F then 1 else 1 + GetSizeOfVarInt (drop_bit 7 n - 1))"
  by pat_completeness auto
termination
  by (relation "measure unat") (auto dest: varint_next_less)

declare GetSizeOfVarInt.simps [simp del]

section \<open>The codec contract\<close>

named_theorems codec_read \<open>reading back what a writer wrote\<close>
named_theorems codec_iff \<open>what a successful read says about the input\<close>

locale roundtrip =
  fixes ser :: "'a \<Rightarrow> byte list"
    and unser :: "'a reader"
    and wf :: "'a \<Rightarrow> bool"
  assumes unser_ser: "wf x \<Longrightarrow> unser (ser x @ rest) = Some (x, rest)"
begin

lemma prefix_free: "wf x \<Longrightarrow> wf y \<Longrightarrow> ser x @ r = ser y @ s \<longleftrightarrow> x = y \<and> r = s"
  by (metis unser_ser option.inject prod.inject)

lemma ser_inject: "wf x \<Longrightarrow> wf y \<Longrightarrow> ser x = ser y \<longleftrightarrow> x = y"
  using prefix_free [of x y "[]" "[]"] by simp

end

text \<open>A codec also accepts nothing but what its writer produces.\<close>

locale codec = roundtrip +
  assumes unser_sound: "unser bs = Some (x, rest) \<Longrightarrow> wf x \<and> bs = ser x @ rest"
begin

lemmas read_back = unser_ser

lemma unser_iff: "unser bs = Some (x, rest) \<longleftrightarrow> wf x \<and> bs = ser x @ rest"
  using unser_ser unser_sound by blast

lemma unser_exact: "unser bs = Some (x, []) \<longleftrightarrow> wf x \<and> bs = ser x"
  using unser_iff [of bs x "[]"] by simp

end

lemma stream_read_append [simp]: "length d = n \<Longrightarrow> stream_read n (d @ rest) = Some (d, rest)"
  by (simp add: stream_read_def)

lemma stream_read_Some: "stream_read n bs = Some (d, rest) \<longleftrightarrow> length d = n \<and> bs = d @ rest"
  by (auto simp: stream_read_def)

text \<open>A fixed-width integer is a codec whenever its width is the number of bytes read.\<close>

lemma codec_word:
  assumes "LENGTH('a::len) = 8 * n"
  shows "codec (word_bytes n) (\<lambda>bs. do { (d, bs) \<leftarrow> stream_read n bs; Some (bytes_word d :: 'a word, bs) })
    (\<lambda>_. True)"
proof
  show "do { (d, bs) \<leftarrow> stream_read n (word_bytes n x @ rest); Some (bytes_word d :: 'a word, bs) } =
      Some (x, rest)" for x :: "'a word" and rest
    using assms by (simp add: bytes_word_word_bytes)
next
  show "True \<and> bs = word_bytes n x @ rest"
    if "do { (d, bs) \<leftarrow> stream_read n bs; Some (bytes_word d :: 'a word, bs) } = Some (x, rest)" for bs x rest
    using that assms
    by (auto simp: stream_read_Some word_bytes_bytes_word split: bind_splits)
qed

interpretation c8: codec ser_writedata8 ser_readdata8 "\<lambda>_. True"
  by (unfold ser_writedata8_def [abs_def] ser_readdata8_def [abs_def]) (rule codec_word, simp)

interpretation c16: codec ser_writedata16 ser_readdata16 "\<lambda>_. True"
  by (unfold ser_writedata16_def [abs_def] ser_readdata16_def [abs_def]) (rule codec_word, simp)

interpretation c32: codec ser_writedata32 ser_readdata32 "\<lambda>_. True"
  by (unfold ser_writedata32_def [abs_def] ser_readdata32_def [abs_def]) (rule codec_word, simp)

interpretation c64: codec ser_writedata64 ser_readdata64 "\<lambda>_. True"
  by (unfold ser_writedata64_def [abs_def] ser_readdata64_def [abs_def]) (rule codec_word, simp)

lemma take_bit_small:
  fixes n :: "'a::len word"
  assumes "unat n < 2 ^ k"
  shows "take_bit k n = n"
  using assms by (simp add: word_unat_eq_iff unsigned_take_bit_eq take_bit_nat_eq_self)

lemma unat_ucast_small:
  fixes n :: "'a::len word"
  assumes "unat n < 2 ^ LENGTH('b::len)"
  shows "unat (ucast n :: 'b word) = unat n"
  using assms by (simp add: unsigned_ucast_eq unsigned_take_bit_eq take_bit_nat_eq_self)

lemma ucast_ucast_id:
  fixes n :: "'a::len word"
  assumes "unat n < 2 ^ LENGTH('b::len)"
  shows "ucast (ucast n :: 'b word) = n"
proof -
  have "unat (ucast (ucast n :: 'b word) :: 'a word) = unat (ucast n :: 'b word)"
    by (rule unat_ucast_small) (simp add: unat_ucast_small assms)
  then show ?thesis by (simp add: word_unat_eq_iff unat_ucast_small assms)
qed

lemma WriteCompactSize_length: "length (WriteCompactSize n) = GetSizeOfCompactSize n"
  by (simp add: WriteCompactSize_def GetSizeOfCompactSize_def ser_writedata8_def
      ser_writedata16_def ser_writedata32_def ser_writedata64_def)

lemma compact_size_write:
  assumes "n \<le> MAX_SIZE"
  shows "ReadCompactSize (WriteCompactSize n @ rest) = Some (n, rest)"
proof -
  have "n \<le> 0xFFFFFFFF"
    by (rule order_trans [OF assms]) (simp add: MAX_SIZE_def)
  then consider (a) "n < 253" | (b) "\<not> n < 253" "n \<le> 0xFFFF"
    | (c) "\<not> n < 253" "\<not> n \<le> 0xFFFF" "n \<le> 0xFFFFFFFF"
    by blast
  then show ?thesis
  proof cases
    case a
    then have n: "unat n < 253" by (simp add: word_less_nat_alt)
    then have "ucast (ucast n :: byte) = n" and "(ucast n :: byte) < 253"
      by (simp_all add: ucast_ucast_id word_less_nat_alt unat_ucast_small)
    with a assms show ?thesis
      by (simp add: WriteCompactSize_def ReadCompactSize_def c8.unser_ser)
  next
    case b
    then have n: "253 \<le> unat n" "unat n < 2 ^ 16"
      by (simp_all add: word_less_nat_alt word_le_nat_alt)
    then have "ucast (ucast n :: u16) = n" and "\<not> (ucast n :: u16) < 253"
      by (simp_all add: ucast_ucast_id word_less_nat_alt unat_ucast_small)
    with b assms show ?thesis
      by (simp add: WriteCompactSize_def ReadCompactSize_def c8.unser_ser c16.unser_ser)
  next
    case c
    then have n: "0x10000 \<le> unat n" "unat n < 2 ^ 32"
      by (simp_all add: word_less_nat_alt word_le_nat_alt)
    then have "ucast (ucast n :: u32) = n" and "\<not> (ucast n :: u32) < 0x10000"
      by (simp_all add: ucast_ucast_id word_less_nat_alt unat_ucast_small)
    with c assms show ?thesis
      by (simp add: WriteCompactSize_def ReadCompactSize_def c8.unser_ser c32.unser_ser)
  qed
qed

lemma unat_ucast_up:
  fixes n :: "'a::len word"
  assumes "LENGTH('a) \<le> LENGTH('b::len)"
  shows "unat (ucast n :: 'b word) = unat n"
proof (rule unat_ucast_small)
  have "unat n < 2 ^ LENGTH('a)" by simp
  also have "\<dots> \<le> 2 ^ LENGTH('b)" using assms by simp
  finally show "unat n < 2 ^ LENGTH('b)" .
qed

lemma ucast_up_ucast_down:
  fixes n :: "'a::len word"
  assumes "LENGTH('a) \<le> LENGTH('b::len)"
  shows "ucast (ucast n :: 'b word) = n"
  by (simp add: word_unat_eq_iff unat_ucast_up [OF assms] unat_ucast_small)

lemma compact_size_read:
  assumes "ReadCompactSize bs = Some (n, rest)"
  shows "n \<le> MAX_SIZE \<and> bs = WriteCompactSize n @ rest"
proof -
  from assms obtain ch rs where ch: "ser_readdata8 bs = Some (ch, rs)"
    by (auto simp: ReadCompactSize_def split: bind_splits)
  then have bs: "bs = ser_writedata8 ch @ rs" by (simp add: c8.unser_iff)
  have le: "n \<le> MAX_SIZE"
    using assms by (auto simp: ReadCompactSize_def split: bind_splits if_splits)
  consider (a) "ch < 253" | (b) "ch = 253" | (c) "ch = 254" | (d) "ch = 255"
  proof -
    have "unat ch < 2 ^ LENGTH(8)" by (rule unsigned_less)
    then have "unat ch < 253 \<or> unat ch = 253 \<or> unat ch = 254 \<or> unat ch = 255" by auto
    then show thesis using that by (auto simp: word_less_nat_alt word_unat_eq_iff)
  qed
  then have "bs = WriteCompactSize n @ rest"
  proof cases
    case a
    with assms ch have n: "n = ucast ch" and "rest = rs"
      by (auto simp: ReadCompactSize_def split: if_splits)
    moreover have "unat n < 253"
      using a n by (simp add: unat_ucast_up word_less_nat_alt)
    ultimately show ?thesis
      by (simp add: bs WriteCompactSize_def word_less_nat_alt ucast_up_ucast_down)
  next
    case b
    with assms ch obtain m where m: "ser_readdata16 rs = Some (m, rest)" "\<not> m < 253" "n = ucast m"
      by (auto simp: ReadCompactSize_def split: if_splits bind_splits)
    have "unat n = unat m" by (simp add: m(3) unat_ucast_up)
    moreover have "unat m < 2 ^ LENGTH(16)" by (rule unsigned_less)
    moreover have "(ucast n :: u16) = m" by (simp add: m(3) ucast_up_ucast_down)
    ultimately show ?thesis
      using m(1,2)
      by (simp add: bs b WriteCompactSize_def c16.unser_iff word_less_nat_alt word_le_nat_alt)
  next
    case c
    with assms ch obtain m where m: "ser_readdata32 rs = Some (m, rest)" "\<not> m < 0x10000" "n = ucast m"
      by (auto simp: ReadCompactSize_def split: if_splits bind_splits)
    have "unat n = unat m" by (simp add: m(3) unat_ucast_up)
    moreover have "unat m < 2 ^ LENGTH(32)" by (rule unsigned_less)
    moreover have "(ucast n :: u32) = m" by (simp add: m(3) ucast_up_ucast_down)
    ultimately show ?thesis
      using m(1,2)
      by (simp add: bs c WriteCompactSize_def c32.unser_iff word_less_nat_alt word_le_nat_alt)
  next
    case d
    with assms ch have "\<not> n < 0x100000000"
      by (auto simp: ReadCompactSize_def split: if_splits bind_splits)
    moreover from le have "unat n \<le> 0x02000000" by (simp add: MAX_SIZE_def word_le_nat_alt)
    ultimately have False by (simp add: word_less_nat_alt)
    then show ?thesis ..
  qed
  with le show ?thesis by simp
qed

interpretation compact: codec WriteCompactSize ReadCompactSize "\<lambda>n. n \<le> MAX_SIZE"
  by unfold_locales (simp_all add: compact_size_write compact_size_read)

section \<open>Codecs built from codecs\<close>

text \<open>The block-wise loop reads exactly what one read of the whole length reads.\<close>

lemma read_blocks_eq: "read_blocks n bs = stream_read n bs"
proof (induction n bs rule: read_blocks.induct)
  case (1 n bs)
  show ?case
  proof (cases "n = 0")
    case True
    then show ?thesis by (simp add: read_blocks.simps stream_read_def)
  next
    case False
    let ?b = "min n 5000000"
    show ?thesis
    proof (cases "?b \<le> length bs")
      case True
      with 1 [OF False, of "(take ?b bs, drop ?b bs)" "take ?b bs" "drop ?b bs"] False
      have "read_blocks n bs = do {
          (v, rs) \<leftarrow> stream_read (n - ?b) (drop ?b bs); Some (take ?b bs @ v, rs) }"
        by (simp add: read_blocks.simps [of n bs] stream_read_def)
      also have "\<dots> = stream_read n bs"
        using True by (auto simp: stream_read_def take_add [symmetric] min_def)
      finally show ?thesis .
    next
      case False
      with \<open>n \<noteq> 0\<close> show ?thesis
        by (simp add: read_blocks.simps [of n bs] stream_read_def)
    qed
  qed
qed

lemma unat_MAX_SIZE: "n \<le> 0x02000000 \<Longrightarrow> unat (of_nat n :: u64) = n"
  by (simp add: unat_of_nat)

lemma of_nat_le_MAX_SIZE: "n \<le> 0x02000000 \<Longrightarrow> (of_nat n :: u64) \<le> MAX_SIZE"
  by (simp add: word_le_nat_alt unat_MAX_SIZE MAX_SIZE_def)

abbreviation vec_ok :: "'a list \<Rightarrow> bool" where
  "vec_ok v \<equiv> length v \<le> 0x02000000"

interpretation bytes: codec Serialize_bytes Unserialize_bytes vec_ok
proof
  show "Unserialize_bytes (Serialize_bytes x @ rest) = Some (x, rest)" if "vec_ok x" for x rest
    using that
    by (simp add: Unserialize_bytes_def Serialize_bytes_def compact.unser_ser
        of_nat_le_MAX_SIZE unat_MAX_SIZE read_blocks_eq)
next
  show "vec_ok x \<and> bs = Serialize_bytes x @ rest"
    if "Unserialize_bytes bs = Some (x, rest)" for bs x rest
  proof -
    from that obtain n rs where n: "ReadCompactSize bs = Some (n, rs)"
      and x: "stream_read (unat n) rs = Some (x, rest)"
      by (auto simp: Unserialize_bytes_def read_blocks_eq split: bind_splits)
    then have "n = of_nat (length x)" and "unat n \<le> 0x02000000"
      by (auto simp: compact.unser_iff stream_read_Some MAX_SIZE_def word_le_nat_alt)
    with n x show ?thesis
      by (auto simp: compact.unser_iff stream_read_Some Serialize_bytes_def)
  qed
qed

lemmas [codec_read] = c8.unser_ser c16.unser_ser c32.unser_ser c64.unser_ser compact.unser_ser
  bytes.unser_ser

lemmas [codec_iff] = c8.unser_iff c16.unser_iff c32.unser_iff c64.unser_iff compact.unser_iff
  bytes.unser_iff

lemma codec_vector:
  assumes "codec ser unser ok"
  shows "codec (Serialize_vector ser) (Unserialize_vector unser) (\<lambda>v. vec_ok v \<and> list_all ok v)"
proof -
  have w: "list_all ok v \<Longrightarrow> read_objects unser (length v) (concat (map ser v) @ rest) = Some (v, rest)"
    for v rest
    by (induction v) (auto simp: codec.read_back [OF assms])
  have r: "read_objects unser n bs = Some (v, rest) \<Longrightarrow>
      length v = n \<and> list_all ok v \<and> bs = concat (map ser v) @ rest" for n bs v rest
  proof (induction n arbitrary: bs v)
    case 0
    then show ?case by simp
  next
    case (Suc n)
    from Suc.prems obtain x rs xs where "unser bs = Some (x, rs)"
      and "read_objects unser n rs = Some (xs, rest)" and "v = x # xs"
      by (auto split: bind_splits)
    with Suc.IH [of rs xs] show ?case
      by (auto simp: codec.unser_iff [OF assms])
  qed
  show ?thesis
  proof
    show "Unserialize_vector unser (Serialize_vector ser v @ rest) = Some (v, rest)"
      if "vec_ok v \<and> list_all ok v" for v rest
      using that
      by (simp add: Unserialize_vector_def Serialize_vector_def compact.unser_ser
          of_nat_le_MAX_SIZE unat_MAX_SIZE w)
  next
    show "(vec_ok v \<and> list_all ok v) \<and> bs = Serialize_vector ser v @ rest"
      if "Unserialize_vector unser bs = Some (v, rest)" for bs v rest
    proof -
      from that obtain n rs where n: "ReadCompactSize bs = Some (n, rs)"
        and v: "read_objects unser (unat n) rs = Some (v, rest)"
        by (auto simp: Unserialize_vector_def split: bind_splits)
      from r [OF v] have l: "length v = unat n" by simp
      have n': "of_nat (length v) = n" unfolding l by simp
      from n have "vec_ok v" and bs: "bs = WriteCompactSize n @ rs"
        by (simp_all add: compact.unser_iff word_le_nat_alt MAX_SIZE_def l)
      with r [OF v] show ?thesis
        unfolding Serialize_vector_def n' by simp
    qed
  qed
qed

section \<open>Variable-length integers read back\<close>

lemma and_7F: "and n (0x7F :: 'a::len word) = take_bit 7 n"
  by (simp add: take_bit_eq_mask mask_eq_exp_minus_1)

lemma bit_80: "bit (0x80 :: byte) i \<longleftrightarrow> i = 7"
proof -
  have "(0x80 :: byte) = 2 ^ 7" by simp
  then show ?thesis by (simp only: bit_exp_iff) auto
qed

lemma varint_digit:
  fixes n :: u64
  assumes "c = 0x80 \<or> c = 0"
  shows "ucast (take_bit 7 (or (ucast (take_bit 7 n)) c :: byte)) = take_bit 7 n"
  using assms
  by (auto intro!: bit_word_eqI simp: bit_ucast_iff bit_take_bit_iff bit_or_iff bit_80)

lemma varint_more:
  fixes n :: u64
  shows "and (or (ucast (take_bit 7 n)) 0x80) (0x80 :: byte) \<noteq> 0"
    and "and (ucast (take_bit 7 n)) (0x80 :: byte) = 0"
proof -
  have "bit (and (or (ucast (take_bit 7 n)) 0x80) (0x80 :: byte)) 7"
    by (simp add: bit_and_iff bit_or_iff bit_80)
  then show "and (or (ucast (take_bit 7 n)) 0x80) (0x80 :: byte) \<noteq> 0"
    by (metis bit_0_eq bot_apply bot_bool_def)
  show "and (ucast (take_bit 7 n)) (0x80 :: byte) = 0"
    by (rule bit_word_eqI) (auto simp only: bit_and_iff bit_ucast_iff bit_take_bit_iff bit_80 bit_0_eq)
qed

lemma varint_split: "or (push_bit 7 (drop_bit 7 n)) (take_bit 7 n) = (n :: u64)"
  by (rule bit_word_eqI) (auto simp: bit_or_iff bit_push_bit_iff bit_take_bit_iff bit_drop_bit_eq)

lemma varint_range: "\<not> drop_bit 7 (- 1) < drop_bit 7 (n :: u64)"
proof -
  have "unat n < 2 ^ 64" using unsigned_less [of n] by simp
  then have "unat n div 128 \<le> 144115188075855871" by simp
  then show ?thesis by (simp add: word_less_nat_alt unat_div drop_bit_eq_div)
qed

lemma varint_next_neq: "\<not> n \<le> (0x7F :: u64) \<Longrightarrow> drop_bit 7 n - 1 \<noteq> - 1"
  using varint_next_less [of n] by (metis word_less_nat_alt word_not_simps(2) word_order.extremum_strict)

text \<open>Reading the high digits of \<open>n\<close> leaves the accumulator at \<open>n + 1\<close>.\<close>

lemma read_high_digits:
  "n \<noteq> - 1 \<Longrightarrow> ReadVarInt_from 0 (rev (WriteVarInt_tmp True n) @ rest) = ReadVarInt_from (n + 1) rest"
proof (induction "True" n arbitrary: rest rule: WriteVarInt_tmp.induct)
  case (1 n)
  show ?case
  proof (cases "n \<le> 0x7F")
    case True
    then have "take_bit 7 n = n" by (simp add: take_bit_small word_le_nat_alt)
    with True 1 show ?thesis
      using varint_digit [of "0x80" n] varint_more(1) [of n]
      by (simp add: WriteVarInt_tmp.simps [of True n] and_7F)
  next
    case False
    let ?m = "drop_bit 7 n - 1"
    note m = varint_next_neq [OF False]
    have "ReadVarInt_from 0 (rev (WriteVarInt_tmp True n) @ rest) =
        ReadVarInt_from (?m + 1) (or (ucast (take_bit 7 n)) 0x80 # rest)"
      using 1(1) [OF False m] False by (simp add: WriteVarInt_tmp.simps [of True n] and_7F)
    also have "\<dots> = ReadVarInt_from (n + 1) rest"
      using varint_digit [of "0x80" n] varint_more(1) [of n] varint_range [of n] varint_split [of n] 1(2)
      by (simp add: and_7F)
    finally show ?thesis .
  qed
qed

lemma ReadVarInt_WriteVarInt: "ReadVarInt (WriteVarInt n @ rest) = Some (n, rest)"
proof (cases "n \<le> 0x7F")
  case True
  then have "take_bit 7 n = n" by (simp add: take_bit_small word_le_nat_alt)
  with True show ?thesis
    using varint_digit [of 0 n] varint_more(2) [of n]
    by (simp add: ReadVarInt_def WriteVarInt_def WriteVarInt_tmp.simps [of False n] and_7F)
next
  case False
  let ?m = "drop_bit 7 n - 1"
  from varint_next_neq [OF False] have "ReadVarInt (WriteVarInt n @ rest) = ReadVarInt_from (?m + 1) (ucast (take_bit 7 n) # rest)"
    using False
    by (simp add: ReadVarInt_def WriteVarInt_def WriteVarInt_tmp.simps [of False n] and_7F
        read_high_digits)
  then show ?thesis
    using varint_digit [of 0 n] varint_more(2) [of n] varint_range [of n] varint_split [of n]
    by (simp add: and_7F)
qed

lemma WriteVarInt_tmp_length: "length (WriteVarInt_tmp len n) = GetSizeOfVarInt n"
  by (induction len n rule: WriteVarInt_tmp.induct)
    (simp add: WriteVarInt_tmp.simps GetSizeOfVarInt.simps)

lemma GetSizeOfVarInt_bound: "unat n < 128 ^ Suc k \<Longrightarrow> GetSizeOfVarInt n \<le> Suc k"
proof (induction k arbitrary: n)
  case 0
  then show ?case by (simp add: GetSizeOfVarInt.simps [of n] word_le_nat_alt)
next
  case (Suc k)
  have "GetSizeOfVarInt (drop_bit 7 n - 1) \<le> Suc k" if "\<not> n \<le> 0x7F"
    using Suc.prems that
    by (intro Suc.IH) (simp add: unat_varint_next less_mult_imp_div_less mult.commute)
  then show ?case by (simp add: GetSizeOfVarInt.simps [of n])
qed

section \<open>Encodings of any length are injective\<close>

lemma ucast_inject_small:
  fixes c d :: "'b::len word"
  assumes "(ucast c :: 'a::len word) = ucast d" and "unat c < 2 ^ LENGTH('a)" and "unat d < 2 ^ LENGTH('a)"
  shows "c = d"
  using assms by (metis ucast_ucast_id)

lemma WriteCompactSize_head:
  "unat n < 253 \<Longrightarrow> (ucast (n :: u64) :: byte) \<notin> {253, 254, 255}"
  by (auto simp: word_unat_eq_iff unat_ucast_small)

lemma WriteCompactSize_cancel: "WriteCompactSize a @ x = WriteCompactSize b @ y \<longleftrightarrow> a = b \<and> x = y"
proof
  assume e: "WriteCompactSize a @ x = WriteCompactSize b @ y"
  have cs: "WriteCompactSize c = (if unat c < 253 then [ucast c]
      else if unat c < 2 ^ 16 then 253 # ser_writedata16 (ucast c)
      else if unat c < 2 ^ 32 then 254 # ser_writedata32 (ucast c)
      else 255 # ser_writedata64 c)" for c
    by (simp add: WriteCompactSize_def ser_writedata8_def word_less_nat_alt word_le_nat_alt less_Suc_eq_le)
  consider "unat a < 253" "unat b < 253" | "\<not> unat a < 253" "\<not> unat b < 253"
    | "unat a < 253 \<longleftrightarrow> \<not> unat b < 253" by blast
  then show "a = b \<and> x = y"
  proof cases
    case 1
    with e show ?thesis by (auto simp: cs intro: ucast_inject_small)
  next
    case 2
    with e show ?thesis
      by (auto simp: cs c16.prefix_free c32.prefix_free c64.prefix_free split: if_splits
          intro: ucast_inject_small)
  next
    case 3
    with e show ?thesis
      using WriteCompactSize_head [of a] WriteCompactSize_head [of b] by (auto simp: cs split: if_splits)
  qed
qed simp

lemma Serialize_bytes_inject: "Serialize_bytes x = Serialize_bytes y \<longleftrightarrow> x = y"
  by (auto simp: Serialize_bytes_def WriteCompactSize_cancel)

section \<open>Pairs and maps\<close>

definition Serialize_pair :: "('k \<Rightarrow> byte list) \<Rightarrow> ('v \<Rightarrow> byte list) \<Rightarrow> 'k \<times> 'v \<Rightarrow> byte list" where
  "Serialize_pair f g item = f (fst item) @ g (snd item)"

definition Unserialize_pair :: "'k reader \<Rightarrow> 'v reader \<Rightarrow> ('k \<times> 'v) reader" where
  "Unserialize_pair rf rg is = do {
     (k, is) \<leftarrow> rf is;
     (v, is) \<leftarrow> rg is;
     Some ((k, v), is) }"

text \<open>\<open>std::map::insert\<close> leaves an existing entry alone.\<close>

definition om_insert :: "'k::linorder \<times> 'v \<Rightarrow> ('k, 'v) omap \<Rightarrow> ('k, 'v) omap" where
  "om_insert item m = (if om_find m (fst item) = None then om_put (fst item) (snd item) m else m)"

definition Serialize_map :: "('k::linorder \<Rightarrow> byte list) \<Rightarrow> ('v \<Rightarrow> byte list) \<Rightarrow> ('k, 'v) omap \<Rightarrow> byte list" where
  "Serialize_map f g m =
     WriteCompactSize (of_nat (om_size m)) @ concat (map (Serialize_pair f g) (om_entries m))"

primrec read_map_items :: "('k::linorder \<times> 'v) reader \<Rightarrow> nat \<Rightarrow> ('k, 'v) omap \<Rightarrow> ('k, 'v) omap reader" where
  "read_map_items r 0 m is = Some (m, is)"
| "read_map_items r (Suc n) m is = do {
     (item, is) \<leftarrow> r is;
     read_map_items r n (om_insert item m) is }"

definition Unserialize_map :: "'k::linorder reader \<Rightarrow> 'v reader \<Rightarrow> ('k, 'v) omap reader" where
  "Unserialize_map rf rg is = do {
     (nSize, is) \<leftarrow> ReadCompactSize is;
     read_map_items (Unserialize_pair rf rg) (unat nSize) om_empty is }"

lemma find_fold_put:
  "distinct (map fst es) \<Longrightarrow> om_find (fold (\<lambda>(k, v). om_put k v) es m) = om_find m ++ map_of es"
proof (induction es arbitrary: m)
  case Nil
  then show ?case by simp
next
  case (Cons e es)
  obtain k v where e: "e = (k, v)" by (cases e)
  with Cons.prems have "map_of es k = None" by (simp add: map_of_eq_None_iff)
  then show ?case
    using Cons by (auto simp: e fun_eq_iff map_add_def split: option.split)
qed

lemma fold_put_entries: "fold (\<lambda>(k, v). om_put k v) (om_entries m) om_empty = m"
  by (rule om_ext) (simp add: find_fold_put, simp add: om_find_def)

lemma roundtrip_map:
  assumes f: "roundtrip f rf ok1" and g: "roundtrip g rg ok2"
  shows "roundtrip (Serialize_map f g) (Unserialize_map rf rg)
    (\<lambda>m. om_size m \<le> 0x02000000 \<and> list_all (\<lambda>(k, v). ok1 k \<and> ok2 v) (om_entries m))"
proof
  fix m :: "('a, 'b) omap" and rest
  assume ok: "om_size m \<le> 0x02000000 \<and> list_all (\<lambda>(k, v). ok1 k \<and> ok2 v) (om_entries m)"
  have "read_map_items (Unserialize_pair rf rg) (length es) m0
      (concat (map (Serialize_pair f g) es) @ rest) = Some (fold (\<lambda>(k, v). om_put k v) es m0, rest)"
    if "list_all (\<lambda>(k, v). ok1 k \<and> ok2 v) es" "distinct (map fst es)"
      "\<forall>k \<in> fst ` set es. om_find m0 k = None" for es m0
    using that
  proof (induction es arbitrary: m0)
    case Nil
    then show ?case by simp
  next
    case (Cons e es)
    obtain k v where e: "e = (k, v)" by (cases e)
    with Cons.prems have "om_insert (k, v) m0 = om_put k v m0" by (simp add: om_insert_def)
    moreover have "\<forall>k' \<in> fst ` set es. om_find (om_put k v m0) k' = None"
      using Cons.prems e by (auto simp: image_iff)
    ultimately show ?case
      using Cons.IH [of "om_put k v m0"] Cons.prems e
      by (simp add: Serialize_pair_def Unserialize_pair_def roundtrip.unser_ser [OF f]
          roundtrip.unser_ser [OF g])
  qed
  from this [of "om_entries m" om_empty] ok
  show "Unserialize_map rf rg (Serialize_map f g m @ rest) = Some (m, rest)"
    by (simp add: Serialize_map_def Unserialize_map_def compact.unser_ser of_nat_le_MAX_SIZE
        unat_MAX_SIZE fold_put_entries om_size_def)
qed

end
