(* ===== verification/Primitives.thy ===== *)
theory Primitives
  imports Serialization
begin

text \<open>
  The data structures the consensus code is written over: outpoints, transactions and their
  wire format (src/src/primitives/transaction.h), coins (src/src/coins.h), the script templates
  the payload checks test for (src/src/script/script.cpp), network addresses
  (src/src/netaddress.h/.cpp) and the consensus parameters (src/src/consensus/params.h).

  A C++ \<open>int\<close> or \<open>int64_t\<close> is a HOL \<open>int\<close>: signed overflow is undefined in the
  source, so no wrap-around is modelled, and the byte formats carry the ranges \<open>int32_ok\<close>
  and \<open>int64_ok\<close>.  Unsigned integers are words and do wrap.  The 16-byte array of an
  address is a 128-bit word whose bytes, in memory order, are \<open>ip_bytes\<close>.
\<close>

section \<open>Signed integers on the wire\<close>

abbreviation int32_ok :: "int \<Rightarrow> bool" where
  "int32_ok i \<equiv> - (2 ^ 31) \<le> i \<and> i < 2 ^ 31"

abbreviation int64_ok :: "int \<Rightarrow> bool" where
  "int64_ok i \<equiv> - (2 ^ 63) \<le> i \<and> i < 2 ^ 63"

definition Serialize_int32 :: "int \<Rightarrow> byte list" where
  "Serialize_int32 a = ser_writedata32 (word_of_int a)"

definition Unserialize_int32 :: "int reader" where
  "Unserialize_int32 is = do { (a, is) \<leftarrow> ser_readdata32 is; Some (sint a, is) }"

definition Serialize_int64 :: "int \<Rightarrow> byte list" where
  "Serialize_int64 a = ser_writedata64 (word_of_int a)"

definition Unserialize_int64 :: "int reader" where
  "Unserialize_int64 is = do { (a, is) \<leftarrow> ser_readdata64 is; Some (sint a, is) }"

lemma sint_word_of_int_id:
  assumes "- (2 ^ (LENGTH('a::len) - 1)) \<le> i" and "i < 2 ^ (LENGTH('a) - 1)"
  shows "sint (word_of_int i :: 'a word) = i"
  using assms by (simp add: signed_of_int signed_take_bit_int_eq_self)

lemma sint_bounds:
  fixes w :: "'a::len word"
  shows "- (2 ^ (LENGTH('a) - 1)) \<le> sint w" and "sint w < 2 ^ (LENGTH('a) - 1)"
  by (rule sint_ge, rule sint_lt)

interpretation int32: codec Serialize_int32 Unserialize_int32 int32_ok
proof
  show "Unserialize_int32 (Serialize_int32 x @ rest) = Some (x, rest)" if "int32_ok x" for x rest
    using that sint_word_of_int_id [where 'a = 32, of x]
    by (simp add: Serialize_int32_def Unserialize_int32_def c32.unser_ser)
  show "int32_ok x \<and> bs = Serialize_int32 x @ rest"
    if "Unserialize_int32 bs = Some (x, rest)" for bs x rest
  proof -
    from that obtain w where w: "ser_readdata32 bs = Some (w, rest)" "x = sint w"
      by (auto simp: Unserialize_int32_def split: bind_splits)
    then show ?thesis
      using sint_bounds [of w] by (simp add: Serialize_int32_def c32.unser_iff)
  qed
qed

interpretation int64: codec Serialize_int64 Unserialize_int64 int64_ok
proof
  show "Unserialize_int64 (Serialize_int64 x @ rest) = Some (x, rest)" if "int64_ok x" for x rest
    using that sint_word_of_int_id [where 'a = 64, of x]
    by (simp add: Serialize_int64_def Unserialize_int64_def c64.unser_ser)
  show "int64_ok x \<and> bs = Serialize_int64 x @ rest"
    if "Unserialize_int64 bs = Some (x, rest)" for bs x rest
  proof -
    from that obtain w where w: "ser_readdata64 bs = Some (w, rest)" "x = sint w"
      by (auto simp: Unserialize_int64_def split: bind_splits)
    then show ?thesis
      using sint_bounds [of w] by (simp add: Serialize_int64_def c64.unser_iff)
  qed
qed

section \<open>Opaque blobs\<close>

text \<open>\<open>uint160\<close> is the type behind \<open>CKeyID\<close>; both blobs serialise as their raw bytes.\<close>

type_synonym CKeyID = "160 word"

definition Serialize_uint160 :: "CKeyID \<Rightarrow> byte list" where
  "Serialize_uint160 = word_bytes 20"

definition Unserialize_uint160 :: "CKeyID reader" where
  "Unserialize_uint160 is = do { (d, is) \<leftarrow> stream_read 20 is; Some (bytes_word d, is) }"

definition Serialize_uint256 :: "uint256 \<Rightarrow> byte list" where
  "Serialize_uint256 h = blob_data h"

definition Unserialize_uint256 :: "uint256 reader" where
  "Unserialize_uint256 is = do { (d, is) \<leftarrow> stream_read 32 is; Some (UINT256 (bytes_word d), is) }"

interpretation u160: codec Serialize_uint160 Unserialize_uint160 "\<lambda>_. True"
  by (unfold Serialize_uint160_def Unserialize_uint160_def [abs_def]) (rule codec_word, simp)

interpretation u256: codec Serialize_uint256 Unserialize_uint256 "\<lambda>_. True"
proof
  show "Unserialize_uint256 (Serialize_uint256 x @ rest) = Some (x, rest)" for x rest
    by (cases x) (simp add: Serialize_uint256_def Unserialize_uint256_def blob_data_def
        bytes_word_word_bytes)
  show "True \<and> bs = Serialize_uint256 x @ rest"
    if "Unserialize_uint256 bs = Some (x, rest)" for bs x rest
    using that
    by (auto simp: Serialize_uint256_def Unserialize_uint256_def blob_data_def stream_read_Some
        word_bytes_bytes_word split: bind_splits)
qed

section \<open>Transactions\<close>

type_synonym CAmount = int
type_synonym CScript = "byte list"

datatype COutPoint = OutPoint (op_hash: uint256) (op_n: u32)

definition COutPoint_IsNull :: "COutPoint \<Rightarrow> bool" where
  "COutPoint_IsNull a \<longleftrightarrow> op_hash a = uint256_null \<and> op_n a = - 1"

text \<open>\<open>operator<\<close>: by hash (as \<open>memcmp\<close> orders it), then by index.\<close>

instantiation COutPoint :: linorder
begin

definition less_COutPoint :: "COutPoint \<Rightarrow> COutPoint \<Rightarrow> bool" where
  "less_COutPoint a b \<longleftrightarrow> op_hash a < op_hash b \<or> (op_hash a = op_hash b \<and> op_n a < op_n b)"

definition less_eq_COutPoint :: "COutPoint \<Rightarrow> COutPoint \<Rightarrow> bool" where
  "less_eq_COutPoint a b \<longleftrightarrow> a = b \<or> a < b"

instance
proof
  fix a b :: COutPoint
  have eq: "a = b \<longleftrightarrow> op_hash a = op_hash b \<and> op_n a = op_n b" by (auto intro: COutPoint.expand)
  show "a \<le> b \<or> b \<le> a"
    unfolding less_eq_COutPoint_def less_COutPoint_def eq by auto
qed (auto simp: less_COutPoint_def less_eq_COutPoint_def)

end

definition Serialize_COutPoint :: "COutPoint \<Rightarrow> byte list" where
  "Serialize_COutPoint a = Serialize_uint256 (op_hash a) @ ser_writedata32 (op_n a)"

definition Unserialize_COutPoint :: "COutPoint reader" where
  "Unserialize_COutPoint is = do {
     (hash, is) \<leftarrow> Unserialize_uint256 is;
     (n, is) \<leftarrow> ser_readdata32 is;
     Some (OutPoint hash n, is) }"

record CTxIn =
  prevout :: COutPoint
  scriptSig :: CScript
  nSequence :: u32
  scriptWitness :: "byte list list"

record CTxOut =
  nValue :: CAmount
  scriptPubKey :: CScript

definition CTxOut_IsNull :: "CTxOut \<Rightarrow> bool" where
  "CTxOut_IsNull out \<longleftrightarrow> nValue out = - 1"

text \<open>The witness of an input is not part of its own encoding.\<close>

definition Serialize_CTxIn :: "CTxIn \<Rightarrow> byte list" where
  "Serialize_CTxIn a = Serialize_COutPoint (prevout a) @ Serialize_bytes (scriptSig a) @
     ser_writedata32 (nSequence a)"

definition Unserialize_CTxIn :: "CTxIn reader" where
  "Unserialize_CTxIn is = do {
     (po, is) \<leftarrow> Unserialize_COutPoint is;
     (sc, is) \<leftarrow> Unserialize_bytes is;
     (sq, is) \<leftarrow> ser_readdata32 is;
     Some (\<lparr>prevout = po, scriptSig = sc, nSequence = sq, scriptWitness = []\<rparr>, is) }"

definition Serialize_CTxOut :: "CTxOut \<Rightarrow> byte list" where
  "Serialize_CTxOut a = Serialize_int64 (nValue a) @ Serialize_bytes (scriptPubKey a)"

definition Unserialize_CTxOut :: "CTxOut reader" where
  "Unserialize_CTxOut is = do {
     (v, is) \<leftarrow> Unserialize_int64 is;
     (sc, is) \<leftarrow> Unserialize_bytes is;
     Some (\<lparr>nValue = v, scriptPubKey = sc\<rparr>, is) }"

record CMutableTransaction =
  vin :: "CTxIn list"
  vout :: "CTxOut list"
  nVersion :: int
  nType :: u16
  nLockTime :: u32
  vExtraPayload :: "byte list"

text \<open>A \<open>CTransaction\<close> adds the hash its constructors compute once and cache.\<close>

record CTransaction = CMutableTransaction +
  tx_hash :: uint256

definition IsCoinBase :: "'a CMutableTransaction_scheme \<Rightarrow> bool" where
  "IsCoinBase tx \<longleftrightarrow> length (vin tx) = 1 \<and> COutPoint_IsNull (prevout (vin tx ! 0))"

definition HasWitness :: "'a CMutableTransaction_scheme \<Rightarrow> bool" where
  "HasWitness tx \<longleftrightarrow> list_ex (\<lambda>i. scriptWitness i \<noteq> []) (vin tx)"

definition SerializeTransaction :: "bool \<Rightarrow> 'a CMutableTransaction_scheme \<Rightarrow> byte list" where
  "SerializeTransaction fAllowWitness tx =
     (let flags = (if fAllowWitness \<and> HasWitness tx then 1 else 0 :: byte) in
      Serialize_int32 (nVersion tx) @
      (if nVersion tx \<ge> 3 then ser_writedata16 (nType tx) else []) @
      (if flags \<noteq> 0 then Serialize_vector Serialize_CTxIn [] @ ser_writedata8 flags else []) @
      Serialize_vector Serialize_CTxIn (vin tx) @
      Serialize_vector Serialize_CTxOut (vout tx) @
      (if and flags 1 \<noteq> 0
       then concat (map (Serialize_vector Serialize_bytes \<circ> scriptWitness) (vin tx)) else []) @
      ser_writedata32 (nLockTime tx) @
      (if nVersion tx \<ge> 3 \<and> nType tx \<noteq> 0 then Serialize_bytes (vExtraPayload tx) else []))"

fun Unserialize_witnesses :: "CTxIn list \<Rightarrow> CTxIn list reader" where
  "Unserialize_witnesses [] is = Some ([], is)"
| "Unserialize_witnesses (i # ins) is = do {
     (stack, is) \<leftarrow> Unserialize_vector Unserialize_bytes is;
     (ins', is) \<leftarrow> Unserialize_witnesses ins is;
     Some (i\<lparr>scriptWitness := stack\<rparr> # ins', is) }"

definition UnserializeTransaction :: "bool \<Rightarrow> CMutableTransaction reader" where
  "UnserializeTransaction fAllowWitness is = do {
     (ver, is) \<leftarrow> Unserialize_int32 is;
     (typ, is) \<leftarrow> (if ver \<ge> 3 then ser_readdata16 is else Some (0, is));
     (ins, is) \<leftarrow> Unserialize_vector Unserialize_CTxIn is;
     (flags, ins, outs, is) \<leftarrow>
       (if ins = [] \<and> fAllowWitness then do {
          (flags, is) \<leftarrow> ser_readdata8 is;
          if flags \<noteq> 0 then do {
            (ins, is) \<leftarrow> Unserialize_vector Unserialize_CTxIn is;
            (outs, is) \<leftarrow> Unserialize_vector Unserialize_CTxOut is;
            Some (flags, ins, outs, is) }
          else Some (flags, ins, [], is) }
        else do {
          (outs, is) \<leftarrow> Unserialize_vector Unserialize_CTxOut is;
          Some (0, ins, outs, is) });
     (flags, ins, is) \<leftarrow>
       (if and flags 1 \<noteq> 0 \<and> fAllowWitness then do {
          (ins, is) \<leftarrow> Unserialize_witnesses ins is;
          Some (xor flags 1, ins, is) }
        else Some (flags, ins, is));
     if flags \<noteq> 0 then None
     else do {
       (lt, is) \<leftarrow> ser_readdata32 is;
       (ep, is) \<leftarrow> (if ver \<ge> 3 \<and> typ \<noteq> 0 then Unserialize_bytes is else Some ([], is));
       Some (\<lparr>vin = ins, vout = outs, nVersion = ver, nType = typ, nLockTime = lt,
              vExtraPayload = ep\<rparr>, is) } }"

text \<open>
  \<open>ComputeHash\<close>: the double SHA-256 of the encoding without witness.  The hash function is an
  argument throughout the development.
\<close>

definition ComputeHash :: "(byte list \<Rightarrow> uint256) \<Rightarrow> 'a CMutableTransaction_scheme \<Rightarrow> uint256" where
  "ComputeHash Hash tx = Hash (SerializeTransaction False tx)"

definition MakeTransaction :: "(byte list \<Rightarrow> uint256) \<Rightarrow> CMutableTransaction \<Rightarrow> CTransaction" where
  "MakeTransaction Hash tx = CMutableTransaction.extend tx \<lparr>tx_hash = ComputeHash Hash tx\<rparr>"

definition GetWitnessHash :: "(byte list \<Rightarrow> uint256) \<Rightarrow> CTransaction \<Rightarrow> uint256" where
  "GetWitnessHash Hash tx =
     (if \<not> HasWitness tx then tx_hash tx else Hash (SerializeTransaction True tx))"

subsection \<open>The wire format is a codec\<close>

lemmas [codec_read] = int32.unser_ser int64.unser_ser u160.unser_ser u256.unser_ser

lemmas [codec_iff] = int32.unser_iff int64.unser_iff u160.unser_iff u256.unser_iff

interpretation outp: codec Serialize_COutPoint Unserialize_COutPoint "\<lambda>_. True"
  by unfold_locales
    (simp_all add: Serialize_COutPoint_def Unserialize_COutPoint_def codec_read,
     auto simp: codec_iff split: bind_splits)

interpretation txin: codec Serialize_CTxIn Unserialize_CTxIn
  "\<lambda>i. vec_ok (scriptSig i) \<and> scriptWitness i = []"
  by unfold_locales
    (simp_all add: Serialize_CTxIn_def Unserialize_CTxIn_def codec_read outp.unser_ser,
     auto simp: codec_iff outp.unser_iff split: bind_splits)

interpretation txout: codec Serialize_CTxOut Unserialize_CTxOut
  "\<lambda>out. int64_ok (nValue out) \<and> vec_ok (scriptPubKey out)"
  by unfold_locales
    (simp_all add: Serialize_CTxOut_def Unserialize_CTxOut_def codec_read,
     auto simp: codec_iff split: bind_splits)

lemmas [codec_read] = outp.unser_ser txin.unser_ser txout.unser_ser

lemmas [codec_iff] = outp.unser_iff txin.unser_iff txout.unser_iff

lemmas vec_txin = codec_vector [OF txin.codec_axioms]
lemmas vec_txout = codec_vector [OF txout.codec_axioms]
lemmas vec_stack = codec_vector [OF bytes.codec_axioms]

definition tx_ok :: "bool \<Rightarrow> CMutableTransaction \<Rightarrow> bool" where
  "tx_ok fAllowWitness tx \<longleftrightarrow>
     int32_ok (nVersion tx) \<and> (nVersion tx < 3 \<longrightarrow> nType tx = 0) \<and>
     (nType tx = 0 \<longrightarrow> vExtraPayload tx = []) \<and> vec_ok (vExtraPayload tx) \<and>
     vec_ok (vin tx) \<and> list_all (\<lambda>i. vec_ok (scriptSig i)) (vin tx) \<and>
     vec_ok (vout tx) \<and> list_all (\<lambda>out. int64_ok (nValue out) \<and> vec_ok (scriptPubKey out)) (vout tx) \<and>
     (if fAllowWitness
      then (vin tx = [] \<longrightarrow> vout tx = []) \<and>
        list_all (\<lambda>i. vec_ok (scriptWitness i) \<and> list_all vec_ok (scriptWitness i)) (vin tx)
      else \<not> HasWitness tx)"

abbreviation no_witness :: "CTxIn list \<Rightarrow> CTxIn list" where
  "no_witness \<equiv> map (\<lambda>i. i\<lparr>scriptWitness := []\<rparr>)"

lemma Serialize_CTxIn_no_witness: "Serialize_CTxIn (i\<lparr>scriptWitness := w\<rparr>) = Serialize_CTxIn i"
  by (simp add: Serialize_CTxIn_def)

lemma read_vin:
  assumes "vec_ok ins" and "list_all (\<lambda>i. vec_ok (scriptSig i)) ins"
  shows "Unserialize_vector Unserialize_CTxIn (Serialize_vector Serialize_CTxIn ins @ rest) =
    Some (no_witness ins, rest)"
proof -
  have "Serialize_vector Serialize_CTxIn ins = Serialize_vector Serialize_CTxIn (no_witness ins)"
    by (simp add: Serialize_vector_def Serialize_CTxIn_no_witness comp_def)
  then show ?thesis
    using assms by (simp add: codec.read_back [OF vec_txin] list_all_iff)
qed

lemma read_witnesses:
  "list_all (\<lambda>i. vec_ok (scriptWitness i) \<and> list_all vec_ok (scriptWitness i)) ins \<Longrightarrow>
   Unserialize_witnesses (no_witness ins)
     (concat (map (Serialize_vector Serialize_bytes \<circ> scriptWitness) ins) @ rest) = Some (ins, rest)"
  by (induction ins) (simp_all add: codec.read_back [OF vec_stack])

lemma no_witness_id: "\<not> HasWitness tx \<Longrightarrow> no_witness (vin tx) = vin tx"
  by (simp add: HasWitness_def list_ex_iff map_idI)

lemma read_empty_vin:
  "Unserialize_vector Unserialize_CTxIn (Serialize_vector Serialize_CTxIn [] @ rest) = Some ([], rest)"
  using read_vin [of "[]"] by simp

lemma Serialize_vector_Nil: "Serialize_vector f [] = ser_writedata8 0"
  by (simp add: Serialize_vector_def WriteCompactSize_def)

lemma transaction_roundtrip:
  assumes "tx_ok fAllowWitness tx"
  shows "UnserializeTransaction fAllowWitness (SerializeTransaction fAllowWitness tx @ rest) = Some (tx, rest)"
proof -
  have ok: "int32_ok (nVersion tx)" "nVersion tx < 3 \<longrightarrow> nType tx = 0"
    "nType tx = 0 \<longrightarrow> vExtraPayload tx = []" "vec_ok (vExtraPayload tx)"
    "vec_ok (vin tx)" "list_all (\<lambda>i. vec_ok (scriptSig i)) (vin tx)"
    "vec_ok (vout tx) \<and> list_all (\<lambda>out. int64_ok (nValue out) \<and> vec_ok (scriptPubKey out)) (vout tx)"
    using assms by (simp_all add: tx_ok_def)
  note rd = int32.unser_ser [OF ok(1)] c16.unser_ser [OF TrueI] c8.unser_ser [OF TrueI]
    c32.unser_ser [OF TrueI] bytes.unser_ser [OF ok(4)] read_vin [OF ok(5,6)]
    codec.read_back [OF vec_txout ok(7)] read_empty_vin
  consider (wit) "fAllowWitness" "HasWitness tx" | (empty) "fAllowWitness" "vin tx = []"
    | (plain) "\<not> HasWitness tx" "fAllowWitness \<longrightarrow> vin tx \<noteq> []"
    using assms by (cases fAllowWitness) (auto simp: tx_ok_def)
  then show ?thesis
  proof cases
    case wit
    then have "list_all (\<lambda>i. vec_ok (scriptWitness i) \<and> list_all vec_ok (scriptWitness i)) (vin tx)"
      using assms by (simp add: tx_ok_def)
    with wit ok(2,3) show ?thesis
      by (auto simp: UnserializeTransaction_def SerializeTransaction_def rd read_witnesses)
  next
    case empty
    then have "vout tx = []" using assms by (simp add: tx_ok_def)
    with empty ok(2,3) show ?thesis
      by (auto simp: UnserializeTransaction_def SerializeTransaction_def rd Serialize_vector_Nil
          HasWitness_def read_empty_vin [unfolded Serialize_vector_Nil])
  next
    case plain
    with ok(2,3) show ?thesis
      by (auto simp: UnserializeTransaction_def SerializeTransaction_def rd no_witness_id)
  qed
qed

section \<open>Coins and script templates\<close>

record Coin =
  coin_out :: CTxOut
  coin_fCoinBase :: bool
  coin_nHeight :: u32

definition Coin_IsSpent :: "Coin \<Rightarrow> bool" where
  "Coin_IsSpent c \<longleftrightarrow> CTxOut_IsNull (coin_out c)"

definition Coin_Clear :: Coin where
  "Coin_Clear = \<lparr>coin_out = \<lparr>nValue = - 1, scriptPubKey = []\<rparr>, coin_fCoinBase = False, coin_nHeight = 0\<rparr>"

definition OP_DUP :: byte where "OP_DUP = 0x76"
definition OP_EQUAL :: byte where "OP_EQUAL = 0x87"
definition OP_EQUALVERIFY :: byte where "OP_EQUALVERIFY = 0x88"
definition OP_HASH160 :: byte where "OP_HASH160 = 0xa9"
definition OP_CHECKSIG :: byte where "OP_CHECKSIG = 0xac"

definition IsPayToPublicKeyHash :: "CScript \<Rightarrow> bool" where
  "IsPayToPublicKeyHash sc \<longleftrightarrow> length sc = 25 \<and> sc ! 0 = OP_DUP \<and> sc ! 1 = OP_HASH160 \<and>
     sc ! 2 = 0x14 \<and> sc ! 23 = OP_EQUALVERIFY \<and> sc ! 24 = OP_CHECKSIG"

definition IsPayToScriptHash :: "CScript \<Rightarrow> bool" where
  "IsPayToScriptHash sc \<longleftrightarrow> length sc = 23 \<and> sc ! 0 = OP_HASH160 \<and> sc ! 1 = 0x14 \<and>
     sc ! 22 = OP_EQUAL"

section \<open>Rejections\<close>

text \<open>What a failed check puts into the \<open>CValidationState\<close>: the ban score, the code and the reason.\<close>

datatype reject_code = REJECT_INVALID | REJECT_DUPLICATE | REJECT_CONFLICT
datatype reject = DoS int reject_code string

section \<open>Consensus parameters\<close>

text \<open>The fields of \<open>Consensus::Params\<close> that the modelled code reads.\<close>

record Params =
  powLimit :: uint256
  kawpowLimit :: uint256
  fPowAllowMinDifficultyBlocks :: bool
  fPowNoRetargeting :: bool
  nPowTargetSpacing :: int
  nPowTargetTimespan :: int
  nKawPowActivationTime :: u32
  nSubsidyHalvingInterval :: int
  nMasternodeCollateral :: CAmount
  nMasternodeCollateralTier2 :: CAmount
  nMasternodeCollateralTier3 :: CAmount
  nTieredMNActivationHeight :: int
  nMasternodeCollateralConfirmations :: int
  nMasternodeActivationHeight :: int
  nMasternodeRewardPercent :: int
  nPoSePenaltyIncrement :: int
  nPoSeBanThreshold :: int
  nPoSeRevivalHeight :: int
  nProUpServCooldown :: int
  nProUpRegCooldown :: int
  nMNv2MigrationHeight :: int

definition DifficultyAdjustmentInterval :: "Params \<Rightarrow> int" where
  "DifficultyAdjustmentInterval p = nPowTargetTimespan p sdiv nPowTargetSpacing p"

end
