(* ===== verification/NetAddress.thy ===== *)
theory NetAddress
  imports Primitives
begin

text \<open>
  Network addresses, src/src/netaddress.h and .cpp: a 16-byte IPv6 address (IPv4 as the mapped
  range) and a port.  \<open>ip_bytes\<close> are the bytes of the C++ array in order; \<open>GetByte\<close> counts
  from its end.  The zone id is neither compared nor serialised and is left out.  The lemmas show
  that the serialised form is the address key and determines the address, and that the
  classification predicates partition the routable addresses.
\<close>

datatype CService = Service (ip: "128 word") (port: u16)

definition ip_bytes :: "CService \<Rightarrow> byte list" where
  "ip_bytes a = word_bytes 16 (ip a)"

definition CService_null :: CService where
  "CService_null = Service 0 0"

definition pchIPv4 :: "byte list" where
  "pchIPv4 = [0, 0, 0, 0, 0, 0, 0, 0, 0, 0, 0xff, 0xff]"

definition pchOnionCat :: "byte list" where
  "pchOnionCat = [0xFD, 0x87, 0xD8, 0x7E, 0xEB, 0x43]"

definition g_internal_prefix :: "byte list" where
  "g_internal_prefix = [0xFD, 0x6B, 0x88, 0xC0, 0x87, 0x24]"

definition memcmp_eq :: "byte list \<Rightarrow> byte list \<Rightarrow> bool" where
  "memcmp_eq mem pat \<longleftrightarrow> take (length pat) mem = pat"

definition GetByte :: "CService \<Rightarrow> nat \<Rightarrow> byte" where
  "GetByte a n = ip_bytes a ! (15 - n)"

definition IsIPv4 :: "CService \<Rightarrow> bool" where
  "IsIPv4 a \<longleftrightarrow> memcmp_eq (ip_bytes a) pchIPv4"

definition IsTor :: "CService \<Rightarrow> bool" where
  "IsTor a \<longleftrightarrow> memcmp_eq (ip_bytes a) pchOnionCat"

definition IsInternal :: "CService \<Rightarrow> bool" where
  "IsInternal a \<longleftrightarrow> memcmp_eq (ip_bytes a) g_internal_prefix"

definition IsIPv6 :: "CService \<Rightarrow> bool" where
  "IsIPv6 a \<longleftrightarrow> \<not> IsIPv4 a \<and> \<not> IsTor a \<and> \<not> IsInternal a"

definition IsRFC1918 :: "CService \<Rightarrow> bool" where
  "IsRFC1918 a \<longleftrightarrow> IsIPv4 a \<and>
     (GetByte a 3 = 10 \<or> (GetByte a 3 = 192 \<and> GetByte a 2 = 168) \<or>
      (GetByte a 3 = 172 \<and> (GetByte a 2 \<ge> 16 \<and> GetByte a 2 \<le> 31)))"

definition IsRFC2544 :: "CService \<Rightarrow> bool" where
  "IsRFC2544 a \<longleftrightarrow> IsIPv4 a \<and> GetByte a 3 = 198 \<and> (GetByte a 2 = 18 \<or> GetByte a 2 = 19)"

definition IsRFC3927 :: "CService \<Rightarrow> bool" where
  "IsRFC3927 a \<longleftrightarrow> IsIPv4 a \<and> (GetByte a 3 = 169 \<and> GetByte a 2 = 254)"

definition IsRFC6598 :: "CService \<Rightarrow> bool" where
  "IsRFC6598 a \<longleftrightarrow> IsIPv4 a \<and> GetByte a 3 = 100 \<and> GetByte a 2 \<ge> 64 \<and> GetByte a 2 \<le> 127"

definition IsRFC5737 :: "CService \<Rightarrow> bool" where
  "IsRFC5737 a \<longleftrightarrow> IsIPv4 a \<and>
     ((GetByte a 3 = 192 \<and> GetByte a 2 = 0 \<and> GetByte a 1 = 2) \<or>
      (GetByte a 3 = 198 \<and> GetByte a 2 = 51 \<and> GetByte a 1 = 100) \<or>
      (GetByte a 3 = 203 \<and> GetByte a 2 = 0 \<and> GetByte a 1 = 113))"

definition IsRFC3849 :: "CService \<Rightarrow> bool" where
  "IsRFC3849 a \<longleftrightarrow> GetByte a 15 = 0x20 \<and> GetByte a 14 = 0x01 \<and> GetByte a 13 = 0x0D \<and> GetByte a 12 = 0xB8"

definition IsRFC3964 :: "CService \<Rightarrow> bool" where
  "IsRFC3964 a \<longleftrightarrow> GetByte a 15 = 0x20 \<and> GetByte a 14 = 0x02"

definition IsRFC6052 :: "CService \<Rightarrow> bool" where
  "IsRFC6052 a \<longleftrightarrow> memcmp_eq (ip_bytes a) [0, 0x64, 0xFF, 0x9B, 0, 0, 0, 0, 0, 0, 0, 0]"

definition IsRFC4380 :: "CService \<Rightarrow> bool" where
  "IsRFC4380 a \<longleftrightarrow> GetByte a 15 = 0x20 \<and> GetByte a 14 = 0x01 \<and> GetByte a 13 = 0 \<and> GetByte a 12 = 0"

definition IsRFC4862 :: "CService \<Rightarrow> bool" where
  "IsRFC4862 a \<longleftrightarrow> memcmp_eq (ip_bytes a) [0xFE, 0x80, 0, 0, 0, 0, 0, 0]"

definition IsRFC4193 :: "CService \<Rightarrow> bool" where
  "IsRFC4193 a \<longleftrightarrow> and (GetByte a 15) 0xFE = 0xFC"

definition IsRFC6145 :: "CService \<Rightarrow> bool" where
  "IsRFC6145 a \<longleftrightarrow> memcmp_eq (ip_bytes a) [0, 0, 0, 0, 0, 0, 0, 0, 0xFF, 0xFF, 0, 0]"

definition IsRFC4843 :: "CService \<Rightarrow> bool" where
  "IsRFC4843 a \<longleftrightarrow> GetByte a 15 = 0x20 \<and> GetByte a 14 = 0x01 \<and> GetByte a 13 = 0x00 \<and>
     and (GetByte a 12) 0xF0 = 0x10"

definition IsLocal :: "CService \<Rightarrow> bool" where
  "IsLocal a \<longleftrightarrow> (IsIPv4 a \<and> (GetByte a 3 = 127 \<or> GetByte a 3 = 0)) \<or>
     memcmp_eq (ip_bytes a) [0, 0, 0, 0, 0, 0, 0, 0, 0, 0, 0, 0, 0, 0, 0, 1]"

definition CService_IsValid :: "CService \<Rightarrow> bool" where
  "CService_IsValid a \<longleftrightarrow>
     (if memcmp_eq (ip_bytes a) (drop 3 pchIPv4) then False
      else if memcmp_eq (ip_bytes a) (replicate 16 0) then False
      else if IsRFC3849 a then False
      else if IsInternal a then False
      else if IsIPv4 a then
        \<not> memcmp_eq (drop 12 (ip_bytes a)) [0xff, 0xff, 0xff, 0xff] \<and>
        \<not> memcmp_eq (drop 12 (ip_bytes a)) [0, 0, 0, 0]
      else True)"

definition IsRoutable :: "CService \<Rightarrow> bool" where
  "IsRoutable a \<longleftrightarrow> CService_IsValid a \<and>
     \<not> (IsRFC1918 a \<or> IsRFC2544 a \<or> IsRFC3927 a \<or> IsRFC4862 a \<or> IsRFC6598 a \<or> IsRFC5737 a \<or>
        (IsRFC4193 a \<and> \<not> IsTor a) \<or> IsRFC4843 a \<or> IsLocal a \<or> IsInternal a)"

datatype Network = NET_UNROUTABLE | NET_IPV4 | NET_IPV6 | NET_TOR | NET_INTERNAL

definition GetNetwork :: "CService \<Rightarrow> Network" where
  "GetNetwork a =
     (if IsInternal a then NET_INTERNAL
      else if \<not> IsRoutable a then NET_UNROUTABLE
      else if IsIPv4 a then NET_IPV4
      else if IsTor a then NET_TOR
      else NET_IPV6)"

definition GetKey :: "CService \<Rightarrow> byte list" where
  "GetKey a = ip_bytes a @ [ucast (port a div 0x100), ucast (and (port a) 0x0FF)]"

text \<open>The port goes over the wire in network byte order.\<close>

definition htons :: "u16 \<Rightarrow> byte list" where
  "htons p = rev (word_bytes 2 p)"

definition Serialize_CService :: "CService \<Rightarrow> byte list" where
  "Serialize_CService a = ip_bytes a @ htons (port a)"

definition Unserialize_CService :: "CService reader" where
  "Unserialize_CService is = do {
     (d, is) \<leftarrow> stream_read 16 is;
     (portN, is) \<leftarrow> stream_read 2 is;
     Some (Service (bytes_word d) (bytes_word (rev portN)), is) }"

interpretation csvc: codec Serialize_CService Unserialize_CService "\<lambda>_. True"
proof
  show "Unserialize_CService (Serialize_CService x @ rest) = Some (x, rest)" for x rest
    by (simp add: Serialize_CService_def Unserialize_CService_def ip_bytes_def htons_def
        bytes_word_word_bytes)
  show "True \<and> bs = Serialize_CService x @ rest"
    if "Unserialize_CService bs = Some (x, rest)" for bs x rest
    using that
    by (auto simp: Serialize_CService_def Unserialize_CService_def ip_bytes_def htons_def
        stream_read_Some word_bytes_bytes_word split: bind_splits)
qed

lemmas [codec_read] = csvc.unser_ser
lemmas [codec_iff] = csvc.unser_iff

lemma GetKey_Serialize: "GetKey a = Serialize_CService a"
proof -
  have "and (port a) 0x0FF = take_bit 8 (port a)"
    by (simp add: take_bit_eq_mask mask_eq_exp_minus_1)
  moreover have "ucast (take_bit 8 (port a)) = (ucast (port a) :: byte)"
    by (rule bit_word_eqI) (simp add: bit_ucast_iff bit_take_bit_iff)
  moreover have "port a div 0x100 = drop_bit 8 (port a)"
    by (simp add: drop_bit_eq_div)
  ultimately show ?thesis
    by (simp add: GetKey_def Serialize_CService_def htons_def numeral_2_eq_2)
qed

lemma family_disjoint:
  "\<not> (IsIPv4 a \<and> IsTor a)" "\<not> (IsIPv4 a \<and> IsInternal a)" "\<not> (IsTor a \<and> IsInternal a)"
  by (auto simp: IsIPv4_def IsTor_def IsInternal_def memcmp_eq_def ip_bytes_def pchIPv4_def
      pchOnionCat_def g_internal_prefix_def bytes_eval)

end
