(* ===== verification/MnList.thy ===== *)
theory MnList
  imports NetAddress "HOL-Library.Product_Lexorder"
begin

text \<open>
  The deterministic masternode list, \<open>CDeterministicMNState\<close>, \<open>CDeterministicMN\<close> and
  \<open>CDeterministicMNList\<close> of src/src/evo/deterministicmns.h and .cpp.

  A list holds the masternodes by registration hash (\<open>mnMap\<close>) and an index from the hash of
  every unique property (collateral, service address, owner key, voting key, operator key) to
  the masternode that owns it (\<open>mnUniquePropertyMap\<close>).  \<open>mnlist_ok\<close> is the invariant that
  the index is exact; the lemmas show that every operation of the list keeps it and that the
  index lookups return what a search through the list would.  \<open>Hash\<close> is the double SHA-256 of
  \<open>CHashWriter::GetHash\<close>; what is asked of it is that it does not collide on the property
  preimages in play, a finite set.

  The shared pointers to constant masternodes are the masternodes themselves.
\<close>

section \<open>Activation and tiers\<close>

definition IsMasternodeActivationHeight :: "Params \<Rightarrow> int \<Rightarrow> bool" where
  "IsMasternodeActivationHeight p h \<longleftrightarrow> h \<ge> nMasternodeActivationHeight p"

text \<open>The argument is \<open>GetParams().MineBlocksOnDemand()\<close>, true on regtest.\<close>

definition GetMasternodePaymentGracePeriod :: "bool \<Rightarrow> int" where
  "GetMasternodePaymentGracePeriod mineOnDemand = (if mineOnDemand then 10 else 100)"

definition IsMasternodePaymentEnforced :: "Params \<Rightarrow> bool \<Rightarrow> int \<Rightarrow> bool" where
  "IsMasternodePaymentEnforced p mineOnDemand h \<longleftrightarrow>
     (if h < nTieredMNActivationHeight p then False
      else h \<ge> nTieredMNActivationHeight p + GetMasternodePaymentGracePeriod mineOnDemand)"

definition GetMasternodeTier :: "Params \<Rightarrow> CAmount \<Rightarrow> int \<Rightarrow> byte" where
  "GetMasternodeTier p amount h =
     (if h \<ge> nTieredMNActivationHeight p \<and> amount = nMasternodeCollateralTier3 p then 3
      else if h \<ge> nTieredMNActivationHeight p \<and> amount = nMasternodeCollateralTier2 p then 2
      else if amount = nMasternodeCollateral p then 1
      else 0)"

definition GetTierWeight :: "byte \<Rightarrow> int" where
  "GetTierWeight t = (if t = 2 then 10 else if t = 3 then 100 else 1)"

definition IsValidCollateralAmount :: "Params \<Rightarrow> CAmount \<Rightarrow> int \<Rightarrow> bool" where
  "IsValidCollateralAmount p amount h \<longleftrightarrow> GetMasternodeTier p amount h \<noteq> 0"

section \<open>Masternodes\<close>

record CDeterministicMNState =
  nRegisteredHeight :: int
  nLastPaidHeight :: int
  nPoSePenalty :: int
  nPoSeRevivedHeight :: int
  nPoSeBanHeight :: int
  nRevocationReason :: u16
  nTier :: byte
  nLastServiceUpdateHeight :: int
  nLastRegistrarUpdateHeight :: int
  keyIDOwner :: CKeyID
  vchOperatorPubKey :: "byte list"
  keyIDVoting :: CKeyID
  addr :: CService
  scriptPayout :: CScript
  scriptOperatorPayout :: CScript

definition CDeterministicMNState_default :: CDeterministicMNState where
  "CDeterministicMNState_default = \<lparr>
     nRegisteredHeight = - 1, nLastPaidHeight = 0, nPoSePenalty = 0, nPoSeRevivedHeight = - 1,
     nPoSeBanHeight = - 1, nRevocationReason = 0, nTier = 1, nLastServiceUpdateHeight = 0,
     nLastRegistrarUpdateHeight = 0, keyIDOwner = 0, vchOperatorPubKey = [], keyIDVoting = 0,
     addr = CService_null, scriptPayout = [], scriptOperatorPayout = []\<rparr>"

definition IsBanned :: "CDeterministicMNState \<Rightarrow> bool" where
  "IsBanned s \<longleftrightarrow> nPoSeBanHeight s \<noteq> - 1"

definition GetPayoutScript :: "CDeterministicMNState \<Rightarrow> u16 \<Rightarrow> CScript" where
  "GetPayoutScript s operatorReward =
     (if operatorReward = 10000 \<and> scriptOperatorPayout s \<noteq> [] then scriptOperatorPayout s
      else scriptPayout s)"

record CDeterministicMN =
  proTxHash :: uint256
  collateralOutpoint :: COutPoint
  nOperatorReward :: u16
  mn_state :: CDeterministicMNState
  internalId :: u64

definition MN_IsValid :: "CDeterministicMN \<Rightarrow> bool" where
  "MN_IsValid mn \<longleftrightarrow> \<not> IsBanned (mn_state mn) \<and> nRevocationReason (mn_state mn) = 0"

definition CalcScore :: "(byte list \<Rightarrow> uint256) \<Rightarrow> CDeterministicMN \<Rightarrow> uint256 \<Rightarrow> int \<Rightarrow> 256 word" where
  "CalcScore Hash mn blockHash currentHeight =
     (let lastPaid = (if nLastPaidHeight (mn_state mn) > 0 then nLastPaidHeight (mn_state mn)
                      else nRegisteredHeight (mn_state mn));
          blocksSincePayment = max 0 (currentHeight - lastPaid);
          rawScore = UintToArith256 (Hash (Serialize_uint256 (proTxHash mn) @
            Serialize_uint256 blockHash @ Serialize_int32 blocksSincePayment));
          weight = GetTierWeight (nTier (mn_state mn))
      in if weight > 1 then rawScore div word_of_int weight else rawScore)"

section \<open>The list\<close>

record CDeterministicMNList =
  l_blockHash :: uint256
  l_nHeight :: int
  nTotalRegisteredCount :: u64
  mnMap :: "(uint256, CDeterministicMN) omap"
  mnUniquePropertyMap :: "(uint256, uint256) omap"

definition CDeterministicMNList_new :: "uint256 \<Rightarrow> int \<Rightarrow> CDeterministicMNList" where
  "CDeterministicMNList_new bh h = \<lparr>l_blockHash = bh, l_nHeight = h, nTotalRegisteredCount = 0,
     mnMap = om_empty, mnUniquePropertyMap = om_empty\<rparr>"

definition CDeterministicMNList_default :: CDeterministicMNList where
  "CDeterministicMNList_default = CDeterministicMNList_new uint256_null (- 1)"

definition mns :: "CDeterministicMNList \<Rightarrow> CDeterministicMN list" where
  "mns l = map snd (om_entries (mnMap l))"

definition GetAllMNsCount :: "CDeterministicMNList \<Rightarrow> nat" where
  "GetAllMNsCount l = om_size (mnMap l)"

definition GetValidMNsCount :: "CDeterministicMNList \<Rightarrow> nat" where
  "GetValidMNsCount l = fold (\<lambda>mn count. if MN_IsValid mn then count + 1 else count) (mns l) 0"

definition ForEachMN :: "CDeterministicMNList \<Rightarrow> bool \<Rightarrow> (CDeterministicMN \<Rightarrow> 'a \<Rightarrow> 'a) \<Rightarrow> 'a \<Rightarrow> 'a" where
  "ForEachMN l onlyValid func a =
     fold (\<lambda>mn a. if onlyValid \<and> \<not> MN_IsValid mn then a else func mn a) (mns l) a"

definition GetMN :: "CDeterministicMNList \<Rightarrow> uint256 \<Rightarrow> CDeterministicMN option" where
  "GetMN l h = om_find (mnMap l) h"

subsection \<open>Unique properties\<close>

definition GetUniquePropertyHash_outpoint :: "(byte list \<Rightarrow> uint256) \<Rightarrow> COutPoint \<Rightarrow> uint256" where
  "GetUniquePropertyHash_outpoint Hash outp = Hash (Serialize_string ''utxo'' @ Serialize_COutPoint outp)"

definition GetUniquePropertyHash_addr :: "(byte list \<Rightarrow> uint256) \<Rightarrow> CService \<Rightarrow> uint256" where
  "GetUniquePropertyHash_addr Hash a = Hash (Serialize_string ''addr'' @ Serialize_CService a)"

definition GetUniquePropertyHash_key :: "(byte list \<Rightarrow> uint256) \<Rightarrow> CKeyID \<Rightarrow> uint256" where
  "GetUniquePropertyHash_key Hash k = Hash (Serialize_string ''key'' @ Serialize_uint160 k)"

definition GetUniquePropertyHash_pubkey :: "(byte list \<Rightarrow> uint256) \<Rightarrow> byte list \<Rightarrow> uint256" where
  "GetUniquePropertyHash_pubkey Hash v = Hash (Serialize_string ''operator'' @ Serialize_bytes v)"

definition GetVotingKeyHash :: "(byte list \<Rightarrow> uint256) \<Rightarrow> CKeyID \<Rightarrow> uint256" where
  "GetVotingKeyHash Hash k = Hash (Serialize_string ''voting'' @ Serialize_uint160 k)"

definition GetOperatorKeyHash :: "(byte list \<Rightarrow> uint256) \<Rightarrow> byte list \<Rightarrow> uint256" where
  "GetOperatorKeyHash Hash v = Hash (Serialize_string ''operator'' @ Serialize_bytes v)"

definition HasUniqueProperty :: "CDeterministicMNList \<Rightarrow> uint256 \<Rightarrow> bool" where
  "HasUniqueProperty l ph \<longleftrightarrow> om_find (mnUniquePropertyMap l) ph \<noteq> None"

definition find_property :: "CDeterministicMNList \<Rightarrow> uint256 \<Rightarrow> CDeterministicMN option" where
  "find_property l ph = (case om_find (mnUniquePropertyMap l) ph of Some h \<Rightarrow> GetMN l h | None \<Rightarrow> None)"

definition GetMNByOperatorKey ::
  "(byte list \<Rightarrow> uint256) \<Rightarrow> CDeterministicMNList \<Rightarrow> byte list \<Rightarrow> CDeterministicMN option" where
  "GetMNByOperatorKey Hash l v = find_property l (GetOperatorKeyHash Hash v)"

definition GetMNByCollateral ::
  "(byte list \<Rightarrow> uint256) \<Rightarrow> CDeterministicMNList \<Rightarrow> COutPoint \<Rightarrow> CDeterministicMN option" where
  "GetMNByCollateral Hash l outp = find_property l (GetUniquePropertyHash_outpoint Hash outp)"

definition GetMNByService ::
  "(byte list \<Rightarrow> uint256) \<Rightarrow> CDeterministicMNList \<Rightarrow> CService \<Rightarrow> CDeterministicMN option" where
  "GetMNByService Hash l a = find_property l (GetUniquePropertyHash_addr Hash a)"

subsection \<open>Payment\<close>

definition eligible :: "Params \<Rightarrow> int \<Rightarrow> CDeterministicMN \<Rightarrow> bool" where
  "eligible p currentHeight mn \<longleftrightarrow>
     (if \<not> MN_IsValid mn then False
      else if nTier (mn_state mn) = 0 then False
      else (let confirmations = currentHeight - nRegisteredHeight (mn_state mn) in
        \<not> confirmations < nMasternodeCollateralConfirmations p))"

definition GetValidMNsForPayment :: "Params \<Rightarrow> CDeterministicMNList \<Rightarrow> int \<Rightarrow> CDeterministicMN list" where
  "GetValidMNsForPayment p l currentHeight = filter (eligible p currentHeight) (mns l)"

definition payee_step ::
  "(byte list \<Rightarrow> uint256) \<Rightarrow> uint256 \<Rightarrow> int \<Rightarrow> CDeterministicMN \<Rightarrow>
   CDeterministicMN option \<times> 256 word \<Rightarrow> CDeterministicMN option \<times> 256 word" where
  "payee_step Hash blockHash currentHeight mn best =
     (let score = CalcScore Hash mn blockHash currentHeight;
          lowestScore = snd best
      in case fst best of
        None \<Rightarrow> (Some mn, score)
      | Some winner \<Rightarrow>
          if score < lowestScore \<or>
             (score = lowestScore \<and> UintToArith256 (proTxHash mn) < UintToArith256 (proTxHash winner))
          then (Some mn, score) else best)"

definition GetMNPayee ::
  "(byte list \<Rightarrow> uint256) \<Rightarrow> Params \<Rightarrow> CDeterministicMNList \<Rightarrow> uint256 \<Rightarrow> int \<Rightarrow> CDeterministicMN option" where
  "GetMNPayee Hash p l blockHash currentHeight =
     (let validMNs = GetValidMNsForPayment p l currentHeight
      in if validMNs = [] then None
         else fst (fold (payee_step Hash blockHash currentHeight) validMNs (None, 0)))"

subsection \<open>Modification\<close>

definition index_add ::
  "(byte list \<Rightarrow> uint256) \<Rightarrow> CDeterministicMN \<Rightarrow> (uint256, uint256) omap \<Rightarrow> (uint256, uint256) omap" where
  "index_add Hash mn m =
     om_put (GetOperatorKeyHash Hash (vchOperatorPubKey (mn_state mn))) (proTxHash mn)
     (om_put (GetVotingKeyHash Hash (keyIDVoting (mn_state mn))) (proTxHash mn)
     (om_put (GetUniquePropertyHash_key Hash (keyIDOwner (mn_state mn))) (proTxHash mn)
     (om_put (GetUniquePropertyHash_addr Hash (addr (mn_state mn))) (proTxHash mn)
     (om_put (GetUniquePropertyHash_outpoint Hash (collateralOutpoint mn)) (proTxHash mn) m))))"

definition index_remove ::
  "(byte list \<Rightarrow> uint256) \<Rightarrow> CDeterministicMN \<Rightarrow> (uint256, uint256) omap \<Rightarrow> (uint256, uint256) omap" where
  "index_remove Hash mn m =
     om_erase (GetOperatorKeyHash Hash (vchOperatorPubKey (mn_state mn)))
     (om_erase (GetVotingKeyHash Hash (keyIDVoting (mn_state mn)))
     (om_erase (GetUniquePropertyHash_key Hash (keyIDOwner (mn_state mn)))
     (om_erase (GetUniquePropertyHash_addr Hash (addr (mn_state mn)))
     (om_erase (GetUniquePropertyHash_outpoint Hash (collateralOutpoint mn)) m))))"

definition AddMN ::
  "(byte list \<Rightarrow> uint256) \<Rightarrow> CDeterministicMNList \<Rightarrow> CDeterministicMN \<Rightarrow> CDeterministicMNList" where
  "AddMN Hash l mn = l\<lparr>
     mnMap := om_put (proTxHash mn) mn (mnMap l),
     mnUniquePropertyMap := index_add Hash mn (mnUniquePropertyMap l),
     nTotalRegisteredCount := nTotalRegisteredCount l + 1\<rparr>"

definition AddMNInPlace ::
  "(byte list \<Rightarrow> uint256) \<Rightarrow> CDeterministicMNList \<Rightarrow> CDeterministicMN \<Rightarrow> CDeterministicMNList" where
  "AddMNInPlace Hash l mn = l\<lparr>
     mnMap := om_put (proTxHash mn) mn (mnMap l),
     mnUniquePropertyMap := index_add Hash mn (mnUniquePropertyMap l)\<rparr>"

definition wouldConflict :: "CDeterministicMNList \<Rightarrow> uint256 \<Rightarrow> uint256 \<Rightarrow> bool" where
  "wouldConflict l h newHash =
     (case om_find (mnUniquePropertyMap l) newHash of Some owner \<Rightarrow> owner \<noteq> h | None \<Rightarrow> False)"

definition reindex ::
  "bool \<Rightarrow> uint256 \<Rightarrow> uint256 \<Rightarrow> uint256 \<Rightarrow> (uint256, uint256) omap \<Rightarrow> (uint256, uint256) omap" where
  "reindex changed oldHash newHash h m =
     (if changed then om_put newHash h (om_erase oldHash m) else m)"

definition UpdateMN ::
  "(byte list \<Rightarrow> uint256) \<Rightarrow> CDeterministicMNList \<Rightarrow> uint256 \<Rightarrow> CDeterministicMNState \<Rightarrow> CDeterministicMNList" where
  "UpdateMN Hash l h newState =
     (case GetMN l h of
       None \<Rightarrow> l
     | Some mn \<Rightarrow>
        (let old = mn_state mn;
             newAddrHash = GetUniquePropertyHash_addr Hash (addr newState);
             newVoteHash = GetVotingKeyHash Hash (keyIDVoting newState);
             newOpHash = GetOperatorKeyHash Hash (vchOperatorPubKey newState);
             addrChanged = addr old \<noteq> addr newState;
             voteChanged = keyIDVoting old \<noteq> keyIDVoting newState;
             opChanged = vchOperatorPubKey old \<noteq> vchOperatorPubKey newState
         in if (addrChanged \<and> wouldConflict l h newAddrHash) \<or>
               (voteChanged \<and> wouldConflict l h newVoteHash) \<or>
               (opChanged \<and> wouldConflict l h newOpHash)
            then l
            else l\<lparr>
              mnUniquePropertyMap :=
                reindex opChanged (GetOperatorKeyHash Hash (vchOperatorPubKey old)) newOpHash h
                (reindex voteChanged (GetVotingKeyHash Hash (keyIDVoting old)) newVoteHash h
                (reindex addrChanged (GetUniquePropertyHash_addr Hash (addr old)) newAddrHash h
                  (mnUniquePropertyMap l))),
              mnMap := om_put h (mn\<lparr>mn_state := newState\<rparr>) (mnMap l)\<rparr>))"

text \<open>
  The body of the loop of \<open>BatchUpdateMNStates\<close> works on the partially updated list and is,
  statement for statement, that of \<open>UpdateMN\<close> on it.
\<close>

definition BatchUpdateMNStates ::
  "(byte list \<Rightarrow> uint256) \<Rightarrow> CDeterministicMNList \<Rightarrow> (uint256 \<times> CDeterministicMNState) list \<Rightarrow> CDeterministicMNList" where
  "BatchUpdateMNStates Hash l updates =
     (if updates = [] then l else fold (\<lambda>(h, newState) l. UpdateMN Hash l h newState) updates l)"

definition RemoveMN ::
  "(byte list \<Rightarrow> uint256) \<Rightarrow> CDeterministicMNList \<Rightarrow> uint256 \<Rightarrow> CDeterministicMNList" where
  "RemoveMN Hash l h =
     (case GetMN l h of
       None \<Rightarrow> l
     | Some mn \<Rightarrow> l\<lparr>mnMap := om_erase h (mnMap l),
                   mnUniquePropertyMap := index_remove Hash mn (mnUniquePropertyMap l)\<rparr>)"

definition BatchRemoveMNs ::
  "(byte list \<Rightarrow> uint256) \<Rightarrow> CDeterministicMNList \<Rightarrow> uint256 list \<Rightarrow> CDeterministicMNList" where
  "BatchRemoveMNs Hash l hs = (if hs = [] then l else fold (\<lambda>h l. RemoveMN Hash l h) hs l)"

section \<open>Serialisation\<close>

definition Serialize_CDeterministicMNState :: "CDeterministicMNState \<Rightarrow> byte list" where
  "Serialize_CDeterministicMNState s =
     Serialize_int32 (nRegisteredHeight s) @ Serialize_int32 (nLastPaidHeight s) @
     Serialize_int32 (nPoSePenalty s) @ Serialize_int32 (nPoSeRevivedHeight s) @
     Serialize_int32 (nPoSeBanHeight s) @ ser_writedata16 (nRevocationReason s) @
     Serialize_uint160 (keyIDOwner s) @ Serialize_bytes (vchOperatorPubKey s) @
     Serialize_uint160 (keyIDVoting s) @ Serialize_CService (addr s) @
     Serialize_bytes (scriptPayout s) @ Serialize_bytes (scriptOperatorPayout s) @
     ser_writedata8 (nTier s) @ Serialize_int32 (nLastServiceUpdateHeight s) @
     Serialize_int32 (nLastRegistrarUpdateHeight s)"

definition Unserialize_CDeterministicMNState :: "CDeterministicMNState reader" where
  "Unserialize_CDeterministicMNState is = do {
     (registered, is) \<leftarrow> Unserialize_int32 is;
     (lastPaid, is) \<leftarrow> Unserialize_int32 is;
     (penalty, is) \<leftarrow> Unserialize_int32 is;
     (revived, is) \<leftarrow> Unserialize_int32 is;
     (ban, is) \<leftarrow> Unserialize_int32 is;
     (reason, is) \<leftarrow> ser_readdata16 is;
     (owner, is) \<leftarrow> Unserialize_uint160 is;
     (operator, is) \<leftarrow> Unserialize_bytes is;
     (voting, is) \<leftarrow> Unserialize_uint160 is;
     (address, is) \<leftarrow> Unserialize_CService is;
     (payout, is) \<leftarrow> Unserialize_bytes is;
     (opPayout, is) \<leftarrow> Unserialize_bytes is;
     (tier, is) \<leftarrow> ser_readdata8 is;
     (service, is) \<leftarrow> Unserialize_int32 is;
     (registrar, is) \<leftarrow> Unserialize_int32 is;
     Some (\<lparr>nRegisteredHeight = registered, nLastPaidHeight = lastPaid, nPoSePenalty = penalty,
       nPoSeRevivedHeight = revived, nPoSeBanHeight = ban, nRevocationReason = reason, nTier = tier,
       nLastServiceUpdateHeight = service, nLastRegistrarUpdateHeight = registrar,
       keyIDOwner = owner, vchOperatorPubKey = operator, keyIDVoting = voting, addr = address,
       scriptPayout = payout, scriptOperatorPayout = opPayout\<rparr>, is) }"

definition Serialize_CDeterministicMN :: "CDeterministicMN \<Rightarrow> byte list" where
  "Serialize_CDeterministicMN mn =
     Serialize_uint256 (proTxHash mn) @ Serialize_COutPoint (collateralOutpoint mn) @
     ser_writedata16 (nOperatorReward mn) @ Serialize_CDeterministicMNState (mn_state mn) @
     ser_writedata64 (internalId mn)"

definition Unserialize_CDeterministicMN :: "CDeterministicMN reader" where
  "Unserialize_CDeterministicMN is = do {
     (h, is) \<leftarrow> Unserialize_uint256 is;
     (coll, is) \<leftarrow> Unserialize_COutPoint is;
     (reward, is) \<leftarrow> ser_readdata16 is;
     (st, is) \<leftarrow> Unserialize_CDeterministicMNState is;
     (id, is) \<leftarrow> ser_readdata64 is;
     Some (\<lparr>proTxHash = h, collateralOutpoint = coll, nOperatorReward = reward, mn_state = st,
       internalId = id\<rparr>, is) }"

definition Serialize_CDeterministicMNList :: "CDeterministicMNList \<Rightarrow> byte list" where
  "Serialize_CDeterministicMNList l =
     Serialize_uint256 (l_blockHash l) @ Serialize_int32 (l_nHeight l) @
     ser_writedata64 (nTotalRegisteredCount l) @
     Serialize_map Serialize_uint256 Serialize_CDeterministicMN (mnMap l) @
     Serialize_map Serialize_uint256 Serialize_uint256 (mnUniquePropertyMap l)"

definition Unserialize_CDeterministicMNList :: "CDeterministicMNList reader" where
  "Unserialize_CDeterministicMNList is = do {
     (bh, is) \<leftarrow> Unserialize_uint256 is;
     (h, is) \<leftarrow> Unserialize_int32 is;
     (n, is) \<leftarrow> ser_readdata64 is;
     (m, is) \<leftarrow> Unserialize_map Unserialize_uint256 Unserialize_CDeterministicMN is;
     (u, is) \<leftarrow> Unserialize_map Unserialize_uint256 Unserialize_uint256 is;
     Some (\<lparr>l_blockHash = bh, l_nHeight = h, nTotalRegisteredCount = n, mnMap = m,
       mnUniquePropertyMap = u\<rparr>, is) }"

section \<open>The index invariant\<close>

datatype mn_prop = P_coll COutPoint | P_addr CService | P_owner CKeyID | P_vote CKeyID | P_oper "byte list"

fun prop_preimage :: "mn_prop \<Rightarrow> byte list" where
  "prop_preimage (P_coll x) = Serialize_string ''utxo'' @ Serialize_COutPoint x"
| "prop_preimage (P_addr x) = Serialize_string ''addr'' @ Serialize_CService x"
| "prop_preimage (P_owner x) = Serialize_string ''key'' @ Serialize_uint160 x"
| "prop_preimage (P_vote x) = Serialize_string ''voting'' @ Serialize_uint160 x"
| "prop_preimage (P_oper x) = Serialize_string ''operator'' @ Serialize_bytes x"

definition prop_hash :: "(byte list \<Rightarrow> uint256) \<Rightarrow> mn_prop \<Rightarrow> uint256" where
  "prop_hash Hash p = Hash (prop_preimage p)"

lemma prop_hash_eqs:
  "GetUniquePropertyHash_outpoint Hash x = prop_hash Hash (P_coll x)"
  "GetUniquePropertyHash_addr Hash a = prop_hash Hash (P_addr a)"
  "GetUniquePropertyHash_key Hash k = prop_hash Hash (P_owner k)"
  "GetVotingKeyHash Hash k = prop_hash Hash (P_vote k)"
  "GetOperatorKeyHash Hash v = prop_hash Hash (P_oper v)"
  by (simp_all add: prop_hash_def GetUniquePropertyHash_outpoint_def GetUniquePropertyHash_addr_def
      GetUniquePropertyHash_key_def GetVotingKeyHash_def GetOperatorKeyHash_def)

definition state_props :: "CDeterministicMNState \<Rightarrow> mn_prop set" where
  "state_props s = {P_addr (addr s), P_owner (keyIDOwner s), P_vote (keyIDVoting s),
     P_oper (vchOperatorPubKey s)}"

definition mn_props :: "CDeterministicMN \<Rightarrow> mn_prop set" where
  "mn_props mn = insert (P_coll (collateralOutpoint mn)) (state_props (mn_state mn))"

definition list_props :: "CDeterministicMNList \<Rightarrow> mn_prop set" where
  "list_props l = (\<Union>mn \<in> set (mns l). mn_props mn)"

definition prop_hashes :: "(byte list \<Rightarrow> uint256) \<Rightarrow> CDeterministicMN \<Rightarrow> uint256 set" where
  "prop_hashes Hash mn = prop_hash Hash ` mn_props mn"

definition mnlist_ok :: "(byte list \<Rightarrow> uint256) \<Rightarrow> CDeterministicMNList \<Rightarrow> bool" where
  "mnlist_ok Hash l \<longleftrightarrow>
     (\<forall>h mn. GetMN l h = Some mn \<longrightarrow> proTxHash mn = h) \<and>
     index_exact (GetMN l) (om_find (mnUniquePropertyMap l)) (prop_hashes Hash)"

definition collision_free :: "(byte list \<Rightarrow> uint256) \<Rightarrow> mn_prop set \<Rightarrow> bool" where
  "collision_free Hash P \<longleftrightarrow> inj_on Hash (prop_preimage ` P)"

lemma prop_preimage_inject: "prop_preimage p = prop_preimage q \<longleftrightarrow> p = q"
proof -
  have str: "Serialize_string ''utxo'' = [4, 117, 116, 120, 111]"
    "Serialize_string ''addr'' = [4, 97, 100, 100, 114]"
    "Serialize_string ''key'' = [3, 107, 101, 121]"
    "Serialize_string ''voting'' = [6, 118, 111, 116, 105, 110, 103]"
    "Serialize_string ''operator'' = [8, 111, 112, 101, 114, 97, 116, 111, 114]"
    by (simp_all add: Serialize_string_def Serialize_bytes_def WriteCompactSize_def ser_writedata8_def)
  show ?thesis
    by (cases p; cases q) (simp_all add: str outp.ser_inject csvc.ser_inject u160.ser_inject
        Serialize_bytes_inject)
qed

lemma collision_freeD:
  "collision_free Hash P \<Longrightarrow> p \<in> P \<Longrightarrow> q \<in> P \<Longrightarrow> prop_hash Hash p = prop_hash Hash q \<longleftrightarrow> p = q"
  unfolding collision_free_def prop_hash_def
  using inj_on_eq_iff [of Hash "prop_preimage ` P" "prop_preimage p" "prop_preimage q"]
  by (simp add: prop_preimage_inject)

lemma collision_free_subset: "collision_free Hash Q \<Longrightarrow> P \<subseteq> Q \<Longrightarrow> collision_free Hash P"
  unfolding collision_free_def by (meson image_mono inj_on_subset)

lemma set_mns: "mn \<in> set (mns l) \<longleftrightarrow> (\<exists>h. GetMN l h = Some mn)"
  by (simp add: mns_def GetMN_def om_value_iff)

lemma mem_mns_iff: "mnlist_ok Hash l \<Longrightarrow> mn \<in> set (mns l) \<longleftrightarrow> GetMN l (proTxHash mn) = Some mn"
  by (auto simp: mnlist_ok_def set_mns)

lemma list_props_iff: "p \<in> list_props l \<longleftrightarrow> (\<exists>h mn. GetMN l h = Some mn \<and> p \<in> mn_props mn)"
  unfolding list_props_def UN_iff Bex_def set_mns by blast

lemma mnlist_ok_new [simp]: "mnlist_ok Hash (CDeterministicMNList_new bh h)"
  by (simp add: mnlist_ok_def CDeterministicMNList_new_def GetMN_def index_exact_def)

lemma find_index_add:
  "om_find (index_add Hash mn m) ph =
     (if ph \<in> prop_hashes Hash mn then Some (proTxHash mn) else om_find m ph)"
  by (auto simp: prop_hashes_def index_add_def prop_hash_eqs mn_props_def state_props_def)

lemma find_index_remove:
  "om_find (index_remove Hash mn m) ph =
     (if ph \<in> prop_hashes Hash mn then None else om_find m ph)"
  by (auto simp: prop_hashes_def index_remove_def prop_hash_eqs mn_props_def state_props_def)

lemma GetMN_AddMN: "GetMN (AddMN Hash l mn) = (GetMN l)(proTxHash mn \<mapsto> mn)"
  by (simp add: AddMN_def GetMN_def fun_eq_iff)

lemma mnlist_ok_AddMN:
  assumes ok: "mnlist_ok Hash l" and new: "GetMN l (proTxHash mn) = None"
    and free: "\<forall>p \<in> mn_props mn. \<not> HasUniqueProperty l (prop_hash Hash p)"
  shows "mnlist_ok Hash (AddMN Hash l mn)"
proof -
  have "om_find (mnUniquePropertyMap (AddMN Hash l mn)) =
      (\<lambda>ph. if ph \<in> prop_hashes Hash mn then Some (proTxHash mn)
       else om_find (mnUniquePropertyMap l) ph)"
    by (simp add: AddMN_def find_index_add fun_eq_iff)
  moreover have "om_find (mnUniquePropertyMap l) ph = None" if "ph \<in> prop_hashes Hash mn" for ph
    using that free by (auto simp: HasUniqueProperty_def prop_hashes_def)
  ultimately show ?thesis
    using ok new by (auto simp: mnlist_ok_def GetMN_AddMN intro: index_exact_add)
qed

lemma GetMN_RemoveMN: "GetMN (RemoveMN Hash l h) = (GetMN l)(h := None)"
  by (auto simp: RemoveMN_def GetMN_def split: option.split)

lemma mnlist_ok_RemoveMN:
  assumes ok: "mnlist_ok Hash l"
  shows "mnlist_ok Hash (RemoveMN Hash l h)"
proof (cases "GetMN l h")
  case None
  then show ?thesis using ok by (simp add: RemoveMN_def)
next
  case (Some mn)
  have "om_find (mnUniquePropertyMap (RemoveMN Hash l h)) =
      (\<lambda>ph. if ph \<in> prop_hashes Hash mn then None else om_find (mnUniquePropertyMap l) ph)"
    by (simp add: RemoveMN_def Some find_index_remove fun_eq_iff)
  then show ?thesis
    using ok Some by (auto simp: mnlist_ok_def GetMN_RemoveMN intro: index_exact_remove)
qed

subsection \<open>Updates\<close>

lemma find_reindex:
  "om_find m x = Some h \<Longrightarrow> om_find (reindex (x \<noteq> y) x y h m) k =
     (if k = y then Some h else if k = x then None else om_find m k)"
  by (auto simp: reindex_def)

lemma find_reindex3:
  assumes own: "\<forall>k \<in> {c, w, a, v, p}. om_find m k = Some h"
    and d: "{a, a'} \<inter> {v, v'} = {}" "{a, a'} \<inter> {p, p'} = {}" "{v, v'} \<inter> {p, p'} = {}"
      "{c, w} \<inter> {a, a', v, v', p, p'} = {}"
  shows "om_find (reindex (p \<noteq> p') p p' h (reindex (v \<noteq> v') v v' h (reindex (a \<noteq> a') a a' h m))) k =
    (if k \<in> {c, w, a', v', p'} then Some h else if k \<in> {c, w, a, v, p} then None else om_find m k)"
proof -
  let ?m1 = "reindex (a \<noteq> a') a a' h m"
  let ?m2 = "reindex (v \<noteq> v') v v' h ?m1"
  have m1: "om_find ?m1 k = (if k = a' then Some h else if k = a then None else om_find m k)" for k
    using own by (simp add: find_reindex)
  have "om_find ?m1 v = Some h" using own d by (auto simp: m1)
  then have m2: "om_find ?m2 k = (if k = v' then Some h else if k = v then None else om_find ?m1 k)" for k
    by (rule find_reindex)
  have "om_find ?m2 p = Some h" using own d by (auto simp: m1 m2)
  then have m3: "om_find (reindex (p \<noteq> p') p p' h ?m2) k =
      (if k = p' then Some h else if k = p then None else om_find ?m2 k)" for k
    by (rule find_reindex)
  have own': "om_find m c = Some h" "om_find m w = Some h" using own by simp_all
  have ne: "c \<notin> {a, a', v, v', p, p'}" "w \<notin> {a, a', v, v', p, p'}" "a \<notin> {v, v', p, p'}" "a' \<notin> {v, v', p, p'}"
    "v \<notin> {a, a', p, p'}" "v' \<notin> {a, a', p, p'}" "p \<notin> {c, w, a, a', v, v'}" "p' \<notin> {c, w, a, a', v, v'}"
    using d by blast+
  consider "k = c" | "k = w" | "k \<noteq> c" "k \<noteq> w" "k \<in> {a, a'}" | "k \<noteq> c" "k \<noteq> w" "k \<in> {v, v'}"
    | "k \<noteq> c" "k \<noteq> w" "k \<notin> {a, a', v, v'}" by blast
  then show ?thesis
  proof cases
    case 1
    then show ?thesis unfolding m3 m2 m1 using ne(1) own' by auto
  next
    case 2
    then show ?thesis unfolding m3 m2 m1 using ne(2) own' by auto
  next
    case 3
    then show ?thesis unfolding m3 m2 m1 using ne(3,4) by auto
  next
    case 4
    then show ?thesis unfolding m3 m2 m1 using ne(5,6) by auto
  next
    case 5
    then show ?thesis unfolding m3 m2 m1 by simp
  qed
qed

definition update_rejected :: "(byte list \<Rightarrow> uint256) \<Rightarrow> CDeterministicMNList \<Rightarrow> CDeterministicMN \<Rightarrow> CDeterministicMNState \<Rightarrow> bool" where
  "update_rejected Hash l mn s \<longleftrightarrow>
     (\<exists>p \<in> state_props s - mn_props mn. \<exists>h. om_find (mnUniquePropertyMap l) (prop_hash Hash p) = Some h \<and>
        h \<noteq> proTxHash mn)"

lemma UpdateMN_cases:
  assumes ok: "mnlist_ok Hash l" and mn: "GetMN l h = Some mn"
    and owner: "keyIDOwner s = keyIDOwner (mn_state mn)"
    and cf: "collision_free Hash (mn_props mn \<union> state_props s)"
  defines "mn' \<equiv> mn\<lparr>mn_state := s\<rparr>"
  shows "if update_rejected Hash l mn s then UpdateMN Hash l h s = l
    else GetMN (UpdateMN Hash l h s) = (GetMN l)(h \<mapsto> mn') \<and>
      om_find (mnUniquePropertyMap (UpdateMN Hash l h s)) =
      (\<lambda>ph. if ph \<in> prop_hashes Hash mn' then Some h else if ph \<in> prop_hashes Hash mn then None
        else om_find (mnUniquePropertyMap l) ph)"
proof -
  have h: "proTxHash mn = h" using ok mn by (simp add: mnlist_ok_def)
  have rej: "update_rejected Hash l mn s \<longleftrightarrow>
      (addr (mn_state mn) \<noteq> addr s \<and> wouldConflict l h (prop_hash Hash (P_addr (addr s)))) \<or>
      (keyIDVoting (mn_state mn) \<noteq> keyIDVoting s \<and> wouldConflict l h (prop_hash Hash (P_vote (keyIDVoting s)))) \<or>
      (vchOperatorPubKey (mn_state mn) \<noteq> vchOperatorPubKey s \<and>
        wouldConflict l h (prop_hash Hash (P_oper (vchOperatorPubKey s))))"
    using owner by (auto simp: update_rejected_def wouldConflict_def mn_props_def state_props_def h
        split: option.splits)
  show ?thesis
  proof (cases "update_rejected Hash l mn s")
    case True
    then show ?thesis using rej mn by (simp add: UpdateMN_def prop_hash_eqs Let_def)
  next
    case False
    have own: "om_find (mnUniquePropertyMap l) ph = Some h" if "ph \<in> prop_hashes Hash mn" for ph
      using ok mn that by (auto simp: mnlist_ok_def index_exactD)
    have inj: "prop_hash Hash p = prop_hash Hash q \<longleftrightarrow> p = q"
      if "p \<in> mn_props mn \<union> state_props s" "q \<in> mn_props mn \<union> state_props s" for p q
      using collision_freeD [OF cf that] .
    have "UpdateMN Hash l h s = l\<lparr>
      mnUniquePropertyMap := reindex (vchOperatorPubKey (mn_state mn) \<noteq> vchOperatorPubKey s)
          (prop_hash Hash (P_oper (vchOperatorPubKey (mn_state mn)))) (prop_hash Hash (P_oper (vchOperatorPubKey s))) h
        (reindex (keyIDVoting (mn_state mn) \<noteq> keyIDVoting s)
          (prop_hash Hash (P_vote (keyIDVoting (mn_state mn)))) (prop_hash Hash (P_vote (keyIDVoting s))) h
        (reindex (addr (mn_state mn) \<noteq> addr s)
          (prop_hash Hash (P_addr (addr (mn_state mn)))) (prop_hash Hash (P_addr (addr s))) h
          (mnUniquePropertyMap l))),
      mnMap := om_put h mn' (mnMap l)\<rparr>" (is "_ = l\<lparr>mnUniquePropertyMap := ?i, mnMap := _\<rparr>")
      unfolding UpdateMN_def mn option.case Let_def prop_hash_eqs mn'_def
      by (rule if_not_P) (rule False [unfolded rej])
    moreover have "om_find ?i ph =
        (if ph \<in> prop_hashes Hash mn' then Some h else if ph \<in> prop_hashes Hash mn then None
         else om_find (mnUniquePropertyMap l) ph)" for ph
    proof -
      let ?f = "\<lambda>p. prop_hash Hash p" and ?s = "mn_state mn"
      have ne: "addr ?s \<noteq> addr s \<longleftrightarrow> ?f (P_addr (addr ?s)) \<noteq> ?f (P_addr (addr s))"
        "keyIDVoting ?s \<noteq> keyIDVoting s \<longleftrightarrow> ?f (P_vote (keyIDVoting ?s)) \<noteq> ?f (P_vote (keyIDVoting s))"
        "vchOperatorPubKey ?s \<noteq> vchOperatorPubKey s \<longleftrightarrow>
          ?f (P_oper (vchOperatorPubKey ?s)) \<noteq> ?f (P_oper (vchOperatorPubKey s))"
        by (simp_all add: inj mn_props_def state_props_def)
      have ph: "prop_hashes Hash mn' = {?f (P_coll (collateralOutpoint mn)), ?f (P_owner (keyIDOwner ?s)),
          ?f (P_addr (addr s)), ?f (P_vote (keyIDVoting s)), ?f (P_oper (vchOperatorPubKey s))}"
        "prop_hashes Hash mn = {?f (P_coll (collateralOutpoint mn)), ?f (P_owner (keyIDOwner ?s)),
          ?f (P_addr (addr ?s)), ?f (P_vote (keyIDVoting ?s)), ?f (P_oper (vchOperatorPubKey ?s))}"
        using owner by (auto simp: prop_hashes_def mn_props_def state_props_def mn'_def)
      show ?thesis
        unfolding ph ne
        by (rule find_reindex3) (use own [unfolded ph] in \<open>auto simp: inj mn_props_def state_props_def\<close>)
    qed
    ultimately show ?thesis using False by (simp add: GetMN_def fun_eq_iff)
  qed
qed

lemma mn_props_in_list: "GetMN l h = Some mn \<Longrightarrow> mn_props mn \<subseteq> list_props l"
  using list_props_iff by blast

lemma mnlist_ok_UpdateMN:
  assumes ok: "mnlist_ok Hash l"
    and owner: "\<And>mn. GetMN l h = Some mn \<Longrightarrow> keyIDOwner s = keyIDOwner (mn_state mn)"
    and cf: "collision_free Hash (list_props l \<union> state_props s)"
  shows "mnlist_ok Hash (UpdateMN Hash l h s)"
proof (cases "GetMN l h")
  case None
  then show ?thesis using ok by (simp add: UpdateMN_def)
next
  case (Some mn)
  let ?mn' = "mn\<lparr>mn_state := s\<rparr>" and ?idx = "om_find (mnUniquePropertyMap l)"
  have h: "proTxHash mn = h" using ok Some by (simp add: mnlist_ok_def)
  have cf': "collision_free Hash (mn_props mn \<union> state_props s)"
    by (rule collision_free_subset [OF cf]) (use mn_props_in_list [OF Some] in auto)
  note upd = UpdateMN_cases [OF ok Some owner [OF Some] cf']
  show ?thesis
  proof (cases "update_rejected Hash l mn s")
    case True
    then show ?thesis using upd ok by simp
  next
    case False
    have "?idx k = None \<or> ?idx k = Some h" if "k \<in> prop_hashes Hash ?mn'" for k
    proof -
      from that obtain p where p: "k = prop_hash Hash p" "p \<in> mn_props ?mn'"
        by (auto simp: prop_hashes_def)
      show ?thesis
      proof (cases "p \<in> mn_props mn")
        case True
        then show ?thesis
          using ok Some p(1) by (auto simp: mnlist_ok_def index_exactD prop_hashes_def)
      next
        case np: False
        with p(2) have "p \<in> state_props s - mn_props mn" by (auto simp: mn_props_def)
        with False p(1) h show ?thesis by (cases "?idx k") (auto simp: update_rejected_def)
      qed
    qed
    then have "index_exact ((GetMN l)(h \<mapsto> ?mn'))
        (\<lambda>ph. if ph \<in> prop_hashes Hash ?mn' then Some h else if ph \<in> prop_hashes Hash mn then None else ?idx ph)
        (prop_hashes Hash)"
      using ok Some by (intro index_exact_update) (auto simp: mnlist_ok_def)
    then show ?thesis
      using False upd ok h by (auto simp: mnlist_ok_def)
  qed
qed

lemma GetMN_UpdateMN:
  "GetMN (UpdateMN Hash l h s) g = GetMN l g \<or>
   (g = h \<and> (\<exists>mn. GetMN l h = Some mn \<and> GetMN (UpdateMN Hash l h s) g = Some (mn\<lparr>mn_state := s\<rparr>)))"
  by (auto simp: UpdateMN_def GetMN_def Let_def split: option.splits)

lemma list_props_UpdateMN: "list_props (UpdateMN Hash l h s) \<subseteq> list_props l \<union> state_props s"
proof
  fix p assume "p \<in> list_props (UpdateMN Hash l h s)"
  then obtain g mn where mn: "GetMN (UpdateMN Hash l h s) g = Some mn" "p \<in> mn_props mn"
    by (auto simp: list_props_iff)
  show "p \<in> list_props l \<union> state_props s"
  proof (cases "GetMN l g = Some mn")
    case True
    then show ?thesis using mn(2) mn_props_in_list by blast
  next
    case False
    then obtain m where "GetMN l h = Some m" "mn = m\<lparr>mn_state := s\<rparr>"
      using GetMN_UpdateMN [of Hash l h s g] mn(1) by auto
    then show ?thesis using mn(2) mn_props_in_list [of l h m] by (auto simp: mn_props_def)
  qed
qed

lemma UpdateMN_same_keys:
  assumes "GetMN l h = Some mn" and "addr s = addr (mn_state mn)"
    and "keyIDVoting s = keyIDVoting (mn_state mn)"
    and "vchOperatorPubKey s = vchOperatorPubKey (mn_state mn)"
  shows "UpdateMN Hash l h s = l\<lparr>mnMap := om_put h (mn\<lparr>mn_state := s\<rparr>) (mnMap l)\<rparr>"
  using assms by (simp add: UpdateMN_def Let_def reindex_def)

lemma mnlist_ok_BatchUpdate:
  assumes "mnlist_ok Hash l"
    and "\<And>h s mn. (h, s) \<in> set ups \<Longrightarrow> GetMN l h = Some mn \<Longrightarrow> keyIDOwner s = keyIDOwner (mn_state mn)"
    and "collision_free Hash (list_props l \<union> (\<Union>(h, s) \<in> set ups. state_props s))"
  shows "mnlist_ok Hash (BatchUpdateMNStates Hash l ups)"
proof -
  have "mnlist_ok Hash (fold (\<lambda>(h, s) l. UpdateMN Hash l h s) ups l)"
    using assms
  proof (induction ups arbitrary: l)
    case Nil
    then show ?case by simp
  next
    case (Cons u ups)
    obtain h s where u: "u = (h, s)" by (cases u)
    let ?l = "UpdateMN Hash l h s"
    have "mnlist_ok Hash ?l"
      using Cons.prems by (intro mnlist_ok_UpdateMN) (auto simp: u intro: collision_free_subset)
    moreover have "keyIDOwner s' = keyIDOwner (mn_state mn)"
      if "(g, s') \<in> set ups" "GetMN ?l g = Some mn" for g s' mn
      using GetMN_UpdateMN [of Hash l h s g] Cons.prems(2) [of g s'] Cons.prems(2) [of h s] that
      by (auto simp: u)
    moreover have "collision_free Hash (list_props ?l \<union> (\<Union>(h, s) \<in> set ups. state_props s))"
      by (rule collision_free_subset [OF Cons.prems(3)])
        (use list_props_UpdateMN [of Hash l h s] in \<open>auto simp: u\<close>)
    ultimately have "mnlist_ok Hash (fold (\<lambda>(h, s) l. UpdateMN Hash l h s) ups ?l)"
      by (rule Cons.IH)
    then show ?case by (simp add: u)
  qed
  then show ?thesis using assms(1) by (simp add: BatchUpdateMNStates_def)
qed

subsection \<open>Updates that keep every key\<close>

definition same_keys :: "CDeterministicMNState \<Rightarrow> CDeterministicMNState \<Rightarrow> bool" where
  "same_keys s t \<longleftrightarrow> addr s = addr t \<and> keyIDOwner s = keyIDOwner t \<and> keyIDVoting s = keyIDVoting t \<and>
     vchOperatorPubKey s = vchOperatorPubKey t"

lemma mn_props_same_keys: "same_keys s (mn_state mn) \<Longrightarrow> mn_props (mn\<lparr>mn_state := s\<rparr>) = mn_props mn"
  by (simp add: same_keys_def mn_props_def state_props_def)

lemma UpdateMN_same:
  assumes "GetMN l h = Some mn" and "same_keys s (mn_state mn)"
  shows "UpdateMN Hash l h s = l\<lparr>mnMap := om_put h (mn\<lparr>mn_state := s\<rparr>) (mnMap l)\<rparr>"
  using assms by (simp add: UpdateMN_same_keys same_keys_def)

lemma GetMN_UpdateMN_same:
  assumes "GetMN l h = Some mn" and "same_keys s (mn_state mn)"
  shows "GetMN (UpdateMN Hash l h s) = (GetMN l)(h \<mapsto> mn\<lparr>mn_state := s\<rparr>)"
  using UpdateMN_same [OF assms] by (simp add: GetMN_def fun_eq_iff)

lemma mnlist_ok_UpdateMN_same:
  assumes ok: "mnlist_ok Hash l" and mn: "GetMN l h = Some mn" and s: "same_keys s (mn_state mn)"
  shows "mnlist_ok Hash (UpdateMN Hash l h s)"
proof -
  let ?mn = "mn\<lparr>mn_state := s\<rparr>"
  have ix: "index_exact (GetMN l) (om_find (mnUniquePropertyMap l)) (prop_hashes Hash)"
    and "proTxHash mn = h" using ok mn by (simp_all add: mnlist_ok_def)
  have ph: "prop_hashes Hash ?mn = prop_hashes Hash mn"
    by (simp add: prop_hashes_def mn_props_same_keys [OF s])
  have "index_exact ((GetMN l)(h \<mapsto> ?mn)) (om_find (mnUniquePropertyMap l)) (prop_hashes Hash)"
    unfolding index_exact_def
  proof (intro allI)
    fix k g
    show "om_find (mnUniquePropertyMap l) k = Some g \<longleftrightarrow>
        (\<exists>m. ((GetMN l)(h \<mapsto> ?mn)) g = Some m \<and> k \<in> prop_hashes Hash m)"
      using index_exactD [OF ix, of k g] mn ph by (cases "g = h") auto
  qed
  moreover have "mnUniquePropertyMap (UpdateMN Hash l h s) = mnUniquePropertyMap l"
    by (simp add: UpdateMN_same [OF mn s])
  ultimately show ?thesis
    using ok \<open>proTxHash mn = h\<close> unfolding mnlist_ok_def GetMN_UpdateMN_same [OF mn s] by auto
qed

lemma BatchUpdate_same:
  assumes "distinct (map fst ups)"
    and "\<And>h s. (h, s) \<in> set ups \<Longrightarrow> \<exists>mn. GetMN l h = Some mn \<and> same_keys s (mn_state mn)"
  shows "GetMN (BatchUpdateMNStates Hash l ups) h =
      (case map_of ups h of None \<Rightarrow> GetMN l h
       | Some s \<Rightarrow> map_option (\<lambda>mn. mn\<lparr>mn_state := s\<rparr>) (GetMN l h))"
    and "mnlist_ok Hash l \<Longrightarrow> mnlist_ok Hash (BatchUpdateMNStates Hash l ups)"
proof -
  let ?f = "fold (\<lambda>(h, s) l. UpdateMN Hash l h s) ups"
  have "GetMN (?f l) h = (case map_of ups h of None \<Rightarrow> GetMN l h
       | Some s \<Rightarrow> map_option (\<lambda>mn. mn\<lparr>mn_state := s\<rparr>) (GetMN l h)) \<and>
     (mnlist_ok Hash l \<longrightarrow> mnlist_ok Hash (?f l))"
    using assms
  proof (induction ups arbitrary: l)
    case Nil
    then show ?case by simp
  next
    case (Cons u ups)
    obtain g s where u: "u = (g, s)" by (cases u)
    from Cons.prems(2) [of g s] obtain mn where mn: "GetMN l g = Some mn" "same_keys s (mn_state mn)"
      by (auto simp: u)
    let ?l = "UpdateMN Hash l g s"
    note get = GetMN_UpdateMN_same [OF mn, of Hash]
    have "\<exists>mn. GetMN ?l h = Some mn \<and> same_keys s' (mn_state mn)" if "(h, s') \<in> set ups" for h s'
    proof -
      have "h \<noteq> g" using Cons.prems(1) that by (force simp: u)
      then show ?thesis using Cons.prems(2) [of h s'] that by (simp add: get u)
    qed
    note IH = Cons.IH [OF _ this]
    have "map_of ups g = None" using Cons.prems(1) by (simp add: u map_of_eq_None_iff)
    then show ?case
      using IH Cons.prems(1) mn mnlist_ok_UpdateMN_same [OF _ mn, of Hash]
      by (auto simp: u get split: option.split)
  qed
  then show "GetMN (BatchUpdateMNStates Hash l ups) h =
      (case map_of ups h of None \<Rightarrow> GetMN l h
       | Some s \<Rightarrow> map_option (\<lambda>mn. mn\<lparr>mn_state := s\<rparr>) (GetMN l h))"
    and "mnlist_ok Hash l \<Longrightarrow> mnlist_ok Hash (BatchUpdateMNStates Hash l ups)"
    by (simp_all add: BatchUpdateMNStates_def)
qed

subsection \<open>Removal in bulk\<close>

locale keyed_store =
  fixes inv :: "'l \<Rightarrow> bool"
    and lookup :: "'l \<Rightarrow> 'k \<rightharpoonup> 'm"
    and remove :: "'l \<Rightarrow> 'k \<Rightarrow> 'l"
  assumes inv_remove: "inv l \<Longrightarrow> inv (remove l k)"
    and lookup_remove: "lookup (remove l k) = (lookup l)(k := None)"
begin

lemma inv_remove_all: "inv l \<Longrightarrow> inv (fold (\<lambda>k l. remove l k) ks l)"
  by (induction ks arbitrary: l) (simp_all add: inv_remove)

lemma lookup_remove_all: "lookup (fold (\<lambda>k l. remove l k) ks l) = lookup l |` (- set ks)"
  by (induction ks arbitrary: l) (auto simp: lookup_remove restrict_map_def fun_eq_iff)

end

interpretation mnstore: keyed_store "mnlist_ok Hash" GetMN "RemoveMN Hash" for Hash
  by unfold_locales (simp_all add: mnlist_ok_RemoveMN GetMN_RemoveMN)

lemma BatchRemoveMNs_fold: "BatchRemoveMNs Hash l hs = fold (\<lambda>h l. RemoveMN Hash l h) hs l"
  by (simp add: BatchRemoveMNs_def)

lemma mnlist_ok_BatchRemove: "mnlist_ok Hash l \<Longrightarrow> mnlist_ok Hash (BatchRemoveMNs Hash l hs)"
  by (simp add: BatchRemoveMNs_fold mnstore.inv_remove_all)

lemma GetMN_BatchRemove: "GetMN (BatchRemoveMNs Hash l hs) = GetMN l |` (- set hs)"
  by (simp add: BatchRemoveMNs_fold mnstore.lookup_remove_all)

subsection \<open>Lookups through the index\<close>

lemma find_property_iff:
  assumes ok: "mnlist_ok Hash l" and cf: "collision_free Hash (insert p (list_props l))"
  shows "find_property l (prop_hash Hash p) = Some mn \<longleftrightarrow> mn \<in> set (mns l) \<and> p \<in> mn_props mn"
proof -
  have ix: "index_exact (GetMN l) (om_find (mnUniquePropertyMap l)) (prop_hashes Hash)"
    using ok by (simp add: mnlist_ok_def)
  have "prop_hash Hash p \<in> prop_hashes Hash m \<longleftrightarrow> p \<in> mn_props m" if "GetMN l h = Some m" for h m
  proof
    assume "prop_hash Hash p \<in> prop_hashes Hash m"
    then obtain q where "q \<in> mn_props m" and e: "prop_hash Hash p = prop_hash Hash q"
      by (auto simp: prop_hashes_def)
    moreover from this that have "q \<in> insert p (list_props l)" by (auto simp: list_props_iff)
    ultimately show "p \<in> mn_props m" using collision_freeD [OF cf _ _] by blast
  qed (simp add: prop_hashes_def)
  then have "om_find (mnUniquePropertyMap l) (prop_hash Hash p) = Some h \<longleftrightarrow>
      (\<exists>m. GetMN l h = Some m \<and> p \<in> mn_props m)" for h
    unfolding index_exactD [OF ix] by blast
  note idx = this
  have "find_property l (prop_hash Hash p) = Some mn \<longleftrightarrow> (\<exists>h. GetMN l h = Some mn \<and> p \<in> mn_props mn)"
  proof (cases "om_find (mnUniquePropertyMap l) (prop_hash Hash p)")
    case None
    then have "\<not> (GetMN l h = Some mn \<and> p \<in> mn_props mn)" for h using idx [of h] by auto
    then show ?thesis using None by (auto simp: find_property_def)
  next
    case (Some g)
    then obtain m where m: "GetMN l g = Some m" "p \<in> mn_props m" using idx by blast
    have "h = g" if "GetMN l h = Some mn" "p \<in> mn_props mn" for h
      using idx [of h] Some that by simp
    then show ?thesis using Some m by (auto simp: find_property_def)
  qed
  then show ?thesis by (simp add: set_mns)
qed

subsection \<open>Payee selection\<close>

definition payee_key ::
  "(byte list \<Rightarrow> uint256) \<Rightarrow> uint256 \<Rightarrow> int \<Rightarrow> CDeterministicMN \<Rightarrow> 256 word \<times> 256 word" where
  "payee_key Hash bh ht mn = (CalcScore Hash mn bh ht, UintToArith256 (proTxHash mn))"

lemma payee_step_key:
  "payee_step Hash bh ht mn (Some w, CalcScore Hash w bh ht) =
     (if payee_key Hash bh ht mn < payee_key Hash bh ht w then (Some mn, CalcScore Hash mn bh ht)
      else (Some w, CalcScore Hash w bh ht))"
  by (auto simp: payee_step_def payee_key_def Let_def less_prod_def less_le)

lemma payee_step_first: "payee_step Hash bh ht mn (None, s) = (Some mn, CalcScore Hash mn bh ht)"
  by (simp add: payee_step_def)

lemma payee_fold:
  "\<exists>w \<in> set (m # ms). fold (payee_step Hash bh ht) ms (Some m, CalcScore Hash m bh ht) =
       (Some w, CalcScore Hash w bh ht) \<and>
     (\<forall>x \<in> set (m # ms). payee_key Hash bh ht w \<le> payee_key Hash bh ht x)"
proof (induction ms arbitrary: m)
  case Nil
  then show ?case by simp
next
  case (Cons x ms)
  show ?case
  proof (cases "payee_key Hash bh ht x < payee_key Hash bh ht m")
    case True
    with Cons.IH [of x] show ?thesis by (fastforce simp: payee_step_key)
  next
    case False
    with Cons.IH [of m] show ?thesis by (fastforce simp: payee_step_key)
  qed
qed

lemma GetMNPayee_min:
  assumes "GetMNPayee Hash p l bh ht = Some w"
  shows "w \<in> set (GetValidMNsForPayment p l ht)"
    and "m \<in> set (GetValidMNsForPayment p l ht) \<Longrightarrow> payee_key Hash bh ht w \<le> payee_key Hash bh ht m"
proof -
  obtain x xs where v: "GetValidMNsForPayment p l ht = x # xs"
    using assms by (cases "GetValidMNsForPayment p l ht") (auto simp: GetMNPayee_def)
  obtain w' where w': "w' \<in> set (x # xs)"
      "fold (payee_step Hash bh ht) xs (Some x, CalcScore Hash x bh ht) = (Some w', CalcScore Hash w' bh ht)"
      "\<forall>y \<in> set (x # xs). payee_key Hash bh ht w' \<le> payee_key Hash bh ht y"
    using payee_fold [of x xs Hash bh ht] by blast
  moreover have "GetMNPayee Hash p l bh ht = Some w'"
    using w'(2) by (simp add: GetMNPayee_def v payee_step_first)
  ultimately show "w \<in> set (GetValidMNsForPayment p l ht)"
    and "m \<in> set (GetValidMNsForPayment p l ht) \<Longrightarrow> payee_key Hash bh ht w \<le> payee_key Hash bh ht m"
    using assms by (auto simp: v)
qed

lemma GetMNPayee_None: "GetMNPayee Hash p l bh ht = None \<longleftrightarrow> GetValidMNsForPayment p l ht = []"
proof (cases "GetValidMNsForPayment p l ht")
  case Nil
  then show ?thesis by (simp add: GetMNPayee_def)
next
  case (Cons x xs)
  then show ?thesis
    using payee_fold [of x xs Hash bh ht] by (auto simp: GetMNPayee_def payee_step_first)
qed

section \<open>Stored lists read back\<close>

definition state_range :: "CDeterministicMNState \<Rightarrow> bool" where
  "state_range s \<longleftrightarrow>
     int32_ok (nRegisteredHeight s) \<and> int32_ok (nLastPaidHeight s) \<and> int32_ok (nPoSePenalty s) \<and>
     int32_ok (nPoSeRevivedHeight s) \<and> int32_ok (nPoSeBanHeight s) \<and>
     int32_ok (nLastServiceUpdateHeight s) \<and> int32_ok (nLastRegistrarUpdateHeight s) \<and>
     vec_ok (vchOperatorPubKey s) \<and> vec_ok (scriptPayout s) \<and> vec_ok (scriptOperatorPayout s)"

definition list_range :: "CDeterministicMNList \<Rightarrow> bool" where
  "list_range l \<longleftrightarrow> int32_ok (l_nHeight l) \<and> om_size (mnMap l) \<le> 0x02000000 \<and>
     om_size (mnUniquePropertyMap l) \<le> 0x02000000 \<and> list_all (\<lambda>mn. state_range (mn_state mn)) (mns l)"

interpretation mnstate: codec Serialize_CDeterministicMNState Unserialize_CDeterministicMNState state_range
  by unfold_locales
    (simp_all add: Serialize_CDeterministicMNState_def Unserialize_CDeterministicMNState_def
       state_range_def codec_read,
     auto simp: codec_iff bind_eq_Some_conv)

interpretation mncodec: codec Serialize_CDeterministicMN Unserialize_CDeterministicMN
  "\<lambda>mn. state_range (mn_state mn)"
  by unfold_locales
    (simp_all add: Serialize_CDeterministicMN_def Unserialize_CDeterministicMN_def codec_read
       mnstate.unser_ser,
     auto simp: codec_iff mnstate.unser_iff bind_eq_Some_conv)

lemmas mn_map_rt = roundtrip_map [OF u256.roundtrip_axioms mncodec.roundtrip_axioms]
lemmas index_map_rt = roundtrip_map [OF u256.roundtrip_axioms u256.roundtrip_axioms]

interpretation mnlistrt: roundtrip Serialize_CDeterministicMNList Unserialize_CDeterministicMNList list_range
proof
  fix l rest assume "list_range l"
  then have "om_size (mnMap l) \<le> 0x02000000 \<and>
      list_all (\<lambda>(k, v). True \<and> state_range (mn_state v)) (om_entries (mnMap l))"
    and "om_size (mnUniquePropertyMap l) \<le> 0x02000000 \<and>
      list_all (\<lambda>(k, v). True \<and> True) (om_entries (mnUniquePropertyMap l))"
    and "int32_ok (l_nHeight l)"
    by (auto simp: list_range_def mns_def list_all_iff)
  then show "Unserialize_CDeterministicMNList (Serialize_CDeterministicMNList l @ rest) = Some (l, rest)"
    by (simp add: Serialize_CDeterministicMNList_def Unserialize_CDeterministicMNList_def codec_read
        roundtrip.unser_ser [OF mn_map_rt] roundtrip.unser_ser [OF index_map_rt])
qed

end
