(* ===== verification/EvoDb.thy ===== *)
theory EvoDb
  imports MnList
begin

text \<open>
  The evolution database, src/src/evo/evodb.h and .cpp: a key-value store with at most one open
  transaction.  Writes and erasures go to the batch of the open transaction, if there is one, and
  to the store otherwise; reads always see the store.  The store itself (\<open>CDBWrapper\<close> over
  leveldb) is an ordered map, whose entries are what an iterator visits.  A failed \<open>assert\<close> is
  \<open>None\<close>.
\<close>

type_synonym ('k, 'v) CDBBatch = "('k \<times> 'v option) list"

record (overloaded) ('k::linorder, 'v) CEvoDB =
  evo_db :: "('k, 'v) omap"
  curDBTransaction :: "('k, 'v) CDBBatch option"
  hasTransaction :: bool

definition CEvoDB_open :: "('k::linorder, 'v) omap \<Rightarrow> ('k, 'v) CEvoDB" where
  "CEvoDB_open m = \<lparr>evo_db = m, curDBTransaction = None, hasTransaction = False\<rparr>"

definition apply_op :: "'k::linorder \<times> 'v option \<Rightarrow> ('k, 'v) omap \<Rightarrow> ('k, 'v) omap" where
  "apply_op kv m = (case snd kv of Some v \<Rightarrow> om_put (fst kv) v m | None \<Rightarrow> om_erase (fst kv) m)"

definition WriteBatch :: "('k::linorder, 'v) CDBBatch \<Rightarrow> ('k, 'v) omap \<Rightarrow> ('k, 'v) omap" where
  "WriteBatch b m = fold apply_op b m"

definition BeginTransaction :: "('k::linorder, 'v) CEvoDB \<Rightarrow> ('k, 'v) CEvoDB option" where
  "BeginTransaction d =
     (if hasTransaction d then None else Some (d\<lparr>curDBTransaction := Some [], hasTransaction := True\<rparr>))"

definition CommitTransaction :: "('k::linorder, 'v) CEvoDB \<Rightarrow> ('k, 'v) CEvoDB option" where
  "CommitTransaction d =
     (if \<not> hasTransaction d then None
      else Some (d\<lparr>evo_db := WriteBatch (the (curDBTransaction d)) (evo_db d),
                   curDBTransaction := None, hasTransaction := False\<rparr>))"

definition RollbackTransaction :: "('k::linorder, 'v) CEvoDB \<Rightarrow> ('k, 'v) CEvoDB option" where
  "RollbackTransaction d =
     (if \<not> hasTransaction d then None
      else Some (d\<lparr>curDBTransaction := None, hasTransaction := False\<rparr>))"

definition evo_Read :: "('k::linorder, 'v) CEvoDB \<Rightarrow> 'k \<Rightarrow> 'v option" where
  "evo_Read d k = om_find (evo_db d) k"

definition evo_Exists :: "('k::linorder, 'v) CEvoDB \<Rightarrow> 'k \<Rightarrow> bool" where
  "evo_Exists d k \<longleftrightarrow> om_find (evo_db d) k \<noteq> None"

definition evo_Write :: "'k::linorder \<Rightarrow> 'v \<Rightarrow> ('k, 'v) CEvoDB \<Rightarrow> ('k, 'v) CEvoDB" where
  "evo_Write k v d =
     (case curDBTransaction d of
       Some b \<Rightarrow> d\<lparr>curDBTransaction := Some (b @ [(k, Some v)])\<rparr>
     | None \<Rightarrow> d\<lparr>evo_db := om_put k v (evo_db d)\<rparr>)"

definition evo_Erase :: "'k::linorder \<Rightarrow> ('k, 'v) CEvoDB \<Rightarrow> ('k, 'v) CEvoDB" where
  "evo_Erase k d =
     (case curDBTransaction d of
       Some b \<Rightarrow> d\<lparr>curDBTransaction := Some (b @ [(k, None)])\<rparr>
     | None \<Rightarrow> d\<lparr>evo_db := om_erase k (evo_db d)\<rparr>)"

section \<open>Transactions\<close>

definition evodb_ok :: "('k::linorder, 'v) CEvoDB \<Rightarrow> bool" where
  "evodb_ok d \<longleftrightarrow> (hasTransaction d \<longleftrightarrow> curDBTransaction d \<noteq> None)"

definition idle :: "('k::linorder, 'v) CEvoDB \<Rightarrow> bool" where
  "idle d \<longleftrightarrow> evodb_ok d \<and> \<not> hasTransaction d"

lemma idle_cur: "idle d \<longleftrightarrow> curDBTransaction d = None \<and> \<not> hasTransaction d"
  by (auto simp: idle_def evodb_ok_def)

lemma idle_open [simp]: "idle (CEvoDB_open m)"
  by (simp add: idle_cur CEvoDB_open_def)

definition db_op :: "'k::linorder \<times> 'v option \<Rightarrow> ('k, 'v) CEvoDB \<Rightarrow> ('k, 'v) CEvoDB" where
  "db_op kv d = (case snd kv of Some v \<Rightarrow> evo_Write (fst kv) v d | None \<Rightarrow> evo_Erase (fst kv) d)"

lemma db_op_simps:
  "curDBTransaction d = None \<Longrightarrow> db_op kv d = d\<lparr>evo_db := apply_op kv (evo_db d)\<rparr>"
  "curDBTransaction d = Some b \<Longrightarrow> db_op kv d = d\<lparr>curDBTransaction := Some (b @ [kv])\<rparr>"
  by (cases kv; auto simp: db_op_def evo_Write_def evo_Erase_def apply_op_def split: option.splits)+

lemma db_ops_direct:
  "curDBTransaction d = None \<Longrightarrow> fold db_op ops d = d\<lparr>evo_db := WriteBatch ops (evo_db d)\<rparr>"
  by (induction ops arbitrary: d) (simp_all add: db_op_simps WriteBatch_def)

lemma db_ops_batched:
  "curDBTransaction d = Some b \<Longrightarrow> fold db_op ops d = d\<lparr>curDBTransaction := Some (b @ ops)\<rparr>"
  by (induction ops arbitrary: d b) (simp_all add: db_op_simps)

lemma db_op_idle: "idle d \<Longrightarrow> idle (db_op kv d)"
  by (simp add: db_op_simps idle_cur)

subsection \<open>The store outside a transaction\<close>

locale kv_store =
  fixes idle_st :: "'s \<Rightarrow> bool"
    and get :: "'s \<Rightarrow> 'k \<rightharpoonup> 'v"
    and put :: "'k \<Rightarrow> 'v \<Rightarrow> 's \<Rightarrow> 's"
    and del :: "'k \<Rightarrow> 's \<Rightarrow> 's"
  assumes idle_put: "idle_st s \<Longrightarrow> idle_st (put k v s)"
    and idle_del: "idle_st s \<Longrightarrow> idle_st (del k s)"
    and get_put: "idle_st s \<Longrightarrow> get (put k v s) = (get s)(k \<mapsto> v)"
    and get_del: "idle_st s \<Longrightarrow> get (del k s) = (get s)(k := None)"
begin

lemma idle_put_all: "idle_st s \<Longrightarrow> idle_st (fold (\<lambda>(k, v). put k v) kvs s)"
  by (induction kvs arbitrary: s) (auto simp: idle_put)

lemma get_put_all:
  "idle_st s \<Longrightarrow> distinct (map fst kvs) \<Longrightarrow> get (fold (\<lambda>(k, v). put k v) kvs s) = get s ++ map_of kvs"
proof (induction kvs arbitrary: s)
  case Nil
  then show ?case by simp
next
  case (Cons kv kvs)
  obtain k v where kv: "kv = (k, v)" by (cases kv)
  with Cons.prems have "map_of kvs k = None" by (simp add: map_of_eq_None_iff)
  then show ?case
    using Cons by (auto simp: kv idle_put get_put fun_eq_iff map_add_def split: option.split)
qed

end

interpretation evostore: kv_store idle evo_Read evo_Write evo_Erase
  by unfold_locales
    (auto simp: evo_Read_def evo_Write_def evo_Erase_def idle_cur)

declare evostore.idle_put [simp] evostore.idle_del [simp]

end
