(* ===== verification/Pose.thy ===== *)
theory Pose
  imports EvoDb
begin

text \<open>
  Proof of Service, src/src/evo/pose.h and .cpp: the penalty bookkeeping per masternode, the
  undo log that lets a block's changes be rolled back, and the application of the penalties to
  the masternode list.

  \<open>evo_key\<close> and \<open>evo_val\<close> are the records the evolution database holds, for this manager, for the
  masternode list manager and for the ChainLocks manager; keys are ordered as leveldb orders their encodings, so that
  the scans of \<open>Init\<close> are modelled as the scans they are.  Every operation takes and returns
  the manager together with the database it writes to.
\<close>

section \<open>Data\<close>

record CPoSeState =
  penaltyScore :: int
  missedSessions :: int
  lastProcessedHeight :: int

definition CPoSeState_default :: CPoSeState where
  "CPoSeState_default = \<lparr>penaltyScore = 0, missedSessions = 0, lastProcessedHeight = 0\<rparr>"

record CPoSeUndoEntry =
  ue_proTxHash :: uint256
  previousState :: CPoSeState
  blockHeight :: int

record CPoSeManager =
  stateMap :: "(uint256, CPoSeState) omap"
  penalizedThisSession :: "uint256 set"
  m_lastProcessedHeight :: int
  fDirty :: bool
  undoEntries :: "(int, CPoSeUndoEntry list) omap"

definition CPoSeManager_new :: CPoSeManager where
  "CPoSeManager_new = \<lparr>stateMap = om_empty, penalizedThisSession = {}, m_lastProcessedHeight = 0,
     fDirty = False, undoEntries = om_empty\<rparr>"

definition MAX_UNDO_HISTORY :: nat where "MAX_UNDO_HISTORY = 100"

section \<open>Records of the evolution database\<close>

text \<open>A signature is \<open>None\<close> where the C++ object is null, that is not valid.\<close>

type_synonym CBLSSignature = "byte list option"

record CChainLockSig =
  cl_nHeight :: int
  cl_blockHash :: uint256
  cl_sig :: CBLSSignature

datatype evo_key = DB_POSE_STATE uint256 | DB_POSE_HEIGHT | DB_POSE_UNDO u32
  | DB_LIST_SNAPSHOT uint256 | DB_MN_VERSION
  | DB_CHAINLOCK_BY_HEIGHT u32 | DB_CHAINLOCK_BY_HASH uint256 | DB_CHAINLOCK_BEST_HEIGHT
  | DB_CHAINLOCK_BEST_HASH | DB_CHAINLOCK_ACTIVATION_HEIGHT

datatype evo_val = V_POSE_STATE CPoSeState | V_INT int | V_UNDO "CPoSeUndoEntry list"
  | V_LIST CDeterministicMNList | V_HASH uint256 | V_CLSIG CChainLockSig

fun key_bytes :: "evo_key \<Rightarrow> byte list" where
  "key_bytes (DB_POSE_STATE h) = Serialize_string ''pose_s'' @ Serialize_uint256 h"
| "key_bytes DB_POSE_HEIGHT = Serialize_string ''pose_h''"
| "key_bytes (DB_POSE_UNDO w) = Serialize_string ''pose_u'' @ ser_writedata32 w"
| "key_bytes (DB_LIST_SNAPSHOT h) = Serialize_string ''dmn_S'' @ Serialize_uint256 h"
| "key_bytes DB_MN_VERSION = Serialize_string ''dmn_ver''"
| "key_bytes (DB_CHAINLOCK_BY_HEIGHT w) = Serialize_string ''clsig_h'' @ ser_writedata32 w"
| "key_bytes (DB_CHAINLOCK_BY_HASH h) = Serialize_string ''clsig_b'' @ Serialize_uint256 h"
| "key_bytes DB_CHAINLOCK_BEST_HEIGHT = Serialize_string ''clsig_best_h''"
| "key_bytes DB_CHAINLOCK_BEST_HASH = Serialize_string ''clsig_best_b''"
| "key_bytes DB_CHAINLOCK_ACTIVATION_HEIGHT = Serialize_string ''clsig_activation''"

lemma key_tags:
  "Serialize_string ''pose_s'' = [6, 112, 111, 115, 101, 95, 115]"
  "Serialize_string ''pose_h'' = [6, 112, 111, 115, 101, 95, 104]"
  "Serialize_string ''pose_u'' = [6, 112, 111, 115, 101, 95, 117]"
  "Serialize_string ''dmn_S'' = [5, 100, 109, 110, 95, 83]"
  "Serialize_string ''dmn_ver'' = [7, 100, 109, 110, 95, 118, 101, 114]"
  "Serialize_string ''clsig_h'' = [7, 99, 108, 115, 105, 103, 95, 104]"
  "Serialize_string ''clsig_b'' = [7, 99, 108, 115, 105, 103, 95, 98]"
  "Serialize_string ''clsig_best_h'' = [12, 99, 108, 115, 105, 103, 95, 98, 101, 115, 116, 95, 104]"
  "Serialize_string ''clsig_best_b'' = [12, 99, 108, 115, 105, 103, 95, 98, 101, 115, 116, 95, 98]"
  "Serialize_string ''clsig_activation'' = [16, 99, 108, 115, 105, 103, 95, 97, 99, 116, 105, 118, 97, 116, 105, 111, 110]"
  by (simp_all add: Serialize_string_def Serialize_bytes_def WriteCompactSize_def ser_writedata8_def)

lemma key_bytes_inject: "key_bytes a = key_bytes b \<longleftrightarrow> a = b"
  by (cases a; cases b) (simp_all add: key_tags u256.ser_inject c32.ser_inject)

instantiation evo_key :: linorder
begin

definition less_evo_key :: "evo_key \<Rightarrow> evo_key \<Rightarrow> bool" where
  "less_evo_key a b \<longleftrightarrow> key_bytes a < key_bytes b"

definition less_eq_evo_key :: "evo_key \<Rightarrow> evo_key \<Rightarrow> bool" where
  "less_eq_evo_key a b \<longleftrightarrow> key_bytes a \<le> key_bytes b"

instance
  by standard (auto simp: less_evo_key_def less_eq_evo_key_def key_bytes_inject less_le)

end

type_synonym evodb = "(evo_key, evo_val) CEvoDB"
type_synonym pose = "CPoSeManager \<times> evodb"

definition undo_key :: "int \<Rightarrow> evo_key" where
  "undo_key h = DB_POSE_UNDO (word_of_int h)"

definition read_pose_state :: "evodb \<Rightarrow> uint256 \<Rightarrow> CPoSeState option" where
  "read_pose_state d h = (case evo_Read d (DB_POSE_STATE h) of Some (V_POSE_STATE s) \<Rightarrow> Some s | _ \<Rightarrow> None)"

definition read_undo :: "evodb \<Rightarrow> int \<Rightarrow> CPoSeUndoEntry list option" where
  "read_undo d h = (case evo_Read d (undo_key h) of Some (V_UNDO es) \<Rightarrow> Some es | _ \<Rightarrow> None)"

definition read_int :: "evodb \<Rightarrow> evo_key \<Rightarrow> int \<Rightarrow> int" where
  "read_int d k dflt = (case evo_Read d k of Some (V_INT i) \<Rightarrow> i | _ \<Rightarrow> dflt)"

section \<open>Operations\<close>

text \<open>The iterator: seek to a key, then read entries as long as they decode as the wanted records.\<close>

definition seek :: "evodb \<Rightarrow> evo_key \<Rightarrow> (evo_key \<times> evo_val) list" where
  "seek d k = dropWhile (\<lambda>e. fst e < k) (om_entries (evo_db d))"

fun is_pose_state :: "evo_key \<times> evo_val \<Rightarrow> bool" where
  "is_pose_state (DB_POSE_STATE h, v) = True"
| "is_pose_state _ = False"

fun load_state :: "evo_key \<times> evo_val \<Rightarrow> (uint256, CPoSeState) omap \<Rightarrow> (uint256, CPoSeState) omap" where
  "load_state (DB_POSE_STATE h, V_POSE_STATE s) m = om_put h s m"
| "load_state _ m = m"

definition load_undo :: "evodb \<Rightarrow> int \<Rightarrow> (int, CPoSeUndoEntry list) omap \<Rightarrow> (int, CPoSeUndoEntry list) omap" where
  "load_undo d h m = (case read_undo d h of Some es \<Rightarrow> om_put h es m | None \<Rightarrow> m)"

definition Pose_Init :: "pose \<Rightarrow> pose" where
  "Pose_Init = (\<lambda>(m, d).
     (let last = read_int d DB_POSE_HEIGHT (m_lastProcessedHeight m);
          states = takeWhile is_pose_state (seek d (DB_POSE_STATE uint256_null));
          heights = filter (\<lambda>h. h \<ge> 0) (rev [last - int MAX_UNDO_HISTORY + 1 .. last])
      in (m\<lparr>m_lastProcessedHeight := last,
            stateMap := fold load_state states (stateMap m),
            undoEntries := fold (load_undo d) heights (undoEntries m)\<rparr>, d)))"

definition Pose_Flush :: "pose \<Rightarrow> pose" where
  "Pose_Flush = (\<lambda>(m, d).
     if \<not> fDirty m then (m, d)
     else (m\<lparr>fDirty := False\<rparr>,
           evo_Write DB_POSE_HEIGHT (V_INT (m_lastProcessedHeight m))
             (fold (\<lambda>(h, s). evo_Write (DB_POSE_STATE h) (V_POSE_STATE s)) (om_entries (stateMap m)) d)))"

definition state_or_default :: "CPoSeManager \<Rightarrow> uint256 \<Rightarrow> CPoSeState" where
  "state_or_default m h = (case om_find (stateMap m) h of Some s \<Rightarrow> s | None \<Rightarrow> CPoSeState_default)"

definition IncrementPenalty :: "uint256 \<Rightarrow> int \<Rightarrow> pose \<Rightarrow> pose" where
  "IncrementPenalty h amount = (\<lambda>(m, d).
     if amount \<le> 0 then (m, d)
     else (let s = state_or_default m h in
       (m\<lparr>stateMap := om_put h (s\<lparr>penaltyScore := penaltyScore s + amount\<rparr>) (stateMap m),
          fDirty := True\<rparr>, d)))"

definition DecrementPenalty :: "uint256 \<Rightarrow> int \<Rightarrow> pose \<Rightarrow> pose" where
  "DecrementPenalty h amount = (\<lambda>(m, d).
     if amount \<le> 0 then (m, d)
     else case om_find (stateMap m) h of
       None \<Rightarrow> (m, d)
     | Some s \<Rightarrow>
         (let s' = s\<lparr>penaltyScore := max 0 (penaltyScore s - amount)\<rparr> in
          if penaltyScore s' = 0 \<and> missedSessions s' = 0
          then (m\<lparr>stateMap := om_erase h (stateMap m), fDirty := True\<rparr>, evo_Erase (DB_POSE_STATE h) d)
          else (m\<lparr>stateMap := om_put h s' (stateMap m), fDirty := True\<rparr>, d)))"

definition GetPenaltyScore :: "CPoSeManager \<Rightarrow> uint256 \<Rightarrow> int" where
  "GetPenaltyScore m h = (case om_find (stateMap m) h of Some s \<Rightarrow> penaltyScore s | None \<Rightarrow> 0)"

definition GetMissedSessions :: "CPoSeManager \<Rightarrow> uint256 \<Rightarrow> int" where
  "GetMissedSessions m h = (case om_find (stateMap m) h of Some s \<Rightarrow> missedSessions s | None \<Rightarrow> 0)"

definition Pose_GetState :: "CPoSeManager \<Rightarrow> uint256 \<Rightarrow> CPoSeState option" where
  "Pose_GetState m h = om_find (stateMap m) h"

definition GetAllPenalties :: "CPoSeManager \<Rightarrow> (uint256, int) omap" where
  "GetAllPenalties m = fold (\<lambda>(h, s) r. if penaltyScore s > 0 then om_put h (penaltyScore s) r else r)
     (om_entries (stateMap m)) om_empty"

definition punish_update :: "int \<Rightarrow> int \<Rightarrow> int \<Rightarrow> CDeterministicMNState \<Rightarrow> CDeterministicMNState" where
  "punish_update currentHeight banThreshold penalty s =
     (let s' = s\<lparr>nPoSePenalty := penalty\<rparr> in
      if penalty \<ge> banThreshold then s'\<lparr>nPoSeBanHeight := currentHeight\<rparr> else s')"

definition punish_updates ::
  "CPoSeManager \<Rightarrow> CDeterministicMNList \<Rightarrow> int \<Rightarrow> int \<Rightarrow> (uint256 \<times> CDeterministicMNState) list" where
  "punish_updates m l currentHeight banThreshold =
     map (\<lambda>(h, ps). (h, punish_update currentHeight banThreshold (penaltyScore ps) (mn_state (the (GetMN l h)))))
     (filter (\<lambda>(h, ps). case GetMN l h of None \<Rightarrow> False | Some mn \<Rightarrow> \<not> IsBanned (mn_state mn))
     (om_entries (stateMap m)))"

text \<open>The penalty increment is an argument of the C++ function too, and unused there.\<close>

definition CheckAndPunish ::
  "(byte list \<Rightarrow> uint256) \<Rightarrow> CPoSeManager \<Rightarrow> CDeterministicMNList \<Rightarrow> int \<Rightarrow> int \<Rightarrow> int \<Rightarrow> CDeterministicMNList" where
  "CheckAndPunish Hash m l currentHeight penaltyIncrement banThreshold =
     BatchUpdateMNStates Hash l (punish_updates m l currentHeight banThreshold)"

definition ResetPenalty :: "uint256 \<Rightarrow> pose \<Rightarrow> pose" where
  "ResetPenalty h = (\<lambda>(m, d).
     case om_find (stateMap m) h of
       None \<Rightarrow> (m, d)
     | Some _ \<Rightarrow> (m\<lparr>stateMap := om_erase h (stateMap m), fDirty := False\<rparr>, evo_Erase (DB_POSE_STATE h) d))"

definition ClearSessionTracking :: "CPoSeManager \<Rightarrow> CPoSeManager" where
  "ClearSessionTracking m = m\<lparr>penalizedThisSession := {}\<rparr>"

definition RecordMissedSession :: "Params \<Rightarrow> uint256 \<Rightarrow> CPoSeManager \<Rightarrow> CPoSeManager" where
  "RecordMissedSession p h m =
     (let s = state_or_default m h;
          s1 = s\<lparr>missedSessions := missedSessions s + 1, lastProcessedHeight := m_lastProcessedHeight m\<rparr>;
          m1 = m\<lparr>stateMap := om_put h s1 (stateMap m)\<rparr>
      in if h \<in> penalizedThisSession m then m1
         else m1\<lparr>penalizedThisSession := insert h (penalizedThisSession m),
                 stateMap := om_put h (s1\<lparr>penaltyScore := penaltyScore s1 + nPoSePenaltyIncrement p\<rparr>) (stateMap m1),
                 fDirty := True\<rparr>)"

definition RecordParticipation :: "uint256 \<Rightarrow> pose \<Rightarrow> pose" where
  "RecordParticipation h = (\<lambda>(m, d).
     case om_find (stateMap m) h of
       None \<Rightarrow> (m, d)
     | Some s \<Rightarrow>
        (let s1 = s\<lparr>missedSessions := 0, lastProcessedHeight := m_lastProcessedHeight m\<rparr> in
         if penaltyScore s1 > 0 then
           (let s2 = s1\<lparr>penaltyScore := max 0 (penaltyScore s1 - 1)\<rparr> in
            if penaltyScore s2 = 0 \<and> missedSessions s2 = 0
            then (m\<lparr>stateMap := om_erase h (stateMap m), fDirty := True\<rparr>, evo_Erase (DB_POSE_STATE h) d)
            else (m\<lparr>stateMap := om_put h s2 (stateMap m), fDirty := True\<rparr>, d))
         else (m\<lparr>stateMap := om_put h s1 (stateMap m)\<rparr>, d)))"

subsection \<open>The undo log\<close>

definition undo_entry :: "CPoSeManager \<Rightarrow> int \<Rightarrow> uint256 \<Rightarrow> CPoSeUndoEntry" where
  "undo_entry m bh h = \<lparr>ue_proTxHash = h, previousState = state_or_default m h, blockHeight = bh\<rparr>"

lemma om_size_erase_hd: "om_entries m \<noteq> [] \<Longrightarrow> om_size (om_erase (fst (hd (om_entries m))) m) < om_size m"
proof -
  assume "om_entries m \<noteq> []"
  then have "fst (hd (om_entries m)) \<in> dom (om_find m)"
    using om_key_iff [of "fst (hd (om_entries m))" m] by (auto intro: hd_in_set)
  then show ?thesis
    by (simp add: om_size_card card_Diff1_less del: card_Diff_insert)
qed

function trim_undo :: "pose \<Rightarrow> pose" where
  "trim_undo (m, d) =
     (if om_size (undoEntries m) > MAX_UNDO_HISTORY then
        (let oldest = fst (hd (om_entries (undoEntries m))) in
         trim_undo (m\<lparr>undoEntries := om_erase oldest (undoEntries m)\<rparr>, evo_Erase (undo_key oldest) d))
      else (m, d))"
  by pat_completeness auto

termination
proof (relation "measure (\<lambda>(m, d). om_size (undoEntries m))")
  show "wf (measure (\<lambda>(m, d). om_size (undoEntries m)))" by simp
next
  fix m :: CPoSeManager and d :: evodb and k
  assume "MAX_UNDO_HISTORY < om_size (undoEntries m)" and k: "k = fst (hd (om_entries (undoEntries m)))"
  then have "om_entries (undoEntries m) \<noteq> []" by (auto simp: om_size_def)
  then show "((m\<lparr>undoEntries := om_erase k (undoEntries m)\<rparr>, evo_Erase (undo_key k) d), (m, d)) \<in>
      measure (\<lambda>(m, d). om_size (undoEntries m))"
    by (simp add: k om_size_erase_hd)
qed

declare trim_undo.simps [simp del]

definition PrepareUndo :: "int \<Rightarrow> uint256 list \<Rightarrow> pose \<Rightarrow> pose" where
  "PrepareUndo bh affectedMNs = (\<lambda>(m, d).
     (let entries = map (undo_entry m bh) affectedMNs in
      trim_undo (m\<lparr>undoEntries := om_put bh entries (undoEntries m)\<rparr>,
                 evo_Write (undo_key bh) (V_UNDO entries) d)))"

definition ProcessQuorumSession :: "Params \<Rightarrow> uint256 list \<Rightarrow> uint256 list \<Rightarrow> int \<Rightarrow> pose \<Rightarrow> pose" where
  "ProcessQuorumSession p participants expectedMembers currentHeight st =
     (let (m, d) = PrepareUndo currentHeight expectedMembers st;
          m = (ClearSessionTracking m)\<lparr>m_lastProcessedHeight := currentHeight, fDirty := True\<rparr>
      in fold (\<lambda>h st. if h \<in> set participants then RecordParticipation h st
                      else (RecordMissedSession p h (fst st), snd st)) expectedMembers (m, d))"

definition restore_entry :: "CPoSeUndoEntry \<Rightarrow> pose \<Rightarrow> pose" where
  "restore_entry e = (\<lambda>(m, d).
     if penaltyScore (previousState e) = 0 \<and> missedSessions (previousState e) = 0 \<and>
        lastProcessedHeight (previousState e) = 0
     then (m\<lparr>stateMap := om_erase (ue_proTxHash e) (stateMap m)\<rparr>,
           evo_Erase (DB_POSE_STATE (ue_proTxHash e)) d)
     else (m\<lparr>stateMap := om_put (ue_proTxHash e) (previousState e) (stateMap m)\<rparr>,
           evo_Write (DB_POSE_STATE (ue_proTxHash e)) (V_POSE_STATE (previousState e)) d))"

definition Pose_UndoBlock :: "int \<Rightarrow> pose \<Rightarrow> bool \<times> pose" where
  "Pose_UndoBlock bh = (\<lambda>(m, d).
     case (case om_find (undoEntries m) bh of Some es \<Rightarrow> Some es | None \<Rightarrow> read_undo d bh) of
       None \<Rightarrow> (False, (m, d))
     | Some es \<Rightarrow>
        (let (m, d) = fold restore_entry es (m\<lparr>undoEntries := om_put bh es (undoEntries m)\<rparr>, d);
             d = evo_Erase (undo_key bh) d;
             m = m\<lparr>undoEntries := om_erase bh (undoEntries m)\<rparr>
         in if m_lastProcessedHeight m = bh
            then (True, (m\<lparr>m_lastProcessedHeight := bh - 1\<rparr>, evo_Write DB_POSE_HEIGHT (V_INT (bh - 1)) d))
            else (True, (m, d))))"

definition VerifyConsistency :: "CPoSeManager \<Rightarrow> int \<Rightarrow> bool" where
  "VerifyConsistency m expectedHeight \<longleftrightarrow> m_lastProcessedHeight m = expectedHeight \<and>
     list_all (\<lambda>(h, s). \<not> lastProcessedHeight s > expectedHeight) (om_entries (stateMap m))"

definition InitPoSe :: "evodb \<Rightarrow> pose" where
  "InitPoSe d = Pose_Init (CPoSeManager_new, d)"

definition StopPoSe :: "pose \<Rightarrow> evodb" where
  "StopPoSe st = snd (Pose_Flush st)"

section \<open>Punishment\<close>

lemma same_keys_punish: "same_keys (punish_update ht th pen s) s"
  by (simp add: punish_update_def same_keys_def Let_def)

definition punished ::
  "CPoSeManager \<Rightarrow> int \<Rightarrow> int \<Rightarrow> uint256 \<Rightarrow> CDeterministicMN \<Rightarrow> CDeterministicMN" where
  "punished m ht th h mn =
     (if IsBanned (mn_state mn) then mn
      else case om_find (stateMap m) h of
        None \<Rightarrow> mn
      | Some ps \<Rightarrow> mn\<lparr>mn_state := punish_update ht th (penaltyScore ps) (mn_state mn)\<rparr>)"

lemma map_of_map_keyed: "map_of (map (\<lambda>(k, x). (k, f k x)) es) k = map_option (f k) (map_of es k)"
  by (induction es) auto

lemma map_of_filter_keyed:
  "distinct (map fst es) \<Longrightarrow> map_of (filter (\<lambda>(k, x). P k x) es) k =
     (case map_of es k of None \<Rightarrow> None | Some x \<Rightarrow> if P k x then Some x else None)"
  by (induction es) (auto simp: map_of_eq_None_iff split: option.splits)

lemma punish_updates_keys: "distinct (map fst (punish_updates m l ht th))"
proof -
  have "map fst (punish_updates m l ht th) =
      map fst (filter (\<lambda>(h, ps). case GetMN l h of None \<Rightarrow> False | Some mn \<Rightarrow> \<not> IsBanned (mn_state mn))
        (om_entries (stateMap m)))"
    by (simp add: punish_updates_def comp_def case_prod_unfold)
  then show ?thesis by (simp add: distinct_map_filter)
qed

lemma punish_updates_same:
  "(h, s) \<in> set (punish_updates m l ht th) \<Longrightarrow> \<exists>mn. GetMN l h = Some mn \<and> same_keys s (mn_state mn)"
  by (auto simp: punish_updates_def same_keys_punish split: option.splits)

lemma GetMN_CheckAndPunish:
  "GetMN (CheckAndPunish Hash m l ht inc th) h = map_option (punished m ht th h) (GetMN l h)"
proof -
  have "map_of (punish_updates m l ht th) h =
      (case om_find (stateMap m) h of None \<Rightarrow> None
       | Some ps \<Rightarrow> (case GetMN l h of None \<Rightarrow> None
         | Some mn \<Rightarrow> if IsBanned (mn_state mn) then None
                     else Some (punish_update ht th (penaltyScore ps) (mn_state mn))))"
    by (simp add: punish_updates_def map_of_map_keyed map_of_filter_keyed om_find_def split: option.split)
  moreover have "GetMN (CheckAndPunish Hash m l ht inc th) h =
      (case map_of (punish_updates m l ht th) h of None \<Rightarrow> GetMN l h
       | Some s \<Rightarrow> map_option (\<lambda>mn. mn\<lparr>mn_state := s\<rparr>) (GetMN l h))"
    unfolding CheckAndPunish_def by (rule BatchUpdate_same(1) [OF punish_updates_keys punish_updates_same])
  ultimately show ?thesis
    by (cases "GetMN l h") (auto simp: punished_def split: option.splits)
qed

lemma mnlist_ok_CheckAndPunish: "mnlist_ok Hash l \<Longrightarrow> mnlist_ok Hash (CheckAndPunish Hash m l ht inc th)"
  unfolding CheckAndPunish_def by (rule BatchUpdate_same(2) [OF punish_updates_keys punish_updates_same])

section \<open>The undo log restores what it recorded\<close>

abbreviation oldest_undo :: "CPoSeManager \<Rightarrow> int" where
  "oldest_undo m \<equiv> fst (hd (om_entries (undoEntries m)))"

lemma trim_undo_inv:
  assumes "P st"
    and "\<And>m d. P (m, d) \<Longrightarrow> MAX_UNDO_HISTORY < om_size (undoEntries m) \<Longrightarrow>
      P (m\<lparr>undoEntries := om_erase (oldest_undo m) (undoEntries m)\<rparr>, evo_Erase (undo_key (oldest_undo m)) d)"
  shows "P (trim_undo st)"
  using assms(1)
proof (induction st rule: trim_undo.induct)
  case (1 m d)
  then show ?case
    using assms(2) [of m d] by (subst trim_undo.simps) (simp add: Let_def)
qed

lemma trim_undo_frame:
  "stateMap (fst (trim_undo (m, d))) = stateMap m"
  "m_lastProcessedHeight (fst (trim_undo (m, d))) = m_lastProcessedHeight m"
  "fDirty (fst (trim_undo (m, d))) = fDirty m"
  by (rule trim_undo_inv; simp)+

lemma trim_undo_idle: "idle d \<Longrightarrow> idle (snd (trim_undo (m, d)))"
  by (rule trim_undo_inv [where P = "\<lambda>st. idle (snd st)"]) simp_all

lemma read_pose_state_write:
  "idle d \<Longrightarrow> read_pose_state (evo_Write k v d) h =
     (if k = DB_POSE_STATE h then (case v of V_POSE_STATE s \<Rightarrow> Some s | _ \<Rightarrow> None) else read_pose_state d h)"
  "idle d \<Longrightarrow> read_pose_state (evo_Erase k d) h =
     (if k = DB_POSE_STATE h then None else read_pose_state d h)"
  by (auto simp: read_pose_state_def evostore.get_put evostore.get_del)

lemma trim_undo_state_keys:
  assumes "idle d"
  shows "read_pose_state (snd (trim_undo (m, d))) h = read_pose_state d h"
proof -
  have "idle (snd (trim_undo (m, d))) \<and> read_pose_state (snd (trim_undo (m, d))) h = read_pose_state d h"
    by (rule trim_undo_inv [where P = "\<lambda>st. idle (snd st) \<and> read_pose_state (snd st) h = read_pose_state d h"])
      (simp_all add: assms read_pose_state_write undo_key_def)
  then show ?thesis by simp
qed

lemma trim_undo_size: "om_size (undoEntries (fst (trim_undo st))) \<le> MAX_UNDO_HISTORY"
proof (induction st rule: trim_undo.induct)
  case (1 m d)
  then show ?case by (subst trim_undo.simps) (simp add: Let_def)
qed

lemma hd_below:
  assumes "om_find m k = Some v" and "1 < om_size m" and "\<And>k'. om_find m k' \<noteq> None \<Longrightarrow> k' \<le> k"
  shows "fst (hd (om_entries m)) < k"
proof -
  obtain e f es where es: "om_entries m = e # f # es"
    using assms(2) by (cases "om_entries m" rule: remdups_adj.cases) (auto simp: om_size_def)
  then have "fst e < fst f" using om_entries_sorted [of m] by simp
  moreover have "fst f \<le> k"
    by (rule assms(3)) (use om_key_iff [of "fst f" m] in \<open>simp add: es\<close>)
  ultimately show ?thesis by (simp add: es)
qed

lemma trim_undo_keeps_top:
  assumes "om_find (undoEntries m) k = Some es" and "\<And>k'. om_find (undoEntries m) k' \<noteq> None \<Longrightarrow> k' \<le> k"
  shows "om_find (undoEntries (fst (trim_undo (m, d)))) k = Some es"
proof -
  let ?P = "\<lambda>st. om_find (undoEntries (fst st)) k = Some es \<and>
    (\<forall>k'. om_find (undoEntries (fst st)) k' \<noteq> None \<longrightarrow> k' \<le> k)"
  have "?P (trim_undo (m, d))"
  proof (rule trim_undo_inv [where P = ?P])
    show "?P (m, d)" using assms by simp
  next
    fix m :: CPoSeManager and d :: evodb
    assume P: "?P (m, d)" and "MAX_UNDO_HISTORY < om_size (undoEntries m)"
    then have "oldest_undo m < k" by (intro hd_below) (auto simp: MAX_UNDO_HISTORY_def)
    with P show "?P (m\<lparr>undoEntries := om_erase (oldest_undo m) (undoEntries m)\<rparr>,
        evo_Erase (undo_key (oldest_undo m)) d)" by simp
  qed
  then show ?thesis ..
qed

definition nonzero_states :: "CPoSeManager \<Rightarrow> bool" where
  "nonzero_states m \<longleftrightarrow> (\<forall>h. om_find (stateMap m) h \<noteq> Some CPoSeState_default)"

lemma restore_entry_eq:
  assumes "nonzero_states m"
  shows "restore_entry (undo_entry m bh h) (m', d) =
    (m'\<lparr>stateMap := (case om_find (stateMap m) h of None \<Rightarrow> om_erase h (stateMap m')
                    | Some s \<Rightarrow> om_put h s (stateMap m'))\<rparr>,
     (case om_find (stateMap m) h of None \<Rightarrow> evo_Erase (DB_POSE_STATE h) d
      | Some s \<Rightarrow> evo_Write (DB_POSE_STATE h) (V_POSE_STATE s) d))"
proof -
  have "\<not> (penaltyScore s = 0 \<and> missedSessions s = 0 \<and> lastProcessedHeight s = 0)"
    if "om_find (stateMap m) h = Some s" for s
  proof
    assume "penaltyScore s = 0 \<and> missedSessions s = 0 \<and> lastProcessedHeight s = 0"
    then have "s = CPoSeState_default" by (simp add: CPoSeState_default_def)
    with assms that show False by (simp add: nonzero_states_def)
  qed
  then show ?thesis
    by (cases "om_find (stateMap m) h")
      (auto simp: restore_entry_def undo_entry_def state_or_default_def CPoSeState_default_def)
qed

lemma restore_all:
  assumes "nonzero_states m" and "idle d"
  shows "\<exists>sm d'. fold restore_entry (map (undo_entry m bh) aff) (m', d) = (m'\<lparr>stateMap := sm\<rparr>, d') \<and> idle d' \<and>
    (\<forall>h. om_find sm h = (if h \<in> set aff then om_find (stateMap m) h else om_find (stateMap m') h)) \<and>
    (\<forall>h. read_pose_state d' h = (if h \<in> set aff then om_find (stateMap m) h else read_pose_state d h)) "
  using assms(2)
proof (induction aff arbitrary: m' d)
  case Nil
  then show ?case by (intro exI [of _ "stateMap m'"] exI [of _ d]) simp
next
  case (Cons a aff)
  let ?m = "m'\<lparr>stateMap := (case om_find (stateMap m) a of None \<Rightarrow> om_erase a (stateMap m')
                    | Some s \<Rightarrow> om_put a s (stateMap m'))\<rparr>"
    and ?d = "case om_find (stateMap m) a of None \<Rightarrow> evo_Erase (DB_POSE_STATE a) d
      | Some s \<Rightarrow> evo_Write (DB_POSE_STATE a) (V_POSE_STATE s) d"
  have "idle ?d"
    using Cons.prems by (simp split: option.split)
  from Cons.IH [OF this, of ?m] obtain sm d' where
    *: "fold restore_entry (map (undo_entry m bh) aff) (?m, ?d) = (?m\<lparr>stateMap := sm\<rparr>, d')" "idle d'"
      "\<forall>h. om_find sm h = (if h \<in> set aff then om_find (stateMap m) h else om_find (stateMap ?m) h)"
      "\<forall>h. read_pose_state d' h = (if h \<in> set aff then om_find (stateMap m) h else read_pose_state ?d h)"
    by blast
  have "read_pose_state ?d h = (if h = a then om_find (stateMap m) a else read_pose_state d h)" for h
    using Cons.prems by (auto simp: read_pose_state_write split: option.split)
  moreover have "om_find (stateMap ?m) h = (if h = a then om_find (stateMap m) a else om_find (stateMap m') h)" for h
    by (simp split: option.split)
  ultimately show ?case
    using * by (intro exI [of _ sm] exI [of _ d']) (simp add: restore_entry_eq [OF assms(1)])
qed

lemma Pose_undo_restores:
  assumes d: "idle d" and nz: "nonzero_states m"
    and top: "\<And>k. om_find (undoEntries m) k \<noteq> None \<Longrightarrow> k \<le> bh"
    and m2: "om_find (undoEntries m2) bh = om_find (undoEntries (fst (PrepareUndo bh aff (m, d)))) bh"
    and frame: "\<And>h. h \<notin> set aff \<Longrightarrow> om_find (stateMap m2) h = om_find (stateMap m) h"
    and d2: "idle d2"
  shows "\<exists>m3 d3. Pose_UndoBlock bh (m2, d2) = (True, (m3, d3)) \<and> stateMap m3 = stateMap m \<and>
    (\<forall>h \<in> set aff. read_pose_state d3 h = om_find (stateMap m) h)"
proof -
  let ?es = "map (undo_entry m bh) aff"
  have "om_find (undoEntries (fst (PrepareUndo bh aff (m, d)))) bh = Some ?es"
    unfolding PrepareUndo_def Let_def prod.case
    by (rule trim_undo_keeps_top) (use top in \<open>auto split: if_splits\<close>)
  with m2 have es: "om_find (undoEntries m2) bh = Some ?es" by simp
  let ?m2 = "m2\<lparr>undoEntries := om_put bh ?es (undoEntries m2)\<rparr>"
  obtain sm d' where r: "fold restore_entry ?es (?m2, d2) = (?m2\<lparr>stateMap := sm\<rparr>, d')" "idle d'"
      "\<forall>h. om_find sm h = (if h \<in> set aff then om_find (stateMap m) h else om_find (stateMap m2) h)"
      "\<forall>h. read_pose_state d' h = (if h \<in> set aff then om_find (stateMap m) h else read_pose_state d2 h)"
    using restore_all [OF nz d2, of bh aff ?m2] by auto
  have "sm = stateMap m"
    by (rule om_ext) (use r(3) frame in auto)
  moreover have "read_pose_state (evo_Write DB_POSE_HEIGHT v (evo_Erase (undo_key bh) d')) h = read_pose_state d' h"
    "read_pose_state (evo_Erase (undo_key bh) d') h = read_pose_state d' h" for h v
    using r(2) by (simp_all add: read_pose_state_write undo_key_def)
  ultimately show ?thesis
    using r by (auto simp: Pose_UndoBlock_def es Let_def)
qed

section \<open>Restart\<close>

lemma scan_sorted:
  fixes es :: "('k::linorder \<times> 'v) list"
  assumes "sorted_wrt (<) (map fst es)"
    and "\<And>k. Q k \<Longrightarrow> k0 \<le> k"
    and "\<And>k k'. k0 \<le> k \<Longrightarrow> \<not> Q k \<Longrightarrow> k < k' \<Longrightarrow> \<not> Q k'"
  shows "takeWhile (\<lambda>e. Q (fst e)) (dropWhile (\<lambda>e. fst e < k0) es) = filter (\<lambda>e. Q (fst e)) es"
  using assms(1)
proof (induction es)
  case Nil
  then show ?case by simp
next
  case (Cons e es)
  show ?case
  proof (cases "fst e < k0")
    case True
    then have "\<not> Q (fst e)" using assms(2) by force
    with Cons True show ?thesis by simp
  next
    case False
    then have ge: "k0 \<le> fst e" by simp
    have "dropWhile (\<lambda>e. fst e < k0) es = es"
      using Cons.prems ge by (cases es) auto
    moreover have "filter (\<lambda>e. Q (fst e)) es = []" if "\<not> Q (fst e)"
      using Cons.prems assms(3) [OF ge that] by (auto simp: filter_empty_conv)
    ultimately show ?thesis using Cons False by simp
  qed
qed

lemma zeros_least: "replicate (length xs) (0 :: byte) \<le> xs"
proof (induction xs)
  case (Cons x xs)
  then show ?case by (cases "x = 0") (auto simp: word_neq_0_conv)
qed simp

lemma uint256_null_least: "blob_data uint256_null \<le> blob_data h"
proof -
  have "word_bytes n (0 :: 'a::len word) = replicate n 0" for n by (induction n) auto
  then have null: "blob_data uint256_null = replicate (length (blob_data h)) 0"
    by (simp add: blob_data_def uint256_null_def)
  show ?thesis unfolding null by (rule zeros_least)
qed

lemma pose_state_scan:
  "takeWhile is_pose_state (seek d (DB_POSE_STATE uint256_null)) = filter is_pose_state (om_entries (evo_db d))"
proof -
  let ?Q = "\<lambda>k. \<exists>h. k = DB_POSE_STATE h"
  have Q: "is_pose_state e \<longleftrightarrow> ?Q (fst e)" for e
    by (cases e rule: is_pose_state.cases) auto
  have "takeWhile (\<lambda>e. ?Q (fst e)) (dropWhile (\<lambda>e. fst e < DB_POSE_STATE uint256_null) (om_entries (evo_db d))) =
      filter (\<lambda>e. ?Q (fst e)) (om_entries (evo_db d))"
  proof (rule scan_sorted)
    show "DB_POSE_STATE uint256_null \<le> k" if "?Q k" for k
      using that uint256_null_least by (auto simp: less_eq_evo_key_def key_tags Serialize_uint256_def)
    show "\<not> ?Q k'" if "DB_POSE_STATE uint256_null \<le> k" "\<not> ?Q k" "k < k'" for k k'
      using that by (cases k; cases k') (auto simp: less_eq_evo_key_def less_evo_key_def key_tags)
  qed simp
  then show ?thesis by (simp add: seek_def Q [abs_def])
qed

lemma load_state_fold:
  "distinct (map fst es) \<Longrightarrow> om_find (fold load_state es m) h =
     (case map_of es (DB_POSE_STATE h) of Some (V_POSE_STATE s) \<Rightarrow> Some s | _ \<Rightarrow> om_find m h)"
proof (induction es arbitrary: m)
  case Nil
  then show ?case by simp
next
  case (Cons e es)
  then have "map_of es (fst e) = None" by (simp add: map_of_eq_None_iff)
  with Cons show ?case
    by (cases "(e, m)" rule: load_state.cases) (auto split: option.splits evo_val.splits)
qed

lemma map_of_filter_pose:
  "map_of (filter is_pose_state es) (DB_POSE_STATE h) = map_of es (DB_POSE_STATE h)"
proof (induction es)
  case (Cons e es)
  then show ?case by (cases e rule: is_pose_state.cases) auto
qed simp

lemma Pose_Init_states:
  "om_find (stateMap (fst (Pose_Init (m, d)))) h =
     (case read_pose_state d h of Some s \<Rightarrow> Some s | None \<Rightarrow> om_find (stateMap m) h)"
proof -
  have "distinct (map fst (filter is_pose_state (om_entries (evo_db d))))"
    by (simp add: distinct_map_filter)
  note f = load_state_fold [OF this]
  have r: "read_pose_state d h = (case map_of (om_entries (evo_db d)) (DB_POSE_STATE h) of
      Some (V_POSE_STATE s) \<Rightarrow> Some s | _ \<Rightarrow> None)"
    by (simp add: read_pose_state_def evo_Read_def om_find_def)
  have "om_find (stateMap (fst (Pose_Init (m, d)))) h =
      om_find (fold load_state (filter is_pose_state (om_entries (evo_db d))) (stateMap m)) h"
    by (simp add: Pose_Init_def Let_def pose_state_scan)
  then show ?thesis
    unfolding f map_of_filter_pose r by (simp split: option.split evo_val.split)
qed

definition pose_synced :: "pose \<Rightarrow> bool" where
  "pose_synced st \<longleftrightarrow> idle (snd st) \<and>
     (\<forall>h. read_pose_state (snd st) h \<noteq> None \<longrightarrow> om_find (stateMap (fst st)) h \<noteq> None) \<and>
     (\<not> fDirty (fst st) \<longrightarrow> (\<forall>h. read_pose_state (snd st) h = om_find (stateMap (fst st)) h))"

lemma Flush_idle: "idle d \<Longrightarrow> idle (snd (Pose_Flush (m, d)))"
proof -
  assume d: "idle d"
  let ?kvs = "map (\<lambda>(h, s). (DB_POSE_STATE h, V_POSE_STATE s)) (om_entries (stateMap m))"
  have "fold (\<lambda>(h, s). evo_Write (DB_POSE_STATE h) (V_POSE_STATE s)) (om_entries (stateMap m)) d =
      fold (\<lambda>(k, v). evo_Write k v) ?kvs d"
    by (simp add: fold_map comp_def case_prod_unfold)
  then show ?thesis
    using evostore.idle_put_all [OF d, of ?kvs] d by (simp add: Pose_Flush_def)
qed

lemma Flush_states:
  assumes d: "idle d" and "fDirty m"
  shows "read_pose_state (snd (Pose_Flush (m, d))) h =
    (case om_find (stateMap m) h of Some s \<Rightarrow> Some s | None \<Rightarrow> read_pose_state d h)"
proof -
  let ?kvs = "map (\<lambda>(h, s). (DB_POSE_STATE h, V_POSE_STATE s)) (om_entries (stateMap m))"
  let ?d = "fold (\<lambda>(k, v). evo_Write k v) ?kvs d"
  have f: "fold (\<lambda>(h, s). evo_Write (DB_POSE_STATE h) (V_POSE_STATE s)) (om_entries (stateMap m)) d = ?d"
    by (simp add: fold_map comp_def case_prod_unfold)
  have "map fst ?kvs = map DB_POSE_STATE (map fst (om_entries (stateMap m)))"
    by (simp add: case_prod_unfold)
  moreover have "distinct (map DB_POSE_STATE (map fst (om_entries (stateMap m))))"
    by (rule distinct_map [THEN iffD2]) (simp add: inj_on_def)
  ultimately have "distinct (map fst ?kvs)" by (simp only:)
  then have g: "evo_Read ?d = evo_Read d ++ map_of ?kvs" by (rule evostore.get_put_all [OF d])
  have "map_of (map (\<lambda>(h, s). (DB_POSE_STATE h, V_POSE_STATE s)) es) (DB_POSE_STATE h) =
      map_option V_POSE_STATE (map_of es h)" for es
    by (induction es) auto
  then have "read_pose_state ?d h = (case om_find (stateMap m) h of Some s \<Rightarrow> Some s | None \<Rightarrow> read_pose_state d h)"
    by (simp add: read_pose_state_def g om_find_def map_add_def split: option.split)
  then show ?thesis
    using assms evostore.idle_put_all [OF d, of ?kvs]
    by (simp add: Pose_Flush_def f read_pose_state_write)
qed

lemma pose_restart_states:
  assumes "pose_synced st"
  shows "stateMap (fst (InitPoSe (StopPoSe st))) = stateMap (fst st)"
proof -
  obtain m d where st: "st = (m, d)" by (cases st)
  have "read_pose_state (StopPoSe st) h = om_find (stateMap m) h" for h
  proof (cases "fDirty m")
    case True
    then show ?thesis
      using assms Flush_states [of d m h] by (auto simp: st StopPoSe_def pose_synced_def split: option.split)
  next
    case False
    then show ?thesis using assms by (simp add: st StopPoSe_def pose_synced_def Pose_Flush_def)
  qed
  then show ?thesis
    by (intro om_ext) (simp add: InitPoSe_def Pose_Init_states CPoSeManager_new_def st fun_eq_iff split: option.split)
qed

subsection \<open>Which operations keep the database in step\<close>

lemma synced_Increment: "pose_synced st \<Longrightarrow> pose_synced (IncrementPenalty h a st)"
  by (cases st) (auto simp: pose_synced_def IncrementPenalty_def Let_def)

lemma synced_Decrement: "pose_synced st \<Longrightarrow> pose_synced (DecrementPenalty h a st)"
  by (cases st)
    (auto simp: pose_synced_def DecrementPenalty_def Let_def read_pose_state_write split: option.splits)

lemma synced_Missed:
  "pose_synced (m, d) \<Longrightarrow> fDirty m \<Longrightarrow> pose_synced (RecordMissedSession p h m, d) \<and> fDirty (RecordMissedSession p h m)"
  by (auto simp: pose_synced_def RecordMissedSession_def Let_def)

lemma synced_Participation:
  "pose_synced st \<Longrightarrow> fDirty (fst st) \<Longrightarrow>
   pose_synced (RecordParticipation h st) \<and> fDirty (fst (RecordParticipation h st))"
  by (cases st)
    (auto simp: pose_synced_def RecordParticipation_def Let_def read_pose_state_write split: option.splits)

lemma synced_PrepareUndo:
  assumes "pose_synced st"
  shows "pose_synced (PrepareUndo bh aff st)"
proof -
  obtain m d where st: "st = (m, d)" by (cases st)
  have "idle d" using assms by (simp add: st pose_synced_def)
  then show ?thesis
    using assms
    by (simp add: st pose_synced_def PrepareUndo_def Let_def trim_undo_frame trim_undo_idle
        trim_undo_state_keys read_pose_state_write undo_key_def)
qed

lemma synced_QuorumSession:
  assumes "pose_synced st"
  shows "pose_synced (ProcessQuorumSession p parts exps ht st)"
proof -
  have "pose_synced (fold (\<lambda>h st. if h \<in> set parts then RecordParticipation h st
      else (RecordMissedSession p h (fst st), snd st)) exps st')"
    if "pose_synced st'" "fDirty (fst st')" for st'
    using that
  proof (induction exps arbitrary: st')
    case (Cons h exps)
    then show ?case
      using synced_Participation [of st' h] synced_Missed [of "fst st'" "snd st'" p h] by auto
  qed simp
  moreover obtain m d where md: "PrepareUndo ht exps st = (m, d)" by fastforce
  moreover have "pose_synced ((ClearSessionTracking m)\<lparr>m_lastProcessedHeight := ht, fDirty := True\<rparr>, d)"
    using synced_PrepareUndo [OF assms, of ht exps]
    by (auto simp: md pose_synced_def ClearSessionTracking_def)
  ultimately show ?thesis
    by (simp add: ProcessQuorumSession_def Let_def)
qed

lemma synced_Flush:
  assumes "pose_synced st"
  shows "pose_synced (Pose_Flush st)"
proof -
  obtain m d where st: "st = (m, d)" by (cases st)
  have idle: "idle d" using assms by (simp add: st pose_synced_def)
  show ?thesis
  proof (cases "fDirty m")
    case True
    have "stateMap (fst (Pose_Flush (m, d))) = stateMap m" by (simp add: Pose_Flush_def)
    then show ?thesis
      using assms Flush_states [OF idle True] Flush_idle [OF idle, of m]
      by (auto simp: st pose_synced_def split: option.splits)
  next
    case False
    then show ?thesis using assms by (simp add: st Pose_Flush_def)
  qed
qed

end
