(* ===== verification/SpecialTx.thy ===== *)
theory SpecialTx
  imports Pose
begin

text \<open>
  The payloads of the special transactions, src/src/evo/providertx.h (and the payload functions of
  src/src/evo/specialtx.h and the first part of src/src/evo/providertx.cpp): provider
  registration, service update, registrar update, revocation and quorum commitment, their
  encodings, and the hashes that are signed.

  The cryptography is the record \<open>crypto\<close> of functions: \<open>Hash\<close> is the double SHA-256 of
  \<open>CHashWriter\<close>, \<open>RecoverKeyID\<close> is \<open>CPubKey::RecoverCompact\<close> followed by \<open>GetID\<close>, and the
  remaining fields are the operations of the BLS wrapper.  An encoding takes the flag
  \<open>gethash\<close>: the \<open>SER_GETHASH\<close> form leaves the signature out.  The lemmas show that each payload
  format is a codec, so that a payload written by \<open>SetTxPayload\<close> is what \<open>GetTxPayload\<close> reads
  and no second byte string is accepted for it.
\<close>

record crypto =
  Hash :: "byte list \<Rightarrow> uint256"
  RecoverKeyID :: "uint256 \<Rightarrow> byte list \<Rightarrow> CKeyID option"
  BLSPublicKey_SetBytes :: "byte list \<Rightarrow> bool"
  BLSPublicKey_IsValid :: "byte list \<Rightarrow> bool"
  BLSSignature_SetBytes :: "byte list \<Rightarrow> bool"
  VerifyWithDomain :: "byte list \<Rightarrow> byte list \<Rightarrow> uint256 \<Rightarrow> string \<Rightarrow> bool"
  AggregatePublicKeys :: "byte list list \<Rightarrow> byte list"

definition OPERATOR_KEY :: string where "OPERATOR_KEY = ''MYNTA_BLS_operator_v1''"
definition QUORUM :: string where "QUORUM = ''MYNTA_BLS_quorum_v1''"

section \<open>Transaction types\<close>

datatype TxType = TRANSACTION_NORMAL | TRANSACTION_PROVIDER_REGISTER | TRANSACTION_PROVIDER_UPDATE_SERVICE
  | TRANSACTION_PROVIDER_UPDATE_REGISTRAR | TRANSACTION_PROVIDER_UPDATE_REVOKE
  | TRANSACTION_QUORUM_COMMITMENT | TRANSACTION_UNKNOWN u16

definition TxType_of :: "u16 \<Rightarrow> TxType" where
  "TxType_of t = (if t = 0 then TRANSACTION_NORMAL
     else if t = 1 then TRANSACTION_PROVIDER_REGISTER
     else if t = 2 then TRANSACTION_PROVIDER_UPDATE_SERVICE
     else if t = 3 then TRANSACTION_PROVIDER_UPDATE_REGISTRAR
     else if t = 4 then TRANSACTION_PROVIDER_UPDATE_REVOKE
     else if t = 5 then TRANSACTION_QUORUM_COMMITMENT
     else TRANSACTION_UNKNOWN t)"

definition IsTxTypeSpecial :: "CTransaction \<Rightarrow> bool" where
  "IsTxTypeSpecial tx \<longleftrightarrow> nVersion tx \<ge> 3 \<and> nType tx \<noteq> 0"

definition GetTxType :: "CTransaction \<Rightarrow> TxType" where
  "GetTxType tx = (if nVersion tx < 3 \<or> nType tx = 0 then TRANSACTION_NORMAL else TxType_of (nType tx))"

section \<open>Payloads\<close>

record CProRegTx =
  pr_nVersion :: u16
  pr_nType :: u16
  pr_nMode :: u16
  pr_collateralOutpoint :: COutPoint
  pr_addr :: CService
  pr_keyIDOwner :: CKeyID
  pr_vchOperatorPubKey :: "byte list"
  pr_keyIDVoting :: CKeyID
  pr_nOperatorReward :: u16
  pr_scriptPayout :: CScript
  pr_inputsHash :: uint256
  pr_vchSig :: "byte list"
  pr_vchOperatorPoP :: "byte list"

definition CProRegTx_CURRENT_VERSION :: u16 where "CProRegTx_CURRENT_VERSION = 2"
definition CProRegTx_MIN_VERSION :: u16 where "CProRegTx_MIN_VERSION = 2"

definition Serialize_CProRegTx :: "bool \<Rightarrow> CProRegTx \<Rightarrow> byte list" where
  "Serialize_CProRegTx gethash p =
     ser_writedata16 (pr_nVersion p) @ ser_writedata16 (pr_nType p) @ ser_writedata16 (pr_nMode p) @
     Serialize_COutPoint (pr_collateralOutpoint p) @ Serialize_CService (pr_addr p) @
     Serialize_uint160 (pr_keyIDOwner p) @ Serialize_bytes (pr_vchOperatorPubKey p) @
     Serialize_uint160 (pr_keyIDVoting p) @ ser_writedata16 (pr_nOperatorReward p) @
     Serialize_bytes (pr_scriptPayout p) @ Serialize_uint256 (pr_inputsHash p) @
     (if gethash then [] else Serialize_bytes (pr_vchSig p)) @
     (if pr_nVersion p \<ge> 2 then Serialize_bytes (pr_vchOperatorPoP p) else [])"

definition Unserialize_CProRegTx :: "CProRegTx reader" where
  "Unserialize_CProRegTx is = do {
     (ver, is) \<leftarrow> ser_readdata16 is;
     (typ, is) \<leftarrow> ser_readdata16 is;
     (mode, is) \<leftarrow> ser_readdata16 is;
     (coll, is) \<leftarrow> Unserialize_COutPoint is;
     (a, is) \<leftarrow> Unserialize_CService is;
     (owner, is) \<leftarrow> Unserialize_uint160 is;
     (operator, is) \<leftarrow> Unserialize_bytes is;
     (voting, is) \<leftarrow> Unserialize_uint160 is;
     (reward, is) \<leftarrow> ser_readdata16 is;
     (payout, is) \<leftarrow> Unserialize_bytes is;
     (inputs, is) \<leftarrow> Unserialize_uint256 is;
     (sig, is) \<leftarrow> Unserialize_bytes is;
     (pop, is) \<leftarrow> (if ver \<ge> 2 then Unserialize_bytes is else Some ([], is));
     Some (\<lparr>pr_nVersion = ver, pr_nType = typ, pr_nMode = mode, pr_collateralOutpoint = coll,
       pr_addr = a, pr_keyIDOwner = owner, pr_vchOperatorPubKey = operator, pr_keyIDVoting = voting,
       pr_nOperatorReward = reward, pr_scriptPayout = payout, pr_inputsHash = inputs,
       pr_vchSig = sig, pr_vchOperatorPoP = pop\<rparr>, is) }"

record CProUpServTx =
  us_nVersion :: u16
  us_proTxHash :: uint256
  us_addr :: CService
  us_scriptOperatorPayout :: CScript
  us_inputsHash :: uint256
  us_vchSig :: "byte list"

definition CProUpServTx_CURRENT_VERSION :: u16 where "CProUpServTx_CURRENT_VERSION = 1"

definition Serialize_CProUpServTx :: "bool \<Rightarrow> CProUpServTx \<Rightarrow> byte list" where
  "Serialize_CProUpServTx gethash p =
     ser_writedata16 (us_nVersion p) @ Serialize_uint256 (us_proTxHash p) @ Serialize_CService (us_addr p) @
     Serialize_bytes (us_scriptOperatorPayout p) @ Serialize_uint256 (us_inputsHash p) @
     (if gethash then [] else Serialize_bytes (us_vchSig p))"

definition Unserialize_CProUpServTx :: "CProUpServTx reader" where
  "Unserialize_CProUpServTx is = do {
     (ver, is) \<leftarrow> ser_readdata16 is;
     (h, is) \<leftarrow> Unserialize_uint256 is;
     (a, is) \<leftarrow> Unserialize_CService is;
     (payout, is) \<leftarrow> Unserialize_bytes is;
     (inputs, is) \<leftarrow> Unserialize_uint256 is;
     (sig, is) \<leftarrow> Unserialize_bytes is;
     Some (\<lparr>us_nVersion = ver, us_proTxHash = h, us_addr = a, us_scriptOperatorPayout = payout,
       us_inputsHash = inputs, us_vchSig = sig\<rparr>, is) }"

record CProUpRegTx =
  ur_nVersion :: u16
  ur_proTxHash :: uint256
  ur_nMode :: u16
  ur_vchOperatorPubKey :: "byte list"
  ur_keyIDVoting :: CKeyID
  ur_scriptPayout :: CScript
  ur_inputsHash :: uint256
  ur_vchSig :: "byte list"
  ur_vchOperatorPoP :: "byte list"

definition CProUpRegTx_CURRENT_VERSION :: u16 where "CProUpRegTx_CURRENT_VERSION = 2"
definition CProUpRegTx_MIN_VERSION :: u16 where "CProUpRegTx_MIN_VERSION = 2"

definition Serialize_CProUpRegTx :: "bool \<Rightarrow> CProUpRegTx \<Rightarrow> byte list" where
  "Serialize_CProUpRegTx gethash p =
     ser_writedata16 (ur_nVersion p) @ Serialize_uint256 (ur_proTxHash p) @ ser_writedata16 (ur_nMode p) @
     Serialize_bytes (ur_vchOperatorPubKey p) @ Serialize_uint160 (ur_keyIDVoting p) @
     Serialize_bytes (ur_scriptPayout p) @ Serialize_uint256 (ur_inputsHash p) @
     (if gethash then [] else Serialize_bytes (ur_vchSig p)) @
     (if ur_nVersion p \<ge> 2 \<and> ur_vchOperatorPubKey p \<noteq> [] then Serialize_bytes (ur_vchOperatorPoP p) else [])"

definition Unserialize_CProUpRegTx :: "CProUpRegTx reader" where
  "Unserialize_CProUpRegTx is = do {
     (ver, is) \<leftarrow> ser_readdata16 is;
     (h, is) \<leftarrow> Unserialize_uint256 is;
     (mode, is) \<leftarrow> ser_readdata16 is;
     (operator, is) \<leftarrow> Unserialize_bytes is;
     (voting, is) \<leftarrow> Unserialize_uint160 is;
     (payout, is) \<leftarrow> Unserialize_bytes is;
     (inputs, is) \<leftarrow> Unserialize_uint256 is;
     (sig, is) \<leftarrow> Unserialize_bytes is;
     (pop, is) \<leftarrow> (if ver \<ge> 2 \<and> operator \<noteq> [] then Unserialize_bytes is else Some ([], is));
     Some (\<lparr>ur_nVersion = ver, ur_proTxHash = h, ur_nMode = mode, ur_vchOperatorPubKey = operator,
       ur_keyIDVoting = voting, ur_scriptPayout = payout, ur_inputsHash = inputs, ur_vchSig = sig,
       ur_vchOperatorPoP = pop\<rparr>, is) }"

record CProUpRevTx =
  rv_nVersion :: u16
  rv_proTxHash :: uint256
  rv_nReason :: u16
  rv_inputsHash :: uint256
  rv_vchSig :: "byte list"

definition CProUpRevTx_CURRENT_VERSION :: u16 where "CProUpRevTx_CURRENT_VERSION = 1"
definition REASON_NOT_SPECIFIED :: u16 where "REASON_NOT_SPECIFIED = 0"
definition REASON_CHANGE_OF_KEYS :: u16 where "REASON_CHANGE_OF_KEYS = 3"

definition Serialize_CProUpRevTx :: "bool \<Rightarrow> CProUpRevTx \<Rightarrow> byte list" where
  "Serialize_CProUpRevTx gethash p =
     ser_writedata16 (rv_nVersion p) @ Serialize_uint256 (rv_proTxHash p) @ ser_writedata16 (rv_nReason p) @
     Serialize_uint256 (rv_inputsHash p) @ (if gethash then [] else Serialize_bytes (rv_vchSig p))"

definition Unserialize_CProUpRevTx :: "CProUpRevTx reader" where
  "Unserialize_CProUpRevTx is = do {
     (ver, is) \<leftarrow> ser_readdata16 is;
     (h, is) \<leftarrow> Unserialize_uint256 is;
     (reason, is) \<leftarrow> ser_readdata16 is;
     (inputs, is) \<leftarrow> Unserialize_uint256 is;
     (sig, is) \<leftarrow> Unserialize_bytes is;
     Some (\<lparr>rv_nVersion = ver, rv_proTxHash = h, rv_nReason = reason, rv_inputsHash = inputs,
       rv_vchSig = sig\<rparr>, is) }"

record CQuorumCommitmentTx =
  qc_nVersion :: u16
  qc_llmqType :: byte
  qc_quorumHash :: uint256
  qc_quorumHeight :: int
  qc_signers :: "byte list"
  qc_validMembers :: "byte list"
  qc_vchQuorumPublicKey :: "byte list"
  qc_quorumVvec :: "byte list list"
  qc_vchMembersSig :: "byte list"

definition CQuorumCommitmentTx_CURRENT_VERSION :: u16 where "CQuorumCommitmentTx_CURRENT_VERSION = 1"

definition Serialize_CQuorumCommitmentTx :: "bool \<Rightarrow> CQuorumCommitmentTx \<Rightarrow> byte list" where
  "Serialize_CQuorumCommitmentTx gethash q =
     ser_writedata16 (qc_nVersion q) @ ser_writedata8 (qc_llmqType q) @ Serialize_uint256 (qc_quorumHash q) @
     Serialize_int32 (qc_quorumHeight q) @ Serialize_bytes (qc_signers q) @
     Serialize_bytes (qc_validMembers q) @ Serialize_bytes (qc_vchQuorumPublicKey q) @
     Serialize_vector Serialize_bytes (qc_quorumVvec q) @
     (if gethash then [] else Serialize_bytes (qc_vchMembersSig q))"

definition Unserialize_CQuorumCommitmentTx :: "CQuorumCommitmentTx reader" where
  "Unserialize_CQuorumCommitmentTx is = do {
     (ver, is) \<leftarrow> ser_readdata16 is;
     (typ, is) \<leftarrow> ser_readdata8 is;
     (qh, is) \<leftarrow> Unserialize_uint256 is;
     (height, is) \<leftarrow> Unserialize_int32 is;
     (sgs, is) \<leftarrow> Unserialize_bytes is;
     (valid, is) \<leftarrow> Unserialize_bytes is;
     (pk, is) \<leftarrow> Unserialize_bytes is;
     (vvec, is) \<leftarrow> Unserialize_vector Unserialize_bytes is;
     (sig, is) \<leftarrow> Unserialize_bytes is;
     Some (\<lparr>qc_nVersion = ver, qc_llmqType = typ, qc_quorumHash = qh, qc_quorumHeight = height,
       qc_signers = sgs, qc_validMembers = valid, qc_vchQuorumPublicKey = pk, qc_quorumVvec = vvec,
       qc_vchMembersSig = sig\<rparr>, is) }"

section \<open>Reading and writing a payload\<close>

definition GetTxPayload :: "'a reader \<Rightarrow> 'b CMutableTransaction_scheme \<Rightarrow> 'a option" where
  "GetTxPayload unser tx =
     (case unser (vExtraPayload tx) of Some (obj, rest) \<Rightarrow> if rest = [] then Some obj else None | None \<Rightarrow> None)"

definition SetTxPayload :: "(bool \<Rightarrow> 'a \<Rightarrow> byte list) \<Rightarrow> 'a \<Rightarrow> CMutableTransaction \<Rightarrow> CMutableTransaction" where
  "SetTxPayload ser obj tx = tx\<lparr>vExtraPayload := ser False obj\<rparr>"

section \<open>Signed hashes\<close>

definition CProRegTx_GetSignatureHash :: "crypto \<Rightarrow> CProRegTx \<Rightarrow> uint256" where
  "CProRegTx_GetSignatureHash c p = Hash c (Serialize_CProRegTx True p)"

definition CProRegTx_CheckSignature :: "crypto \<Rightarrow> CProRegTx \<Rightarrow> CKeyID \<Rightarrow> bool" where
  "CProRegTx_CheckSignature c p keyID =
     (case RecoverKeyID c (CProRegTx_GetSignatureHash c p) (pr_vchSig p) of
       None \<Rightarrow> False | Some k \<Rightarrow> k = keyID)"

definition CProRegTx_GetPoPSignatureHash :: "crypto \<Rightarrow> CProRegTx \<Rightarrow> uint256" where
  "CProRegTx_GetPoPSignatureHash c p = Hash c (Serialize_string ''MYNTA_POP_PROREG'' @
     Serialize_bytes (pr_vchOperatorPubKey p) @ Serialize_COutPoint (pr_collateralOutpoint p) @
     Serialize_uint160 (pr_keyIDOwner p))"

definition CProRegTx_VerifyProofOfPossession :: "crypto \<Rightarrow> CProRegTx \<Rightarrow> bool" where
  "CProRegTx_VerifyProofOfPossession c p \<longleftrightarrow>
     (if length (pr_vchOperatorPubKey p) \<noteq> 48 then False
      else if pr_nVersion p < 2 then False
      else if length (pr_vchOperatorPoP p) \<noteq> 96 then False
      else if \<not> BLSPublicKey_SetBytes c (pr_vchOperatorPubKey p) then False
      else if \<not> BLSSignature_SetBytes c (pr_vchOperatorPoP p) then False
      else VerifyWithDomain c (pr_vchOperatorPoP p) (pr_vchOperatorPubKey p)
        (CProRegTx_GetPoPSignatureHash c p) OPERATOR_KEY)"

definition CProUpServTx_GetSignatureHash :: "crypto \<Rightarrow> CProUpServTx \<Rightarrow> uint256" where
  "CProUpServTx_GetSignatureHash c p = Hash c (Serialize_CProUpServTx True p)"

definition CProUpRegTx_GetSignatureHash :: "crypto \<Rightarrow> CProUpRegTx \<Rightarrow> uint256" where
  "CProUpRegTx_GetSignatureHash c p = Hash c (Serialize_CProUpRegTx True p)"

definition CProUpRegTx_CheckSignature :: "crypto \<Rightarrow> CProUpRegTx \<Rightarrow> CKeyID \<Rightarrow> bool" where
  "CProUpRegTx_CheckSignature c p keyID =
     (case RecoverKeyID c (CProUpRegTx_GetSignatureHash c p) (ur_vchSig p) of
       None \<Rightarrow> False | Some k \<Rightarrow> k = keyID)"

definition CProUpRegTx_GetPoPSignatureHash :: "crypto \<Rightarrow> CProUpRegTx \<Rightarrow> uint256" where
  "CProUpRegTx_GetPoPSignatureHash c p = Hash c (Serialize_string ''MYNTA_POP_PROUPREG'' @
     Serialize_bytes (ur_vchOperatorPubKey p) @ Serialize_uint256 (ur_proTxHash p))"

definition CProUpRegTx_VerifyProofOfPossession :: "crypto \<Rightarrow> CProUpRegTx \<Rightarrow> bool" where
  "CProUpRegTx_VerifyProofOfPossession c p \<longleftrightarrow>
     (if ur_vchOperatorPubKey p = [] then True
      else if length (ur_vchOperatorPubKey p) \<noteq> 48 then False
      else if ur_nVersion p < 2 then False
      else if length (ur_vchOperatorPoP p) \<noteq> 96 then False
      else if \<not> BLSPublicKey_SetBytes c (ur_vchOperatorPubKey p) then False
      else if \<not> BLSSignature_SetBytes c (ur_vchOperatorPoP p) then False
      else VerifyWithDomain c (ur_vchOperatorPoP p) (ur_vchOperatorPubKey p)
        (CProUpRegTx_GetPoPSignatureHash c p) OPERATOR_KEY)"

definition CProUpRevTx_GetSignatureHash :: "crypto \<Rightarrow> CProUpRevTx \<Rightarrow> uint256" where
  "CProUpRevTx_GetSignatureHash c p = Hash c (Serialize_CProUpRevTx True p)"

definition CalcTxInputsHash :: "crypto \<Rightarrow> 'a CMutableTransaction_scheme \<Rightarrow> uint256" where
  "CalcTxInputsHash c tx = Hash c (concat (map (Serialize_COutPoint \<circ> prevout) (vin tx)))"

definition CQuorumCommitmentTx_GetSignatureHash :: "crypto \<Rightarrow> CQuorumCommitmentTx \<Rightarrow> uint256" where
  "CQuorumCommitmentTx_GetSignatureHash c q = Hash c (ser_writedata16 (qc_nVersion q) @
     ser_writedata8 (qc_llmqType q) @ Serialize_uint256 (qc_quorumHash q) @
     Serialize_int32 (qc_quorumHeight q) @ Serialize_bytes (qc_signers q) @
     Serialize_bytes (qc_validMembers q) @ Serialize_bytes (qc_vchQuorumPublicKey q) @
     Serialize_vector Serialize_bytes (qc_quorumVvec q))"

definition CountSigners :: "CQuorumCommitmentTx \<Rightarrow> nat" where
  "CountSigners q = length (filter (\<lambda>v. v \<noteq> 0) (qc_signers q))"

definition CountValidMembers :: "CQuorumCommitmentTx \<Rightarrow> nat" where
  "CountValidMembers q = length (filter (\<lambda>v. v \<noteq> 0) (qc_validMembers q))"

text \<open>The loop that collects the keys of the signers stops at the first key that does not parse.\<close>

fun signer_keys :: "crypto \<Rightarrow> (byte \<times> byte list) list \<Rightarrow> byte list list option" where
  "signer_keys c [] = Some []"
| "signer_keys c ((s, pk) # rest) =
     (if s \<noteq> 0 then
        (if \<not> BLSPublicKey_SetBytes c pk then None
         else map_option (\<lambda>pks. pk # pks) (signer_keys c rest))
      else signer_keys c rest)"

definition CQuorumCommitmentTx_Verify :: "crypto \<Rightarrow> CQuorumCommitmentTx \<Rightarrow> byte list list \<Rightarrow> bool" where
  "CQuorumCommitmentTx_Verify c q memberPubKeys \<longleftrightarrow>
     (if length (qc_signers q) \<noteq> length memberPubKeys then False
      else if length (qc_validMembers q) \<noteq> length memberPubKeys then False
      else if length (qc_vchQuorumPublicKey q) \<noteq> 48 then False
      else if length (qc_vchMembersSig q) \<noteq> 96 then False
      else if \<not> BLSPublicKey_SetBytes c (qc_vchQuorumPublicKey q) then False
      else if \<not> BLSSignature_SetBytes c (qc_vchMembersSig q) then False
      else case signer_keys c (zip (qc_signers q) memberPubKeys) of
        None \<Rightarrow> False
      | Some signerPks \<Rightarrow>
          if signerPks = [] then False
          else (let aggPk = AggregatePublicKeys c signerPks in
            if \<not> BLSPublicKey_IsValid c aggPk then False
            else VerifyWithDomain c (qc_vchMembersSig q) aggPk
              (CQuorumCommitmentTx_GetSignatureHash c q) QUORUM))"

section \<open>Every payload format is a codec\<close>

definition CProRegTx_ok :: "CProRegTx \<Rightarrow> bool" where
  "CProRegTx_ok p \<longleftrightarrow> vec_ok (pr_vchOperatorPubKey p) \<and> vec_ok (pr_scriptPayout p) \<and> vec_ok (pr_vchSig p) \<and>
     vec_ok (pr_vchOperatorPoP p) \<and> (pr_nVersion p < 2 \<longrightarrow> pr_vchOperatorPoP p = [])"

definition CProUpServTx_ok :: "CProUpServTx \<Rightarrow> bool" where
  "CProUpServTx_ok p \<longleftrightarrow> vec_ok (us_scriptOperatorPayout p) \<and> vec_ok (us_vchSig p)"

definition CProUpRegTx_ok :: "CProUpRegTx \<Rightarrow> bool" where
  "CProUpRegTx_ok p \<longleftrightarrow> vec_ok (ur_vchOperatorPubKey p) \<and> vec_ok (ur_scriptPayout p) \<and> vec_ok (ur_vchSig p) \<and>
     vec_ok (ur_vchOperatorPoP p) \<and>
     (ur_nVersion p < 2 \<or> ur_vchOperatorPubKey p = [] \<longrightarrow> ur_vchOperatorPoP p = [])"

definition CProUpRevTx_ok :: "CProUpRevTx \<Rightarrow> bool" where
  "CProUpRevTx_ok p \<longleftrightarrow> vec_ok (rv_vchSig p)"

definition CQuorumCommitmentTx_ok :: "CQuorumCommitmentTx \<Rightarrow> bool" where
  "CQuorumCommitmentTx_ok q \<longleftrightarrow> int32_ok (qc_quorumHeight q) \<and> vec_ok (qc_signers q) \<and>
     vec_ok (qc_validMembers q) \<and> vec_ok (qc_vchQuorumPublicKey q) \<and> vec_ok (qc_quorumVvec q) \<and>
     list_all vec_ok (qc_quorumVvec q) \<and> vec_ok (qc_vchMembersSig q)"

interpretation preg: codec "Serialize_CProRegTx False" Unserialize_CProRegTx CProRegTx_ok
proof
  show "Unserialize_CProRegTx (Serialize_CProRegTx False p @ rest) = Some (p, rest)" if "CProRegTx_ok p" for p rest
    using that by (cases "2 \<le> pr_nVersion p")
      (simp_all add: CProRegTx_ok_def Serialize_CProRegTx_def Unserialize_CProRegTx_def codec_read)
  show "CProRegTx_ok p \<and> bs = Serialize_CProRegTx False p @ rest"
    if "Unserialize_CProRegTx bs = Some (p, rest)" for bs p rest
    using that by (auto simp: CProRegTx_ok_def Serialize_CProRegTx_def Unserialize_CProRegTx_def codec_iff
        bind_eq_Some_conv split: if_splits)
qed

interpretation puserv: codec "Serialize_CProUpServTx False" Unserialize_CProUpServTx CProUpServTx_ok
  by unfold_locales
    (simp_all add: CProUpServTx_ok_def Serialize_CProUpServTx_def Unserialize_CProUpServTx_def codec_read,
     auto simp: codec_iff bind_eq_Some_conv)

interpretation pureg: codec "Serialize_CProUpRegTx False" Unserialize_CProUpRegTx CProUpRegTx_ok
proof
  show "Unserialize_CProUpRegTx (Serialize_CProUpRegTx False p @ rest) = Some (p, rest)"
    if "CProUpRegTx_ok p" for p rest
    using that by (cases "2 \<le> ur_nVersion p \<and> ur_vchOperatorPubKey p \<noteq> []")
      (auto simp: CProUpRegTx_ok_def Serialize_CProUpRegTx_def Unserialize_CProUpRegTx_def codec_read)
  show "CProUpRegTx_ok p \<and> bs = Serialize_CProUpRegTx False p @ rest"
    if "Unserialize_CProUpRegTx bs = Some (p, rest)" for bs p rest
    using that by (auto simp: CProUpRegTx_ok_def Serialize_CProUpRegTx_def Unserialize_CProUpRegTx_def codec_iff
        bind_eq_Some_conv split: if_splits)
qed

interpretation purev: codec "Serialize_CProUpRevTx False" Unserialize_CProUpRevTx CProUpRevTx_ok
  by unfold_locales
    (simp_all add: CProUpRevTx_ok_def Serialize_CProUpRevTx_def Unserialize_CProUpRevTx_def codec_read,
     auto simp: codec_iff bind_eq_Some_conv)

interpretation qctx: codec "Serialize_CQuorumCommitmentTx False" Unserialize_CQuorumCommitmentTx
  CQuorumCommitmentTx_ok
  by unfold_locales
    (simp_all add: CQuorumCommitmentTx_ok_def Serialize_CQuorumCommitmentTx_def
       Unserialize_CQuorumCommitmentTx_def codec_read codec.read_back [OF vec_stack],
     auto simp: codec_iff codec.unser_iff [OF vec_stack] bind_eq_Some_conv)

text \<open>What a codec gives the payload functions.\<close>

context codec
begin

lemma payload_iff: "GetTxPayload unser tx = Some obj \<longleftrightarrow> wf obj \<and> vExtraPayload tx = ser obj"
proof -
  have "GetTxPayload unser tx = Some obj \<longleftrightarrow> unser (vExtraPayload tx) = Some (obj, [])"
    by (auto simp: GetTxPayload_def split: option.splits if_splits)
  then show ?thesis by (simp add: unser_exact)
qed

end

end
