(* ===== verification/Chain.thy ===== *)
theory Chain
  imports Primitives
begin

text \<open>
  The block index, src/src/chain.h and .cpp: a block points to its predecessor and, through
  \<open>pskip\<close>, to an ancestor further down.  A \<open>CBlockIndex\<close> value contains the chain it stands
  on; two pointers are the same when their values are.  \<open>GetAncestor\<close> returns \<open>None\<close> where the
  code would fail its assertion, and \<open>Some\<close> of the returned pointer otherwise.  The lemmas show
  that on an index whose skip pointers were made by \<open>BuildSkip\<close> the skipping walk finds the
  block that following the predecessors finds.
\<close>

datatype CBlockIndex = BlockIndex (bi_hash: uint256) (bi_nHeight: int) (bi_nVersion: int)
  (bi_nTime: u32) (bi_nBits: u32) (bi_pprev: "CBlockIndex option") (bi_pskip: "CBlockIndex option")

record CBlock =
  blk_hash :: uint256
  vtx :: "CTransaction list"

definition GetBlockTime :: "CBlockIndex \<Rightarrow> int" where
  "GetBlockTime i = int (unat (bi_nTime i))"

lemma pprev_smaller: "bi_pprev i = Some p \<Longrightarrow> size p < size i"
  by (cases i) auto

definition InvertLowestOne :: "int \<Rightarrow> int" where
  "InvertLowestOne n = and n (n - 1)"

definition GetSkipHeight :: "int \<Rightarrow> int" where
  "GetSkipHeight height =
     (if height < 2 then 0
      else if and height 1 \<noteq> 0 then InvertLowestOne (InvertLowestOne (height - 1)) + 1
      else InvertLowestOne height)"

lemma InvertLowestOne_bounds:
  "0 < n \<Longrightarrow> InvertLowestOne n < n" "0 \<le> n \<Longrightarrow> 0 \<le> InvertLowestOne n" "0 \<le> n \<Longrightarrow> InvertLowestOne n \<le> n"
proof -
  show "InvertLowestOne n < n" if "0 < n"
    using that AND_upper2 [of "n - 1" n] by (simp add: InvertLowestOne_def)
  show "0 \<le> InvertLowestOne n" if "0 \<le> n"
    using that by (simp add: InvertLowestOne_def)
  show "InvertLowestOne n \<le> n" if "0 \<le> n"
    using that AND_upper1 [of n "n - 1"] by (simp add: InvertLowestOne_def)
qed

lemma GetSkipHeight_bounds: "0 < h \<Longrightarrow> 0 \<le> GetSkipHeight h \<and> GetSkipHeight h < h"
proof -
  assume h: "0 < h"
  have "InvertLowestOne (InvertLowestOne (h - 1)) + 1 < h" if "2 \<le> h"
    using that InvertLowestOne_bounds(1) [of "h - 1"] InvertLowestOne_bounds(2) [of "h - 1"]
      InvertLowestOne_bounds(3) [of "InvertLowestOne (h - 1)"] by linarith
  with h show ?thesis
    using InvertLowestOne_bounds [of h] InvertLowestOne_bounds(2) [of "h - 1"]
      InvertLowestOne_bounds(2) [of "InvertLowestOne (h - 1)"]
    by (auto simp: GetSkipHeight_def)
qed

definition skip_first :: "int \<Rightarrow> int \<Rightarrow> bool" where
  "skip_first heightWalk height \<longleftrightarrow>
     (let heightSkip = GetSkipHeight heightWalk;
          heightSkipPrev = GetSkipHeight (heightWalk - 1)
      in heightSkip = height \<or>
         (heightSkip > height \<and> \<not> (heightSkipPrev < heightSkip - 2 \<and> heightSkipPrev \<ge> height)))"

function ancestor_walk :: "CBlockIndex \<Rightarrow> int \<Rightarrow> int \<Rightarrow> CBlockIndex option" where
  "ancestor_walk pindexWalk heightWalk height =
     (if heightWalk > height \<and> heightWalk > 0 then
        (case bi_pskip pindexWalk of
          Some s \<Rightarrow>
            if skip_first heightWalk height then ancestor_walk s (GetSkipHeight heightWalk) height
            else (case bi_pprev pindexWalk of
                None \<Rightarrow> None | Some p \<Rightarrow> ancestor_walk p (heightWalk - 1) height)
        | None \<Rightarrow> (case bi_pprev pindexWalk of
                None \<Rightarrow> None | Some p \<Rightarrow> ancestor_walk p (heightWalk - 1) height))
      else Some pindexWalk)"
  by pat_completeness auto
termination
  by (relation "measure (\<lambda>(i, w, h). nat w)") (use GetSkipHeight_bounds in \<open>auto simp: nat_less_iff\<close>)

declare ancestor_walk.simps [simp del]

text \<open>With \<open>0 \<le> height\<close>, which is checked first, the extra guard \<open>0 < heightWalk\<close> is implied.\<close>

definition GetAncestor :: "CBlockIndex \<Rightarrow> int \<Rightarrow> CBlockIndex option option" where
  "GetAncestor i height =
     (if height > bi_nHeight i \<or> height < 0 then Some None
      else map_option Some (ancestor_walk i (bi_nHeight i) height))"

definition BuildSkip :: "CBlockIndex \<Rightarrow> CBlockIndex option" where
  "BuildSkip i =
     (case bi_pprev i of
       None \<Rightarrow> Some i
     | Some p \<Rightarrow> map_option (\<lambda>s. BlockIndex (bi_hash i) (bi_nHeight i) (bi_nVersion i) (bi_nTime i)
         (bi_nBits i) (bi_pprev i) s) (GetAncestor p (GetSkipHeight (bi_nHeight i))))"

definition nMedianTimeSpan :: nat where "nMedianTimeSpan = 11"

fun last_times :: "nat \<Rightarrow> CBlockIndex option \<Rightarrow> int list" where
  "last_times 0 i = []"
| "last_times (Suc n) None = []"
| "last_times (Suc n) (Some i) = GetBlockTime i # last_times n (bi_pprev i)"

definition GetMedianTimePast :: "CBlockIndex \<Rightarrow> int" where
  "GetMedianTimePast i =
     (let pmedian = sort (last_times nMedianTimeSpan (Some i)) in pmedian ! (length pmedian div 2))"

section \<open>The skip list is correct\<close>

function anc :: "CBlockIndex \<Rightarrow> int \<Rightarrow> CBlockIndex option" where
  "anc i h = (if bi_nHeight i = h then Some i
     else case bi_pprev i of None \<Rightarrow> None | Some p \<Rightarrow> anc p h)"
  by pat_completeness auto
termination
  by (relation "measure (\<lambda>(i, h). size i)") (auto dest: pprev_smaller)

declare anc.simps [simp del]

function chain_ok :: "CBlockIndex \<Rightarrow> bool" where
  "chain_ok i = (case bi_pprev i of
      None \<Rightarrow> bi_nHeight i = 0 \<and> bi_pskip i = None
    | Some p \<Rightarrow> bi_nHeight i = bi_nHeight p + 1 \<and> chain_ok p \<and>
        (bi_pskip i = None \<or> bi_pskip i = anc p (GetSkipHeight (bi_nHeight i))))"
  by pat_completeness auto
termination
  by (relation "measure size") (auto dest: pprev_smaller)

declare chain_ok.simps [simp del]

lemma chain_ok_height: "chain_ok i \<Longrightarrow> 0 \<le> bi_nHeight i"
proof (induction i rule: chain_ok.induct)
  case (1 i)
  then show ?case by (subst (asm) (2) chain_ok.simps) (auto split: option.splits)
qed

lemma anc_self: "anc i (bi_nHeight i) = Some i"
  by (simp add: anc.simps)

lemma anc_below: "bi_pprev i = Some p \<Longrightarrow> h \<noteq> bi_nHeight i \<Longrightarrow> anc i h = anc p h"
  by (simp add: anc.simps [of i])

lemma anc_exists:
  "chain_ok i \<Longrightarrow> 0 \<le> h \<Longrightarrow> h \<le> bi_nHeight i \<Longrightarrow> \<exists>a. anc i h = Some a \<and> chain_ok a \<and> bi_nHeight a = h"
proof (induction i rule: chain_ok.induct)
  case (1 i)
  show ?case
  proof (cases "h = bi_nHeight i")
    case True
    then show ?thesis using 1 anc_self by blast
  next
    case False
    then obtain p where p: "bi_pprev i = Some p"
      using 1 by (cases "bi_pprev i") (auto simp: chain_ok.simps [of i])
    with 1(2) have "chain_ok p" "bi_nHeight i = bi_nHeight p + 1" by (auto simp: chain_ok.simps [of i])
    with 1(1) [OF p] 1(3,4) False p show ?thesis by (simp add: anc_below)
  qed
qed

lemma anc_anc:
  "chain_ok i \<Longrightarrow> anc i g = Some a \<Longrightarrow> h \<le> g \<Longrightarrow> anc a h = anc i h"
proof (induction i rule: chain_ok.induct)
  case (1 i)
  show ?case
  proof (cases "g = bi_nHeight i")
    case True
    then show ?thesis using 1(3) by (simp add: anc_self)
  next
    case False
    then obtain p where p: "bi_pprev i = Some p" "anc p g = Some a"
      using 1(3) by (auto simp: anc.simps [of i] split: option.splits)
    have c: "chain_ok p" "bi_nHeight i = bi_nHeight p + 1"
      using 1(2) p(1) by (auto simp: chain_ok.simps [of i])
    have "g \<le> bi_nHeight p"
    proof -
      have "anc q g = None" if "chain_ok q" "bi_nHeight q < g" for q
        using that
      proof (induction q rule: chain_ok.induct)
        case (1 q)
        then show ?case
          by (subst anc.simps) (auto simp: chain_ok.simps [of q] split: option.splits)
      qed
      then show ?thesis using c(1) p(2) by force
    qed
    with 1(1) [OF p(1) c(1) p(2) 1(4)] 1(4) c(2) p(1) show ?thesis
      by (simp add: anc_below)
  qed
qed

lemma ancestor_walk_anc:
  "chain_ok i \<Longrightarrow> w = bi_nHeight i \<Longrightarrow> 0 \<le> h \<Longrightarrow> h \<le> w \<Longrightarrow> ancestor_walk i w h = anc i h"
proof (induction i w h rule: ancestor_walk.induct)
  case (1 i w h)
  show ?case
  proof (cases "w > h")
    case False
    then show ?thesis using 1 by (simp add: ancestor_walk.simps [of i] anc_self)
  next
    case True
    with 1 have w: "w > h \<and> w > 0" by simp
    then obtain p where p: "bi_pprev i = Some p" "chain_ok p" "bi_nHeight p = w - 1"
      "bi_pskip i = None \<or> bi_pskip i = anc p (GetSkipHeight w)"
      using 1(4,5) by (auto simp: chain_ok.simps [of i] split: option.splits)
    have i: "anc i h = anc p h" using w p(1) 1(5) by (simp add: anc_below)
    note sk = GetSkipHeight_bounds [of w]
    show ?thesis
    proof (cases "bi_pskip i")
      case None
      have "ancestor_walk p (w - 1) h = anc p h"
        using 1(1) [OF w None p(1,2)] p(3) w 1(6) by simp
      then show ?thesis using w p(1) None i by (simp add: ancestor_walk.simps [of i])
    next
      case (Some s)
      show ?thesis
      proof (cases "skip_first w h")
        case False
        have "ancestor_walk p (w - 1) h = anc p h"
          using 1(3) [OF w Some False p(1,2)] p(3) w 1(6) by simp
        then show ?thesis using w p(1) False i Some by (simp add: ancestor_walk.simps [of i])
      next
        case True
        then have "h \<le> GetSkipHeight w" by (auto simp: skip_first_def Let_def)
        have s: "anc p (GetSkipHeight w) = Some s" using p(4) Some by simp
        obtain a where "anc p (GetSkipHeight w) = Some a \<and> chain_ok a \<and> bi_nHeight a = GetSkipHeight w"
          using anc_exists [OF p(2)] sk w p(3) by fastforce
        with s have "chain_ok s" "bi_nHeight s = GetSkipHeight w" by simp_all
        with 1(2) [OF w Some True] 1(6) \<open>h \<le> GetSkipHeight w\<close>
        have "ancestor_walk s (GetSkipHeight w) h = anc s h" by simp
        also have "\<dots> = anc p h" by (rule anc_anc [OF p(2) s \<open>h \<le> GetSkipHeight w\<close>])
        finally show ?thesis using w Some True i by (simp add: ancestor_walk.simps [of i])
      qed
    qed
  qed
qed

lemma GetAncestor_anc:
  assumes "chain_ok i" and "0 \<le> h" and "h \<le> bi_nHeight i"
  shows "GetAncestor i h = Some (anc i h)"
proof -
  obtain a where "anc i h = Some a" using anc_exists [OF assms] by blast
  then show ?thesis
    using assms by (simp add: GetAncestor_def ancestor_walk_anc)
qed

lemma chain_ok_BuildSkip:
  assumes p: "bi_pprev i = Some p" "chain_ok p" "bi_nHeight i = bi_nHeight p + 1"
  shows "\<exists>j. BuildSkip i = Some j \<and> chain_ok j \<and> bi_pprev j = bi_pprev i \<and> bi_nHeight j = bi_nHeight i \<and>
    bi_hash j = bi_hash i"
proof -
  have "GetAncestor p (GetSkipHeight (bi_nHeight i)) = Some (anc p (GetSkipHeight (bi_nHeight i)))"
    using GetSkipHeight_bounds [of "bi_nHeight i"] chain_ok_height [OF p(2)] p
    by (intro GetAncestor_anc) auto
  then show ?thesis
    using p by (simp add: BuildSkip_def chain_ok.simps [of "BlockIndex _ _ _ _ _ _ _"])
qed

end
