(* ===== verification/MnManager.thy ===== *)
theory MnManager
  imports SpecialTx Chain
begin

text \<open>
  \<open>CDeterministicMNManager\<close> of src/src/evo/deterministicmns.cpp: the masternode list at every
  block, computed from the list at the previous block and the block's transactions
  (\<open>ProcessBlock\<close>), kept in a bounded cache and in the evolution database, rebuilt by replaying
  blocks when it is in neither (\<open>GetListForBlock\<close>), and rolled back (\<open>UndoBlock\<close>).

  \<open>evo_env\<close> holds what the manager reads and never changes: the cryptography, the chain
  parameters, the coins at the tip and the blocks on disk.  \<open>evo_state\<close> holds the manager's own
  state together with the two objects it shares, the database and the Proof of Service manager.
  Functions return \<open>None\<close> where the code would fail an assertion.  A rejected block is the
  \<open>CValidationState\<close> value \<open>DoS level code reason\<close>.
\<close>

record evo_env =
  env_crypto :: crypto
  consensus :: Params
  MineBlocksOnDemand :: bool
  AccessCoin :: "COutPoint \<Rightarrow> Coin"
  ReadBlockFromDisk :: "CBlockIndex \<Rightarrow> CBlock option"

abbreviation env_Hash :: "evo_env \<Rightarrow> byte list \<Rightarrow> uint256" where
  "env_Hash env \<equiv> Hash (env_crypto env)"

record evo_state =
  st_evoDb :: evodb
  st_pose :: "CPoSeManager option"
  mnListsCache :: "(uint256, CDeterministicMNList) omap"
  tipList :: "CDeterministicMNList option"

definition MAX_CACHE_SIZE :: nat where "MAX_CACHE_SIZE = 100"
definition CURRENT_DB_VERSION :: int where "CURRENT_DB_VERSION = 3"

section \<open>Start-up\<close>

fun is_snapshot :: "evo_key \<times> evo_val \<Rightarrow> bool" where
  "is_snapshot (DB_LIST_SNAPSHOT h, v) = True"
| "is_snapshot _ = False"

definition Manager_Init :: "evo_state \<Rightarrow> evo_state" where
  "Manager_Init st =
     (let d = st_evoDb st;
          storedVersion = read_int d DB_MN_VERSION 0;
          st = (if storedVersion < CURRENT_DB_VERSION then
             (let keysToErase = map fst (takeWhile is_snapshot (seek d (DB_LIST_SNAPSHOT uint256_null)))
              in st\<lparr>mnListsCache := om_empty,
                    st_evoDb := evo_Write DB_MN_VERSION (V_INT CURRENT_DB_VERSION) (fold evo_Erase keysToErase d)\<rparr>)
           else st)
      in st\<lparr>tipList := Some CDeterministicMNList_default\<rparr>)"

section \<open>The list after a block\<close>

text \<open>The copy of the previous list into a new one, masternode by masternode.\<close>

definition copy_list :: "(byte list \<Rightarrow> uint256) \<Rightarrow> CBlockIndex \<Rightarrow> CDeterministicMNList \<Rightarrow> CDeterministicMNList" where
  "copy_list H pindex prevList =
     fold (\<lambda>mn l. AddMNInPlace H l mn) (mns prevList)
       ((CDeterministicMNList_new (bi_hash pindex) (bi_nHeight pindex))
         \<lparr>nTotalRegisteredCount := nTotalRegisteredCount prevList\<rparr>)"

definition spent_outpoints :: "CBlock \<Rightarrow> COutPoint list" where
  "spent_outpoints block = concat (map (\<lambda>tx. if IsCoinBase tx then [] else map prevout (vin tx)) (vtx block))"

definition collateral_spent_mns :: "(byte list \<Rightarrow> uint256) \<Rightarrow> CBlock \<Rightarrow> CDeterministicMNList \<Rightarrow> uint256 list" where
  "collateral_spent_mns H block l =
     concat (map (\<lambda>out. case GetMNByCollateral H l out of Some mn \<Rightarrow> [proTxHash mn] | None \<Rightarrow> [])
       (spent_outpoints block))"

definition bad_payload :: reject where "bad_payload = DoS 100 REJECT_INVALID ''bad-protx-payload''"
definition bad_hash :: reject where "bad_hash = DoS 100 REJECT_INVALID ''bad-protx-hash''"

definition new_masternode ::
  "evo_env \<Rightarrow> CBlockIndex \<Rightarrow> CTransaction \<Rightarrow> CProRegTx \<Rightarrow> CDeterministicMNList \<Rightarrow> CDeterministicMN" where
  "new_masternode env pindex tx p l = \<lparr>
     proTxHash = tx_hash tx,
     collateralOutpoint = pr_collateralOutpoint p,
     nOperatorReward = pr_nOperatorReward p,
     mn_state = CDeterministicMNState_default\<lparr>
       nRegisteredHeight := bi_nHeight pindex,
       keyIDOwner := pr_keyIDOwner p,
       vchOperatorPubKey := pr_vchOperatorPubKey p,
       keyIDVoting := pr_keyIDVoting p,
       addr := pr_addr p,
       scriptPayout := pr_scriptPayout p,
       nTier := GetMasternodeTier (consensus env)
         (nValue (coin_out (AccessCoin env (pr_collateralOutpoint p)))) (bi_nHeight pindex)\<rparr>,
     internalId = nTotalRegisteredCount l\<rparr>"

definition apply_register ::
  "evo_env \<Rightarrow> CBlockIndex \<Rightarrow> CTransaction \<Rightarrow> CDeterministicMNList \<Rightarrow> reject + CDeterministicMNList" where
  "apply_register env pindex tx l =
     (case GetTxPayload Unserialize_CProRegTx tx of
       None \<Rightarrow> Inl bad_payload
     | Some p \<Rightarrow> Inr (AddMN (env_Hash env) l (new_masternode env pindex tx p l)))"

definition service_update :: "CBlockIndex \<Rightarrow> CProUpServTx \<Rightarrow> CDeterministicMNState \<Rightarrow> CDeterministicMNState" where
  "service_update pindex p s =
     (let s = s\<lparr>addr := us_addr p, nLastServiceUpdateHeight := bi_nHeight pindex\<rparr>
      in if us_scriptOperatorPayout p \<noteq> [] then s\<lparr>scriptOperatorPayout := us_scriptOperatorPayout p\<rparr> else s)"

definition apply_update_service ::
  "evo_env \<Rightarrow> CBlockIndex \<Rightarrow> CTransaction \<Rightarrow> CDeterministicMNList \<Rightarrow> reject + CDeterministicMNList" where
  "apply_update_service env pindex tx l =
     (case GetTxPayload Unserialize_CProUpServTx tx of
       None \<Rightarrow> Inl bad_payload
     | Some p \<Rightarrow>
        (case GetMN l (us_proTxHash p) of
          None \<Rightarrow> Inl bad_hash
        | Some mn \<Rightarrow> Inr (UpdateMN (env_Hash env) l (us_proTxHash p) (service_update pindex p (mn_state mn)))))"

definition registrar_update :: "CBlockIndex \<Rightarrow> CProUpRegTx \<Rightarrow> CDeterministicMNState \<Rightarrow> CDeterministicMNState" where
  "registrar_update pindex p old =
     (let s = old\<lparr>nLastRegistrarUpdateHeight := bi_nHeight pindex\<rparr>;
          s = (if ur_vchOperatorPubKey p \<noteq> [] then s\<lparr>vchOperatorPubKey := ur_vchOperatorPubKey p\<rparr> else s);
          s = (if ur_keyIDVoting p \<noteq> 0 then s\<lparr>keyIDVoting := ur_keyIDVoting p\<rparr> else s);
          s = (if ur_scriptPayout p \<noteq> [] then s\<lparr>scriptPayout := ur_scriptPayout p\<rparr> else s)
      in if ur_vchOperatorPubKey p \<noteq> vchOperatorPubKey old \<and> nRevocationReason old = 0
         then s\<lparr>nPoSePenalty := 0, nPoSeBanHeight := - 1, nPoSeRevivedHeight := bi_nHeight pindex\<rparr>
         else s)"

definition apply_update_registrar ::
  "evo_env \<Rightarrow> CBlockIndex \<Rightarrow> CTransaction \<Rightarrow> CDeterministicMNList \<Rightarrow> reject + CDeterministicMNList" where
  "apply_update_registrar env pindex tx l =
     (case GetTxPayload Unserialize_CProUpRegTx tx of
       None \<Rightarrow> Inl bad_payload
     | Some p \<Rightarrow>
        (case GetMN l (ur_proTxHash p) of
          None \<Rightarrow> Inl bad_hash
        | Some mn \<Rightarrow> Inr (UpdateMN (env_Hash env) l (ur_proTxHash p) (registrar_update pindex p (mn_state mn)))))"

definition revoke_update :: "CBlockIndex \<Rightarrow> CProUpRevTx \<Rightarrow> CDeterministicMNState \<Rightarrow> CDeterministicMNState" where
  "revoke_update pindex p s = s\<lparr>nRevocationReason := rv_nReason p, nPoSeBanHeight := bi_nHeight pindex\<rparr>"

definition apply_revoke ::
  "evo_env \<Rightarrow> CBlockIndex \<Rightarrow> CTransaction \<Rightarrow> CDeterministicMNList \<Rightarrow> reject + CDeterministicMNList" where
  "apply_revoke env pindex tx l =
     (case GetTxPayload Unserialize_CProUpRevTx tx of
       None \<Rightarrow> Inl bad_payload
     | Some p \<Rightarrow>
        (case GetMN l (rv_proTxHash p) of
          None \<Rightarrow> Inl bad_hash
        | Some mn \<Rightarrow> Inr (UpdateMN (env_Hash env) l (rv_proTxHash p) (revoke_update pindex p (mn_state mn)))))"

definition apply_special ::
  "evo_env \<Rightarrow> CBlockIndex \<Rightarrow> CTransaction \<Rightarrow> CDeterministicMNList \<Rightarrow> reject + CDeterministicMNList" where
  "apply_special env pindex tx l =
     (if \<not> IsTxTypeSpecial tx then Inr l
      else case GetTxType tx of
        TRANSACTION_PROVIDER_REGISTER \<Rightarrow> apply_register env pindex tx l
      | TRANSACTION_PROVIDER_UPDATE_SERVICE \<Rightarrow> apply_update_service env pindex tx l
      | TRANSACTION_PROVIDER_UPDATE_REGISTRAR \<Rightarrow> apply_update_registrar env pindex tx l
      | TRANSACTION_PROVIDER_UPDATE_REVOKE \<Rightarrow> apply_revoke env pindex tx l
      | _ \<Rightarrow> Inr l)"

fun apply_specials ::
  "evo_env \<Rightarrow> CBlockIndex \<Rightarrow> CTransaction list \<Rightarrow> CDeterministicMNList \<Rightarrow> reject + CDeterministicMNList" where
  "apply_specials env pindex [] l = Inr l"
| "apply_specials env pindex (tx # txs) l =
     (case apply_special env pindex tx l of
       Inl e \<Rightarrow> Inl e
     | Inr l \<Rightarrow> apply_specials env pindex txs l)"

definition tier_mismatch :: "evo_env \<Rightarrow> CBlockIndex \<Rightarrow> CDeterministicMN \<Rightarrow> bool" where
  "tier_mismatch env pindex mn =
     (let collCoin = AccessCoin env (collateralOutpoint mn) in
      if Coin_IsSpent collCoin then False
      else (let expectedTier = GetMasternodeTier (consensus env) (nValue (coin_out collCoin)) (bi_nHeight pindex)
            in expectedTier = 0 \<or> expectedTier \<noteq> nTier (mn_state mn)))"

definition tier_mismatches :: "evo_env \<Rightarrow> CBlockIndex \<Rightarrow> CDeterministicMNList \<Rightarrow> uint256 list" where
  "tier_mismatches env pindex l = map fst (filter (\<lambda>(h, mn). tier_mismatch env pindex mn) (om_entries (mnMap l)))"

text \<open>The outer \<open>None\<close> is the failed assertion that the previous list is that of the previous block.\<close>

definition mark_payee ::
  "evo_env \<Rightarrow> CBlockIndex \<Rightarrow> CDeterministicMNList \<Rightarrow> CDeterministicMNList \<Rightarrow> CDeterministicMNList option" where
  "mark_payee env pindex prevList l =
     (case bi_pprev pindex of
       None \<Rightarrow> Some l
     | Some pprev \<Rightarrow>
        if \<not> GetValidMNsCount prevList > 0 then Some l
        else if bi_hash pprev \<noteq> l_blockHash prevList then None
        else (case GetMNPayee (env_Hash env) (consensus env) prevList (bi_hash pprev) (bi_nHeight pindex) of
            None \<Rightarrow> Some l
          | Some payee \<Rightarrow>
             (case GetMN l (proTxHash payee) of
               None \<Rightarrow> Some l
             | Some paidMN \<Rightarrow> Some (UpdateMN (env_Hash env) l (proTxHash payee)
                 ((mn_state paidMN)\<lparr>nLastPaidHeight := bi_nHeight pindex\<rparr>)))))"

definition revivable :: "evo_env \<Rightarrow> CBlockIndex \<Rightarrow> CDeterministicMN \<Rightarrow> bool" where
  "revivable env pindex mn \<longleftrightarrow> IsBanned (mn_state mn) \<and> nRevocationReason (mn_state mn) = 0 \<and>
     bi_nHeight pindex - nPoSeBanHeight (mn_state mn) \<ge> nPoSeRevivalHeight (consensus env)"

definition mns_to_revive :: "evo_env \<Rightarrow> CBlockIndex \<Rightarrow> CDeterministicMNList \<Rightarrow> uint256 list" where
  "mns_to_revive env pindex l = map fst (filter (\<lambda>(h, mn). revivable env pindex mn) (om_entries (mnMap l)))"

definition pose_punish ::
  "evo_env \<Rightarrow> CBlockIndex \<Rightarrow> CDeterministicMNList \<Rightarrow> CPoSeManager option \<times> evodb \<Rightarrow>
   CDeterministicMNList \<times> CPoSeManager option \<times> evodb" where
  "pose_punish env pindex l pd =
     (case pd of
       (None, d) \<Rightarrow> (l, None, d)
     | (Some m, d) \<Rightarrow>
        (let affectedMNs = map fst (om_entries (GetAllPenalties m)) @ mns_to_revive env pindex l;
             (m, d) = (if affectedMNs \<noteq> [] then PrepareUndo (bi_nHeight pindex) affectedMNs (m, d) else (m, d))
         in (CheckAndPunish (env_Hash env) m l (bi_nHeight pindex)
               (nPoSePenaltyIncrement (consensus env)) (nPoSeBanThreshold (consensus env)), Some m, d)))"

definition revived_state :: "CBlockIndex \<Rightarrow> CDeterministicMNState \<Rightarrow> CDeterministicMNState" where
  "revived_state pindex s = s\<lparr>nPoSeBanHeight := - 1, nPoSePenalty := 0,
     nPoSeRevivedHeight := bi_nHeight pindex, nLastPaidHeight := bi_nHeight pindex\<rparr>"

definition revive_one ::
  "evo_env \<Rightarrow> CBlockIndex \<Rightarrow> uint256 \<Rightarrow> CDeterministicMNList \<times> CPoSeManager option \<times> evodb \<Rightarrow>
   CDeterministicMNList \<times> CPoSeManager option \<times> evodb" where
  "revive_one env pindex h = (\<lambda>(l, mo, d).
     case GetMN l h of
       None \<Rightarrow> (l, mo, d)
     | Some mn \<Rightarrow>
        (let l = UpdateMN (env_Hash env) l h (revived_state pindex (mn_state mn)) in
         case mo of
           None \<Rightarrow> (l, None, d)
         | Some m \<Rightarrow> (let (m, d) = ResetPenalty h (m, d) in (l, Some m, d))))"

definition pose_revive ::
  "evo_env \<Rightarrow> CBlockIndex \<Rightarrow> CDeterministicMNList \<times> CPoSeManager option \<times> evodb \<Rightarrow>
   CDeterministicMNList \<times> CPoSeManager option \<times> evodb" where
  "pose_revive env pindex lmd = fold (revive_one env pindex) (mns_to_revive env pindex (fst lmd)) lmd"

definition process_list ::
  "evo_env \<Rightarrow> CBlock \<Rightarrow> CBlockIndex \<Rightarrow> CDeterministicMNList \<Rightarrow> CPoSeManager option \<times> evodb \<Rightarrow>
   (reject + CDeterministicMNList \<times> CPoSeManager option \<times> evodb) option" where
  "process_list env block pindex prevList pd =
     (let H = env_Hash env;
          fMigrationBlock = (bi_nHeight pindex = nMNv2MigrationHeight (consensus env));
          newList = copy_list H pindex prevList;
          newList = (if fMigrationBlock then CDeterministicMNList_new (bi_hash pindex) (bi_nHeight pindex) else newList);
          newList = (if fMigrationBlock then newList else BatchRemoveMNs H newList (collateral_spent_mns H block newList))
      in case apply_specials env pindex (vtx block) newList of
           Inl e \<Rightarrow> Some (Inl e)
         | Inr newList \<Rightarrow>
             if fMigrationBlock then Some (Inr (newList, fst pd, snd pd))
             else (let newList = BatchRemoveMNs H newList (collateral_spent_mns H block newList);
                       newList = BatchRemoveMNs H newList (tier_mismatches env pindex newList)
               in case mark_payee env pindex prevList newList of
                    None \<Rightarrow> None
                  | Some newList \<Rightarrow> Some (Inr (pose_revive env pindex (pose_punish env pindex newList pd)))))"

section \<open>Cache and database\<close>

definition LoadListFromDb :: "evo_state \<Rightarrow> uint256 \<Rightarrow> CDeterministicMNList option" where
  "LoadListFromDb st bh = (case evo_Read (st_evoDb st) (DB_LIST_SNAPSHOT bh) of Some (V_LIST l) \<Rightarrow> Some l | _ \<Rightarrow> None)"

definition SaveListToDb :: "CDeterministicMNList \<Rightarrow> evodb \<Rightarrow> evodb" where
  "SaveListToDb l d = evo_Write (DB_LIST_SNAPSHOT (l_blockHash l)) (V_LIST l) d"

definition INT_MAX :: int where "INT_MAX = 2147483647"

definition lowest_step ::
  "uint256 \<times> CDeterministicMNList \<Rightarrow> (uint256 \<times> int) option \<Rightarrow> (uint256 \<times> int) option" where
  "lowest_step e best =
     (let lowestHeight = (case best of None \<Rightarrow> INT_MAX | Some b \<Rightarrow> snd b)
      in if l_nHeight (snd e) < lowestHeight then Some (fst e, l_nHeight (snd e)) else best)"

definition lowest_entry :: "(uint256, CDeterministicMNList) omap \<Rightarrow> (uint256 \<times> int) option" where
  "lowest_entry m = fold lowest_step (om_entries m) None"

lemma fold_lowest_step:
  "fold lowest_step es b = Some (h, ht) \<Longrightarrow> b = Some (h, ht) \<or> (\<exists>l. (h, l) \<in> set es \<and> ht = l_nHeight l)"
proof (induction es arbitrary: b)
  case Nil
  then show ?case by simp
next
  case (Cons e es)
  then consider "lowest_step e b = Some (h, ht)" | "\<exists>l. (h, l) \<in> set es \<and> ht = l_nHeight l"
    by auto
  then show ?case
  proof cases
    case 1
    then have "b = Some (h, ht) \<or> e = (h, snd e) \<and> ht = l_nHeight (snd e)"
      by (cases e) (auto simp: lowest_step_def Let_def split: if_splits)
    then show ?thesis by (metis list.set_intros(1))
  next
    case 2
    then show ?thesis by auto
  qed
qed

lemma lowest_entry_in: "lowest_entry m = Some (h, ht) \<Longrightarrow> \<exists>l. om_find m h = Some l \<and> ht = l_nHeight l"
  using fold_lowest_step [of "om_entries m" None h ht] by (auto simp: lowest_entry_def om_entries_iff)

lemma om_size_erase: "om_find m k \<noteq> None \<Longrightarrow> om_size (om_erase k m) < om_size m"
  by (auto simp: om_size_card intro: card_Diff1_less simp del: card_Diff_insert)

function CleanupCache :: "(uint256, CDeterministicMNList) omap \<Rightarrow> (uint256, CDeterministicMNList) omap" where
  "CleanupCache m =
     (if om_size m > MAX_CACHE_SIZE then
        (case lowest_entry m of
          Some (h, _) \<Rightarrow> CleanupCache (om_erase h m)
        | None \<Rightarrow> m)
      else m)"
  by pat_completeness auto
termination
  by (relation "measure om_size") (auto dest!: lowest_entry_in intro: om_size_erase)

declare CleanupCache.simps [simp del]

text \<open>
  The commit: the list and the Proof of Service state go to the database in one transaction, the
  list into the cache.  Database writes do not fail in the model, so the rollback branch of the
  code has no counterpart.
\<close>

definition commit_block :: "CBlockIndex \<Rightarrow> CDeterministicMNList \<Rightarrow> evo_state \<Rightarrow> evo_state option" where
  "commit_block pindex newList st =
     (case BeginTransaction (st_evoDb st) of
       None \<Rightarrow> None
     | Some d \<Rightarrow>
        (let d = SaveListToDb newList d;
             (mo, d) = (case st_pose st of
                None \<Rightarrow> (None, d)
              | Some m \<Rightarrow> (let (m, d) = Pose_Flush (m, d) in (Some m, d)))
         in case CommitTransaction d of
              None \<Rightarrow> None
            | Some d \<Rightarrow> Some (st\<lparr>st_evoDb := d, st_pose := mo,
                mnListsCache := CleanupCache (om_put (bi_hash pindex) newList (mnListsCache st)),
                tipList := Some newList\<rparr>)))"

definition finish_block ::
  "evo_env \<Rightarrow> CBlock \<Rightarrow> CBlockIndex \<Rightarrow> bool \<Rightarrow> CDeterministicMNList \<Rightarrow> evo_state \<Rightarrow>
   (reject option \<times> evo_state) option" where
  "finish_block env block pindex fJustCheck prevList st =
     (case process_list env block pindex prevList (st_pose st, st_evoDb st) of
       None \<Rightarrow> None
     | Some (Inl e) \<Rightarrow> Some (Some e, st)
     | Some (Inr (newList, mo, d)) \<Rightarrow>
        (let st = st\<lparr>st_pose := mo, st_evoDb := d\<rparr> in
         if fJustCheck then Some (None, st)
         else map_option (Pair None) (commit_block pindex newList st)))"

function walk_back ::
  "evo_state \<Rightarrow> CBlockIndex option \<Rightarrow> CBlockIndex list \<Rightarrow>
   CBlockIndex list \<times> CDeterministicMNList option \<times> evo_state" where
  "walk_back st None acc = (acc, None, st)"
| "walk_back st (Some cursor) acc =
     (case om_find (mnListsCache st) (bi_hash cursor) of
       Some l \<Rightarrow> (acc, Some l, st)
     | None \<Rightarrow>
        (case LoadListFromDb st (bi_hash cursor) of
          Some l \<Rightarrow> (acc, Some l, st\<lparr>mnListsCache := om_put (bi_hash cursor) l (mnListsCache st)\<rparr>)
        | None \<Rightarrow> walk_back st (bi_pprev cursor) (cursor # acc)))"
  by pat_completeness auto
termination
  by (relation "measure (\<lambda>(st, c, acc). case c of None \<Rightarrow> 0 | Some i \<Rightarrow> Suc (size i))")
    (auto split: option.split dest: pprev_smaller)

declare walk_back.simps [simp del]

lemma walk_back_size:
  "walk_back st c acc = (bs, base, st') \<Longrightarrow> r \<in> set bs \<Longrightarrow>
   r \<in> set acc \<or> (\<exists>i. c = Some i \<and> size r \<le> size i)"
proof (induction st c acc rule: walk_back.induct)
  case (1 st acc)
  then show ?case by (simp add: walk_back.simps)
next
  case (2 st cursor acc)
  show ?case
  proof (cases "om_find (mnListsCache st) (bi_hash cursor) = None \<and> LoadListFromDb st (bi_hash cursor) = None")
    case True
    then have "walk_back st (bi_pprev cursor) (cursor # acc) = (bs, base, st')"
      using 2(2) by (simp add: walk_back.simps)
    with 2(1) [OF conjunct1 [OF True] conjunct2 [OF True] this 2(3)]
    have "r \<in> set (cursor # acc) \<or> (\<exists>i. bi_pprev cursor = Some i \<and> size r \<le> size i)"
      by simp
    then show ?thesis using pprev_smaller by fastforce
  next
    case False
    then show ?thesis using 2(2,3) by (auto simp: walk_back.simps split: option.splits)
  qed
qed

fun list_depth :: "CBlockIndex list \<Rightarrow> nat" where
  "list_depth [] = 0"
| "list_depth (i # is) = max (size i) (list_depth is)"

lemma list_depth_le: "(\<And>i. i \<in> set is \<Longrightarrow> size i \<le> n) \<Longrightarrow> list_depth is \<le> n"
  by (induction "is") auto

function GetListForBlock :: "evo_env \<Rightarrow> evo_state \<Rightarrow> CBlockIndex option \<Rightarrow> (CDeterministicMNList \<times> evo_state) option"
  and ProcessBlock :: "evo_env \<Rightarrow> evo_state \<Rightarrow> CBlock \<Rightarrow> CBlockIndex \<Rightarrow> bool \<Rightarrow> (reject option \<times> evo_state) option"
  and replay_blocks :: "evo_env \<Rightarrow> evo_state \<Rightarrow> CBlockIndex list \<Rightarrow> CDeterministicMNList \<Rightarrow>
    (CDeterministicMNList \<times> evo_state) option"
where
  "GetListForBlock env st None = Some (CDeterministicMNList_default, st)"
| "GetListForBlock env st (Some pindex) =
     (if bi_nHeight pindex < nMasternodeActivationHeight (consensus env)
      then Some (CDeterministicMNList_new (bi_hash pindex) (bi_nHeight pindex), st)
      else case om_find (mnListsCache st) (bi_hash pindex) of
        Some l \<Rightarrow> Some (l, st)
      | None \<Rightarrow>
         (case LoadListFromDb st (bi_hash pindex) of
           Some l \<Rightarrow> Some (l, st\<lparr>mnListsCache := om_put (bi_hash pindex) l (mnListsCache st)\<rparr>)
         | None \<Rightarrow>
            (case walk_back st (Some pindex) [] of (blocksToReplay, base, st) \<Rightarrow>
              (case replay_blocks env st blocksToReplay
                 (case base of Some l \<Rightarrow> l | None \<Rightarrow> CDeterministicMNList_default) of
                None \<Rightarrow> None
              | Some (baseList, st) \<Rightarrow>
                 (case om_find (mnListsCache st) (bi_hash pindex) of
                   Some l \<Rightarrow> Some (l, st)
                 | None \<Rightarrow> Some (baseList, st))))))"
| "ProcessBlock env st block pindex fJustCheck =
     (case bi_pprev pindex of
       None \<Rightarrow> finish_block env block pindex fJustCheck CDeterministicMNList_default st
     | Some pprev \<Rightarrow>
        (case GetListForBlock env st (Some pprev) of
          None \<Rightarrow> None
        | Some (prevList, st) \<Rightarrow> finish_block env block pindex fJustCheck prevList st))"
| "replay_blocks env st [] baseList = Some (baseList, st)"
| "replay_blocks env st (replayIdx # rest) baseList =
     (case ReadBlockFromDisk env replayIdx of
       None \<Rightarrow> Some (baseList, st)
     | Some replayBlock \<Rightarrow>
        (case ProcessBlock env st replayBlock replayIdx False of
          None \<Rightarrow> None
        | Some (_, st) \<Rightarrow>
           replay_blocks env st rest
             (case om_find (mnListsCache st) (bi_hash replayIdx) of Some l \<Rightarrow> l | None \<Rightarrow> baseList)))"
  by pat_completeness auto

termination
proof (relation "measures [
    case_sum (\<lambda>(env, st, c). case c of None \<Rightarrow> 0 | Some i \<Rightarrow> size i)
      (case_sum (\<lambda>(env, st, b, i, f). size i) (\<lambda>(env, st, is, l). list_depth is)),
    case_sum (\<lambda>_. 2) (case_sum (\<lambda>_. 0) (\<lambda>_. 1)),
    case_sum (\<lambda>_. 0) (case_sum (\<lambda>_. 0) (\<lambda>(env, st, is, l). length is))]", goal_cases)
  case 1
  then show ?case by simp
next
  case (2 env st pindex bs y base st')
  then have "walk_back st (Some pindex) [] = (bs, base, st')" by simp
  then have "size r \<le> size pindex" if "r \<in> set bs" for r
    using walk_back_size that by fastforce
  then have "list_depth bs \<le> size pindex" by (rule list_depth_le)
  then show ?case by auto
qed (auto dest: pprev_smaller)

declare GetListForBlock.simps [simp del] ProcessBlock.simps [simp del] replay_blocks.simps [simp del]

definition Manager_UndoBlock :: "evo_env \<Rightarrow> evo_state \<Rightarrow> CBlock \<Rightarrow> CBlockIndex \<Rightarrow> evo_state option" where
  "Manager_UndoBlock env st block pindex =
     (let st = st\<lparr>mnListsCache := om_erase (bi_hash pindex) (mnListsCache st),
                  st_evoDb := evo_Erase (DB_LIST_SNAPSHOT (bi_hash pindex)) (st_evoDb st)\<rparr>
      in case bi_pprev pindex of
           Some pprev \<Rightarrow> map_option (\<lambda>(l, st). st\<lparr>tipList := Some l\<rparr>) (GetListForBlock env st (Some pprev))
         | None \<Rightarrow> Some (st\<lparr>tipList := Some CDeterministicMNList_default\<rparr>))"

section \<open>Queries\<close>

definition GetListAtChainTip :: "evo_state \<Rightarrow> CDeterministicMNList" where
  "GetListAtChainTip st = (case tipList st of Some l \<Rightarrow> l | None \<Rightarrow> CDeterministicMNList_default)"

definition Manager_GetMN :: "evo_state \<Rightarrow> uint256 \<Rightarrow> CDeterministicMN option" where
  "Manager_GetMN st h = (case tipList st of None \<Rightarrow> None | Some l \<Rightarrow> GetMN l h)"

definition HasMN :: "evo_state \<Rightarrow> uint256 \<Rightarrow> bool" where
  "HasMN st h \<longleftrightarrow> Manager_GetMN st h \<noteq> None"

definition Manager_GetMNByCollateral :: "evo_env \<Rightarrow> evo_state \<Rightarrow> COutPoint \<Rightarrow> CDeterministicMN option" where
  "Manager_GetMNByCollateral env st outp =
     (case tipList st of None \<Rightarrow> None | Some l \<Rightarrow> GetMNByCollateral (env_Hash env) l outp)"

definition IsProTxWithCollateral :: "evo_env \<Rightarrow> evo_state \<Rightarrow> COutPoint \<Rightarrow> bool" where
  "IsProTxWithCollateral env st outp \<longleftrightarrow> Manager_GetMNByCollateral env st outp \<noteq> None"

definition Manager_GetMNPayee ::
  "evo_env \<Rightarrow> evo_state \<Rightarrow> CBlockIndex option \<Rightarrow> (CDeterministicMN option \<times> evo_state) option" where
  "Manager_GetMNPayee env st pindex =
     (case pindex of
       None \<Rightarrow> Some (None, st)
     | Some i \<Rightarrow> map_option (\<lambda>(l, st).
         (GetMNPayee (env_Hash env) (consensus env) l (bi_hash i) (bi_nHeight i + 1), st))
         (GetListForBlock env st (Some i)))"

definition UpdatedBlockTip ::
  "evo_env \<Rightarrow> evo_state \<Rightarrow> CBlockIndex \<Rightarrow> CBlockIndex option \<Rightarrow> bool \<Rightarrow> evo_state option" where
  "UpdatedBlockTip env st pindexNew pindexFork fInitialDownload =
     (if fInitialDownload \<or> pindexFork = Some pindexNew then Some st
      else map_option (\<lambda>(l, st). st\<lparr>tipList := Some l\<rparr>) (GetListForBlock env st (Some pindexNew)))"

end
