(* ===== verification/MnBlock.thy ===== *)
theory MnBlock
  imports MnManager
begin

text \<open>
  The effect of one block on the masternode list (\<open>ProcessBlock\<close> of
  src/src/evo/deterministicmns.cpp, lines 677-1013), as proved of the definitions of
  \<open>MnManager\<close>: the copy of the previous list is the previous list, special transactions,
  removals, payment, punishment and revival keep the list well formed, and the last three are
  described masternode by masternode.
\<close>

section \<open>Invariants of the list computation\<close>



subsection \<open>Copying\<close>

lemma index_exact_determines:
  assumes "index_exact obj idx ks" and "index_exact obj idx' ks"
  shows "idx = idx'"
proof
  fix k
  show "idx k = idx' k"
    using index_exactD [OF assms(1), of k] index_exactD [OF assms(2), of k]
    by (metis not_None_eq)
qed

lemma AddMNInPlace_AddMN: "AddMNInPlace H l mn = (AddMN H l mn)\<lparr>nTotalRegisteredCount := nTotalRegisteredCount l\<rparr>"
  by (simp add: AddMNInPlace_def AddMN_def)

lemma GetMN_count [simp]: "GetMN (l\<lparr>nTotalRegisteredCount := n\<rparr>) = GetMN l"
  by (simp add: GetMN_def fun_eq_iff)

lemma mnlist_ok_count [simp]: "mnlist_ok H (l\<lparr>nTotalRegisteredCount := n\<rparr>) = mnlist_ok H l"
  by (simp add: mnlist_ok_def)

lemma GetMN_new [simp]: "GetMN (CDeterministicMNList_new bh h) = Map.empty"
  by (simp add: CDeterministicMNList_new_def GetMN_def fun_eq_iff)

lemma copy_fold:
  assumes "mnlist_ok H l"
    and "\<And>m. m \<in> set ms \<Longrightarrow> GetMN l (proTxHash m) = None"
    and "\<And>m k. m \<in> set ms \<Longrightarrow> k \<in> prop_hashes H m \<Longrightarrow> om_find (mnUniquePropertyMap l) k = None"
    and "distinct (map proTxHash ms)"
    and "\<And>m m' k. m \<in> set ms \<Longrightarrow> m' \<in> set ms \<Longrightarrow> k \<in> prop_hashes H m \<Longrightarrow> k \<in> prop_hashes H m' \<Longrightarrow>
      proTxHash m = proTxHash m'"
  shows "mnlist_ok H (fold (\<lambda>mn l. AddMNInPlace H l mn) ms l) \<and>
    GetMN (fold (\<lambda>mn l. AddMNInPlace H l mn) ms l) = GetMN l ++ map_of (map (\<lambda>m. (proTxHash m, m)) ms)"
  using assms
proof (induction ms arbitrary: l)
  case Nil
  then show ?case by simp
next
  case (Cons m ms)
  let ?l = "AddMNInPlace H l m"
  have get: "GetMN ?l = (GetMN l)(proTxHash m \<mapsto> m)"
    by (simp add: AddMNInPlace_AddMN GetMN_AddMN)
  have idx: "om_find (mnUniquePropertyMap ?l) k =
      (if k \<in> prop_hashes H m then Some (proTxHash m) else om_find (mnUniquePropertyMap l) k)" for k
    by (simp add: AddMNInPlace_def find_index_add)
  have ne: "proTxHash m' \<noteq> proTxHash m" if "m' \<in> set ms" for m'
    using Cons.prems(4) that by (auto simp: image_iff)
  have ok: "mnlist_ok H ?l"
    unfolding AddMNInPlace_AddMN mnlist_ok_count
    by (rule mnlist_ok_AddMN) (use Cons.prems(1-3) in \<open>auto simp: HasUniqueProperty_def prop_hashes_def\<close>)
  have free: "GetMN ?l (proTxHash m') = None" if "m' \<in> set ms" for m'
    using Cons.prems(2) [of m'] that ne [OF that] by (simp add: get)
  have pfree: "om_find (mnUniquePropertyMap ?l) k = None" if "m' \<in> set ms" "k \<in> prop_hashes H m'" for m' k
    using Cons.prems(3) [of m' k] Cons.prems(5) [of m m' k] that ne [OF that(1)] by (auto simp: idx)
  have d: "distinct (map proTxHash ms)" using Cons.prems(4) by simp
  have pw: "proTxHash m1 = proTxHash m2"
    if "m1 \<in> set ms" "m2 \<in> set ms" "k \<in> prop_hashes H m1" "k \<in> prop_hashes H m2" for m1 m2 k
    by (rule Cons.prems(5) [OF _ _ that(3,4)]) (simp_all add: that)
  have IH: "mnlist_ok H (fold (\<lambda>mn l. AddMNInPlace H l mn) ms ?l) \<and>
    GetMN (fold (\<lambda>mn l. AddMNInPlace H l mn) ms ?l) = GetMN ?l ++ map_of (map (\<lambda>m. (proTxHash m, m)) ms)"
    by (rule Cons.IH [OF ok free pfree d pw])
  have "map_of (map (\<lambda>m. (proTxHash m, m)) ms) (proTxHash m) = None"
    using Cons.prems(4) by (simp add: map_of_eq_None_iff image_image)
  with IH show ?case
    by (auto simp: get fun_eq_iff map_add_def split: option.split)
qed

lemma copy_list_ok:
  assumes ok: "mnlist_ok H prev"
  shows "mnlist_ok H (copy_list H i prev)" and "GetMN (copy_list H i prev) = GetMN prev"
proof -
  let ?l = "(CDeterministicMNList_new (bi_hash i) (bi_nHeight i))\<lparr>nTotalRegisteredCount := nTotalRegisteredCount prev\<rparr>"
  have in_map: "GetMN prev (proTxHash m) = Some m" if "m \<in> set (mns prev)" for m
    using that mem_mns_iff [OF ok] by simp
  have "map proTxHash (mns prev) = map fst (om_entries (mnMap prev))"
    using ok by (auto simp: mns_def mnlist_ok_def GetMN_def om_entries_iff [symmetric])
  then have d: "distinct (map proTxHash (mns prev))" by simp
  have empty: "GetMN ?l = Map.empty" "om_find (mnUniquePropertyMap ?l) = Map.empty"
    by (simp_all add: CDeterministicMNList_new_def GetMN_def fun_eq_iff)
  have "mnlist_ok H (copy_list H i prev) \<and>
      GetMN (copy_list H i prev) = GetMN ?l ++ map_of (map (\<lambda>m. (proTxHash m, m)) (mns prev))"
    unfolding copy_list_def
  proof (rule copy_fold)
    show "proTxHash m = proTxHash m'"
      if "m \<in> set (mns prev)" "m' \<in> set (mns prev)" "k \<in> prop_hashes H m" "k \<in> prop_hashes H m'" for m m' k
      using index_exact_unique [of "GetMN prev" _ "prop_hashes H" "proTxHash m" m "proTxHash m'" m' k]
        ok that in_map by (auto simp: mnlist_ok_def)
  qed (use d empty in simp_all)
  moreover have "map (\<lambda>m. (proTxHash m, m)) (mns prev) = om_entries (mnMap prev)"
    using ok by (auto simp: mns_def mnlist_ok_def GetMN_def om_entries_iff [symmetric] intro!: map_idI)
  ultimately show "mnlist_ok H (copy_list H i prev)" "GetMN (copy_list H i prev) = GetMN prev"
    by (simp_all add: empty GetMN_def om_find_def fun_eq_iff)
qed

subsection \<open>Special transactions\<close>

definition tx_props :: "CTransaction \<Rightarrow> mn_prop set" where
  "tx_props tx =
     (case GetTxType tx of
       TRANSACTION_PROVIDER_REGISTER \<Rightarrow>
         (case GetTxPayload Unserialize_CProRegTx tx of None \<Rightarrow> {}
          | Some p \<Rightarrow> {P_coll (pr_collateralOutpoint p), P_addr (pr_addr p), P_owner (pr_keyIDOwner p),
                      P_vote (pr_keyIDVoting p), P_oper (pr_vchOperatorPubKey p)})
     | TRANSACTION_PROVIDER_UPDATE_SERVICE \<Rightarrow>
         (case GetTxPayload Unserialize_CProUpServTx tx of None \<Rightarrow> {} | Some p \<Rightarrow> {P_addr (us_addr p)})
     | TRANSACTION_PROVIDER_UPDATE_REGISTRAR \<Rightarrow>
         (case GetTxPayload Unserialize_CProUpRegTx tx of None \<Rightarrow> {}
          | Some p \<Rightarrow> {P_oper (ur_vchOperatorPubKey p), P_vote (ur_keyIDVoting p)})
     | _ \<Rightarrow> {})"

definition register_free :: "evo_env \<Rightarrow> CBlockIndex \<Rightarrow> CTransaction \<Rightarrow> CDeterministicMNList \<Rightarrow> bool" where
  "register_free env i tx l \<longleftrightarrow>
     (IsTxTypeSpecial tx \<and> GetTxType tx = TRANSACTION_PROVIDER_REGISTER \<longrightarrow>
      (\<forall>p. GetTxPayload Unserialize_CProRegTx tx = Some p \<longrightarrow>
        GetMN l (tx_hash tx) = None \<and>
        (\<forall>q \<in> mn_props (new_masternode env i tx p l). \<not> HasUniqueProperty l (prop_hash (env_Hash env) q))))"

fun registers_free :: "evo_env \<Rightarrow> CBlockIndex \<Rightarrow> CTransaction list \<Rightarrow> CDeterministicMNList \<Rightarrow> bool" where
  "registers_free env i [] l = True"
| "registers_free env i (tx # txs) l = (register_free env i tx l \<and>
     (case apply_special env i tx l of Inl _ \<Rightarrow> True | Inr l' \<Rightarrow> registers_free env i txs l'))"

lemma mn_props_new_masternode:
  "GetTxType tx = TRANSACTION_PROVIDER_REGISTER \<Longrightarrow> GetTxPayload Unserialize_CProRegTx tx = Some p \<Longrightarrow>
   mn_props (new_masternode env i tx p l) \<subseteq> tx_props tx"
  by (simp add: mn_props_def state_props_def new_masternode_def tx_props_def)

lemma apply_special_cases:
  assumes "apply_special env i tx l = Inr l'"
  obtains (same) "l' = l"
  | (register) p where "IsTxTypeSpecial tx" "GetTxType tx = TRANSACTION_PROVIDER_REGISTER"
      "GetTxPayload Unserialize_CProRegTx tx = Some p"
      "l' = AddMN (env_Hash env) l (new_masternode env i tx p l)"
  | (update) h mn s where "GetMN l h = Some mn" "l' = UpdateMN (env_Hash env) l h s"
      "keyIDOwner s = keyIDOwner (mn_state mn)" "state_props s \<subseteq> state_props (mn_state mn) \<union> tx_props tx"
      "nLastPaidHeight s = nLastPaidHeight (mn_state mn)" "nTier s = nTier (mn_state mn)"
      "nRegisteredHeight s = nRegisteredHeight (mn_state mn)"
proof (cases "IsTxTypeSpecial tx")
  case False
  then show thesis using assms same by (simp add: apply_special_def)
next
  case True
  have serv: "state_props (service_update i p s) \<subseteq> state_props s \<union> tx_props tx"
    if "GetTxPayload Unserialize_CProUpServTx tx = Some p" "GetTxType tx = TRANSACTION_PROVIDER_UPDATE_SERVICE" for p s
    using that by (auto simp: service_update_def state_props_def tx_props_def Let_def)
  have reg: "state_props (registrar_update i p s) \<subseteq> state_props s \<union> tx_props tx"
    if "GetTxPayload Unserialize_CProUpRegTx tx = Some p" "GetTxType tx = TRANSACTION_PROVIDER_UPDATE_REGISTRAR" for p s
    using that by (auto simp: registrar_update_def state_props_def tx_props_def Let_def)
  have frame: "keyIDOwner (service_update i p s) = keyIDOwner s"
    "nLastPaidHeight (service_update i p s) = nLastPaidHeight s"
    "nTier (service_update i p s) = nTier s" "nRegisteredHeight (service_update i p s) = nRegisteredHeight s"
    "keyIDOwner (registrar_update i q s) = keyIDOwner s"
    "nLastPaidHeight (registrar_update i q s) = nLastPaidHeight s"
    "nTier (registrar_update i q s) = nTier s" "nRegisteredHeight (registrar_update i q s) = nRegisteredHeight s"
    for p q s
    by (simp_all add: service_update_def registrar_update_def Let_def)
  show thesis
  proof (cases "GetTxType tx")
    case TRANSACTION_PROVIDER_REGISTER
    with assms True show thesis
      using register by (auto simp: apply_special_def apply_register_def split: option.splits)
  next
    case TRANSACTION_PROVIDER_UPDATE_SERVICE
    with assms True obtain p mn where "GetTxPayload Unserialize_CProUpServTx tx = Some p"
      "GetMN l (us_proTxHash p) = Some mn"
      "l' = UpdateMN (env_Hash env) l (us_proTxHash p) (service_update i p (mn_state mn))"
      by (auto simp: apply_special_def apply_update_service_def split: option.splits)
    then show thesis
      by (intro update [of "us_proTxHash p" mn "service_update i p (mn_state mn)"]) (simp_all add: serv frame TRANSACTION_PROVIDER_UPDATE_SERVICE)
  next
    case TRANSACTION_PROVIDER_UPDATE_REGISTRAR
    with assms True obtain p mn where "GetTxPayload Unserialize_CProUpRegTx tx = Some p"
      "GetMN l (ur_proTxHash p) = Some mn"
      "l' = UpdateMN (env_Hash env) l (ur_proTxHash p) (registrar_update i p (mn_state mn))"
      by (auto simp: apply_special_def apply_update_registrar_def split: option.splits)
    then show thesis
      by (intro update [of "ur_proTxHash p" mn "registrar_update i p (mn_state mn)"]) (simp_all add: reg frame TRANSACTION_PROVIDER_UPDATE_REGISTRAR)
  next
    case TRANSACTION_PROVIDER_UPDATE_REVOKE
    with assms True obtain p mn where "GetMN l (rv_proTxHash p) = Some mn"
      "l' = UpdateMN (env_Hash env) l (rv_proTxHash p) (revoke_update i p (mn_state mn))"
      by (auto simp: apply_special_def apply_revoke_def split: option.splits)
    then show thesis
      by (intro update [of "rv_proTxHash p" mn "revoke_update i p (mn_state mn)"])
        (simp_all add: revoke_update_def state_props_def)
  qed (use assms True same in \<open>simp_all add: apply_special_def\<close>)
qed

definition list_inv :: "(byte list \<Rightarrow> uint256) \<Rightarrow> mn_prop set \<Rightarrow> CDeterministicMNList \<Rightarrow> bool" where
  "list_inv H P l \<longleftrightarrow> mnlist_ok H l \<and> list_props l \<subseteq> P"

lemma list_inv_UpdateMN:
  assumes "collision_free H P" and "list_inv H P l"
    and "\<And>mn. GetMN l h = Some mn \<Longrightarrow> keyIDOwner s = keyIDOwner (mn_state mn)" and "state_props s \<subseteq> P"
  shows "list_inv H P (UpdateMN H l h s)"
proof -
  have "mnlist_ok H (UpdateMN H l h s)"
    by (rule mnlist_ok_UpdateMN [OF _ assms(3)])
      (use assms in \<open>auto simp: list_inv_def intro: collision_free_subset\<close>)
  then show ?thesis
    using assms(2,4) list_props_UpdateMN [of H l h s] by (auto simp: list_inv_def)
qed

lemma list_props_AddMN: "list_props (AddMN H l mn) \<subseteq> list_props l \<union> mn_props mn"
proof
  fix p assume "p \<in> list_props (AddMN H l mn)"
  then obtain h m where "GetMN (AddMN H l mn) h = Some m" "p \<in> mn_props m"
    by (auto simp: list_props_iff)
  then show "p \<in> list_props l \<union> mn_props mn"
    using mn_props_in_list [of l h m] by (auto simp: GetMN_AddMN split: if_splits)
qed

lemma list_inv_apply_special:
  assumes cf: "collision_free (env_Hash env) P" and inv: "list_inv (env_Hash env) P l"
    and P: "tx_props tx \<subseteq> P" and free: "register_free env i tx l"
    and app: "apply_special env i tx l = Inr l'"
  shows "list_inv (env_Hash env) P l'"
  using app
proof (cases rule: apply_special_cases)
  case same
  then show ?thesis using inv by simp
next
  case (register p)
  have props: "mn_props (new_masternode env i tx p l) \<subseteq> P"
    using mn_props_new_masternode [OF register(2,3)] P by blast
  have "mnlist_ok (env_Hash env) l'"
    unfolding register(4)
    by (rule mnlist_ok_AddMN)
      (use inv free register in \<open>auto simp: list_inv_def register_free_def new_masternode_def\<close>)
  then show ?thesis
    using inv props list_props_AddMN [of "env_Hash env" l "new_masternode env i tx p l"]
    by (auto simp: list_inv_def register(4))
next
  case (update h mn s)
  have "state_props (mn_state mn) \<subseteq> P"
    using inv mn_props_in_list [OF update(1)] by (auto simp: list_inv_def mn_props_def)
  then show ?thesis
    unfolding update(2)
    by (intro list_inv_UpdateMN [OF cf inv]) (use update P in auto)
qed

lemma list_inv_apply_specials:
  assumes "collision_free (env_Hash env) P"
  shows "list_inv (env_Hash env) P l \<Longrightarrow> (\<And>tx. tx \<in> set txs \<Longrightarrow> tx_props tx \<subseteq> P) \<Longrightarrow> registers_free env i txs l \<Longrightarrow>
    apply_specials env i txs l = Inr l' \<Longrightarrow> list_inv (env_Hash env) P l'"
proof (induction txs arbitrary: l)
  case (Cons tx txs)
  then obtain l1 where l1: "apply_special env i tx l = Inr l1" "apply_specials env i txs l1 = Inr l'"
    by (auto split: sum.splits)
  with Cons.prems show ?case
    using list_inv_apply_special [OF assms Cons.prems(1) _ _ l1(1)] by (intro Cons.IH [of l1]) auto
qed simp

subsection \<open>Removal, payment and Proof of Service\<close>

lemma list_inv_BatchRemove: "list_inv H P l \<Longrightarrow> list_inv H P (BatchRemoveMNs H l hs)"
proof -
  assume "list_inv H P l"
  moreover have "list_props (BatchRemoveMNs H l hs) \<subseteq> list_props l"
  proof
    fix p assume "p \<in> list_props (BatchRemoveMNs H l hs)"
    then obtain h mn where "GetMN (BatchRemoveMNs H l hs) h = Some mn" "p \<in> mn_props mn"
      unfolding list_props_iff by blast
    then show "p \<in> list_props l"
      using mn_props_in_list [of l h mn] by (auto simp: GetMN_BatchRemove restrict_map_def split: if_splits)
  qed
  ultimately show ?thesis by (auto simp: list_inv_def mnlist_ok_BatchRemove)
qed

lemma collateral_removed:
  assumes inv: "list_inv H P l" and cf: "collision_free H (P \<union> P_coll ` set (spent_outpoints block))"
    and mn: "GetMN (BatchRemoveMNs H l (collateral_spent_mns H block l)) h = Some mn"
  shows "collateralOutpoint mn \<notin> set (spent_outpoints block)"
proof
  assume sp: "collateralOutpoint mn \<in> set (spent_outpoints block)"
  have ok: "mnlist_ok H l" using inv by (simp add: list_inv_def)
  have l: "GetMN l h = Some mn" and nh: "h \<notin> set (collateral_spent_mns H block l)"
    using mn by (auto simp: GetMN_BatchRemove restrict_map_def split: if_splits)
  have h: "proTxHash mn = h" using ok l by (simp add: mnlist_ok_def)
  have "collision_free H (insert (P_coll (collateralOutpoint mn)) (list_props l))"
    by (rule collision_free_subset [OF cf]) (use inv sp in \<open>auto simp: list_inv_def\<close>)
  from find_property_iff [OF ok this, of mn]
  have "GetMNByCollateral H l (collateralOutpoint mn) = Some mn"
    using l mem_mns_iff [OF ok, of mn] h
    by (simp add: GetMNByCollateral_def prop_hash_eqs mn_props_def)
  then have "h \<in> set (collateral_spent_mns H block l)"
    using sp h by (force simp: collateral_spent_mns_def)
  with nh show False ..
qed

definition paid_state :: "evo_env \<Rightarrow> CBlockIndex \<Rightarrow> CDeterministicMNList \<Rightarrow> uint256 \<Rightarrow> CDeterministicMN \<Rightarrow> CDeterministicMN" where
  "paid_state env i prev h mn =
     (case bi_pprev i of
       None \<Rightarrow> mn
     | Some pp \<Rightarrow>
        if GetValidMNsCount prev > 0 \<and>
           map_option proTxHash (GetMNPayee (env_Hash env) (consensus env) prev (bi_hash pp) (bi_nHeight i)) = Some h
        then mn\<lparr>mn_state := (mn_state mn)\<lparr>nLastPaidHeight := bi_nHeight i\<rparr>\<rparr> else mn)"

lemma mark_payee_effect:
  assumes "mark_payee env i prev l = Some l'"
  shows "GetMN l' h = map_option (paid_state env i prev h) (GetMN l h)"
    and "mnlist_ok (env_Hash env) l \<Longrightarrow> mnlist_ok (env_Hash env) l'"
proof -
  have same: "same_keys (s\<lparr>nLastPaidHeight := x\<rparr>) s" for s x by (simp add: same_keys_def)
  have id: "map_option (paid_state env i prev h) (GetMN l h) = GetMN l h"
    if "\<And>mn. GetMN l h = Some mn \<Longrightarrow> paid_state env i prev h mn = mn"
    using that by (cases "GetMN l h") auto
  consider (none) "l' = l" "\<And>mn. GetMN l h = Some mn \<Longrightarrow> paid_state env i prev h mn = mn"
    | (paid) pp payee mn where "bi_pprev i = Some pp" "GetValidMNsCount prev > 0"
      "GetMNPayee (env_Hash env) (consensus env) prev (bi_hash pp) (bi_nHeight i) = Some payee"
      "GetMN l (proTxHash payee) = Some mn"
      "l' = UpdateMN (env_Hash env) l (proTxHash payee) ((mn_state mn)\<lparr>nLastPaidHeight := bi_nHeight i\<rparr>)"
    using assms unfolding mark_payee_def paid_state_def
    by (fastforce split: option.splits if_splits)
  note effect = this
  from effect show "GetMN l' h = map_option (paid_state env i prev h) (GetMN l h)"
  proof cases
    case none
    then show ?thesis by (simp add: id)
  next
    case (paid pp payee mn)
    then show ?thesis
      by (auto simp: GetMN_UpdateMN_same [OF _ same] paid_state_def intro: option.expand)
  qed
  from effect show "mnlist_ok (env_Hash env) l \<Longrightarrow> mnlist_ok (env_Hash env) l'"
  proof cases
    case (paid pp payee mn)
    moreover assume "mnlist_ok (env_Hash env) l"
    ultimately show ?thesis by (simp add: mnlist_ok_UpdateMN_same [OF _ _ same])
  qed simp
qed

lemma pose_punish_effect:
  "GetMN (fst (pose_punish env i l (mo, d))) h = map_option (case mo of None \<Rightarrow> id
     | Some m \<Rightarrow> punished m (bi_nHeight i) (nPoSeBanThreshold (consensus env)) h) (GetMN l h)"
  "mnlist_ok (env_Hash env) l \<Longrightarrow> mnlist_ok (env_Hash env) (fst (pose_punish env i l (mo, d)))"
proof -
  have st: "punished (fst (PrepareUndo bh aff (m, d))) = punished m" for bh aff m
    by (simp add: punished_def PrepareUndo_def Let_def trim_undo_frame fun_eq_iff)
  show "GetMN (fst (pose_punish env i l (mo, d))) h = map_option (case mo of None \<Rightarrow> id
     | Some m \<Rightarrow> punished m (bi_nHeight i) (nPoSeBanThreshold (consensus env)) h) (GetMN l h)"
  proof (cases mo)
    case (Some m)
    have "punished x1 = punished m" if "PrepareUndo bh aff (m, d) = (x1, x2)" for bh aff x1 x2
      using st [of bh aff m] that by simp
    then show ?thesis
      using Some by (auto simp: pose_punish_def Let_def GetMN_CheckAndPunish split: prod.split)
  qed (simp add: pose_punish_def option.map_id)
  show "mnlist_ok (env_Hash env) l \<Longrightarrow> mnlist_ok (env_Hash env) (fst (pose_punish env i l (mo, d)))"
    by (cases mo) (auto simp: pose_punish_def Let_def mnlist_ok_CheckAndPunish split: prod.split)
qed

definition revived :: "evo_env \<Rightarrow> CBlockIndex \<Rightarrow> CDeterministicMN \<Rightarrow> CDeterministicMN" where
  "revived env i mn = (if revivable env i mn then mn\<lparr>mn_state := revived_state i (mn_state mn)\<rparr> else mn)"

lemma same_keys_revived: "same_keys (revived_state i s) s"
  by (simp add: revived_state_def same_keys_def)

lemma revive_one_list:
  "fst (revive_one env i h (l, mo, d)) =
     (case GetMN l h of None \<Rightarrow> l | Some mn \<Rightarrow> UpdateMN (env_Hash env) l h (revived_state i (mn_state mn)))"
  by (auto simp: revive_one_def Let_def split: option.split prod.split)

lemma revive_fold:
  "distinct hs \<Longrightarrow>
   GetMN (fst (fold (revive_one env i) hs lmd)) h = (if h \<in> set hs then
       map_option (\<lambda>mn. mn\<lparr>mn_state := revived_state i (mn_state mn)\<rparr>) (GetMN (fst lmd) h) else GetMN (fst lmd) h) \<and>
   (mnlist_ok (env_Hash env) (fst lmd) \<longrightarrow> mnlist_ok (env_Hash env) (fst (fold (revive_one env i) hs lmd)))"
proof (induction hs arbitrary: lmd)
  case Nil
  then show ?case by simp
next
  case (Cons g hs)
  obtain l mo d where lmd: "lmd = (l, mo, d)" by (cases lmd)
  let ?r = "revive_one env i g lmd"
  have g: "GetMN (fst ?r) h = (if h = g then
      map_option (\<lambda>mn. mn\<lparr>mn_state := revived_state i (mn_state mn)\<rparr>) (GetMN l h) else GetMN l h)" for h
    unfolding lmd revive_one_list
    by (cases "GetMN l g") (auto simp: GetMN_UpdateMN_same [OF _ same_keys_revived])
  have "mnlist_ok (env_Hash env) l \<longrightarrow> mnlist_ok (env_Hash env) (fst ?r)"
    unfolding lmd revive_one_list
    by (cases "GetMN l g") (auto simp: mnlist_ok_UpdateMN_same [OF _ _ same_keys_revived])
  with Cons.IH [of ?r] Cons.prems show ?case
    by (auto simp: g) (simp_all add: lmd)
qed

lemma mem_mns_to_revive:
  "h \<in> set (mns_to_revive env i l) \<longleftrightarrow> (\<exists>mn. GetMN l h = Some mn \<and> revivable env i mn)"
  unfolding mns_to_revive_def GetMN_def om_entries_iff [symmetric] by force

lemma distinct_mns_to_revive: "distinct (mns_to_revive env i l)"
  by (simp add: mns_to_revive_def distinct_map_filter)

lemma pose_revive_effect:
  "GetMN (fst (pose_revive env i (l, mo, d))) h = map_option (revived env i) (GetMN l h)"
  "mnlist_ok (env_Hash env) l \<Longrightarrow> mnlist_ok (env_Hash env) (fst (pose_revive env i (l, mo, d)))"
proof -
  note f = revive_fold [OF distinct_mns_to_revive [of env i l], where lmd = "(l, mo, d)" and env = env and i = i]
  show "GetMN (fst (pose_revive env i (l, mo, d))) h = map_option (revived env i) (GetMN l h)"
    using f [of h] mem_mns_to_revive [of h env i l]
    by (cases "GetMN l h") (auto simp: pose_revive_def revived_def)
  show "mnlist_ok (env_Hash env) l \<Longrightarrow> mnlist_ok (env_Hash env) (fst (pose_revive env i (l, mo, d)))"
    using f by (simp add: pose_revive_def)
qed


section \<open>The list after a block\<close>

definition list_start :: "evo_env \<Rightarrow> CBlock \<Rightarrow> CBlockIndex \<Rightarrow> CDeterministicMNList \<Rightarrow> CDeterministicMNList" where
  "list_start env block i prev =
     (if bi_nHeight i = nMNv2MigrationHeight (consensus env)
      then CDeterministicMNList_new (bi_hash i) (bi_nHeight i)
      else BatchRemoveMNs (env_Hash env) (copy_list (env_Hash env) i prev)
             (collateral_spent_mns (env_Hash env) block (copy_list (env_Hash env) i prev)))"

definition list_removed :: "evo_env \<Rightarrow> CBlock \<Rightarrow> CBlockIndex \<Rightarrow> CDeterministicMNList \<Rightarrow> CDeterministicMNList" where
  "list_removed env block i l =
     (let l = BatchRemoveMNs (env_Hash env) l (collateral_spent_mns (env_Hash env) block l)
      in BatchRemoveMNs (env_Hash env) l (tier_mismatches env i l))"

definition block_props :: "CBlock \<Rightarrow> mn_prop set" where
  "block_props block = (\<Union>tx \<in> set (vtx block). tx_props tx) \<union> P_coll ` set (spent_outpoints block)"

definition pose_state :: "evo_env \<Rightarrow> CBlockIndex \<Rightarrow> CPoSeManager option \<Rightarrow> uint256 \<Rightarrow> CDeterministicMN \<Rightarrow> CDeterministicMN" where
  "pose_state env i mo h =
     (case mo of None \<Rightarrow> id | Some m \<Rightarrow> punished m (bi_nHeight i) (nPoSeBanThreshold (consensus env)) h)"

lemma process_list_cases:
  assumes "process_list env block i prev (mo, d) = Some (Inr (l', mo', d'))"
  obtains (migration) "bi_nHeight i = nMNv2MigrationHeight (consensus env)"
      "apply_specials env i (vtx block) (list_start env block i prev) = Inr l'" "mo' = mo" "d' = d"
  | (normal) l where "bi_nHeight i \<noteq> nMNv2MigrationHeight (consensus env)"
      "apply_specials env i (vtx block) (list_start env block i prev) = Inr l"
      "\<And>h. GetMN l' h = map_option (\<lambda>mn. revived env i (pose_state env i mo h (paid_state env i prev h mn)))
         (GetMN (list_removed env block i l) h)"
      "mnlist_ok (env_Hash env) (list_removed env block i l) \<Longrightarrow> mnlist_ok (env_Hash env) l'"
proof (cases "bi_nHeight i = nMNv2MigrationHeight (consensus env)")
  case True
  then show thesis
    using assms migration by (auto simp: process_list_def list_start_def Let_def split: sum.splits)
next
  case False
  with assms obtain l l2 where l: "apply_specials env i (vtx block) (list_start env block i prev) = Inr l"
    and l2: "mark_payee env i prev (list_removed env block i l) = Some l2"
    and r: "pose_revive env i (pose_punish env i l2 (mo, d)) = (l', mo', d')"
    by (auto simp: process_list_def list_start_def list_removed_def Let_def split: sum.splits option.splits)
  obtain l3 mo3 d3 where l3: "pose_punish env i l2 (mo, d) = (l3, mo3, d3)" by (metis prod_cases3)
  have "GetMN l' h = map_option (revived env i) (GetMN l3 h)" for h
    using pose_revive_effect(1) [of env i l3 mo3 d3] r l3 by simp
  moreover have "GetMN l3 h = map_option (pose_state env i mo h) (GetMN l2 h)" for h
    using pose_punish_effect(1) [of env i l2 mo d h] l3 by (simp add: pose_state_def)
  ultimately have get: "GetMN l' h = map_option (\<lambda>mn. revived env i (pose_state env i mo h (paid_state env i prev h mn)))
         (GetMN (list_removed env block i l) h)" for h
    by (simp add: mark_payee_effect(1) [OF l2] option.map_comp comp_def)
  show thesis
  proof (rule normal [OF False l get])
    assume "mnlist_ok (env_Hash env) (list_removed env block i l)"
    then have "mnlist_ok (env_Hash env) l2" by (rule mark_payee_effect(2) [OF l2])
    then have "mnlist_ok (env_Hash env) l3" using pose_punish_effect(2) [of env l2 i mo d] l3 by simp
    then show "mnlist_ok (env_Hash env) l'" using pose_revive_effect(2) [of env l3 i mo3 d3] r l3 by simp
  qed
qed

lemma list_inv_start:
  assumes "mnlist_ok (env_Hash env) prev" and "list_props prev \<subseteq> P"
  shows "list_inv (env_Hash env) P (list_start env block i prev)"
proof -
  have "list_props (copy_list (env_Hash env) i prev) = list_props prev"
    by (auto simp: list_props_iff copy_list_ok(2) [OF assms(1)])
  then have "list_inv (env_Hash env) P (copy_list (env_Hash env) i prev)"
    using assms by (simp add: list_inv_def copy_list_ok)
  moreover have "list_inv (env_Hash env) P (CDeterministicMNList_new (bi_hash i) (bi_nHeight i))"
    by (auto simp: list_inv_def mnlist_ok_new list_props_iff)
  ultimately show ?thesis unfolding list_start_def by (cases "bi_nHeight i = nMNv2MigrationHeight (consensus env)") (simp_all only: if_True if_False list_inv_BatchRemove refl)
qed

lemma list_inv_after_specials:
  assumes "mnlist_ok (env_Hash env) prev"
    and "collision_free (env_Hash env) (list_props prev \<union> block_props block)"
    and "registers_free env i (vtx block) (list_start env block i prev)"
    and "apply_specials env i (vtx block) (list_start env block i prev) = Inr l"
  shows "list_inv (env_Hash env) (list_props prev \<union> block_props block) l"
  by (rule list_inv_apply_specials [OF assms(2) _ _ assms(3,4)])
    (auto simp: block_props_def intro!: list_inv_start assms(1))

lemma list_inv_removed: "list_inv (env_Hash env) P l \<Longrightarrow> list_inv (env_Hash env) P (list_removed env block i l)"
  by (simp add: list_removed_def Let_def list_inv_BatchRemove)

lemma process_list_wf:
  assumes "mnlist_ok (env_Hash env) prev"
    and "collision_free (env_Hash env) (list_props prev \<union> block_props block)"
    and "registers_free env i (vtx block) (list_start env block i prev)"
    and "process_list env block i prev (mo, d) = Some (Inr (l', mo', d'))"
  shows "mnlist_ok (env_Hash env) l'"
  using assms(4)
proof (cases rule: process_list_cases)
  case migration
  then show ?thesis using list_inv_after_specials [OF assms(1-3)] by (simp add: list_inv_def)
next
  case (normal l)
  then show ?thesis
    using list_inv_removed [OF list_inv_after_specials [OF assms(1-3) normal(2)]] by (simp add: list_inv_def)
qed

lemma states_collateral [simp]:
  "collateralOutpoint (paid_state env i prev h mn) = collateralOutpoint mn"
  "collateralOutpoint (pose_state env i mo h mn) = collateralOutpoint mn"
  "collateralOutpoint (revived env i mn) = collateralOutpoint mn"
  by (simp_all add: paid_state_def pose_state_def punished_def revived_def split: option.split)

lemma states_tier [simp]:
  "nTier (mn_state (paid_state env i prev h mn)) = nTier (mn_state mn)"
  "nTier (mn_state (pose_state env i mo h mn)) = nTier (mn_state mn)"
  "nTier (mn_state (revived env i mn)) = nTier (mn_state mn)"
  by (simp_all add: paid_state_def pose_state_def punished_def punish_update_def revived_def
      revived_state_def Let_def split: option.split)

lemma process_list_no_spent:
  assumes "mnlist_ok (env_Hash env) prev"
    and cf: "collision_free (env_Hash env) (list_props prev \<union> block_props block)"
    and "registers_free env i (vtx block) (list_start env block i prev)"
    and "process_list env block i prev (mo, d) = Some (Inr (l', mo', d'))"
    and nm: "bi_nHeight i \<noteq> nMNv2MigrationHeight (consensus env)"
    and "GetMN l' h = Some mn"
  shows "collateralOutpoint mn \<notin> set (spent_outpoints block)"
  using assms(4)
proof (cases rule: process_list_cases)
  case (normal l)
  let ?H = "env_Hash env"
  from assms(6) normal(3) obtain m where m: "GetMN (list_removed env block i l) h = Some m"
    and "collateralOutpoint mn = collateralOutpoint m" by auto
  moreover have "GetMN (BatchRemoveMNs ?H l (collateral_spent_mns ?H block l)) h = Some m"
    using m by (auto simp: list_removed_def Let_def GetMN_BatchRemove restrict_map_def split: if_splits)
  then have "collateralOutpoint m \<notin> set (spent_outpoints block)"
    by (rule collateral_removed [OF list_inv_after_specials [OF assms(1-3) normal(2)], rotated])
      (rule collision_free_subset [OF cf], auto simp: block_props_def)
  ultimately show ?thesis by simp
qed (use nm in simp)

lemma mem_tier_mismatches:
  "h \<in> set (tier_mismatches env i l) \<longleftrightarrow> (\<exists>mn. GetMN l h = Some mn \<and> tier_mismatch env i mn)"
  unfolding tier_mismatches_def GetMN_def om_entries_iff [symmetric] by force

lemma process_list_tiers:
  assumes "process_list env block i prev (mo, d) = Some (Inr (l', mo', d'))"
    and nm: "bi_nHeight i \<noteq> nMNv2MigrationHeight (consensus env)"
    and "GetMN l' h = Some mn" and "\<not> Coin_IsSpent (AccessCoin env (collateralOutpoint mn))"
  shows "nTier (mn_state mn) = GetMasternodeTier (consensus env)
      (nValue (coin_out (AccessCoin env (collateralOutpoint mn)))) (bi_nHeight i) \<and> nTier (mn_state mn) \<noteq> 0"
  using assms(1)
proof (cases rule: process_list_cases)
  case (normal l)
  from assms(3) normal(3) obtain m where m: "GetMN (list_removed env block i l) h = Some m"
    and "collateralOutpoint mn = collateralOutpoint m" "nTier (mn_state mn) = nTier (mn_state m)" by auto
  moreover from m have "\<not> tier_mismatch env i m"
    by (auto simp: list_removed_def Let_def GetMN_BatchRemove restrict_map_def mem_tier_mismatches split: if_splits)
  ultimately show ?thesis using assms(4) by (auto simp: tier_mismatch_def Let_def)
qed (use nm in simp)

lemma process_list_payee:
  assumes "process_list env block i prev (mo, d) = Some (Inr (l', mo', d'))"
    and nm: "bi_nHeight i \<noteq> nMNv2MigrationHeight (consensus env)"
    and "bi_pprev i = Some pp" and "GetValidMNsCount prev > 0"
    and "GetMNPayee (env_Hash env) (consensus env) prev (bi_hash pp) (bi_nHeight i) = Some payee"
    and "GetMN l' (proTxHash payee) = Some mn"
  shows "nLastPaidHeight (mn_state mn) = bi_nHeight i"
  using assms(1)
proof (cases rule: process_list_cases)
  case (normal l)
  have keep: "nLastPaidHeight (mn_state (pose_state env i mo h m)) = nLastPaidHeight (mn_state m)" for h m
    by (simp add: pose_state_def punished_def punish_update_def Let_def split: option.split)
  from normal(3) assms(6) obtain m where
    "mn = revived env i (pose_state env i mo (proTxHash payee) (paid_state env i prev (proTxHash payee) m))"
    by auto
  then show ?thesis
    using assms(3-5) by (simp add: revived_def revived_state_def keep paid_state_def)
qed (use nm in simp)

section \<open>Bans and revocations\<close>

lemma process_list_bans:
  assumes "process_list env block i prev (Some m, d) = Some (Inr (l', mo', d'))"
    and nm: "bi_nHeight i \<noteq> nMNv2MigrationHeight (consensus env)"
    and "om_find (stateMap m) h = Some ps" and "penaltyScore ps \<ge> nPoSeBanThreshold (consensus env)"
    and "nPoSeRevivalHeight (consensus env) > 0" and "bi_nHeight i \<ge> 0"
    and "GetMN l' h = Some mn"
  shows "IsBanned (mn_state mn) \<or> nPoSeRevivedHeight (mn_state mn) = bi_nHeight i"
  using assms(1)
proof (cases rule: process_list_cases)
  case (normal l)
  from normal(3) assms(7) obtain x where
    mn: "mn = revived env i (pose_state env i (Some m) h (paid_state env i prev h x))" by auto
  have "IsBanned (mn_state (pose_state env i (Some m) h y))" for y
    using assms(3-6) by (auto simp: pose_state_def punished_def punish_update_def IsBanned_def Let_def)
  then show ?thesis by (auto simp: mn revived_def revived_state_def)
qed (use nm in simp)

lemma revoked_zero_revivable:
  assumes "rv_nReason p = 0" and "bi_nHeight i \<ge> 0"
    and "bi_nHeight j - bi_nHeight i \<ge> nPoSeRevivalHeight (consensus env)"
    and "GetMN l h = Some mn" and "mn_state mn = revoke_update i p s"
  shows "\<exists>mn'. GetMN (fst (pose_revive env j (l, mo, d))) h = Some mn' \<and> MN_IsValid mn'"
  using assms
  by (auto simp: pose_revive_effect(1) revived_def revivable_def revoke_update_def IsBanned_def
      MN_IsValid_def revived_state_def)

text \<open>What no operation but a further revocation changes: the reason of a revocation, and with a
  reason other than 0 the ban.\<close>

definition ban_kept :: "CDeterministicMN \<Rightarrow> CDeterministicMN \<Rightarrow> bool" where
  "ban_kept mn mn' \<longleftrightarrow> nRevocationReason (mn_state mn') = nRevocationReason (mn_state mn) \<and>
     (nRevocationReason (mn_state mn) \<noteq> 0 \<and> IsBanned (mn_state mn) \<longrightarrow> IsBanned (mn_state mn'))"

lemma ban_kept_refl [simp]: "ban_kept mn mn"
  by (simp add: ban_kept_def)

lemma ban_kept_trans: "ban_kept a b \<Longrightarrow> ban_kept b c \<Longrightarrow> ban_kept a c"
  by (auto simp: ban_kept_def)

definition revokes :: "uint256 \<Rightarrow> CTransaction \<Rightarrow> bool" where
  "revokes h tx \<longleftrightarrow> GetTxType tx = TRANSACTION_PROVIDER_UPDATE_REVOKE \<and>
     (\<exists>p. GetTxPayload Unserialize_CProUpRevTx tx = Some p \<and> rv_proTxHash p = h)"

lemma ban_kept_update:
  assumes "GetMN l g = Some mn" and "g = h \<Longrightarrow> ban_kept mn (mn\<lparr>mn_state := s\<rparr>)"
    and "GetMN (UpdateMN H l g s) h = Some mn'"
  shows "\<exists>mn. GetMN l h = Some mn \<and> ban_kept mn mn'"
  using GetMN_UpdateMN [of H l g s h]
proof (elim disjE conjE exE)
  assume "GetMN (UpdateMN H l g s) h = GetMN l h"
  then have "GetMN l h = Some mn'" using assms(3) by simp
  then show ?thesis by simp
qed (use assms in auto)

lemma apply_special_ban:
  assumes "apply_special env i tx l = Inr l'" and "tx_hash tx \<noteq> h" and "\<not> revokes h tx"
    and "GetMN l' h = Some mn'"
  shows "\<exists>mn. GetMN l h = Some mn \<and> ban_kept mn mn'"
proof -
  have s: "ban_kept mn (mn\<lparr>mn_state := service_update i p (mn_state mn)\<rparr>)" for mn p
    by (simp add: ban_kept_def service_update_def IsBanned_def Let_def)
  have r: "ban_kept mn (mn\<lparr>mn_state := registrar_update i p (mn_state mn)\<rparr>)" for mn p
    by (auto simp: ban_kept_def registrar_update_def IsBanned_def Let_def)
  show ?thesis
  proof (cases "IsTxTypeSpecial tx")
    case True
    show ?thesis
    proof (cases "GetTxType tx")
      case TRANSACTION_PROVIDER_REGISTER
      with assms True show ?thesis
        by (auto simp: apply_special_def apply_register_def GetMN_AddMN new_masternode_def split: option.splits)
    next
      case TRANSACTION_PROVIDER_UPDATE_SERVICE
      with assms(1) True obtain p mn where mn: "GetMN l (us_proTxHash p) = Some mn"
        and l': "l' = UpdateMN (env_Hash env) l (us_proTxHash p) (service_update i p (mn_state mn))"
        by (auto simp: apply_special_def apply_update_service_def split: option.splits)
      show ?thesis by (rule ban_kept_update [OF mn s assms(4) [unfolded l']])
    next
      case TRANSACTION_PROVIDER_UPDATE_REGISTRAR
      with assms(1) True obtain p mn where mn: "GetMN l (ur_proTxHash p) = Some mn"
        and l': "l' = UpdateMN (env_Hash env) l (ur_proTxHash p) (registrar_update i p (mn_state mn))"
        by (auto simp: apply_special_def apply_update_registrar_def split: option.splits)
      show ?thesis by (rule ban_kept_update [OF mn r assms(4) [unfolded l']])
    next
      case TRANSACTION_PROVIDER_UPDATE_REVOKE
      with assms(1,3) True obtain p mn where mn: "GetMN l (rv_proTxHash p) = Some mn" and "rv_proTxHash p \<noteq> h"
        and l': "l' = UpdateMN (env_Hash env) l (rv_proTxHash p) (revoke_update i p (mn_state mn))"
        by (auto simp: apply_special_def apply_revoke_def revokes_def split: option.splits)
      then show ?thesis by (intro ban_kept_update [OF mn _ assms(4) [unfolded l']]) simp
    qed (use assms True in \<open>simp_all add: apply_special_def\<close>)
  qed (use assms in \<open>simp add: apply_special_def\<close>)
qed

lemma apply_specials_ban:
  "apply_specials env i txs l = Inr l' \<Longrightarrow> (\<And>tx. tx \<in> set txs \<Longrightarrow> tx_hash tx \<noteq> h \<and> \<not> revokes h tx) \<Longrightarrow>
   GetMN l' h = Some mn' \<Longrightarrow> \<exists>mn. GetMN l h = Some mn \<and> ban_kept mn mn'"
proof (induction txs arbitrary: l)
  case (Cons tx txs)
  from Cons.prems(1) obtain l1 where l1: "apply_special env i tx l = Inr l1" "apply_specials env i txs l1 = Inr l'"
    by (auto split: sum.splits)
  from Cons.IH [OF l1(2) _ Cons.prems(3)] Cons.prems(2)
  obtain m where "GetMN l1 h = Some m" "ban_kept m mn'" by auto
  moreover obtain mn where "GetMN l h = Some mn" "ban_kept mn m"
    using apply_special_ban [OF l1(1) _ _ \<open>GetMN l1 h = Some m\<close>] Cons.prems(2) by auto
  ultimately show ?case using ban_kept_trans by blast
qed simp

lemma process_list_ban_kept:
  assumes "mnlist_ok (env_Hash env) prev"
    and "process_list env block i prev (mo, d) = Some (Inr (l', mo', d'))"
    and txs: "\<And>tx. tx \<in> set (vtx block) \<Longrightarrow> tx_hash tx \<noteq> h \<and> \<not> revokes h tx"
    and "bi_nHeight i \<ge> 0" and "GetMN l' h = Some mn'"
  shows "\<exists>mn. GetMN prev h = Some mn \<and> ban_kept mn mn'"
proof -
  have start: "GetMN prev h = Some mn" if "GetMN (list_start env block i prev) h = Some mn" for mn
    using that by (auto simp: list_start_def GetMN_BatchRemove copy_list_ok(2) [OF assms(1)]
        restrict_map_def split: if_splits)
  have tail: "ban_kept mn (revived env i (pose_state env i mo h (paid_state env i prev h mn)))" for mn
    using assms(4)
    by (auto simp: ban_kept_def revived_def revivable_def revived_state_def pose_state_def punished_def
        punish_update_def paid_state_def IsBanned_def Let_def split: option.split)
  from assms(2) show ?thesis
  proof (cases rule: process_list_cases)
    case migration
    from apply_specials_ban [OF migration(2) txs assms(5)] show ?thesis using start by auto
  next
    case (normal l)
    from assms(5) normal(3) obtain m where m: "GetMN (list_removed env block i l) h = Some m"
      and "mn' = revived env i (pose_state env i mo h (paid_state env i prev h m))" by auto
    then have "ban_kept m mn'" using tail by simp
    moreover from m have "GetMN l h = Some m"
      by (auto simp: list_removed_def Let_def GetMN_BatchRemove restrict_map_def split: if_splits)
    ultimately show ?thesis
      using apply_specials_ban [OF normal(2) txs] start ban_kept_trans by blast
  qed
qed

section \<open>Which masternodes a block removes\<close>

lemma mem_collateral_spent:
  "h \<in> set (collateral_spent_mns H block l) \<longleftrightarrow>
     (\<exists>out \<in> set (spent_outpoints block). \<exists>m. GetMNByCollateral H l out = Some m \<and> proTxHash m = h)"
  unfolding collateral_spent_mns_def by (auto split: option.splits) (metis option.inject)+

lemma collateral_kept:
  assumes inv: "list_inv H P l" and cf: "collision_free H (P \<union> P_coll ` set (spent_outpoints block))"
    and mn: "GetMN l h = Some mn" and "collateralOutpoint mn \<notin> set (spent_outpoints block)"
  shows "h \<notin> set (collateral_spent_mns H block l)"
proof
  have ok: "mnlist_ok H l" using inv by (simp add: list_inv_def)
  assume "h \<in> set (collateral_spent_mns H block l)"
  then obtain out m where out: "out \<in> set (spent_outpoints block)" and m: "GetMNByCollateral H l out = Some m" "proTxHash m = h"
    unfolding mem_collateral_spent by blast
  have "collision_free H (insert (P_coll out) (list_props l))"
    by (rule collision_free_subset [OF cf]) (use inv out in \<open>auto simp: list_inv_def\<close>)
  from find_property_iff [OF ok this, of m] m(1)
  have "m \<in> set (mns l)" "collateralOutpoint m = out"
    by (auto simp: GetMNByCollateral_def prop_hash_eqs mn_props_def state_props_def)
  moreover have "m = mn" using calculation(1) mem_mns_iff [OF ok] m(2) mn by auto
  ultimately show False using assms(4) out by simp
qed

lemma GetMN_collateral_removed:
  assumes "list_inv H P l" and "collision_free H (P \<union> P_coll ` set (spent_outpoints block))"
  shows "GetMN (BatchRemoveMNs H l (collateral_spent_mns H block l)) h =
    (case GetMN l h of None \<Rightarrow> None
     | Some mn \<Rightarrow> if collateralOutpoint mn \<in> set (spent_outpoints block) then None else Some mn)"
proof (cases "GetMN (BatchRemoveMNs H l (collateral_spent_mns H block l)) h")
  case None
  then show ?thesis
    using collateral_kept [OF assms] by (auto simp: GetMN_BatchRemove restrict_map_def split: option.splits if_splits)
next
  case (Some mn)
  then have "GetMN l h = Some mn" by (auto simp: GetMN_BatchRemove restrict_map_def split: if_splits)
  then show ?thesis using Some collateral_removed [OF assms Some] by simp
qed

lemma GetMN_list_removed:
  assumes "list_inv (env_Hash env) P l"
    and "collision_free (env_Hash env) (P \<union> P_coll ` set (spent_outpoints block))"
  shows "GetMN (list_removed env block i l) h =
    (case GetMN l h of None \<Rightarrow> None
     | Some mn \<Rightarrow> if collateralOutpoint mn \<in> set (spent_outpoints block) \<or> tier_mismatch env i mn then None else Some mn)"
  using GetMN_collateral_removed [OF assms]
  by (auto simp: list_removed_def Let_def GetMN_BatchRemove [of _ _ "tier_mismatches _ _ _"] restrict_map_def
      mem_tier_mismatches split: option.splits if_splits)

lemma process_list_plain:
  assumes ok: "mnlist_ok (env_Hash env) prev"
    and cf: "collision_free (env_Hash env) (list_props prev \<union> block_props block)"
    and plain: "list_all (\<lambda>tx. \<not> IsTxTypeSpecial tx) (vtx block)"
    and nm: "bi_nHeight i \<noteq> nMNv2MigrationHeight (consensus env)"
    and p: "process_list env block i prev (mo, d) = Some (Inr (l', mo', d'))"
  shows "GetMN l' h = (case GetMN prev h of None \<Rightarrow> None
    | Some mn \<Rightarrow> if collateralOutpoint mn \<in> set (spent_outpoints block) \<or> tier_mismatch env i mn then None
        else Some (revived env i (pose_state env i mo h (paid_state env i prev h mn))))"
proof -
  let ?H = "env_Hash env" and ?P = "list_props prev \<union> block_props block"
  have specials: "apply_specials env i txs l = Inr l" if "list_all (\<lambda>tx. \<not> IsTxTypeSpecial tx) txs" for txs l
    using that by (induction txs arbitrary: l) (simp_all add: apply_special_def)
  have inv: "list_inv ?H ?P (list_start env block i prev)" by (rule list_inv_start [OF ok]) simp
  have cf': "collision_free ?H (?P \<union> P_coll ` set (spent_outpoints block))"
    by (rule collision_free_subset [OF cf]) (auto simp: block_props_def)
  have copy: "list_inv ?H ?P (copy_list ?H i prev)"
    by (auto simp: list_inv_def copy_list_ok [OF ok] list_props_iff)
  from p show ?thesis
  proof (cases rule: process_list_cases)
    case (normal l)
    then have "l = list_start env block i prev" using specials [OF plain] by simp
    moreover have "GetMN (list_start env block i prev) h = (case GetMN prev h of None \<Rightarrow> None
        | Some mn \<Rightarrow> if collateralOutpoint mn \<in> set (spent_outpoints block) then None else Some mn)"
      using nm GetMN_collateral_removed [OF copy cf', of h] by (simp add: list_start_def copy_list_ok(2) [OF ok])
    ultimately show ?thesis
      using normal(3) [of h] GetMN_list_removed [OF inv cf', of i h] by (auto split: option.splits)
  qed (use nm in simp)
qed

lemma apply_specials_plain:
  "list_all (\<lambda>tx. \<not> IsTxTypeSpecial tx) txs \<Longrightarrow> apply_specials env i txs l = Inr l"
  by (induction txs arbitrary: l) (simp_all add: apply_special_def)

lemma process_list_accepts:
  assumes "apply_specials env i (vtx block) (list_start env block i prev) = Inr l"
    and "\<And>pp. bi_pprev i = Some pp \<Longrightarrow> l_blockHash prev = bi_hash pp"
  shows "\<exists>l' mo' d'. process_list env block i prev (mo, d) = Some (Inr (l', mo', d'))"
proof -
  have "\<exists>l2. mark_payee env i prev l = Some l2" for l
    using assms(2) by (auto simp: mark_payee_def split: option.split)
  then obtain l2 where l2: "mark_payee env i prev (list_removed env block i l) = Some l2" by blast
  show ?thesis
  proof (cases "bi_nHeight i = nMNv2MigrationHeight (consensus env)")
    case True
    then show ?thesis using assms(1) by (simp add: process_list_def list_start_def Let_def)
  next
    case False
    obtain l' mo' d' where "pose_revive env i (pose_punish env i l2 (mo, d)) = (l', mo', d')" by (metis prod_cases3)
    then show ?thesis
      using False assms(1) l2 by (simp add: process_list_def list_start_def list_removed_def Let_def)
  qed
qed

lemmas process_list_plain_ok = process_list_accepts [OF apply_specials_plain]

end
