(* ===== verification/MnStore.thy ===== *)
theory MnStore
  imports MnBlock
begin

text \<open>
  Where the lists are kept: the bounded cache with its eviction, the commit of a block into the
  evolution database, and the invariant \<open>store_ok\<close> that every cached list is also the stored
  one.  On top of it: a committed list is found again, undoing a block restores the previous
  tip list, and the case in which a rebuilt list is evicted before \<open>GetListForBlock\<close> returns it
  (src/src/evo/deterministicmns.cpp, lines 1015-1276).
\<close>


section \<open>The bounded cache\<close>

lemma fold_lowest_le:
  "fold lowest_step es b = Some (h, ht) \<Longrightarrow>
   (\<forall>e \<in> set es. ht \<le> l_nHeight (snd e)) \<and> ht \<le> (case b of None \<Rightarrow> INT_MAX | Some c \<Rightarrow> snd c)"
proof (induction es arbitrary: b)
  case (Cons e es)
  from Cons.IH [of "lowest_step e b"] Cons.prems show ?case
    by (auto simp: lowest_step_def Let_def split: if_splits option.splits)
qed simp

lemma fold_lowest_None: "fold lowest_step es b = None \<Longrightarrow> b = None \<and> (\<forall>e \<in> set es. l_nHeight (snd e) \<ge> INT_MAX)"
proof (induction es arbitrary: b)
  case (Cons e es)
  from Cons.IH [of "lowest_step e b"] Cons.prems show ?case
    by (auto simp: lowest_step_def Let_def split: if_splits option.splits)
qed simp

lemma lowest_entry_le: "lowest_entry m = Some (h, ht) \<Longrightarrow> om_find m k = Some l \<Longrightarrow> ht \<le> l_nHeight l"
  using fold_lowest_le [of "om_entries m" None h ht] by (force simp: lowest_entry_def om_entries_iff [symmetric])

lemma lowest_entry_None: "lowest_entry m = None \<Longrightarrow> om_find m k = Some l \<Longrightarrow> l_nHeight l \<ge> INT_MAX"
  using fold_lowest_None [of "om_entries m" None] by (force simp: lowest_entry_def om_entries_iff [symmetric])

lemma CleanupCache_step:
  obtains (evict) h ht where "om_size m > MAX_CACHE_SIZE" "lowest_entry m = Some (h, ht)"
      "CleanupCache m = CleanupCache (om_erase h m)"
  | (stop) "CleanupCache m = m" "om_size m > MAX_CACHE_SIZE \<Longrightarrow> lowest_entry m = None"
  using that CleanupCache.simps [of m] by (cases "lowest_entry m") (auto split: if_splits)

lemma CleanupCache_sub: "om_find (CleanupCache m) k = Some l \<Longrightarrow> om_find m k = Some l"
proof (induction m rule: CleanupCache.induct)
  case (1 m)
  show ?case
  proof (cases m rule: CleanupCache_step)
    case (evict h ht)
    then have "om_find (om_erase h m) k = Some l" by (intro 1(1) [of "(h, ht)" h ht]) (use 1(2) in simp_all)
    then show ?thesis by (simp split: if_splits)
  qed (use 1(2) in simp)
qed

lemma CleanupCache_evicts_lowest:
  "om_find m k = Some l \<Longrightarrow> om_find (CleanupCache m) k = None \<Longrightarrow> om_find (CleanupCache m) k' = Some l' \<Longrightarrow>
   l_nHeight l \<le> l_nHeight l'"
proof (induction m rule: CleanupCache.induct)
  case (1 m)
  show ?case
  proof (cases m rule: CleanupCache_step)
    case (evict h ht)
    show ?thesis
    proof (cases "k = h")
      case True
      then have "ht = l_nHeight l" using lowest_entry_in [OF evict(2)] 1(2) by auto
      then show ?thesis using lowest_entry_le [OF evict(2) CleanupCache_sub [OF 1(4)]] by simp
    next
      case False
      show ?thesis by (rule 1(1) [of "(h, ht)" h ht]) (use evict False 1(2-4) in simp_all)
    qed
  qed (use 1(2,3) in simp)
qed

lemma CleanupCache_size:
  "(\<And>k l. om_find m k = Some l \<Longrightarrow> l_nHeight l < INT_MAX) \<Longrightarrow> om_size (CleanupCache m) \<le> MAX_CACHE_SIZE"
proof (induction m rule: CleanupCache.induct)
  case (1 m)
  show ?case
  proof (cases m rule: CleanupCache_step)
    case (evict h ht)
    have "om_size (CleanupCache (om_erase h m)) \<le> MAX_CACHE_SIZE"
      by (rule 1(1) [of "(h, ht)" h ht]) (use evict 1(2) in \<open>auto split: if_splits\<close>)
    then show ?thesis using evict by simp
  next
    case stop
    have "om_find m k = None" if "om_size m > MAX_CACHE_SIZE" for k
      using lowest_entry_None [OF stop(2) [OF that]] 1(2) by (cases "om_find m k") force+
    then have "dom (om_find m) = {}" if "om_size m > MAX_CACHE_SIZE" using that by auto
    then show ?thesis using stop(1) by (cases "om_size m > MAX_CACHE_SIZE") (simp_all add: om_size_card)
  qed
qed

section \<open>Which block a list belongs to\<close>

definition list_id :: "CDeterministicMNList \<Rightarrow> uint256 \<times> int" where
  "list_id l = (l_blockHash l, l_nHeight l)"

lemma fold_inv: "(\<And>x s. P s \<Longrightarrow> P (f x s)) \<Longrightarrow> P s \<Longrightarrow> P (fold f xs s)"
  by (induction xs arbitrary: s) auto

lemma list_id_ops [simp]:
  "list_id (AddMN H l mn) = list_id l" "list_id (AddMNInPlace H l mn) = list_id l"
  "list_id (UpdateMN H l h s) = list_id l" "list_id (RemoveMN H l h) = list_id l"
  by (simp_all add: list_id_def AddMN_def AddMNInPlace_def UpdateMN_def RemoveMN_def Let_def split: option.split)

lemma list_id_batch [simp]:
  "list_id (BatchUpdateMNStates H l us) = list_id l" "list_id (BatchRemoveMNs H l hs) = list_id l"
proof -
  have "list_id (fold (\<lambda>(h, s) l. UpdateMN H l h s) us l) = list_id l"
    by (rule fold_inv [where P = "\<lambda>l'. list_id l' = list_id l"]) auto
  then show "list_id (BatchUpdateMNStates H l us) = list_id l" by (simp add: BatchUpdateMNStates_def)
  have "list_id (fold (\<lambda>h l. RemoveMN H l h) hs l) = list_id l"
    by (rule fold_inv [where P = "\<lambda>l'. list_id l' = list_id l"]) auto
  then show "list_id (BatchRemoveMNs H l hs) = list_id l" by (simp add: BatchRemoveMNs_def)
qed

lemma list_id_start: "list_id (list_start env block i prev) = (bi_hash i, bi_nHeight i)"
proof -
  have "list_id (copy_list H i prev) = (bi_hash i, bi_nHeight i)" for H
    unfolding copy_list_def
    by (rule fold_inv [where P = "\<lambda>l'. list_id l' = (bi_hash i, bi_nHeight i)"])
      (simp, simp add: list_id_def CDeterministicMNList_new_def)
  then show ?thesis by (simp add: list_start_def) (simp add: list_id_def CDeterministicMNList_new_def)
qed

lemma list_id_apply_specials: "apply_specials env i txs l = Inr l' \<Longrightarrow> list_id l' = list_id l"
proof (induction txs arbitrary: l)
  case (Cons tx txs)
  then obtain l1 where "apply_special env i tx l = Inr l1" "list_id l' = list_id l1"
    by (auto split: sum.splits)
  then show ?case by (elim apply_special_cases) simp_all
qed simp

lemma list_id_pose:
  "list_id (fst (pose_punish env i l pd)) = list_id l"
  "list_id (fst (pose_revive env i lmd)) = list_id (fst lmd)"
proof -
  show "list_id (fst (pose_punish env i l pd)) = list_id l"
    by (auto simp: pose_punish_def CheckAndPunish_def Let_def split: prod.split option.split)
  have "list_id (fst (revive_one env i h lmd)) = list_id (fst lmd)" for h lmd
    by (cases lmd) (simp add: revive_one_list split: option.split)
  then show "list_id (fst (pose_revive env i lmd)) = list_id (fst lmd)"
    unfolding pose_revive_def by (intro fold_inv [where P = "\<lambda>x. list_id (fst x) = list_id (fst lmd)"]) auto
qed

lemma list_id_process_list:
  assumes "process_list env block i prev pd = Some (Inr (l', mo', d'))"
  shows "list_id l' = (bi_hash i, bi_nHeight i)"
proof (cases "bi_nHeight i = nMNv2MigrationHeight (consensus env)")
  case True
  then have "apply_specials env i (vtx block) (list_start env block i prev) = Inr l'"
    using assms by (auto simp: process_list_def list_start_def Let_def split: sum.splits)
  then show ?thesis by (simp add: list_id_apply_specials list_id_start)
next
  case False
  with assms obtain l l2 where l: "apply_specials env i (vtx block) (list_start env block i prev) = Inr l"
    and l2: "mark_payee env i prev (list_removed env block i l) = Some l2"
    and r: "pose_revive env i (pose_punish env i l2 pd) = (l', mo', d')"
    by (auto simp: process_list_def list_start_def list_removed_def Let_def split: sum.splits option.splits)
  have "list_id l' = list_id l2"
    using list_id_pose(2) [of env i "pose_punish env i l2 pd"] r by (simp add: list_id_pose(1))
  also have "\<dots> = list_id (list_removed env block i l)"
    using l2 by (auto simp: mark_payee_def split: option.splits if_splits)
  also have "\<dots> = list_id l" by (simp add: list_removed_def Let_def)
  finally show ?thesis by (simp add: list_id_apply_specials [OF l] list_id_start)
qed

section \<open>Committing a block\<close>

definition flush_ops :: "CPoSeManager option \<Rightarrow> (evo_key \<times> evo_val option) list" where
  "flush_ops mo = (case mo of None \<Rightarrow> [] | Some m \<Rightarrow>
     if \<not> fDirty m then []
     else map (\<lambda>(h, s). (DB_POSE_STATE h, Some (V_POSE_STATE s))) (om_entries (stateMap m)) @
          [(DB_POSE_HEIGHT, Some (V_INT (m_lastProcessedHeight m)))])"

lemma Pose_Flush_ops:
  "Pose_Flush (m, d) = (m\<lparr>fDirty := False\<rparr>, fold db_op (flush_ops (Some m)) d)"
proof -
  have "fold (\<lambda>(h, s). evo_Write (DB_POSE_STATE h) (V_POSE_STATE s)) es d =
      fold db_op (map (\<lambda>(h, s). (DB_POSE_STATE h, Some (V_POSE_STATE s))) es) d" for es
    by (induction es arbitrary: d) (auto simp: db_op_def)
  then show ?thesis by (simp add: Pose_Flush_def flush_ops_def db_op_def)
qed

definition commit_ops :: "CDeterministicMNList \<Rightarrow> CPoSeManager option \<Rightarrow> (evo_key \<times> evo_val option) list" where
  "commit_ops l mo = (DB_LIST_SNAPSHOT (l_blockHash l), Some (V_LIST l)) # flush_ops mo"

lemma commit_block_eq:
  assumes "idle (st_evoDb st)"
  shows "commit_block i l st = Some (st\<lparr>
    st_evoDb := fold db_op (commit_ops l (st_pose st)) (st_evoDb st),
    st_pose := map_option (\<lambda>m. m\<lparr>fDirty := False\<rparr>) (st_pose st),
    mnListsCache := CleanupCache (om_put (bi_hash i) l (mnListsCache st)),
    tipList := Some l\<rparr>)"
proof -
  let ?d = "st_evoDb st"
  let ?ops = "(DB_LIST_SNAPSHOT (l_blockHash l), Some (V_LIST l)) # flush_ops (st_pose st)"
  have cur: "curDBTransaction ?d = None" "\<not> hasTransaction ?d" using assms by (simp_all add: idle_cur)
  define d1 where "d1 = ?d\<lparr>curDBTransaction := Some [], hasTransaction := True\<rparr>"
  have start: "BeginTransaction ?d = Some d1" using cur by (simp add: BeginTransaction_def d1_def)
  have save: "SaveListToDb l d1 = db_op (hd ?ops) d1" by (simp add: SaveListToDb_def db_op_def)
  have ops: "fold db_op ?ops d1 = d1\<lparr>curDBTransaction := Some ?ops\<rparr>"
    using db_ops_batched [of d1 "[]" ?ops] by (simp add: d1_def)
  have commit: "CommitTransaction (fold db_op ?ops d1) = Some (fold db_op ?ops ?d)"
    unfolding ops db_ops_direct [OF cur(1)] using cur by (simp add: CommitTransaction_def d1_def)
  show ?thesis
  proof (cases "st_pose st")
    case None
    then show ?thesis using start save commit by (simp add: commit_block_def Let_def flush_ops_def commit_ops_def)
  next
    case (Some m)
    then show ?thesis
      using start save commit by (simp add: commit_block_def Let_def Pose_Flush_ops commit_ops_def)
  qed
qed

section \<open>Cache and database agree\<close>

definition db_list :: "evodb \<Rightarrow> uint256 \<Rightarrow> CDeterministicMNList option" where
  "db_list d h = (case evo_Read d (DB_LIST_SNAPSHOT h) of Some (V_LIST l) \<Rightarrow> Some l | _ \<Rightarrow> None)"

lemma LoadListFromDb_db_list: "LoadListFromDb st h = db_list (st_evoDb st) h"
  by (simp add: LoadListFromDb_def db_list_def)

definition store_ok :: "evo_state \<Rightarrow> bool" where
  "store_ok st \<longleftrightarrow> idle (st_evoDb st) \<and>
     (\<forall>h l. om_find (mnListsCache st) h = Some l \<longrightarrow> db_list (st_evoDb st) h = Some l) \<and>
     (\<forall>h l. db_list (st_evoDb st) h = Some l \<longrightarrow> l_blockHash l = h)"

definition list_frame :: "evodb \<Rightarrow> evodb \<Rightarrow> bool" where
  "list_frame d d' \<longleftrightarrow> idle d' \<and> db_list d' = db_list d"

lemma list_frame_refl: "idle d \<Longrightarrow> list_frame d d"
  by (simp add: list_frame_def)

lemma list_frame_write: "list_frame d d' \<Longrightarrow> (\<And>h. k \<noteq> DB_LIST_SNAPSHOT h) \<Longrightarrow> list_frame d (evo_Write k v d')"
  by (auto simp: list_frame_def db_list_def fun_eq_iff evostore.get_put)

lemma list_frame_erase: "list_frame d d' \<Longrightarrow> (\<And>h. k \<noteq> DB_LIST_SNAPSHOT h) \<Longrightarrow> list_frame d (evo_Erase k d')"
  by (auto simp: list_frame_def db_list_def fun_eq_iff evostore.get_del)

lemmas list_frame_ops = list_frame_write list_frame_erase

lemma list_frame_fold:
  "list_frame d d' \<Longrightarrow> (\<And>kv h. kv \<in> set ops \<Longrightarrow> fst kv \<noteq> DB_LIST_SNAPSHOT h) \<Longrightarrow> list_frame d (fold db_op ops d')"
  by (induction ops arbitrary: d') (simp_all add: db_op_def list_frame_ops split: option.split)

lemma list_frame_PrepareUndo: "list_frame d d' \<Longrightarrow> list_frame d (snd (PrepareUndo bh aff (m, d')))"
  unfolding PrepareUndo_def
  by (simp add: Let_def,
      rule trim_undo_inv [where P = "\<lambda>st. list_frame d (snd st)"]) (auto simp: undo_key_def list_frame_ops)

lemma list_frame_ResetPenalty: "list_frame d d' \<Longrightarrow> list_frame d (snd (ResetPenalty h (m, d')))"
  by (simp add: ResetPenalty_def list_frame_ops split: option.split)

lemma list_frame_punish: "list_frame d d' \<Longrightarrow> list_frame d (snd (snd (pose_punish env i l (mo, d'))))"
  using list_frame_PrepareUndo [of d d']
  by (cases mo) (auto simp: pose_punish_def Let_def split_beta)

lemma list_frame_revive_one:
  "list_frame d (snd (snd lmd)) \<Longrightarrow> list_frame d (snd (snd (revive_one env i h lmd)))"
  using list_frame_ResetPenalty [of d "snd (snd lmd)" h]
  by (cases lmd) (auto simp: revive_one_def Let_def split_beta split: option.split)

lemma list_frame_revive:
  "list_frame d (snd (snd lmd)) \<Longrightarrow> list_frame d (snd (snd (pose_revive env i lmd)))"
  unfolding pose_revive_def
  by (rule fold_inv [where P = "\<lambda>x. list_frame d (snd (snd x))"]) (simp_all add: list_frame_revive_one)

lemma list_frame_process_list:
  assumes "process_list env block i prev (mo, d) = Some (Inr (l', mo', d'))" and "idle d"
  shows "list_frame d d'"
proof (cases "bi_nHeight i = nMNv2MigrationHeight (consensus env)")
  case True
  then show ?thesis
    using assms by (auto simp: process_list_def Let_def list_frame_refl split: sum.splits)
next
  case False
  with assms(1) obtain l2 where "pose_revive env i (pose_punish env i l2 (mo, d)) = (l', mo', d')"
    by (auto simp: process_list_def Let_def split: sum.splits option.splits)
  moreover have "list_frame d (snd (snd (pose_revive env i (pose_punish env i l2 (mo, d)))))"
    by (intro list_frame_revive list_frame_punish list_frame_refl assms(2))
  ultimately show ?thesis by simp
qed

lemma db_list_commit:
  assumes "idle d"
  shows "idle (fold db_op (commit_ops l mo) d)"
    and "db_list (fold db_op (commit_ops l mo) d) =
      (db_list d)(l_blockHash l \<mapsto> l)"
proof -
  let ?d = "evo_Write (DB_LIST_SNAPSHOT (l_blockHash l)) (V_LIST l) d"
  have "list_frame ?d (fold db_op (flush_ops mo) ?d)"
    by (rule list_frame_fold) (auto simp: list_frame_refl assms flush_ops_def split: option.splits if_splits)
  moreover have "db_list ?d = (db_list d)(l_blockHash l \<mapsto> l)"
    by (auto simp: db_list_def fun_eq_iff evostore.get_put assms)
  ultimately show
    "idle (fold db_op (commit_ops l mo) d)"
    "db_list (fold db_op (commit_ops l mo) d) =
      (db_list d)(l_blockHash l \<mapsto> l)"
    by (simp_all add: db_op_def list_frame_def commit_ops_def)
qed

lemma finish_block_store:
  assumes "finish_block env block i jc prev st = Some (r, st')" and ok: "store_ok st"
  shows "store_ok st'" and "r = None \<Longrightarrow> \<not> jc \<Longrightarrow>
    \<exists>l. tipList st' = Some l \<and> list_id l = (bi_hash i, bi_nHeight i) \<and>
        db_list (st_evoDb st') = (db_list (st_evoDb st))(bi_hash i \<mapsto> l) \<and>
        mnListsCache st' = CleanupCache (om_put (bi_hash i) l (mnListsCache st))"
proof -
  consider (fail) e where "r = Some e" "st' = st"
    | (ok) l mo d where "process_list env block i prev (st_pose st, st_evoDb st) = Some (Inr (l, mo, d))" "r = None"
      "(if jc then Some (st\<lparr>st_pose := mo, st_evoDb := d\<rparr>) else commit_block i l (st\<lparr>st_pose := mo, st_evoDb := d\<rparr>)) = Some st'"
    using assms(1) by (auto simp: finish_block_def Let_def split: option.splits sum.splits prod.splits if_splits)
  note effect = this
  have idle: "idle (st_evoDb st)" using ok by (simp add: store_ok_def)
  {
    fix l mo d assume p: "process_list env block i prev (st_pose st, st_evoDb st) = Some (Inr (l, mo, d))"
    note frame = list_frame_process_list [OF p idle] and id = list_id_process_list [OF p]
    have "store_ok (st\<lparr>st_pose := mo, st_evoDb := d\<rparr>)"
      using frame ok by (simp add: store_ok_def list_frame_def)
    moreover have "idle d" using frame by (simp add: list_frame_def)
    ultimately have "store_ok s \<and> tipList s = Some l \<and> list_id l = (bi_hash i, bi_nHeight i) \<and>
        db_list (st_evoDb s) = (db_list (st_evoDb st))(bi_hash i \<mapsto> l) \<and>
        mnListsCache s = CleanupCache (om_put (bi_hash i) l (mnListsCache st))"
      if "commit_block i l (st\<lparr>st_pose := mo, st_evoDb := d\<rparr>) = Some s" for s
      using that id frame
      by (auto simp: commit_block_eq db_list_commit list_id_def list_frame_def store_ok_def
          dest!: CleanupCache_sub split: if_splits)
    note this and \<open>store_ok (st\<lparr>st_pose := mo, st_evoDb := d\<rparr>)\<close>
  }
  note committed = this
  from effect show "store_ok st'"
    by cases (use ok committed in \<open>auto split: if_splits\<close>)
  show "\<exists>l. tipList st' = Some l \<and> list_id l = (bi_hash i, bi_nHeight i) \<and>
        db_list (st_evoDb st') = (db_list (st_evoDb st))(bi_hash i \<mapsto> l) \<and>
        mnListsCache st' = CleanupCache (om_put (bi_hash i) l (mnListsCache st))" if "r = None" "\<not> jc"
    using effect that by cases (auto dest: committed)
qed

lemma store_ok_cached:
  "store_ok st \<Longrightarrow> db_list (st_evoDb st) h = Some l \<Longrightarrow> store_ok (st\<lparr>mnListsCache := om_put h l (mnListsCache st)\<rparr>)"
  by (simp add: store_ok_def)

lemma walk_back_store:
  "walk_back st c acc = (bs, base, st') \<Longrightarrow> store_ok st \<Longrightarrow> store_ok st'"
proof (induction st c acc rule: walk_back.induct)
  case (2 st cursor acc)
  show ?case
  proof (cases "om_find (mnListsCache st) (bi_hash cursor)")
    case None
    show ?thesis
    proof (cases "LoadListFromDb st (bi_hash cursor)")
      case None': None
      show ?thesis by (rule 2(1) [OF None None']) (use 2(2,3) None None' in \<open>simp_all add: walk_back.simps\<close>)
    next
      case (Some l)
      then show ?thesis
        using 2(2,3) None store_ok_cached [of st "bi_hash cursor" l]
        by (auto simp: walk_back.simps LoadListFromDb_db_list)
    qed
  qed (use 2(2,3) in \<open>simp add: walk_back.simps\<close>)
qed (simp add: walk_back.simps)

lemma store_ok_steps:
  "store_ok st \<Longrightarrow> GetListForBlock env st c = Some (l, st') \<Longrightarrow> store_ok st'"
  "store_ok st \<Longrightarrow> ProcessBlock env st block i jc = Some (r, st') \<Longrightarrow> store_ok st'"
  "store_ok st \<Longrightarrow> replay_blocks env st idxs base = Some (l, st') \<Longrightarrow> store_ok st'"
proof (induction env st c and env st block i jc and env st idxs base arbitrary: l st' and r st' and l st'
    rule: GetListForBlock_ProcessBlock_replay_blocks.induct)
  case (2 env st pindex)
  show ?case
  proof (cases "bi_nHeight pindex < nMasternodeActivationHeight (consensus env)")
    case False
    show ?thesis
    proof (cases "om_find (mnListsCache st) (bi_hash pindex)")
      case None
      show ?thesis
      proof (cases "LoadListFromDb st (bi_hash pindex)")
        case None': None
        obtain bs base st1 where w: "walk_back st (Some pindex) [] = (bs, base, st1)" by (metis prod_cases3)
        then obtain l2 where "replay_blocks env st1 bs (case base of Some l \<Rightarrow> l | None \<Rightarrow> CDeterministicMNList_default) = Some (l2, st')"
          using 2(3) False None None' by (auto simp: GetListForBlock.simps split: option.splits prod.splits)
        then show ?thesis
          by (intro 2(1) [OF False None None' w [symmetric] refl walk_back_store [OF w 2(2)]])
      next
        case (Some l')
        then show ?thesis
          using 2(2,3) False None store_ok_cached [of st "bi_hash pindex" l']
          by (auto simp: GetListForBlock.simps LoadListFromDb_db_list)
      qed
    qed (use 2(2,3) False in \<open>simp add: GetListForBlock.simps\<close>)
  qed (use 2(2,3) in \<open>simp add: GetListForBlock.simps\<close>)
next
  case (3 env st block pindex jc)
  show ?case
  proof (cases "bi_pprev pindex")
    case None
    then show ?thesis using 3(2,3) finish_block_store(1) by (simp add: ProcessBlock.simps)
  next
    case (Some pp)
    then obtain prev st1 where "GetListForBlock env st (Some pp) = Some (prev, st1)"
      "finish_block env block pindex jc prev st1 = Some (r, st')"
      using 3(3) by (auto simp: ProcessBlock.simps split: option.splits)
    then show ?thesis using finish_block_store(1) 3(1) [OF Some 3(2)] by blast
  qed
next
  case (5 env st replayIdx rest baseList)
  show ?case
  proof (cases "ReadBlockFromDisk env replayIdx")
    case (Some b)
    then obtain r st1 where p: "ProcessBlock env st b replayIdx False = Some (r, st1)"
      and rest: "replay_blocks env st1 rest
        (case om_find (mnListsCache st1) (bi_hash replayIdx) of Some l \<Rightarrow> l | None \<Rightarrow> baseList) = Some (l, st')"
      using 5(4) by (auto simp: replay_blocks.simps split: option.splits prod.splits)
    show ?thesis by (rule 5(2) [OF Some p refl 5(1) [OF Some 5(3) p] rest])
  qed (use 5(3,4) in \<open>simp add: replay_blocks.simps\<close>)
qed (simp_all add: GetListForBlock.simps replay_blocks.simps)

section \<open>Looking lists up again\<close>

lemma GetListForBlock_stored:
  assumes "store_ok st" and "db_list (st_evoDb st) (bi_hash i) = Some l"
    and "bi_nHeight i \<ge> nMasternodeActivationHeight (consensus env)"
  shows "\<exists>st'. GetListForBlock env st (Some i) = Some (l, st') \<and> store_ok st' \<and>
    st_evoDb st' = st_evoDb st \<and> st_pose st' = st_pose st \<and> tipList st' = tipList st"
proof (cases "om_find (mnListsCache st) (bi_hash i)")
  case None
  then show ?thesis
    using assms store_ok_cached [OF assms(1,2)] by (simp add: GetListForBlock.simps LoadListFromDb_db_list)
next
  case (Some l')
  then have "l' = l" using assms(1,2) by (simp add: store_ok_def)
  then show ?thesis using Some assms by (simp add: GetListForBlock.simps)
qed

lemma ProcessBlock_committed:
  assumes "store_ok st" and "ProcessBlock env st block i False = Some (None, st')"
  obtains st1 l where "store_ok st1" "db_list (st_evoDb st') = (db_list (st_evoDb st1))(bi_hash i \<mapsto> l)"
    "tipList st' = Some l" "list_id l = (bi_hash i, bi_nHeight i)" "store_ok st'"
    "bi_pprev i = None \<and> st1 = st \<or> (\<exists>pp prev. bi_pprev i = Some pp \<and> GetListForBlock env st (Some pp) = Some (prev, st1))"
proof (cases "bi_pprev i")
  case None
  then have f: "finish_block env block i False CDeterministicMNList_default st = Some (None, st')"
    using assms(2) by (simp add: ProcessBlock.simps)
  show thesis
    using finish_block_store [OF f assms(1)] that [OF assms(1)] None by blast
next
  case (Some pp)
  then obtain prev st1 where g: "GetListForBlock env st (Some pp) = Some (prev, st1)"
    and f: "finish_block env block i False prev st1 = Some (None, st')"
    using assms(2) by (auto simp: ProcessBlock.simps split: option.splits)
  have ok: "store_ok st1" by (rule store_ok_steps(1) [OF assms(1) g])
  show thesis
    using finish_block_store [OF f ok] that [OF ok] Some g by blast
qed

lemma committed_list_found:
  assumes "store_ok st" and "ProcessBlock env st block i False = Some (None, st')"
    and "bi_nHeight i \<ge> nMasternodeActivationHeight (consensus env)"
  shows "\<exists>l st''. tipList st' = Some l \<and> GetListForBlock env st' (Some i) = Some (l, st'') \<and>
     l_blockHash l = bi_hash i \<and> l_nHeight l = bi_nHeight i"
proof -
  obtain st1 :: evo_state and l where
    "db_list (st_evoDb st') = (db_list (st_evoDb st1))(bi_hash i \<mapsto> l)"
    "tipList st' = Some l" "list_id l = (bi_hash i, bi_nHeight i)" "store_ok st'"
    by (rule ProcessBlock_committed [OF assms(1,2)]) blast
  then show ?thesis
    using GetListForBlock_stored [of st' i l env] assms(3) by (auto simp: list_id_def)
qed

lemma undo_block_tip:
  assumes "store_ok st" and "ProcessBlock env st block i False = Some (None, st')"
    and "bi_pprev i = Some pp" and "bi_hash i \<noteq> bi_hash pp"
    and "bi_nHeight pp \<ge> nMasternodeActivationHeight (consensus env)"
    and "db_list (st_evoDb st) (bi_hash pp) = Some prev"
  shows "\<exists>st''. Manager_UndoBlock env st' block i = Some st'' \<and> tipList st'' = Some prev \<and> store_ok st'' \<and>
    LoadListFromDb st'' = (LoadListFromDb st)(bi_hash i := None)"
proof -
  obtain st1 :: evo_state and l where
    db: "db_list (st_evoDb st') = (db_list (st_evoDb st1))(bi_hash i \<mapsto> l)" and ok: "store_ok st'"
    and "bi_pprev i = None \<and> st1 = st \<or> (\<exists>pp prev. bi_pprev i = Some pp \<and> GetListForBlock env st (Some pp) = Some (prev, st1))"
    by (rule ProcessBlock_committed [OF assms(1,2)]) blast
  then have db1: "st_evoDb st1 = st_evoDb st"
    using GetListForBlock_stored [OF assms(1,6,5)] assms(3) by auto
  define s where "s = st'\<lparr>mnListsCache := om_erase (bi_hash i) (mnListsCache st'),
      st_evoDb := evo_Erase (DB_LIST_SNAPSHOT (bi_hash i)) (st_evoDb st')\<rparr>"
  have "idle (st_evoDb st')" using ok by (simp add: store_ok_def)
  then have "idle (st_evoDb s)" and erased: "db_list (st_evoDb s) = (db_list (st_evoDb st'))(bi_hash i := None)"
    by (auto simp: s_def db_list_def fun_eq_iff evostore.get_del)
  then have dbs: "db_list (st_evoDb s) = (db_list (st_evoDb st))(bi_hash i := None)"
    by (simp add: erased db db1)
  have "db_list (st_evoDb s) h = Some l'" if "om_find (mnListsCache s) h = Some l'" for h l'
    using that ok erased by (auto simp: s_def store_ok_def split: if_splits)
  moreover have "l_blockHash l' = h" if "db_list (st_evoDb s) h = Some l'" for h l'
    using that dbs assms(1) by (auto simp: store_ok_def split: if_splits)
  ultimately have "store_ok s" using \<open>idle (st_evoDb s)\<close> by (simp add: store_ok_def)
  from GetListForBlock_stored [OF this _ assms(5), of prev]
  obtain s2 where s2: "GetListForBlock env s (Some pp) = Some (prev, s2)" "store_ok s2" "st_evoDb s2 = st_evoDb s"
    using dbs assms(4,6) by auto
  have "Manager_UndoBlock env st' block i = Some (s2\<lparr>tipList := Some prev\<rparr>)"
    using s2(1) assms(3) by (simp add: Manager_UndoBlock_def s_def)
  moreover have "store_ok (s2\<lparr>tipList := Some prev\<rparr>)" using s2(2) by (simp add: store_ok_def)
  moreover have "LoadListFromDb (s2\<lparr>tipList := Some prev\<rparr>) = (LoadListFromDb st)(bi_hash i := None)"
    using dbs s2(3) by (simp add: LoadListFromDb_db_list fun_eq_iff)
  ultimately show ?thesis by simp
qed

section \<open>A rebuilt list evicted before it is returned\<close>

lemma lowest_entry_unique:
  assumes "om_find m k = Some l" and "l_nHeight l < INT_MAX"
    and "\<And>k' l'. k' \<noteq> k \<Longrightarrow> om_find m k' = Some l' \<Longrightarrow> l_nHeight l < l_nHeight l'"
  shows "lowest_entry m = Some (k, l_nHeight l)"
proof (cases "lowest_entry m")
  case None
  then show ?thesis using lowest_entry_None [OF None assms(1)] assms(2) by simp
next
  case (Some e)
  obtain h ht where e: "e = (h, ht)" by (cases e)
  with Some obtain l' where l': "om_find m h = Some l'" "ht = l_nHeight l'" using lowest_entry_in by blast
  have "ht \<le> l_nHeight l" by (rule lowest_entry_le [OF Some [unfolded e] assms(1)])
  then have "h = k" using assms(3) [OF _ l'(1)] l'(2) by force
  then show ?thesis using Some e l' assms(1) by simp
qed

lemma om_size_put_new: "om_find m k = None \<Longrightarrow> om_size (om_put k v m) = Suc (om_size m)"
  by (simp add: om_size_card card_insert_if domIff)

lemma CleanupCache_evicts_new:
  assumes "om_find m k = None" and "om_size m \<ge> MAX_CACHE_SIZE" and "l_nHeight l < INT_MAX"
    and "\<And>k' l'. om_find m k' = Some l' \<Longrightarrow> l_nHeight l < l_nHeight l'"
  shows "CleanupCache (om_put k l m) = CleanupCache m"
proof -
  have "lowest_entry (om_put k l m) = Some (k, l_nHeight l)"
    by (rule lowest_entry_unique) (use assms(3,4) in \<open>auto split: if_splits\<close>)
  moreover have "om_erase k (om_put k l m) = m"
    by (rule om_ext) (use assms(1) in auto)
  ultimately show ?thesis
    using om_size_put_new [OF assms(1), of l] assms(2) by (subst CleanupCache.simps) simp
qed

lemma rebuilt_list_evicted:
  assumes ok: "store_ok st" and pp: "bi_pprev i = Some pp"
    and heights: "nMasternodeActivationHeight (consensus env) \<le> bi_nHeight pp" "bi_nHeight pp < bi_nHeight i"
      "l_nHeight prev = bi_nHeight pp" "bi_nHeight i < INT_MAX"
    and i: "bi_hash i \<noteq> bi_hash pp" "om_find (mnListsCache st) (bi_hash i) = None" "LoadListFromDb st (bi_hash i) = None"
    and base: "om_find (mnListsCache st) (bi_hash pp) = None" "LoadListFromDb st (bi_hash pp) = Some prev"
    and full: "om_size (mnListsCache st) = MAX_CACHE_SIZE"
      "\<And>h l. om_find (mnListsCache st) h = Some l \<Longrightarrow> bi_nHeight i < l_nHeight l"
    and block: "ReadBlockFromDisk env i = Some block"
      "process_list env block i prev (st_pose st, st_evoDb st) = Some (Inr (l, mo, d))"
  shows "\<exists>st'. GetListForBlock env st (Some i) = Some (prev, st') \<and> LoadListFromDb st' (bi_hash i) = Some l \<and>
    l_blockHash prev \<noteq> bi_hash i"
proof -
  let ?c = "mnListsCache st"
  let ?st1 = "st\<lparr>mnListsCache := om_put (bi_hash pp) prev ?c\<rparr>"
  have ok1: "store_ok ?st1" using ok base(2) by (intro store_ok_cached) (simp_all add: LoadListFromDb_db_list)
  have l: "list_id l = (bi_hash i, bi_nHeight i)" by (rule list_id_process_list [OF block(2)])
  have idle: "idle d" using list_frame_process_list [OF block(2)] ok by (simp add: store_ok_def list_frame_def)
  have "om_put (bi_hash i) l (om_put (bi_hash pp) prev ?c) = om_put (bi_hash pp) prev (om_put (bi_hash i) l ?c)"
    by (rule om_ext) (simp add: fun_upd_twist [OF i(1)])
  also have "CleanupCache \<dots> = CleanupCache (om_put (bi_hash i) l ?c)"
    by (rule CleanupCache_evicts_new)
      (use i(1) base(1) full heights l om_size_put_new [OF i(2), of l] in \<open>auto simp: list_id_def split: if_splits dest: full(2)\<close>)
  also have "\<dots> = CleanupCache ?c"
    by (rule CleanupCache_evicts_new) (use i(2) full heights(4) l in \<open>auto simp: list_id_def\<close>)
  also have "\<dots> = ?c" using full(1) by (subst CleanupCache.simps) simp
  finally have cache: "CleanupCache (om_put (bi_hash i) l (om_put (bi_hash pp) prev ?c)) = ?c" .
  define st2 where "st2 = ?st1\<lparr>st_evoDb := fold db_op (commit_ops l mo) d,
      st_pose := map_option (\<lambda>m. m\<lparr>fDirty := False\<rparr>) mo, mnListsCache := ?c, tipList := Some l\<rparr>"
  have "finish_block env block i False prev ?st1 = Some (None, st2)"
    using block(2) idle cache by (simp add: finish_block_def commit_block_eq st2_def)
  then have p: "ProcessBlock env ?st1 block i False = Some (None, st2)"
    using pp heights(1) by (simp add: ProcessBlock.simps GetListForBlock.simps)
  have "walk_back st (Some i) [] = ([i], Some prev, ?st1)"
    using i base pp by (simp add: walk_back.simps)
  then have "GetListForBlock env st (Some i) = Some (prev, st2)"
    using i heights(1,2) block(1) p by (simp add: GetListForBlock.simps replay_blocks.simps st2_def)
  moreover have "LoadListFromDb st2 (bi_hash i) = Some l"
    using db_list_commit(2) [OF idle, of l mo] l by (simp add: LoadListFromDb_db_list st2_def list_id_def)
  moreover have "l_blockHash prev \<noteq> bi_hash i"
    using ok base(2) i(1) by (auto simp: store_ok_def LoadListFromDb_db_list)
  ultimately show ?thesis by blast
qed

end
