(* ===== verification/Script.thy ===== *)
theory Script
  imports Primitives
begin

text \<open>
  Scripts as byte strings, src/src/script/script.h and src/src/script/script.cpp: reading one operation,
  pushing data and numbers, script numbers, signature-operation counts and the templates the consensus
  code tests for.  A position in a script is the rest of the script from there.  Sizes are natural
  numbers; \<open>prevector\<close> keeps them below \<open>2 ^ 32\<close>.
\<close>

section \<open>Opcodes\<close>

definition OP_0 :: byte where "OP_0 = 0x00"
definition OP_PUSHDATA1 :: byte where "OP_PUSHDATA1 = 0x4c"
definition OP_PUSHDATA2 :: byte where "OP_PUSHDATA2 = 0x4d"
definition OP_PUSHDATA4 :: byte where "OP_PUSHDATA4 = 0x4e"
definition OP_1NEGATE :: byte where "OP_1NEGATE = 0x4f"
definition OP_RESERVED :: byte where "OP_RESERVED = 0x50"
definition OP_1 :: byte where "OP_1 = 0x51"
definition OP_16 :: byte where "OP_16 = 0x60"
definition OP_RETURN :: byte where "OP_RETURN = 0x6a"
definition OP_CHECKSIGVERIFY :: byte where "OP_CHECKSIGVERIFY = 0xad"
definition OP_CHECKMULTISIG :: byte where "OP_CHECKMULTISIG = 0xae"
definition OP_CHECKMULTISIGVERIFY :: byte where "OP_CHECKMULTISIGVERIFY = 0xaf"
definition MAX_OPCODE :: byte where "MAX_OPCODE = 0xb9"
definition OP_RVN_ASSET :: byte where "OP_RVN_ASSET = 0xc0"
definition OP_INVALIDOPCODE :: byte where "OP_INVALIDOPCODE = 0xff"

definition MAX_PUBKEYS_PER_MULTISIG :: nat where "MAX_PUBKEYS_PER_MULTISIG = 20"
definition MAX_SCRIPT_SIZE :: nat where "MAX_SCRIPT_SIZE = 10000"
definition MAX_SCRIPT_ELEMENT_SIZE :: nat where "MAX_SCRIPT_ELEMENT_SIZE = 520"

lemmas opcode_defs = OP_0_def OP_PUSHDATA1_def OP_PUSHDATA2_def OP_PUSHDATA4_def OP_1NEGATE_def OP_RESERVED_def
  OP_1_def OP_16_def OP_RETURN_def OP_CHECKSIG_def OP_CHECKSIGVERIFY_def OP_CHECKMULTISIG_def
  OP_CHECKMULTISIGVERIFY_def MAX_OPCODE_def OP_RVN_ASSET_def OP_INVALIDOPCODE_def OP_DUP_def OP_EQUAL_def
  OP_EQUALVERIFY_def OP_HASH160_def

section \<open>Reading operations\<close>

text \<open>The size an opcode up to \<open>OP_PUSHDATA4\<close> announces, and the position after it.\<close>

definition push_size :: "byte \<Rightarrow> CScript \<Rightarrow> (nat \<times> CScript) option" where
  "push_size opcode pc =
     (if opcode < OP_PUSHDATA1 then Some (unat opcode, pc)
      else if opcode = OP_PUSHDATA1 then
        if length pc < 1 then None else Some (unat (hd pc), tl pc)
      else if opcode = OP_PUSHDATA2 then
        if length pc < 2 then None else Some (unat (bytes_word (take 2 pc) :: u16), drop 2 pc)
      else if opcode = OP_PUSHDATA4 then
        if length pc < 4 then None else Some (unat (bytes_word (take 4 pc) :: u32), drop 4 pc)
      else Some (0, pc))"

text \<open>The opcode, its operand and the position after them; \<open>None\<close> where \<open>GetOp2\<close> returns false.\<close>

fun GetOp2 :: "CScript \<Rightarrow> (byte \<times> byte list \<times> CScript) option" where
  "GetOp2 [] = None"
| "GetOp2 (opcode # pc) =
     (if opcode \<le> OP_PUSHDATA4 then
        case push_size opcode pc of
          None \<Rightarrow> None
        | Some (nSize, pc) \<Rightarrow>
            if length pc < nSize then None else Some (opcode, take nSize pc, drop nSize pc)
      else if opcode = OP_RVN_ASSET then Some (opcode, pc, [])
      else Some (opcode, [], pc))"

lemma push_size_length: "push_size opcode pc = Some (n, pc') \<Longrightarrow> length pc' \<le> length pc"
  by (auto simp: push_size_def split: if_splits)

lemma GetOp2_data_length: "GetOp2 pc = Some (opcode, vch, pc') \<Longrightarrow> length vch + length pc' < length pc"
  by (induction pc rule: GetOp2.induct)
    (force split: if_splits option.splits dest: push_size_length)+

lemma GetOp2_shorter: "GetOp2 pc = Some (opcode, vch, pc') \<Longrightarrow> length pc' < length pc"
  by (drule GetOp2_data_length) simp

text \<open>The assertion of \<open>DecodeOP_N\<close> and \<open>EncodeOP_N\<close> failing is \<open>None\<close>.\<close>

definition DecodeOP_N :: "byte \<Rightarrow> int option" where
  "DecodeOP_N opcode = (if opcode = OP_0 then Some 0
     else if OP_1 \<le> opcode \<and> opcode \<le> OP_16 then Some (uint opcode - (uint OP_1 - 1)) else None)"

definition EncodeOP_N :: "int \<Rightarrow> byte option" where
  "EncodeOP_N n = (if 0 \<le> n \<and> n \<le> 16 then Some (if n = 0 then OP_0 else OP_1 + word_of_int n - 1) else None)"

text \<open>
  The loops over a script.  Each ends because an operation takes at least one byte.  The opcodes after
  the failure of \<open>GetOp2\<close> are not looked at: \<open>GetSigOpCount\<close> keeps its count, the tests are false.
\<close>

function sigop_loop :: "bool \<Rightarrow> byte \<Rightarrow> u32 \<Rightarrow> CScript \<Rightarrow> u32" where
  "sigop_loop fAccurate lastOpcode n pc =
     (case GetOp2 pc of
       None \<Rightarrow> n
     | Some (opcode, _, pc') \<Rightarrow>
         sigop_loop fAccurate opcode
           (if opcode = OP_CHECKSIG \<or> opcode = OP_CHECKSIGVERIFY then n + 1
            else if opcode = OP_CHECKMULTISIG \<or> opcode = OP_CHECKMULTISIGVERIFY then
              if fAccurate \<and> OP_1 \<le> lastOpcode \<and> lastOpcode \<le> OP_16
              then n + word_of_int (the (DecodeOP_N lastOpcode))
              else n + of_nat MAX_PUBKEYS_PER_MULTISIG
            else n) pc')"
  by pat_completeness auto
termination by (relation "measure (\<lambda>(a, l, n, pc). length pc)") (auto dest: GetOp2_shorter)

definition GetSigOpCount :: "bool \<Rightarrow> CScript \<Rightarrow> u32" where
  "GetSigOpCount fAccurate sc = sigop_loop fAccurate OP_INVALIDOPCODE 0 sc"

text \<open>The last item a script of pushes leaves on the stack; \<open>None\<close> if it is not one.\<close>

function last_push :: "byte list \<Rightarrow> CScript \<Rightarrow> byte list option" where
  "last_push vData pc =
     (if pc = [] then Some vData
      else case GetOp2 pc of
        None \<Rightarrow> None
      | Some (opcode, vch, pc') \<Rightarrow> if OP_16 < opcode then None else last_push vch pc')"
  by pat_completeness auto
termination by (relation "measure (\<lambda>(v, pc). length pc)") (auto dest: GetOp2_shorter)

definition GetSigOpCount_P2SH :: "CScript \<Rightarrow> CScript \<Rightarrow> u32" where
  "GetSigOpCount_P2SH ssig sc =
     (if \<not> IsPayToScriptHash sc then GetSigOpCount True sc
      else case last_push [] ssig of None \<Rightarrow> 0 | Some vData \<Rightarrow> GetSigOpCount True vData)"

function IsPushOnly :: "CScript \<Rightarrow> bool" where
  "IsPushOnly pc =
     (if pc = [] then True
      else case GetOp2 pc of
        None \<Rightarrow> False
      | Some (opcode, _, pc') \<Rightarrow> if OP_16 < opcode then False else IsPushOnly pc')"
  by pat_completeness auto
termination by (relation "measure length") (auto dest: GetOp2_shorter)

function HasValidOps :: "CScript \<Rightarrow> bool" where
  "HasValidOps pc =
     (if pc = [] then True
      else case GetOp2 pc of
        None \<Rightarrow> False
      | Some (opcode, item, pc') \<Rightarrow>
          if MAX_OPCODE < opcode \<or> MAX_SCRIPT_ELEMENT_SIZE < length item then False else HasValidOps pc')"
  by pat_completeness auto
termination by (relation "measure length") (auto dest: GetOp2_shorter)

function Find_from :: "byte \<Rightarrow> int \<Rightarrow> CScript \<Rightarrow> int" where
  "Find_from op nFound pc =
     (if pc = [] then nFound
      else case GetOp2 pc of
        None \<Rightarrow> nFound
      | Some (opcode, _, pc') \<Rightarrow> Find_from op (if opcode = op then nFound + 1 else nFound) pc')"
  by pat_completeness auto
termination by (relation "measure (\<lambda>(p, n, pc). length pc)") (auto dest: GetOp2_shorter)

definition Script_Find :: "byte \<Rightarrow> CScript \<Rightarrow> int" where
  "Script_Find op sc = Find_from op 0 sc"

declare sigop_loop.simps [simp del] last_push.simps [simp del] IsPushOnly.simps [simp del] HasValidOps.simps [simp del]
  Find_from.simps [simp del]

subsection \<open>\<open>FindAndDelete\<close>\<close>

text \<open>
  \<open>skip_matches\<close> is the inner loop, \<open>find_delete_loop\<close> the outer one, which ends only because
  operations end: not returning is \<open>None\<close> here.  \<open>pc2\<close> is where the part kept next starts.
\<close>

function skip_matches :: "CScript \<Rightarrow> CScript \<Rightarrow> nat \<Rightarrow> CScript \<times> nat" where
  "skip_matches b pc nFound =
     (if b \<noteq> [] \<and> length b \<le> length pc \<and> take (length b) pc = b
      then skip_matches b (drop (length b) pc) (nFound + 1) else (pc, nFound))"
  by pat_completeness auto
termination
  by (relation "measure (\<lambda>(b, pc, n). length pc)") (auto simp flip: length_greater_0_conv)

declare skip_matches.simps [simp del]

partial_function (option) find_delete_loop ::
  "CScript \<Rightarrow> CScript \<Rightarrow> CScript \<Rightarrow> CScript \<Rightarrow> nat \<Rightarrow> (CScript \<times> CScript \<times> nat) option" where
  [code]: "find_delete_loop b result pc2 pc nFound =
     (let result = result @ take (length pc2 - length pc) pc2;
          (pc, nFound) = skip_matches b pc nFound
      in case GetOp2 pc of
           None \<Rightarrow> Some (result, pc, nFound)
         | Some (_, _, pc') \<Rightarrow> find_delete_loop b result pc pc' nFound)"

definition FindAndDelete :: "CScript \<Rightarrow> CScript \<Rightarrow> (nat \<times> CScript) option" where
  "FindAndDelete b sc =
     (if b = [] then Some (0, sc)
      else case find_delete_loop b [] sc sc 0 of
        None \<Rightarrow> None
      | Some (result, pc2, nFound) \<Rightarrow> Some (nFound, if nFound > 0 then result @ pc2 else sc))"

section \<open>Writing\<close>

definition push_data :: "byte list \<Rightarrow> CScript" where
  "push_data b =
     (if length b < unat OP_PUSHDATA1 then of_nat (length b) # b
      else if length b \<le> 0xff then OP_PUSHDATA1 # of_nat (length b) # b
      else if length b \<le> 0xffff then OP_PUSHDATA2 # word_bytes 2 (of_nat (length b) :: u16) @ b
      else OP_PUSHDATA4 # word_bytes 4 (of_nat (length b) :: u32) @ b)"

subsection \<open>Script numbers\<close>

text \<open>
  A \<open>CScriptNum\<close> is its \<open>m_value\<close>.  \<open>serialize\<close> is meant for values above \<open>- 2 ^ 63\<close>, where the
  negation in the source does not overflow.
\<close>

function abs_bytes :: "u64 \<Rightarrow> byte list" where
  "abs_bytes absvalue = (if absvalue = 0 then [] else ucast absvalue # abs_bytes (drop_bit 8 absvalue))"
  by pat_completeness auto
termination
proof (relation "measure unat")
  show "(drop_bit 8 w, w) \<in> measure unat" if "w \<noteq> 0" for w :: u64
    using that unfolding in_measure unat_drop_bit_eq unfolding drop_bit_eq_div by (simp add: unat_gt_0)
qed simp

declare abs_bytes.simps [simp del]

definition ScriptNum_serialize :: "int \<Rightarrow> byte list" where
  "ScriptNum_serialize value =
     (if value = 0 then []
      else let neg = value < 0;
               result = abs_bytes (word_of_int (if neg then - value else value))
        in if and (last result) 0x80 \<noteq> 0 then result @ [if neg then 0x80 else 0]
           else if neg then butlast result @ [or (last result) 0x80]
           else result)"

definition set_vch :: "byte list \<Rightarrow> int" where
  "set_vch vch =
     (if vch = [] then 0
      else let result = (bytes_word vch :: u64)
        in if and (last vch) 0x80 \<noteq> 0
           then - sint (and result (not (push_bit (8 * (length vch - 1)) 0x80)))
           else sint result)"

datatype scriptnum_error = Scriptnum_overflow | Scriptnum_not_minimal

definition CScriptNum :: "byte list \<Rightarrow> bool \<Rightarrow> nat \<Rightarrow> scriptnum_error + int" where
  "CScriptNum vch fRequireMinimal nMaxNumSize =
     (if length vch > nMaxNumSize then Inl Scriptnum_overflow
      else if fRequireMinimal \<and> length vch > 0 \<and> and (last vch) 0x7f = 0 \<and>
          (length vch \<le> 1 \<or> and (vch ! (length vch - 2)) 0x80 = 0)
        then Inl Scriptnum_not_minimal
      else Inr (set_vch vch))"

definition ScriptNum_getint :: "int \<Rightarrow> int" where
  "ScriptNum_getint v = (if v > 2 ^ 31 - 1 then 2 ^ 31 - 1 else if v < - (2 ^ 31) then - (2 ^ 31) else v)"

definition push_int64 :: "int \<Rightarrow> CScript" where
  "push_int64 n = (if n = - 1 \<or> (1 \<le> n \<and> n \<le> 16) then [word_of_int (n + (uint OP_1 - 1))]
     else if n = 0 then [OP_0] else push_data (ScriptNum_serialize n))"

section \<open>Templates\<close>

definition IsPayToWitnessScriptHash :: "CScript \<Rightarrow> bool" where
  "IsPayToWitnessScriptHash sc \<longleftrightarrow> length sc = 34 \<and> sc ! 0 = OP_0 \<and> sc ! 1 = 0x20"

definition IsWitnessProgram :: "CScript \<Rightarrow> (int \<times> byte list) option" where
  "IsWitnessProgram sc =
     (if length sc < 4 \<or> 42 < length sc then None
      else if sc ! 0 \<noteq> OP_0 \<and> (sc ! 0 < OP_1 \<or> OP_16 < sc ! 0) then None
      else if unat (sc ! 1) + 2 = length sc then Some (the (DecodeOP_N (sc ! 0)), drop 2 sc)
      else None)"

definition IsPayToPublicKey :: "CScript \<Rightarrow> bool" where
  "IsPayToPublicKey sc =
     (if length sc = 35 then (sc ! 1 = 0x02 \<or> sc ! 1 = 0x03) \<and> sc ! 34 = OP_CHECKSIG
      else if length sc = 67 then sc ! 1 = 0x04 \<and> sc ! 66 = OP_CHECKSIG
      else False)"

subsection \<open>Asset scripts\<close>

definition RVN_R :: byte where "RVN_R = 114"
definition RVN_V :: byte where "RVN_V = 118"
definition RVN_N :: byte where "RVN_N = 110"
definition RVN_Q :: byte where "RVN_Q = 113"
definition RVN_T :: byte where "RVN_T = 116"
definition RVN_O :: byte where "RVN_O = 111"

datatype asset_txtype = TX_NEW_ASSET | TX_REISSUE_ASSET | TX_TRANSFER_ASSET

text \<open>
  The type, the owner flag and the index where the asset data begins; the owner flag of the callers
  starts as false.
\<close>

definition asset_index :: "CScript \<Rightarrow> int" where
  "asset_index sc =
     (if sc ! 27 = RVN_R then (if sc ! 28 = RVN_V \<and> sc ! 29 = RVN_N then 30 else - 1)
      else if sc ! 28 = RVN_R \<and> sc ! 29 = RVN_V \<and> sc ! 30 = RVN_N then 31 else - 1)"

definition IsAssetScript :: "CScript \<Rightarrow> (asset_txtype \<times> bool \<times> nat) option" where
  "IsAssetScript sc =
     (if length sc > 31 \<and> sc ! 25 = OP_RVN_ASSET \<and> asset_index sc > 0 then
        let index = nat (asset_index sc); start = index + 1
        in if sc ! index = RVN_T then Some (TX_TRANSFER_ASSET, False, start)
           else if sc ! index = RVN_Q \<and> length sc > 39 then Some (TX_NEW_ASSET, False, start)
           else if sc ! index = RVN_O then Some (TX_NEW_ASSET, True, start)
           else if sc ! index = RVN_R then Some (TX_REISSUE_ASSET, False, start)
           else None
      else None)"

definition IsNewAsset :: "CScript \<Rightarrow> bool" where
  "IsNewAsset sc = (case IsAssetScript sc of Some (t, own, _) \<Rightarrow> \<not> own \<and> t = TX_NEW_ASSET | None \<Rightarrow> False)"

definition IsOwnerAsset :: "CScript \<Rightarrow> bool" where
  "IsOwnerAsset sc = (case IsAssetScript sc of Some (t, own, _) \<Rightarrow> own \<and> t = TX_NEW_ASSET | None \<Rightarrow> False)"

definition IsReissueAsset :: "CScript \<Rightarrow> bool" where
  "IsReissueAsset sc = (case IsAssetScript sc of Some (t, own, _) \<Rightarrow> t = TX_REISSUE_ASSET | None \<Rightarrow> False)"

definition IsTransferAsset :: "CScript \<Rightarrow> bool" where
  "IsTransferAsset sc = (case IsAssetScript sc of Some (t, own, _) \<Rightarrow> t = TX_TRANSFER_ASSET | None \<Rightarrow> False)"

definition IsNullAssetTxDataScript :: "CScript \<Rightarrow> bool" where
  "IsNullAssetTxDataScript sc \<longleftrightarrow> length sc > 23 \<and> sc ! 0 = OP_RVN_ASSET \<and> sc ! 1 = 0x14"

definition IsNullGlobalRestrictionAssetTxDataScript :: "CScript \<Rightarrow> bool" where
  "IsNullGlobalRestrictionAssetTxDataScript sc \<longleftrightarrow>
     length sc > 6 \<and> sc ! 0 = OP_RVN_ASSET \<and> sc ! 1 = OP_RESERVED \<and> sc ! 2 = OP_RESERVED"

definition IsNullAssetVerifierTxDataScript :: "CScript \<Rightarrow> bool" where
  "IsNullAssetVerifierTxDataScript sc \<longleftrightarrow>
     length sc > 3 \<and> sc ! 0 = OP_RVN_ASSET \<and> sc ! 1 = OP_RESERVED \<and> sc ! 2 \<noteq> OP_RESERVED"

definition IsNullAsset :: "CScript \<Rightarrow> bool" where
  "IsNullAsset sc \<longleftrightarrow> IsNullAssetTxDataScript sc \<or> IsNullGlobalRestrictionAssetTxDataScript sc \<or>
     IsNullAssetVerifierTxDataScript sc"

section \<open>What is pushed is read back\<close>

definition push_opcode :: "byte list \<Rightarrow> byte" where
  "push_opcode b = hd (push_data b)"

lemma unat_of_nat_small: "n < 2 ^ LENGTH('a) \<Longrightarrow> unat (of_nat n :: 'a::len word) = n"
  by (simp add: unat_of_nat take_bit_nat_eq_self)

lemma push_opcode_le: "length b < 2 ^ 32 \<Longrightarrow> push_opcode b \<le> OP_PUSHDATA4"
  by (auto simp: push_opcode_def push_data_def opcode_defs word_le_nat_alt unat_of_nat_small)

lemma push_data_not_Nil [simp]: "push_data b \<noteq> []"
  by (simp add: push_data_def)

lemma push_data_Cons: "push_data b = push_opcode b # tl (push_data b)"
  by (simp add: push_opcode_def push_data_def)

lemma push_size_push_data:
  assumes "length b < 2 ^ 32"
  shows "push_size (push_opcode b) (tl (push_data b) @ rest) = Some (length b, b @ rest)"
proof -
  consider "length b < 0x4c" | "0x4c \<le> length b" "length b \<le> 0xff" | "0xff < length b" "length b \<le> 0xffff"
    | "0xffff < length b" by linarith
  then show ?thesis
  proof cases
    case 1
    then have "(of_nat (length b) :: byte) < OP_PUSHDATA1"
      by (simp add: opcode_defs word_less_nat_alt unat_of_nat_small)
    then show ?thesis using 1 by (simp add: push_size_def push_opcode_def push_data_def opcode_defs unat_of_nat_small)
  next
    case 2
    then show ?thesis by (simp add: push_size_def push_opcode_def push_data_def opcode_defs unat_of_nat_small)
  next
    case 3
    have "bytes_word (word_bytes 2 (of_nat (length b) :: u16)) = (of_nat (length b) :: u16)"
      by (rule bytes_word_word_bytes) simp
    then show ?thesis using 3 by (simp add: push_size_def push_opcode_def push_data_def opcode_defs unat_of_nat_small)
  next
    case 4
    have "bytes_word (word_bytes 4 (of_nat (length b) :: u32)) = (of_nat (length b) :: u32)"
      by (rule bytes_word_word_bytes) simp
    then show ?thesis
      using 4 assms by (simp add: push_size_def push_opcode_def push_data_def opcode_defs unat_of_nat_small)
  qed
qed

lemma GetOp2_push_data:
  assumes "length b < 2 ^ 32"
  shows "GetOp2 (push_data b @ rest) = Some (push_opcode b, b, rest)"
  using push_size_push_data [OF assms, of rest] push_opcode_le [OF assms]
  by (subst push_data_Cons) simp

lemma push_opcode_not_large: "length b < 2 ^ 32 \<Longrightarrow> \<not> OP_16 < push_opcode b"
  using push_opcode_le [of b] by (simp add: opcode_defs word_le_nat_alt word_less_nat_alt)

lemma IsPushOnly_pushes: "\<forall>b\<in>set bs. length b < 2 ^ 32 \<Longrightarrow> IsPushOnly (concat (map push_data bs))"
proof (induction bs)
  case Nil
  then show ?case by (simp add: IsPushOnly.simps)
next
  case (Cons b bs)
  then show ?case
    using push_opcode_not_large [of b] by (simp add: IsPushOnly.simps [of "push_data b @ _"] GetOp2_push_data)
qed

lemma last_push_pushes:
  "\<forall>b\<in>set bs. length b < 2 ^ 32 \<Longrightarrow> last_push v (concat (map push_data bs)) = Some (last (v # bs))"
proof (induction bs arbitrary: v)
  case Nil
  then show ?case by (simp add: last_push.simps)
next
  case (Cons b bs)
  then show ?case
    using push_opcode_not_large [of b] by (simp add: last_push.simps [of v "push_data b @ _"] GetOp2_push_data)
qed

section \<open>Signature operations are bounded by the size of the script\<close>

lemma DecodeOP_N_small:
  assumes "OP_1 \<le> l" and "l \<le> OP_16"
  shows "unat (word_of_int (the (DecodeOP_N l)) :: u32) \<le> 20"
proof -
  have l: "uint l \<le> 96" "81 \<le> uint l" using assms by (simp_all add: opcode_defs word_le_def)
  then have "l \<noteq> 0" by auto
  then have "DecodeOP_N l = Some (uint l - 80)" using assms by (simp add: DecodeOP_N_def opcode_defs)
  moreover have w: "uint (word_of_int k :: u32) = k" if "1 \<le> k" "k \<le> 16" for k
    using that by (simp add: uint_word_of_int)
  have "uint (word_of_int (uint l - 80) :: u32) = uint l - 80" by (rule w) (use l in linarith)+
  ultimately show ?thesis using l by (simp only: unat_eq_nat_uint option.sel)
qed

lemma sigop_loop_bound:
  "unat n + 20 * length pc < 2 ^ 32 \<Longrightarrow> unat (sigop_loop a l n pc) \<le> unat n + 20 * length pc"
proof (induction a l n pc rule: sigop_loop.induct)
  case (1 a l n pc)
  show ?case
  proof (cases "GetOp2 pc")
    case None
    then show ?thesis by (simp add: sigop_loop.simps [of a l n pc])
  next
    case (Some x)
    obtain opcode vch pc' where x: "x = (opcode, vch, pc')" by (cases x)
    let ?n = "if opcode = OP_CHECKSIG \<or> opcode = OP_CHECKSIGVERIFY then n + 1
            else if opcode = OP_CHECKMULTISIG \<or> opcode = OP_CHECKMULTISIGVERIFY then
              if a \<and> OP_1 \<le> l \<and> l \<le> OP_16 then n + word_of_int (the (DecodeOP_N l))
              else n + of_nat MAX_PUBKEYS_PER_MULTISIG
            else n"
    have len: "length pc' < length pc" using GetOp2_shorter Some x by blast
    have plus: "unat (n + d) \<le> unat n + 20" if "unat d \<le> 20" for d :: u32
      using that mod_less_eq_dividend [of "unat n + unat d" "2 ^ 32"] by (simp add: unat_word_ariths(1))
    have n: "unat ?n \<le> unat n + 20" using plus DecodeOP_N_small [of l] by (simp add: MAX_PUBKEYS_PER_MULTISIG_def)
    then have "unat ?n + 20 * length pc' < 2 ^ 32" using len "1.prems" by linarith
    then have "unat (sigop_loop a opcode ?n pc') \<le> unat ?n + 20 * length pc'"
      using "1.IH" Some x by simp
    then show ?thesis
      using n len Some x by (simp add: sigop_loop.simps [of a l n pc] del: One_nat_def)
  qed
qed

lemma GetSigOpCount_bound: "20 * length sc < 2 ^ 32 \<Longrightarrow> unat (GetSigOpCount a sc) \<le> 20 * length sc"
  using sigop_loop_bound [of 0 sc a OP_INVALIDOPCODE] by (simp add: GetSigOpCount_def)

section \<open>\<open>FindAndDelete\<close> returns, and deletes every match at an operation boundary\<close>

text \<open>The reference: matches go, operations stay, and what cannot be read stays as it is.\<close>

function delete_all :: "CScript \<Rightarrow> CScript \<Rightarrow> nat \<times> CScript" where
  "delete_all b pc =
     (if b \<noteq> [] \<and> length b \<le> length pc \<and> take (length b) pc = b then
        let (n, r) = delete_all b (drop (length b) pc) in (Suc n, r)
      else case GetOp2 pc of
        None \<Rightarrow> (0, pc)
      | Some (_, _, pc') \<Rightarrow> let (n, r) = delete_all b pc' in (n, take (length pc - length pc') pc @ r))"
  by pat_completeness auto
termination
  by (relation "measure (\<lambda>(b, pc). length pc)") (auto simp flip: length_greater_0_conv dest: GetOp2_shorter)

declare delete_all.simps [simp del]

lemma push_size_suffix: "push_size opcode pc = Some (n, r) \<Longrightarrow> \<exists>k. r = drop k pc"
  by (auto simp: push_size_def drop_Suc intro: exI [of _ 0] exI [of _ "Suc 0"] split: if_splits)

lemma GetOp2_suffix: "GetOp2 pc = Some (opcode, vch, pc') \<Longrightarrow> take (length pc - length pc') pc @ pc' = pc"
proof (induction pc rule: GetOp2.induct)
  case (2 opcode' pc)
  have "\<exists>k. pc' = drop k pc"
    using 2 by (auto split: if_splits option.splits dest!: push_size_suffix intro: exI [of _ 0] exI [of _ "length pc"])
  then obtain k where "pc' = drop (Suc k) (opcode' # pc)" by auto
  then show ?case by (cases "Suc k \<le> length (opcode' # pc)") simp_all
qed simp

lemma skip_matches_delete:
  assumes "skip_matches b pc n = (pc', m)"
  shows "n \<le> m \<and> length pc' \<le> length pc \<and> \<not> (b \<noteq> [] \<and> length b \<le> length pc' \<and> take (length b) pc' = b) \<and>
    delete_all b pc = (m - n + fst (delete_all b pc'), snd (delete_all b pc'))"
  using assms
proof (induction b pc n rule: skip_matches.induct)
  case (1 b pc n)
  show ?case
  proof (cases "b \<noteq> [] \<and> length b \<le> length pc \<and> take (length b) pc = b")
    case True
    then have "skip_matches b (drop (length b) pc) (n + 1) = (pc', m)"
      using "1.prems" by (simp add: skip_matches.simps [of b pc n])
    from "1.IH" [OF True this] show ?thesis
      using True by (auto simp: delete_all.simps [of b pc] split: prod.splits)
  next
    case False
    then show ?thesis using "1.prems" by (auto simp: skip_matches.simps [of b pc n])
  qed
qed

lemma find_delete_loop_eq:
  "\<exists>r p. find_delete_loop b res pc2 pc n = Some (r, p, n + fst (delete_all b pc)) \<and>
    r @ p = res @ take (length pc2 - length pc) pc2 @ snd (delete_all b pc)"
proof (induction "length pc" arbitrary: res pc2 pc n rule: less_induct)
  case less
  obtain pc' m where s: "skip_matches b pc n = (pc', m)" by fastforce
  note sk = skip_matches_delete [OF s]
  show ?case
  proof (cases "GetOp2 pc'")
    case None
    then have "delete_all b pc' = (0, pc')" using sk by (subst delete_all.simps) auto
    then show ?thesis using None s sk by (subst find_delete_loop.simps) simp
  next
    case (Some x)
    obtain opcode vch q where x: "x = (opcode, vch, q)" by (cases x)
    have "length q < length pc" using GetOp2_shorter [of pc' opcode vch q] Some x sk by simp
    from less [OF this, of "res @ take (length pc2 - length pc) pc2" pc' m] obtain r p where
      "find_delete_loop b (res @ take (length pc2 - length pc) pc2) pc' q m = Some (r, p, m + fst (delete_all b q))"
      "r @ p = (res @ take (length pc2 - length pc) pc2) @ take (length pc' - length q) pc' @ snd (delete_all b q)"
      by blast
    moreover have "delete_all b pc' = (fst (delete_all b q), take (length pc' - length q) pc' @ snd (delete_all b q))"
      using sk Some x by (subst delete_all.simps) (auto simp: split_def Let_def)
    ultimately show ?thesis using Some x s sk by (subst find_delete_loop.simps) simp
  qed
qed

lemma delete_all_none: "fst (delete_all b pc) = 0 \<Longrightarrow> snd (delete_all b pc) = pc"
proof (induction b pc rule: delete_all.induct)
  case (1 b pc)
  show ?case
  proof (cases "b \<noteq> [] \<and> length b \<le> length pc \<and> take (length b) pc = b")
    case True
    then show ?thesis using "1.prems" by (simp add: delete_all.simps [of b pc] split_def Let_def)
  next
    case False
    show ?thesis
    proof (cases "GetOp2 pc")
      case None
      then show ?thesis using False by (auto simp: delete_all.simps [of b pc])
    next
      case (Some x)
      obtain opcode vch q where x: "x = (opcode, vch, q)" by (cases x)
      have eq: "delete_all b pc = (fst (delete_all b q), take (length pc - length q) pc @ snd (delete_all b q))"
        using False Some x by (auto simp: delete_all.simps [of b pc] split_def Let_def)
      then have "snd (delete_all b q) = q" using "1.IH"(2) [OF False Some x [symmetric] refl] "1.prems" by simp
      then show ?thesis using eq GetOp2_suffix [of pc opcode vch q] Some x by simp
    qed
  qed
qed

lemma FindAndDelete_eq: "FindAndDelete b sc = Some (if b = [] then (0, sc) else delete_all b sc)"
  using find_delete_loop_eq [of b "[]" sc sc 0] delete_all_none [of b sc]
  by (auto simp: FindAndDelete_def prod_eq_iff)

section \<open>Script numbers are read back, and their minimal encoding is unique\<close>

primrec le_val :: "byte list \<Rightarrow> nat" where
  "le_val [] = 0"
| "le_val (b # bs) = unat b + 256 * le_val bs"

lemma le_val_append: "le_val (xs @ ys) = le_val xs + 256 ^ length xs * le_val ys"
  by (induction xs) (auto simp: algebra_simps)

lemma unat_byte_less: "unat (b :: byte) < 256"
proof -
  have "unat b < 2 ^ LENGTH(8)" by (rule unsigned_less)
  then show ?thesis by simp
qed

lemma le_val_bound: "le_val xs < 256 ^ length xs"
proof (induction xs)
  case (Cons b xs)
  then have "le_val xs + 1 \<le> 256 ^ length xs" by simp
  then have "256 * le_val xs + 256 \<le> 256 * 256 ^ length xs" by (metis distrib_left mult.right_neutral mult_le_mono2)
  then show ?case using unat_byte_less [of b] by simp
qed simp

lemma unat_bytes_word:
  "length xs \<le> 8 \<Longrightarrow> unat (bytes_word xs :: u64) = le_val xs"
proof (induction xs)
  case Nil
  then show ?case by simp
next
  case (Cons b xs)
  then have ih: "unat (bytes_word xs :: u64) = le_val xs" by simp
  have b: "unat (ucast b :: u64) = unat b" by (rule unat_ucast_up) simp
  have small: "256 * le_val xs + unat b < 2 ^ 64"
  proof -
    have "(256::nat) ^ length (b # xs) \<le> 256 ^ 8" by (rule power_increasing) (use Cons.prems in auto)
    then show ?thesis using le_val_bound [of "b # xs"] by simp
  qed
  have "push_bit 8 (bytes_word xs :: u64) = 256 * bytes_word xs" by (simp add: push_bit_eq_mult)
  moreover have "or (ucast b :: u64) (push_bit 8 (bytes_word xs)) = ucast b + push_bit 8 (bytes_word xs)"
  proof -
    have "and (ucast b :: u64) (push_bit 8 (bytes_word xs)) = 0"
      by (rule bit_word_eqI) (auto simp: bit_and_iff bit_push_bit_iff bit_ucast_iff dest: bit_imp_le_length)
    then show ?thesis by (simp add: disjunctive_add_eq_or)
  qed
  ultimately show ?case
    using ih b small by (simp add: unat_word_ariths)
qed

lemma abs_bytes_0 [simp]: "abs_bytes 0 = []"
  by (simp add: abs_bytes.simps)

lemma abs_bytes_eq_Nil [simp]: "abs_bytes w = [] \<longleftrightarrow> w = 0"
  by (subst abs_bytes.simps) simp

lemma unat_low_byte: "unat (ucast (w :: u64) :: byte) = unat w mod 256"
  unfolding unsigned_ucast_eq unsigned_take_bit_eq unfolding take_bit_eq_mod by simp

lemma unat_drop_8: "unat (drop_bit 8 (w :: u64)) = unat w div 256"
  unfolding unat_drop_bit_eq unfolding drop_bit_eq_div by simp

lemma abs_bytes_val: "le_val (abs_bytes w) = unat w \<and> (w \<noteq> 0 \<longrightarrow> last (abs_bytes w) \<noteq> 0)"
proof (induction w rule: abs_bytes.induct)
  case (1 w)
  show ?case
  proof (cases "w = 0")
    case False
    have e: "abs_bytes w = ucast w # abs_bytes (drop_bit 8 w)" using False by (subst abs_bytes.simps) simp
    have "last (abs_bytes w) \<noteq> 0"
    proof (cases "drop_bit 8 w = 0")
      case True
      then have "unat w div 256 = 0" using unat_drop_8 [of w] by simp
      then have "unat w mod 256 \<noteq> 0" using False by (simp add: unat_eq_0 div_eq_0_iff)
      then show ?thesis using e True unat_low_byte [of w] by auto
    next
      case False
      then show ?thesis using e 1 \<open>w \<noteq> 0\<close> by simp
    qed
    then show ?thesis using 1 False e by (simp add: unat_low_byte unat_drop_8)
  qed simp
qed

lemma le_val_unique:
  assumes "le_val xs = le_val ys" and "xs = [] \<or> last xs \<noteq> 0" and "ys = [] \<or> last ys \<noteq> 0"
  shows "xs = ys"
proof -
  have zero: "zs = []" if "le_val zs = 0" "zs = [] \<or> last zs \<noteq> 0" for zs
    using that by (induction zs) (auto simp: unat_eq_0 split: if_splits)
  show ?thesis
    using assms
  proof (induction xs arbitrary: ys)
    case Nil
    then have "le_val ys = 0" by simp
    then have "ys = []" by (rule zero) (rule Nil.prems(3))
    then show ?case by simp
  next
    case (Cons x xs)
    show ?case
    proof (cases ys)
      case Nil
      then have "le_val (x # xs) = 0" using Cons.prems(1) by simp
      then have "x # xs = []" by (rule zero) (rule Cons.prems(2))
      then show ?thesis by simp
    next
      case (Cons y ys')
      then have v: "unat x + 256 * le_val xs = unat y + 256 * le_val ys'" using Cons.prems(1) by simp
      then have "(unat x + 256 * le_val xs) mod 256 = (unat y + 256 * le_val ys') mod 256" by simp
      then have "unat x = unat y" using unat_byte_less [of x] unat_byte_less [of y] by simp
      then have "x = y" "le_val xs = le_val ys'" using v by (simp_all add: word_unat_eq_iff)
      then show ?thesis
        using Cons.IH [of ys'] Cons.prems(2,3) Cons by (auto split: if_splits)
    qed
  qed
qed

lemma byte_sign: "and (L :: byte) 0x80 \<noteq> 0 \<longleftrightarrow> 128 \<le> unat L"
proof -
  have "and L 0x80 \<noteq> 0 \<longleftrightarrow> bit L 7" by (simp add: bit_iff_and_push_bit_not_eq_0)
  also have "\<dots> \<longleftrightarrow> odd (unat L div 128)"
    by (simp add: bit_unsigned_iff flip: bit_iff_odd [of "unat L" 7, simplified])
  also have "\<dots> \<longleftrightarrow> 128 \<le> unat L"
    using unat_byte_less [of L] div_nat_eqI [of 128 1 "unat L"] by (cases "128 \<le> unat L") simp_all
  finally show ?thesis .
qed

lemma byte_rest: "unat (and (L :: byte) 0x7f) = unat L mod 128"
  unfolding and_7F unsigned_take_bit_eq unfolding take_bit_eq_mod by simp

lemma sint_small: "unat (w :: u64) < 2 ^ 63 \<Longrightarrow> sint w = int (unat w)"
proof -
  assume "unat w < 2 ^ 63"
  then have "int (unat w) < int (2 ^ 63)" by (simp only: of_nat_less_iff)
  then have "uint w < 2 ^ 63" by simp
  moreover have "- (2 ^ 63) \<le> uint w" by (rule order_trans [of _ 0]) simp_all
  ultimately have "signed_take_bit 63 (uint w) = uint w" by (intro signed_take_bit_int_eq_self)
  then show ?thesis by (simp add: sint_uint)
qed

lemma clear_sign:
  assumes "length bs \<le> 7"
  shows "and (bytes_word (bs @ [L]) :: u64) (not (push_bit (8 * length bs) 0x80)) = bytes_word (bs @ [and L 0x7f])"
proof (rule bit_word_eqI)
  fix i assume "i < LENGTH(64)"
  have s: "push_bit (8 * length bs) (0x80 :: u64) = push_bit (8 * length bs + 7) 1"
    by (simp add: push_bit_eq_mult power_add)
  have "bit (bytes_word (bs @ [L]) :: u64) i \<and> i \<noteq> 8 * length bs + 7 \<longleftrightarrow> bit (bytes_word (bs @ [and L 0x7f]) :: u64) i"
  proof -
    consider "i div 8 < length bs" | "i div 8 = length bs" | "length bs < i div 8" by linarith
    then show ?thesis
    proof cases
      case 1
      then show ?thesis by (auto simp: bit_bytes_word nth_append)
    next
      case 2
      then have "i \<noteq> 8 * length bs + 7 \<longleftrightarrow> i mod 8 \<noteq> 7" by presburger
      moreover have "i mod 8 < 8" by simp
      ultimately show ?thesis using 2 \<open>i < LENGTH(64)\<close>
        by (auto simp: bit_bytes_word nth_append and_7F bit_take_bit_iff)
    next
      case 3
      then show ?thesis by (auto simp: bit_bytes_word)
    qed
  qed
  then show "bit (and (bytes_word (bs @ [L]) :: u64) (not (push_bit (8 * length bs) 0x80))) i
      \<longleftrightarrow> bit (bytes_word (bs @ [and L 0x7f]) :: u64) i"
    unfolding s using \<open>i < LENGTH(64)\<close> by (auto simp: bit_and_iff bit_not_iff bit_exp_iff possible_bit_def)
qed

lemma set_vch_append:
  assumes "length bs \<le> 7"
  shows "set_vch (bs @ [L]) = (if 128 \<le> unat L then - 1 else 1) * int (le_val bs + 256 ^ length bs * (unat L mod 128))"
proof -
  have small: "le_val bs + 256 ^ length bs * (unat L mod 128) < 2 ^ 63"
  proof -
    have p: "(256::nat) ^ length bs \<le> 256 ^ 7" by (rule power_increasing) (use assms in auto)
    have "unat L mod 128 \<le> 127" using mod_less_divisor [of 128 "unat L"] by linarith
    with p have "256 ^ length bs * (unat L mod 128) \<le> 256 ^ 7 * 127" by (rule mult_le_mono)
    moreover have "le_val bs < 256 ^ 7" using le_val_bound [of bs] p by (rule less_le_trans)
    ultimately show ?thesis by simp
  qed
  have cl: "unat (bytes_word (bs @ [and L 0x7f]) :: u64) = le_val bs + 256 ^ length bs * (unat L mod 128)"
    using assms by (simp add: unat_bytes_word le_val_append byte_rest)
  show ?thesis
  proof (cases "128 \<le> unat L")
    case True
    have "sint (bytes_word (bs @ [and L 0x7f]) :: u64) = int (le_val bs + 256 ^ length bs * (unat L mod 128))"
      using cl small sint_small by metis
    then show ?thesis using True by (simp add: set_vch_def byte_sign clear_sign [OF assms, simplified])
  next
    case False
    then have "unat (bytes_word (bs @ [L]) :: u64) = le_val bs + 256 ^ length bs * (unat L mod 128)"
      using assms by (simp add: unat_bytes_word le_val_append)
    then have "sint (bytes_word (bs @ [L]) :: u64) = int (le_val bs + 256 ^ length bs * (unat L mod 128))"
      using small sint_small by metis
    then show ?thesis using False by (simp add: set_vch_def byte_sign)
  qed
qed

definition minimal_num :: "byte list \<Rightarrow> bool" where
  "minimal_num vch \<longleftrightarrow> \<not> (length vch > 0 \<and> and (last vch) 0x7f = 0 \<and>
     (length vch \<le> 1 \<or> and (vch ! (length vch - 2)) 0x80 = 0))"

lemma minimal_num_append:
  "minimal_num (bs @ [L]) \<longleftrightarrow> unat L mod 128 \<noteq> 0 \<or> (bs \<noteq> [] \<and> 128 \<le> unat (last bs))"
proof -
  have "and L 0x7f = 0 \<longleftrightarrow> unat L mod 128 = 0" using byte_rest [of L] by (simp flip: unat_eq_0)
  moreover have "bs \<noteq> [] \<Longrightarrow> (bs @ [L]) ! (length bs - 1) = last bs" by (simp add: nth_append last_conv_nth)
  ultimately show ?thesis
    using byte_sign [of "last bs"] by (cases "bs = []") (auto simp: minimal_num_def)
qed

lemma byte_set_sign: "unat (L :: byte) < 128 \<Longrightarrow> unat (or L 0x80) = unat L + 128"
proof -
  assume a: "unat L < 128"
  then have "and L 0x80 = 0" using byte_sign [of L] by simp
  then have "or L 0x80 = L + 0x80" by (simp add: disjunctive_add_eq_or)
  then show ?thesis using a by (simp add: unat_word_ariths)
qed

lemma byte_sign_eq: "128 \<le> unat (L :: byte) \<Longrightarrow> or (and L 0x7f) 0x80 = L"
  "unat L < 128 \<Longrightarrow> and L 0x7f = L"
proof -
  assume "128 \<le> unat L"
  then have "unat L mod 128 = unat L - 128" using unat_byte_less [of L] by (subst le_mod_geq) auto
  then have "unat (or (and L 0x7f) 0x80) = unat L"
    using \<open>128 \<le> unat L\<close> byte_set_sign [of "and L 0x7f"] unat_byte_less [of L] by (simp add: byte_rest)
  then show "or (and L 0x7f) 0x80 = L" by (simp add: word_unat_eq_iff)
next
  assume "unat L < 128"
  then show "and L 0x7f = L" using byte_rest [of L] by (simp add: word_unat_eq_iff)
qed

lemma unat_word_of_nat_63: "v < 2 ^ 63 \<Longrightarrow> unat (word_of_int (int v) :: u64) = v"
  by (simp add: unat_of_nat_small)

lemma abs_bytes_le_val:
  assumes "le_val xs < 2 ^ 63" and "xs = [] \<or> last xs \<noteq> 0"
  shows "abs_bytes (word_of_int (int (le_val xs))) = xs"
proof (rule le_val_unique)
  show "le_val (abs_bytes (word_of_int (int (le_val xs)))) = le_val xs"
    using abs_bytes_val unat_word_of_nat_63 [OF assms(1)] by metis
  show "abs_bytes (word_of_int (int (le_val xs))) = [] \<or> last (abs_bytes (word_of_int (int (le_val xs)))) \<noteq> 0"
    using abs_bytes_val abs_bytes_eq_Nil by metis
qed (rule assms(2))

lemma serialize_of:
  assumes "le_val xs < 2 ^ 63" and "xs \<noteq> []" and "last xs \<noteq> 0"
  shows "ScriptNum_serialize ((if neg then - 1 else 1) * int (le_val xs)) =
    (if 128 \<le> unat (last xs) then xs @ [if neg then 0x80 else 0]
     else if neg then butlast xs @ [or (last xs) 0x80] else xs)"
proof -
  have pos: "0 < le_val xs"
    using assms(2,3) by (metis le_val.simps(1) le_val_unique gr0I)
  then have "(if neg then - 1 else 1) * int (le_val xs) \<noteq> 0" by simp
  moreover have "(if (if neg then - 1 else 1) * int (le_val xs) < 0 then - ((if neg then - 1 else 1) * int (le_val xs))
      else (if neg then - 1 else 1) * int (le_val xs)) = int (le_val xs)"
    using pos by simp
  ultimately show ?thesis
    using abs_bytes_le_val [OF assms(1)] assms(3) pos byte_sign [of "last xs"]
    by (simp add: ScriptNum_serialize_def)
qed

text \<open>A minimal encoding is the one \<open>serialize\<close> gives.\<close>

lemma serialize_set_vch:
  assumes "length vch \<le> 8" and "minimal_num vch"
  shows "ScriptNum_serialize (set_vch vch) = vch"
proof (cases vch rule: rev_cases)
  case Nil
  then show ?thesis by (simp add: set_vch_def ScriptNum_serialize_def)
next
  case (snoc bs L)
  then have len: "length bs \<le> 7" using assms(1) by simp
  have v: "set_vch (bs @ [L]) = (if 128 \<le> unat L then - 1 else 1) * int (le_val bs + 256 ^ length bs * (unat L mod 128))"
    by (rule set_vch_append [OF len])
  let ?m = "and L 0x7f"
  have p: "(256::nat) ^ length bs \<le> 256 ^ 7" by (rule power_increasing) (use len in auto)
  show ?thesis
  proof (cases "unat L mod 128 = 0")
    case True
    then have bs: "bs \<noteq> []" "128 \<le> unat (last bs)" using assms(2) snoc by (auto simp: minimal_num_append)
    have "last bs \<noteq> 0" using bs(2) by auto
    moreover have "le_val bs < 2 ^ 63" using le_val_bound [of bs] p by simp
    moreover have "L = (if 128 \<le> unat L then 0x80 else 0)"
      using True unat_byte_less [of L] by (auto simp: word_unat_eq_iff le_mod_geq)
    ultimately show ?thesis
      using serialize_of [of bs "128 \<le> unat L"] bs True unfolding snoc v by simp
  next
    case False
    have m: "le_val (bs @ [?m]) = le_val bs + 256 ^ length bs * (unat L mod 128)" by (simp add: le_val_append byte_rest)
    have m0: "?m \<noteq> 0" "unat ?m < 128" using False byte_rest [of L] by auto
    have "le_val (bs @ [?m]) < 2 ^ 63"
    proof -
      have "unat L mod 128 \<le> 127" using mod_less_divisor [of 128 "unat L"] by linarith
      with p have "256 ^ length bs * (unat L mod 128) \<le> 256 ^ 7 * 127" by (rule mult_le_mono)
      moreover have "le_val bs < 256 ^ 7" using le_val_bound [of bs] p by (rule less_le_trans)
      ultimately show ?thesis unfolding m by simp
    qed
    from serialize_of [OF this, of "128 \<le> unat L"] show ?thesis
      using m0 byte_sign_eq [of L] unfolding snoc v m [symmetric] by simp
  qed
qed

text \<open>What \<open>serialize\<close> gives is minimal and is read back.\<close>

lemma le_val_last: "xs \<noteq> [] \<Longrightarrow> 256 ^ (length xs - 1) * unat (last xs) \<le> le_val xs"
  by (cases xs rule: rev_cases) (simp_all add: le_val_append)

lemma set_vch_serialize:
  assumes "\<bar>n\<bar> < 2 ^ 63"
  shows "set_vch (ScriptNum_serialize n) = n \<and> minimal_num (ScriptNum_serialize n) \<and> length (ScriptNum_serialize n) \<le> 8"
proof (cases "n = 0")
  case True
  then show ?thesis by (simp add: ScriptNum_serialize_def set_vch_def minimal_num_def)
next
  case False
  define xs where "xs = abs_bytes (word_of_int (int (nat \<bar>n\<bar>)))"
  have "nat \<bar>n\<bar> < 2 ^ 63" using assms by (simp add: nat_less_iff)
  then have u: "unat (word_of_int (int (nat \<bar>n\<bar>)) :: u64) = nat \<bar>n\<bar>" by (rule unat_word_of_nat_63)
  have v: "le_val xs = nat \<bar>n\<bar>" unfolding xs_def using abs_bytes_val u by metis
  then have ne: "xs \<noteq> []" using False by auto
  then have l: "last xs \<noteq> 0" unfolding xs_def using abs_bytes_val abs_bytes_eq_Nil by metis
  have small: "le_val xs < 2 ^ 63" using v \<open>nat \<bar>n\<bar> < 2 ^ 63\<close> by simp
  have n: "n = (if n < 0 then - 1 else 1) * int (le_val xs)" using v by simp
  obtain bs L where xs: "xs = bs @ [L]" using ne by (cases xs rule: rev_cases) auto
  have L: "0 < unat L" using l xs by (simp add: unat_gt_0)
  have top: "256 ^ length bs * unat L < 2 ^ 63" using le_val_last [OF ne] small xs by simp
  have "length bs < 8"
  proof (rule ccontr)
    assume "\<not> length bs < 8"
    then have "(256::nat) ^ 8 \<le> 256 ^ length bs" by (intro power_increasing) auto
    then have "256 ^ 8 * 1 \<le> 256 ^ length bs * unat L" by (rule mult_le_mono) (use L in simp)
    then show False using top by simp
  qed
  have ser: "ScriptNum_serialize n = (if 128 \<le> unat L then xs @ [if n < 0 then 0x80 else 0]
     else if n < 0 then bs @ [or L 0x80] else xs)"
    using serialize_of [OF small ne l, of "n < 0"] n xs by simp
  show ?thesis
  proof (cases "128 \<le> unat L")
    case True
    have "length bs < 7"
    proof (rule ccontr)
      assume "\<not> length bs < 7"
      then have "(256::nat) ^ 7 \<le> 256 ^ length bs" by (intro power_increasing) auto
      then have "256 ^ 7 * 128 \<le> 256 ^ length bs * unat L" using True by (intro mult_le_mono)
      then show False using top by simp
    qed
    then have "length xs \<le> 7" using xs by simp
    from set_vch_append [OF this, of "if n < 0 then 0x80 else 0"] show ?thesis
      using True ser n xs \<open>length bs < 7\<close> minimal_num_append [where bs = xs and L = 0] minimal_num_append [where bs = xs and L = "0x80"]
      by (auto split: if_splits)
  next
    case False
    have m: "unat L mod 128 = unat L" "unat (or L 0x80) = unat L + 128" using False byte_set_sign [of L] by simp_all
    have "le_val xs = le_val bs + 256 ^ length bs * unat L" using xs by (simp add: le_val_append)
    moreover note set_vch_append [of bs "or L 0x80"] set_vch_append [of bs L]
    ultimately show ?thesis
      using False ser n xs m L \<open>length bs < 8\<close> by (auto simp: minimal_num_append split: if_splits)
  qed
qed

lemma CScriptNum_minimal: "CScriptNum vch True k = Inr n \<longleftrightarrow> length vch \<le> k \<and> minimal_num vch \<and> n = set_vch vch"
  by (auto simp: CScriptNum_def minimal_num_def)

end
