(* ===== verification/ProviderTx.thy ===== *)
theory ProviderTx
  imports MnStore Script
begin

text \<open>
  The validation of special transactions, src/src/evo/providertx.cpp: one check per transaction
  type against the masternode list of the previous block, and \<open>ProcessSpecialTxsInBlock\<close>, which
  runs the checks over a block together with a list of what the block itself has registered so
  far, and then hands the block to the masternode list manager.

  A check returns the rejection or \<open>None\<close> when it accepts, together with the state, since
  \<open>GetListForBlock\<close> may load or rebuild lists; the outer \<open>None\<close> is a failed assertion.  The
  chain of early returns of a check is a list of guards of which the first that holds is the
  rejection.  The managers and the coin database exist, as they do after start-up.
\<close>

fun first_error :: "(bool \<times> reject) list \<Rightarrow> reject option" where
  "first_error [] = None"
| "first_error ((bad, e) # rest) = (if bad then Some e else first_error rest)"

abbreviation invalid :: "int \<Rightarrow> string \<Rightarrow> reject" where "invalid n r \<equiv> DoS n REJECT_INVALID r"
abbreviation duplicate :: "string \<Rightarrow> reject" where "duplicate r \<equiv> DoS 100 REJECT_DUPLICATE r"

definition MAX_SPECIAL_TXS_PER_BLOCK :: nat where "MAX_SPECIAL_TXS_PER_BLOCK = 50"

section \<open>Checks of one transaction\<close>

definition bad_inputs_hash :: "evo_env \<Rightarrow> CTransaction \<Rightarrow> uint256 \<Rightarrow> bool \<times> reject" where
  "bad_inputs_hash env tx expected =
     (CalcTxInputsHash (env_crypto env) tx \<noteq> expected, invalid 100 ''bad-protx-inputs-hash'')"

text \<open>The next block's height, where there is a previous block.\<close>

definition from_height :: "CBlockIndex option \<Rightarrow> int \<Rightarrow> bool" where
  "from_height pindexPrev h = (case pindexPrev of None \<Rightarrow> False | Some i \<Rightarrow> bi_nHeight i + 1 \<ge> h)"

definition next_height :: "CBlockIndex option \<Rightarrow> int" where
  "next_height pindexPrev = (case pindexPrev of None \<Rightarrow> 0 | Some i \<Rightarrow> bi_nHeight i + 1)"

subsection \<open>Registration\<close>

definition register_payload_errors ::
  "evo_env \<Rightarrow> CTransaction \<Rightarrow> CProRegTx \<Rightarrow> CBlockIndex option \<Rightarrow> (bool \<times> reject) list" where
  "register_payload_errors env tx p pindexPrev =
     (let c = env_crypto env; v2 = from_height pindexPrev (nMNv2MigrationHeight (consensus env)) in
      [(pr_nVersion p < CProRegTx_MIN_VERSION \<or> pr_nVersion p > CProRegTx_CURRENT_VERSION,
          invalid 100 ''bad-protx-version''),
       (pr_nMode p \<noteq> 0, invalid 100 ''bad-protx-mode''),
       (pr_nOperatorReward p > 10000, invalid 100 ''bad-protx-operator-reward''),
       (\<not> CService_IsValid (pr_addr p), invalid 10 ''bad-protx-addr''),
       (\<not> MineBlocksOnDemand env \<and> \<not> IsRoutable (pr_addr p), invalid 10 ''bad-protx-addr-not-routable''),
       (v2 \<and> port (pr_addr p) = 0, invalid 10 ''bad-protx-addr-port-zero''),
       (length (pr_vchOperatorPubKey p) \<noteq> 48, invalid 100 ''bad-protx-operator-key-size''),
       (v2 \<and> (\<not> BLSPublicKey_SetBytes c (pr_vchOperatorPubKey p) \<or> \<not> BLSPublicKey_IsValid c (pr_vchOperatorPubKey p)),
          invalid 100 ''bad-protx-operator-key-invalid''),
       (\<not> CProRegTx_VerifyProofOfPossession c p, invalid 100 ''bad-protx-operator-pop''),
       (\<not> IsPayToPublicKeyHash (pr_scriptPayout p) \<and> \<not> IsPayToScriptHash (pr_scriptPayout p),
          invalid 100 ''bad-protx-payout-script''),
       (v2 \<and> length (pr_scriptPayout p) > MAX_SCRIPT_ELEMENT_SIZE, invalid 100 ''bad-protx-payout-script-size''),
       bad_inputs_hash env tx (pr_inputsHash p),
       (pindexPrev \<noteq> None \<and> \<not> IsMasternodeActivationHeight (consensus env) (next_height pindexPrev),
          invalid 10 ''bad-protx-not-active'')])"

definition register_collateral_errors ::
  "evo_env \<Rightarrow> (COutPoint \<Rightarrow> Coin) \<Rightarrow> CProRegTx \<Rightarrow> CBlockIndex option \<Rightarrow> (bool \<times> reject) list" where
  "register_collateral_errors env coins p pindexPrev =
     (let coin = coins (pr_collateralOutpoint p);
          confirmations = next_height pindexPrev - uint (coin_nHeight coin)
      in [(Coin_IsSpent coin, invalid 100 ''bad-protx-collateral-not-found''),
          (\<not> IsValidCollateralAmount (consensus env) (nValue (coin_out coin)) (next_height pindexPrev),
             invalid 100 ''bad-protx-collateral-amount''),
          (confirmations < nMasternodeCollateralConfirmations (consensus env),
             invalid 10 ''bad-protx-collateral-immature''),
          (\<not> CProRegTx_CheckSignature (env_crypto env) p (pr_keyIDOwner p), invalid 100 ''bad-protx-sig'')])"

definition register_list_errors ::
  "evo_env \<Rightarrow> CProRegTx \<Rightarrow> CDeterministicMNList \<Rightarrow> string \<Rightarrow> (bool \<times> reject) list" where
  "register_list_errors env p l suffix =
     (let H = env_Hash env in
      [(HasUniqueProperty l (GetUniquePropertyHash_addr H (pr_addr p)), duplicate (''bad-protx-dup-addr'' @ suffix)),
       (HasUniqueProperty l (GetUniquePropertyHash_key H (pr_keyIDOwner p)),
          duplicate (''bad-protx-dup-owner-key'' @ suffix)),
       (GetMNByCollateral H l (pr_collateralOutpoint p) \<noteq> None, duplicate (''bad-protx-dup-collateral'' @ suffix)),
       (HasUniqueProperty l (GetVotingKeyHash H (pr_keyIDVoting p)), duplicate (''bad-protx-dup-voting-key'' @ suffix)),
       (HasUniqueProperty l (GetOperatorKeyHash H (pr_vchOperatorPubKey p)),
          duplicate (''bad-protx-dup-operator-key'' @ suffix))])"

definition CheckProRegTx ::
  "evo_env \<Rightarrow> evo_state \<Rightarrow> CTransaction \<Rightarrow> CBlockIndex option \<Rightarrow> CDeterministicMNList option \<Rightarrow>
   (COutPoint \<Rightarrow> Coin) option \<Rightarrow> (reject option \<times> evo_state) option" where
  "CheckProRegTx env st tx pindexPrev pExtraList pCoinsView =
     (if nType tx \<noteq> 1 then Some (Some (invalid 100 ''bad-protx-type''), st)
      else case GetTxPayload Unserialize_CProRegTx tx of
        None \<Rightarrow> Some (Some (invalid 100 ''bad-protx-payload''), st)
      | Some p \<Rightarrow>
         (case first_error (register_payload_errors env tx p pindexPrev @
             register_collateral_errors env (case pCoinsView of Some v \<Rightarrow> v | None \<Rightarrow> AccessCoin env) p pindexPrev) of
           Some e \<Rightarrow> Some (Some e, st)
         | None \<Rightarrow>
            (case pindexPrev of
              None \<Rightarrow> Some (None, st)
            | Some i \<Rightarrow>
               (case GetListForBlock env st (Some i) of
                 None \<Rightarrow> None
               | Some (mnList, st) \<Rightarrow> Some (first_error (register_list_errors env p mnList '''' @
                   (case pExtraList of
                     Some l \<Rightarrow> if bi_nHeight i + 1 \<ge> nTieredMNActivationHeight (consensus env)
                       then register_list_errors env p l ''-intrablock'' else []
                   | None \<Rightarrow> [])), st)))))"

subsection \<open>Service update\<close>

definition operator_signature_errors :: "evo_env \<Rightarrow> byte list \<Rightarrow> byte list \<Rightarrow> uint256 \<Rightarrow> (bool \<times> reject) list" where
  "operator_signature_errors env key sig signHash =
     (let c = env_crypto env in
      [(\<not> BLSPublicKey_SetBytes c key, invalid 100 ''bad-protx-operator-key-invalid''),
       (\<not> BLSSignature_SetBytes c sig, invalid 100 ''bad-protx-sig-invalid''),
       (\<not> VerifyWithDomain c sig key signHash OPERATOR_KEY, invalid 100 ''bad-protx-sig-verify-failed'')])"

definition service_addr_taken :: "evo_env \<Rightarrow> CProUpServTx \<Rightarrow> CDeterministicMNList \<Rightarrow> bool" where
  "service_addr_taken env p l \<longleftrightarrow>
     HasUniqueProperty l (GetUniquePropertyHash_addr (env_Hash env) (us_addr p)) \<and>
     (case GetMNByService (env_Hash env) l (us_addr p) of
       None \<Rightarrow> True | Some existing \<Rightarrow> proTxHash existing \<noteq> us_proTxHash p)"

definition service_mn_errors ::
  "evo_env \<Rightarrow> CProUpServTx \<Rightarrow> int \<Rightarrow> CDeterministicMNList \<Rightarrow> CDeterministicMN \<Rightarrow> CDeterministicMNList option \<Rightarrow>
   (bool \<times> reject) list" where
  "service_mn_errors env p nextHeight mnList mn pExtraList =
     (let cp = consensus env; s = mn_state mn in
      [(nextHeight \<ge> nTieredMNActivationHeight cp \<and> nLastServiceUpdateHeight s > 0 \<and>
          nextHeight - nLastServiceUpdateHeight s < nProUpServCooldown cp, invalid 10 ''bad-protx-service-cooldown''),
       (service_addr_taken env p mnList, duplicate ''bad-protx-dup-addr''),
       (nextHeight \<ge> nMNv2MigrationHeight cp \<and> port (us_addr p) = 0, invalid 10 ''bad-protx-addr-port-zero''),
       (case pExtraList of
          Some l \<Rightarrow> nextHeight \<ge> nTieredMNActivationHeight cp \<and> service_addr_taken env p l
        | None \<Rightarrow> False, duplicate ''bad-protx-dup-addr-intrablock'')] @
      operator_signature_errors env (vchOperatorPubKey s) (us_vchSig p) (CProUpServTx_GetSignatureHash (env_crypto env) p))"

definition CheckProUpServTx ::
  "evo_env \<Rightarrow> evo_state \<Rightarrow> CTransaction \<Rightarrow> CBlockIndex option \<Rightarrow> CDeterministicMNList option \<Rightarrow>
   (reject option \<times> evo_state) option" where
  "CheckProUpServTx env st tx pindexPrev pExtraList =
     (if nType tx \<noteq> 2 then Some (Some (invalid 100 ''bad-protx-type''), st)
      else case GetTxPayload Unserialize_CProUpServTx tx of
        None \<Rightarrow> Some (Some (invalid 100 ''bad-protx-payload''), st)
      | Some p \<Rightarrow>
         (case first_error
            [(us_nVersion p \<noteq> CProUpServTx_CURRENT_VERSION, invalid 100 ''bad-protx-version''),
             (\<not> CService_IsValid (us_addr p), invalid 10 ''bad-protx-addr''),
             (\<not> MineBlocksOnDemand env \<and> \<not> IsRoutable (us_addr p), invalid 10 ''bad-protx-addr-not-routable''),
             bad_inputs_hash env tx (us_inputsHash p)] of
           Some e \<Rightarrow> Some (Some e, st)
         | None \<Rightarrow>
            (case pindexPrev of
              None \<Rightarrow> Some (None, st)
            | Some i \<Rightarrow>
               (case GetListForBlock env st (Some i) of
                 None \<Rightarrow> None
               | Some (mnList, st) \<Rightarrow>
                  (case GetMN mnList (us_proTxHash p) of
                    None \<Rightarrow> Some (Some (invalid 100 ''bad-protx-hash''), st)
                  | Some mn \<Rightarrow> Some (first_error (service_mn_errors env p (bi_nHeight i + 1) mnList mn pExtraList), st))))))"

subsection \<open>Registrar update\<close>

definition registrar_mn_errors ::
  "evo_env \<Rightarrow> CProUpRegTx \<Rightarrow> int \<Rightarrow> CDeterministicMNList \<Rightarrow> CDeterministicMN \<Rightarrow> CDeterministicMNList option \<Rightarrow>
   (bool \<times> reject) list" where
  "registrar_mn_errors env p nextHeight mnList mn pExtraList =
     (let cp = consensus env; c = env_crypto env; H = env_Hash env; s = mn_state mn;
          newVoting = (ur_keyIDVoting p \<noteq> 0 \<and> ur_keyIDVoting p \<noteq> keyIDVoting s);
          newOperator = (ur_vchOperatorPubKey p \<noteq> [] \<and> ur_vchOperatorPubKey p \<noteq> vchOperatorPubKey s)
      in
      [(nextHeight \<ge> nTieredMNActivationHeight cp \<and> nLastRegistrarUpdateHeight s > 0 \<and>
          nextHeight - nLastRegistrarUpdateHeight s < nProUpRegCooldown cp, invalid 10 ''bad-protx-registrar-cooldown''),
       (\<not> CProUpRegTx_CheckSignature c p (keyIDOwner s), invalid 100 ''bad-protx-sig''),
       (newVoting \<and> HasUniqueProperty mnList (GetVotingKeyHash H (ur_keyIDVoting p)), duplicate ''bad-protx-dup-voting-key''),
       (newOperator \<and> HasUniqueProperty mnList (GetOperatorKeyHash H (ur_vchOperatorPubKey p)),
          duplicate ''bad-protx-dup-operator-key''),
       (newOperator \<and> \<not> BLSPublicKey_SetBytes c (ur_vchOperatorPubKey p), invalid 100 ''bad-protx-new-operator-key-invalid''),
       (newOperator \<and> \<not> BLSPublicKey_IsValid c (ur_vchOperatorPubKey p), invalid 100 ''bad-protx-new-operator-key-null''),
       (newOperator \<and> \<not> CProUpRegTx_VerifyProofOfPossession c p, invalid 100 ''bad-protx-new-operator-pop'')] @
      (case pExtraList of
        None \<Rightarrow> []
      | Some l \<Rightarrow> if nextHeight \<ge> nTieredMNActivationHeight cp then
          [(newVoting \<and> HasUniqueProperty l (GetVotingKeyHash H (ur_keyIDVoting p)),
              duplicate ''bad-protx-dup-voting-key-intrablock''),
           (newOperator \<and> HasUniqueProperty l (GetOperatorKeyHash H (ur_vchOperatorPubKey p)),
              duplicate ''bad-protx-dup-operator-key-intrablock'')] else []))"

definition CheckProUpRegTx ::
  "evo_env \<Rightarrow> evo_state \<Rightarrow> CTransaction \<Rightarrow> CBlockIndex option \<Rightarrow> CDeterministicMNList option \<Rightarrow>
   (reject option \<times> evo_state) option" where
  "CheckProUpRegTx env st tx pindexPrev pExtraList =
     (if nType tx \<noteq> 3 then Some (Some (invalid 100 ''bad-protx-type''), st)
      else case GetTxPayload Unserialize_CProUpRegTx tx of
        None \<Rightarrow> Some (Some (invalid 100 ''bad-protx-payload''), st)
      | Some p \<Rightarrow>
         (case first_error
            [(ur_nVersion p < CProUpRegTx_MIN_VERSION \<or> ur_nVersion p > CProUpRegTx_CURRENT_VERSION,
                invalid 100 ''bad-protx-version''),
             (ur_vchOperatorPubKey p \<noteq> [] \<and> length (ur_vchOperatorPubKey p) \<noteq> 48,
                invalid 100 ''bad-protx-operator-key-size''),
             (ur_scriptPayout p \<noteq> [] \<and> \<not> IsPayToPublicKeyHash (ur_scriptPayout p) \<and>
                \<not> IsPayToScriptHash (ur_scriptPayout p), invalid 100 ''bad-protx-payout-script''),
             bad_inputs_hash env tx (ur_inputsHash p)] of
           Some e \<Rightarrow> Some (Some e, st)
         | None \<Rightarrow>
            (case pindexPrev of
              None \<Rightarrow> Some (None, st)
            | Some i \<Rightarrow>
               (case GetListForBlock env st (Some i) of
                 None \<Rightarrow> None
               | Some (mnList, st) \<Rightarrow>
                  (case GetMN mnList (ur_proTxHash p) of
                    None \<Rightarrow> Some (Some (invalid 100 ''bad-protx-hash''), st)
                  | Some mn \<Rightarrow> Some (first_error (registrar_mn_errors env p (bi_nHeight i + 1) mnList mn pExtraList), st))))))"

subsection \<open>Revocation\<close>

definition CheckProUpRevTx ::
  "evo_env \<Rightarrow> evo_state \<Rightarrow> CTransaction \<Rightarrow> CBlockIndex option \<Rightarrow> (reject option \<times> evo_state) option" where
  "CheckProUpRevTx env st tx pindexPrev =
     (if nType tx \<noteq> 4 then Some (Some (invalid 100 ''bad-protx-type''), st)
      else case GetTxPayload Unserialize_CProUpRevTx tx of
        None \<Rightarrow> Some (Some (invalid 100 ''bad-protx-payload''), st)
      | Some p \<Rightarrow>
         (case first_error
            [(rv_nVersion p \<noteq> CProUpRevTx_CURRENT_VERSION, invalid 100 ''bad-protx-version''),
             (rv_nReason p > REASON_CHANGE_OF_KEYS, invalid 100 ''bad-protx-reason''),
             bad_inputs_hash env tx (rv_inputsHash p)] of
           Some e \<Rightarrow> Some (Some e, st)
         | None \<Rightarrow>
            (case pindexPrev of
              None \<Rightarrow> Some (None, st)
            | Some i \<Rightarrow>
               (case GetListForBlock env st (Some i) of
                 None \<Rightarrow> None
               | Some (mnList, st) \<Rightarrow>
                  (case GetMN mnList (rv_proTxHash p) of
                    None \<Rightarrow> Some (Some (invalid 100 ''bad-protx-hash''), st)
                  | Some mn \<Rightarrow> Some (first_error
                      ((IsBanned (mn_state mn), invalid 10 ''bad-protx-already-banned'') #
                       operator_signature_errors env (vchOperatorPubKey (mn_state mn)) (rv_vchSig p)
                         (CProUpRevTx_GetSignatureHash (env_crypto env) p)), st))))))"

subsection \<open>Quorum commitment\<close>

definition member_keys :: "CDeterministicMNList \<Rightarrow> byte list list" where
  "member_keys l = ForEachMN l True (\<lambda>mn keys. keys @ [vchOperatorPubKey (mn_state mn)]) []"

definition CheckQuorumCommitmentTx ::
  "evo_env \<Rightarrow> evo_state \<Rightarrow> CTransaction \<Rightarrow> CBlockIndex option \<Rightarrow> (reject option \<times> evo_state) option" where
  "CheckQuorumCommitmentTx env st tx pindexPrev =
     (if nType tx \<noteq> 5 then Some (Some (invalid 100 ''bad-qc-type''), st)
      else case GetTxPayload Unserialize_CQuorumCommitmentTx tx of
        None \<Rightarrow> Some (Some (invalid 100 ''bad-qc-payload''), st)
      | Some q \<Rightarrow>
         if qc_nVersion q \<noteq> CQuorumCommitmentTx_CURRENT_VERSION then Some (Some (invalid 100 ''bad-qc-version''), st)
         else (case pindexPrev of
           None \<Rightarrow> Some (None, st)
         | Some i \<Rightarrow>
            if qc_quorumHeight q > bi_nHeight i then Some (Some (invalid 100 ''bad-qc-future-height''), st)
            else (case GetAncestor i (qc_quorumHeight q) of
              None \<Rightarrow> None
            | Some None \<Rightarrow> Some (Some (invalid 100 ''bad-qc-height-not-found''), st)
            | Some (Some pindexQuorum) \<Rightarrow>
               if bi_hash pindexQuorum \<noteq> qc_quorumHash q then Some (Some (invalid 100 ''bad-qc-hash-mismatch''), st)
               else (case GetListForBlock env st (Some pindexQuorum) of
                 None \<Rightarrow> None
               | Some (mnList, st) \<Rightarrow>
                  (let memberPubKeys = member_keys mnList;
                       minSigners = (length memberPubKeys * 60 + 99) div 100
                   in Some (first_error
                     [(CountSigners q < minSigners, invalid 100 ''bad-qc-not-enough-signers''),
                      (\<not> CQuorumCommitmentTx_Verify (env_crypto env) q memberPubKeys,
                         invalid 100 ''bad-qc-sig-verify-failed'')], st))))))"

section \<open>Blocks\<close>

definition CheckSpecialTx ::
  "evo_env \<Rightarrow> evo_state \<Rightarrow> CTransaction \<Rightarrow> CBlockIndex option \<Rightarrow> CDeterministicMNList option \<Rightarrow>
   (COutPoint \<Rightarrow> Coin) option \<Rightarrow> (reject option \<times> evo_state) option" where
  "CheckSpecialTx env st tx pindexPrev pExtraList pCoinsView =
     (if \<not> IsTxTypeSpecial tx then Some (None, st)
      else case GetTxType tx of
        TRANSACTION_PROVIDER_REGISTER \<Rightarrow> CheckProRegTx env st tx pindexPrev pExtraList pCoinsView
      | TRANSACTION_PROVIDER_UPDATE_SERVICE \<Rightarrow> CheckProUpServTx env st tx pindexPrev pExtraList
      | TRANSACTION_PROVIDER_UPDATE_REGISTRAR \<Rightarrow> CheckProUpRegTx env st tx pindexPrev pExtraList
      | TRANSACTION_PROVIDER_UPDATE_REVOKE \<Rightarrow> CheckProUpRevTx env st tx pindexPrev
      | TRANSACTION_QUORUM_COMMITMENT \<Rightarrow> CheckQuorumCommitmentTx env st tx pindexPrev
      | _ \<Rightarrow> Some (Some (invalid 100 ''bad-tx-type-unknown''), st))"

definition intra_masternode ::
  "evo_env \<Rightarrow> (COutPoint \<Rightarrow> Coin) \<Rightarrow> CBlockIndex \<Rightarrow> CTransaction \<Rightarrow> CProRegTx \<Rightarrow> CDeterministicMNList \<Rightarrow> CDeterministicMN" where
  "intra_masternode env coins pindex tx p l = \<lparr>
     proTxHash = tx_hash tx,
     collateralOutpoint = pr_collateralOutpoint p,
     nOperatorReward = pr_nOperatorReward p,
     mn_state = CDeterministicMNState_default\<lparr>
       addr := pr_addr p,
       keyIDOwner := pr_keyIDOwner p,
       vchOperatorPubKey := pr_vchOperatorPubKey p,
       keyIDVoting := pr_keyIDVoting p,
       scriptPayout := pr_scriptPayout p,
       nRegisteredHeight := bi_nHeight pindex,
       nTier := GetMasternodeTier (consensus env) (nValue (coin_out (coins (pr_collateralOutpoint p)))) (bi_nHeight pindex)\<rparr>,
     internalId = nTotalRegisteredCount l\<rparr>"

definition intra_update :: "evo_env \<Rightarrow> CDeterministicMNList \<Rightarrow> uint256 \<Rightarrow> (CDeterministicMNState \<Rightarrow> CDeterministicMNState) \<Rightarrow> CDeterministicMNList" where
  "intra_update env l h f =
     (case GetMN l h of None \<Rightarrow> l | Some mn \<Rightarrow> UpdateMN (env_Hash env) l h (f (mn_state mn)))"

definition intra_registrar :: "CProUpRegTx \<Rightarrow> CDeterministicMNState \<Rightarrow> CDeterministicMNState" where
  "intra_registrar p s =
     (let s = (if ur_vchOperatorPubKey p \<noteq> [] then s\<lparr>vchOperatorPubKey := ur_vchOperatorPubKey p\<rparr> else s);
          s = (if ur_keyIDVoting p \<noteq> 0 then s\<lparr>keyIDVoting := ur_keyIDVoting p\<rparr> else s)
      in if ur_scriptPayout p \<noteq> [] then s\<lparr>scriptPayout := ur_scriptPayout p\<rparr> else s)"

definition intra_accumulate ::
  "evo_env \<Rightarrow> (COutPoint \<Rightarrow> Coin) \<Rightarrow> CBlockIndex \<Rightarrow> CTransaction \<Rightarrow> CDeterministicMNList \<Rightarrow> CDeterministicMNList" where
  "intra_accumulate env coins pindex tx l =
     (if \<not> IsTxTypeSpecial tx then l
      else case GetTxType tx of
        TRANSACTION_PROVIDER_REGISTER \<Rightarrow>
          (case GetTxPayload Unserialize_CProRegTx tx of
            None \<Rightarrow> l
          | Some p \<Rightarrow> AddMN (env_Hash env) l (intra_masternode env coins pindex tx p l))
      | TRANSACTION_PROVIDER_UPDATE_SERVICE \<Rightarrow>
          (case GetTxPayload Unserialize_CProUpServTx tx of
            None \<Rightarrow> l
          | Some p \<Rightarrow> intra_update env l (us_proTxHash p) (\<lambda>s. s\<lparr>addr := us_addr p\<rparr>))
      | TRANSACTION_PROVIDER_UPDATE_REGISTRAR \<Rightarrow>
          (case GetTxPayload Unserialize_CProUpRegTx tx of
            None \<Rightarrow> l
          | Some p \<Rightarrow> intra_update env l (ur_proTxHash p) (intra_registrar p))
      | TRANSACTION_PROVIDER_UPDATE_REVOKE \<Rightarrow>
          (case GetTxPayload Unserialize_CProUpRevTx tx of
            None \<Rightarrow> l
          | Some p \<Rightarrow> intra_update env l (rv_proTxHash p)
              (\<lambda>s. s\<lparr>nRevocationReason := rv_nReason p, nPoSeBanHeight := bi_nHeight pindex\<rparr>))
      | _ \<Rightarrow> l)"

fun check_block_txs ::
  "evo_env \<Rightarrow> evo_state \<Rightarrow> (COutPoint \<Rightarrow> Coin) option \<Rightarrow> CBlockIndex \<Rightarrow> CTransaction list \<Rightarrow> CDeterministicMNList \<Rightarrow>
   (reject option \<times> evo_state) option" where
  "check_block_txs env st view pindex [] intra = Some (None, st)"
| "check_block_txs env st view pindex (tx # txs) intra =
     (case CheckSpecialTx env st tx (bi_pprev pindex) (Some intra) view of
       None \<Rightarrow> None
     | Some (Some e, st) \<Rightarrow> Some (Some e, st)
     | Some (None, st) \<Rightarrow> check_block_txs env st view pindex txs
         (intra_accumulate env (case view of Some v \<Rightarrow> v | None \<Rightarrow> AccessCoin env) pindex tx intra))"

definition ProcessSpecialTxsInBlock ::
  "evo_env \<Rightarrow> evo_state \<Rightarrow> CBlock \<Rightarrow> CBlockIndex \<Rightarrow> bool \<Rightarrow> (COutPoint \<Rightarrow> Coin) option \<Rightarrow>
   (reject option \<times> evo_state) option" where
  "ProcessSpecialTxsInBlock env st block pindex fJustCheck view =
     (if bi_nHeight pindex \<ge> nMNv2MigrationHeight (consensus env) \<and>
         length (filter IsTxTypeSpecial (vtx block)) > MAX_SPECIAL_TXS_PER_BLOCK
      then Some (Some (invalid 100 ''bad-blk-too-many-special-txs''), st)
      else case check_block_txs env st view pindex (vtx block)
          (CDeterministicMNList_new (bi_hash pindex) (bi_nHeight pindex)) of
        None \<Rightarrow> None
      | Some (Some e, st) \<Rightarrow> Some (Some e, st)
      | Some (None, st) \<Rightarrow>
          if fJustCheck then Some (None, st) else ProcessBlock env st block pindex fJustCheck)"

definition UndoSpecialTxsInBlock :: "evo_env \<Rightarrow> evo_state \<Rightarrow> CBlock \<Rightarrow> CBlockIndex \<Rightarrow> evo_state option" where
  "UndoSpecialTxsInBlock env st block pindex =
     (let st = (case st_pose st of
         None \<Rightarrow> st
       | Some m \<Rightarrow> (case Pose_UndoBlock (bi_nHeight pindex) (m, st_evoDb st) of
           (_, m, d) \<Rightarrow> st\<lparr>st_pose := Some m, st_evoDb := d\<rparr>))
      in Manager_UndoBlock env st block pindex)"

section \<open>What acceptance means\<close>

lemma first_error_append: "first_error (xs @ ys) = (case first_error xs of None \<Rightarrow> first_error ys | Some e \<Rightarrow> Some e)"
  by (induction xs rule: first_error.induct) auto

lemma first_error_None_iff: "first_error gs = None \<longleftrightarrow> (\<forall>g \<in> set gs. \<not> fst g)"
  by (induction gs rule: first_error.induct) auto

definition register_props :: "CProRegTx \<Rightarrow> mn_prop set" where
  "register_props p = {P_coll (pr_collateralOutpoint p), P_addr (pr_addr p), P_owner (pr_keyIDOwner p),
     P_vote (pr_keyIDVoting p), P_oper (pr_vchOperatorPubKey p)}"

text \<open>Every entry of the index leads to a masternode of the list.\<close>

definition index_live :: "CDeterministicMNList \<Rightarrow> bool" where
  "index_live l \<longleftrightarrow> (\<forall>ph h. om_find (mnUniquePropertyMap l) ph = Some h \<longrightarrow> GetMN l h \<noteq> None)"

lemma mnlist_ok_live: "mnlist_ok H l \<Longrightarrow> index_live l"
  unfolding index_live_def mnlist_ok_def using index_exactD by fastforce

lemma find_AddMN:
  "om_find (mnUniquePropertyMap (AddMN H l mn)) ph =
     (if ph \<in> prop_hashes H mn then Some (proTxHash mn) else om_find (mnUniquePropertyMap l) ph)"
  by (simp add: AddMN_def find_index_add)

lemma index_live_AddMN: "index_live l \<Longrightarrow> index_live (AddMN H l mn)"
  by (simp add: index_live_def GetMN_AddMN find_AddMN)

lemma register_list_free:
  assumes "first_error (register_list_errors env p l suffix) = None" and "index_live l" and "q \<in> register_props p"
  shows "\<not> HasUniqueProperty l (prop_hash (env_Hash env) q)"
proof -
  have "find_property l ph = None \<longleftrightarrow> \<not> HasUniqueProperty l ph" for ph
    using assms(2) by (auto simp: find_property_def HasUniqueProperty_def index_live_def split: option.split)
  then show ?thesis
    using assms(1,3)
    by (auto simp: register_list_errors_def register_props_def prop_hash_eqs GetMNByCollateral_def Let_def
        split: if_splits)
qed

lemma CheckProRegTx_acceptE:
  assumes "CheckProRegTx env st tx (Some i) pExtraList view = Some (None, st')"
  obtains p l where "GetTxPayload Unserialize_CProRegTx tx = Some p"
    "GetListForBlock env st (Some i) = Some (l, st')"
    "first_error (register_payload_errors env tx p (Some i)) = None"
    "first_error (register_collateral_errors env (case view of Some v \<Rightarrow> v | None \<Rightarrow> AccessCoin env) p (Some i)) = None"
    "first_error (register_list_errors env p l []) = None"
    "\<And>x. pExtraList = Some x \<Longrightarrow> bi_nHeight i + 1 \<ge> nTieredMNActivationHeight (consensus env) \<Longrightarrow>
       first_error (register_list_errors env p x ''-intrablock'') = None"
proof (cases "nType tx = 1 \<and> GetTxPayload Unserialize_CProRegTx tx \<noteq> None")
  case True
  then obtain p where p: "nType tx = 1" "GetTxPayload Unserialize_CProRegTx tx = Some p" by auto
  let ?pre = "first_error (register_payload_errors env tx p (Some i) @ register_collateral_errors env
    (case view of Some v \<Rightarrow> v | None \<Rightarrow> AccessCoin env) p (Some i))"
  from assms p have pre: "?pre = None" by (simp add: CheckProRegTx_def split: option.splits)
  with assms p obtain l where l: "GetListForBlock env st (Some i) = Some (l, st')"
    and fe: "first_error (register_list_errors env p l [] @
                   (case pExtraList of
                     Some l \<Rightarrow> if bi_nHeight i + 1 \<ge> nTieredMNActivationHeight (consensus env)
                       then register_list_errors env p l ''-intrablock'' else []
                   | None \<Rightarrow> [])) = None"
    by (auto simp: CheckProRegTx_def split: option.splits)
  show thesis
    by (rule that [OF p(2) l]) (use pre fe in \<open>auto simp: first_error_append split: option.splits\<close>)
qed (use assms in \<open>auto simp: CheckProRegTx_def split: if_splits option.splits\<close>)

lemma register_accepted:
  assumes "CheckProRegTx env st tx (Some i) pExtraList view = Some (None, st')" and "store_ok st"
    and "db_list (st_evoDb st) (bi_hash i) = Some l" and "mnlist_ok (env_Hash env) l"
    and "bi_nHeight i \<ge> nMasternodeActivationHeight (consensus env)"
    and "GetTxPayload Unserialize_CProRegTx tx = Some p"
  defines "coin \<equiv> (case view of Some v \<Rightarrow> v | None \<Rightarrow> AccessCoin env) (pr_collateralOutpoint p)"
  shows "CProRegTx_VerifyProofOfPossession (env_crypto env) p \<and>
    CProRegTx_CheckSignature (env_crypto env) p (pr_keyIDOwner p) \<and>
    \<not> Coin_IsSpent coin \<and>
    GetMasternodeTier (consensus env) (nValue (coin_out coin)) (bi_nHeight i + 1) \<noteq> 0 \<and>
    bi_nHeight i + 1 - uint (coin_nHeight coin) \<ge> nMasternodeCollateralConfirmations (consensus env) \<and>
    CalcTxInputsHash (env_crypto env) tx = pr_inputsHash p \<and>
    (\<forall>q \<in> register_props p. \<not> HasUniqueProperty l (prop_hash (env_Hash env) q))"
proof -
  from assms(1) obtain p' l' where e: "GetTxPayload Unserialize_CProRegTx tx = Some p'"
    "GetListForBlock env st (Some i) = Some (l', st')"
    "first_error (register_payload_errors env tx p' (Some i)) = None"
    "first_error (register_collateral_errors env (case view of Some v \<Rightarrow> v | None \<Rightarrow> AccessCoin env) p' (Some i)) = None"
    "first_error (register_list_errors env p' l' []) = None"
    by (rule CheckProRegTx_acceptE)
  have "p' = p" using e(1) assms(6) by simp
  have "l' = l" using e(2) GetListForBlock_stored [OF assms(2,3,5)] by auto
  have "CProRegTx_VerifyProofOfPossession (env_crypto env) p" "CalcTxInputsHash (env_crypto env) tx = pr_inputsHash p"
    using e(3) [unfolded \<open>p' = p\<close> first_error_None_iff]
    by (simp_all add: register_payload_errors_def bad_inputs_hash_def Let_def)
  moreover have "CProRegTx_CheckSignature (env_crypto env) p (pr_keyIDOwner p)" "\<not> Coin_IsSpent coin"
    "GetMasternodeTier (consensus env) (nValue (coin_out coin)) (bi_nHeight i + 1) \<noteq> 0"
    "bi_nHeight i + 1 - uint (coin_nHeight coin) \<ge> nMasternodeCollateralConfirmations (consensus env)"
    using e(4) [unfolded \<open>p' = p\<close> first_error_None_iff]
    by (simp_all add: register_collateral_errors_def next_height_def IsValidCollateralAmount_def coin_def Let_def)
  ultimately show ?thesis
    using register_list_free [OF e(5) [unfolded \<open>p' = p\<close> \<open>l' = l\<close>] mnlist_ok_live [OF assms(4)]] by blast
qed

lemma CheckProUpServTx_acceptE:
  assumes "CheckProUpServTx env st tx (Some i) pExtraList = Some (None, st')"
  obtains p l mn where "GetTxPayload Unserialize_CProUpServTx tx = Some p"
    "GetListForBlock env st (Some i) = Some (l, st')" "GetMN l (us_proTxHash p) = Some mn"
    "first_error (service_mn_errors env p (bi_nHeight i + 1) l mn pExtraList) = None"
  using assms that unfolding CheckProUpServTx_def
  by (auto split: if_splits option.splits prod.splits)

lemma CheckProUpRegTx_acceptE:
  assumes "CheckProUpRegTx env st tx (Some i) pExtraList = Some (None, st')"
  obtains p l mn where "GetTxPayload Unserialize_CProUpRegTx tx = Some p"
    "GetListForBlock env st (Some i) = Some (l, st')" "GetMN l (ur_proTxHash p) = Some mn"
    "first_error (registrar_mn_errors env p (bi_nHeight i + 1) l mn pExtraList) = None"
  using assms that unfolding CheckProUpRegTx_def
  by (auto split: if_splits option.splits prod.splits)

lemma CheckProUpRevTx_acceptE:
  assumes "CheckProUpRevTx env st tx (Some i) = Some (None, st')"
  obtains p l mn where "GetTxPayload Unserialize_CProUpRevTx tx = Some p"
    "GetListForBlock env st (Some i) = Some (l, st')" "GetMN l (rv_proTxHash p) = Some mn"
    "\<not> IsBanned (mn_state mn)"
    "first_error (operator_signature_errors env (vchOperatorPubKey (mn_state mn)) (rv_vchSig p)
                         (CProUpRevTx_GetSignatureHash (env_crypto env) p)) = None"
  using assms that unfolding CheckProUpRevTx_def
  by (auto split: if_splits option.splits prod.splits)

lemma addr_index:
  assumes "mnlist_ok H l" and "GetMN l h = Some x"
  shows "om_find (mnUniquePropertyMap l) (prop_hash H (P_addr (addr (mn_state x)))) = Some h"
  using assms by (auto simp: mnlist_ok_def index_exact_def prop_hashes_def mn_props_def state_props_def GetMN_def)

lemma service_accepted:
  assumes "CheckProUpServTx env st tx (Some i) pExtraList = Some (None, st')" and "store_ok st"
    and "db_list (st_evoDb st) (bi_hash i) = Some l" and "mnlist_ok (env_Hash env) l"
    and "bi_nHeight i \<ge> nMasternodeActivationHeight (consensus env)"
    and "GetTxPayload Unserialize_CProUpServTx tx = Some p"
  shows "\<exists>mn. GetMN l (us_proTxHash p) = Some mn \<and>
    VerifyWithDomain (env_crypto env) (us_vchSig p) (vchOperatorPubKey (mn_state mn))
      (CProUpServTx_GetSignatureHash (env_crypto env) p) OPERATOR_KEY \<and>
    (\<forall>h. om_find (mnUniquePropertyMap l) (prop_hash (env_Hash env) (P_addr (us_addr p))) = Some h \<longrightarrow>
      h = us_proTxHash p)"
proof -
  from assms(1) obtain p' l' mn where e: "GetTxPayload Unserialize_CProUpServTx tx = Some p'"
    "GetListForBlock env st (Some i) = Some (l', st')" "GetMN l' (us_proTxHash p') = Some mn"
    "first_error (service_mn_errors env p' (bi_nHeight i + 1) l' mn pExtraList) = None"
    by (rule CheckProUpServTx_acceptE)
  have "p' = p" using e(1) assms(6) by simp
  have "l' = l" using e(2) GetListForBlock_stored [OF assms(2,3,5)] by auto
  note errs = e(4) [unfolded \<open>p' = p\<close> \<open>l' = l\<close> first_error_None_iff]
  have sig: "VerifyWithDomain (env_crypto env) (us_vchSig p) (vchOperatorPubKey (mn_state mn))
      (CProUpServTx_GetSignatureHash (env_crypto env) p) OPERATOR_KEY"
    and free: "\<not> service_addr_taken env p l"
    using errs by (simp_all add: service_mn_errors_def operator_signature_errors_def Let_def)
  have "h = us_proTxHash p"
    if idx: "om_find (mnUniquePropertyMap l) (prop_hash (env_Hash env) (P_addr (us_addr p))) = Some h" for h
  proof -
    obtain x where "GetMN l h = Some x" using idx mnlist_ok_live [OF assms(4)] unfolding index_live_def by blast
    moreover have "proTxHash x = h" using calculation assms(4) by (simp add: mnlist_ok_def)
    ultimately show ?thesis
      using free idx
      by (auto simp: service_addr_taken_def GetMNByService_def find_property_def prop_hash_eqs HasUniqueProperty_def)
  qed
  then show ?thesis using e(3) sig \<open>p' = p\<close> \<open>l' = l\<close> by auto
qed

lemma registrar_accepted:
  assumes "CheckProUpRegTx env st tx (Some i) pExtraList = Some (None, st')" and "store_ok st"
    and "db_list (st_evoDb st) (bi_hash i) = Some l"
    and "bi_nHeight i \<ge> nMasternodeActivationHeight (consensus env)"
    and "GetTxPayload Unserialize_CProUpRegTx tx = Some p"
  shows "\<exists>mn. GetMN l (ur_proTxHash p) = Some mn \<and>
    CProUpRegTx_CheckSignature (env_crypto env) p (keyIDOwner (mn_state mn)) \<and>
    (ur_vchOperatorPubKey p \<noteq> [] \<and> ur_vchOperatorPubKey p \<noteq> vchOperatorPubKey (mn_state mn) \<longrightarrow>
      CProUpRegTx_VerifyProofOfPossession (env_crypto env) p \<and> BLSPublicKey_IsValid (env_crypto env) (ur_vchOperatorPubKey p) \<and>
      \<not> HasUniqueProperty l (GetOperatorKeyHash (env_Hash env) (ur_vchOperatorPubKey p))) \<and>
    (ur_keyIDVoting p \<noteq> 0 \<and> ur_keyIDVoting p \<noteq> keyIDVoting (mn_state mn) \<longrightarrow>
      \<not> HasUniqueProperty l (GetVotingKeyHash (env_Hash env) (ur_keyIDVoting p)))"
proof -
  from assms(1) obtain p' l' mn where e: "GetTxPayload Unserialize_CProUpRegTx tx = Some p'"
    "GetListForBlock env st (Some i) = Some (l', st')" "GetMN l' (ur_proTxHash p') = Some mn"
    "first_error (registrar_mn_errors env p' (bi_nHeight i + 1) l' mn pExtraList) = None"
    by (rule CheckProUpRegTx_acceptE)
  have "p' = p" using e(1) assms(5) by simp
  have "l' = l" using e(2) GetListForBlock_stored [OF assms(2,3,4)] by auto
  show ?thesis
    using e(4) [unfolded \<open>p' = p\<close> \<open>l' = l\<close> first_error_None_iff] e(3) \<open>p' = p\<close> \<open>l' = l\<close>
    by (auto simp: registrar_mn_errors_def Let_def)
qed

section \<open>Blocks of registrations keep the list well formed\<close>

lemma check_block_registers:
  assumes "check_block_txs env st view i txs intra = Some (None, st')"
    and pp: "bi_pprev i = Some pp" and "store_ok st" and "db_list (st_evoDb st) (bi_hash pp) = Some prev"
    and "bi_nHeight pp \<ge> nMasternodeActivationHeight (consensus env)"
    and "bi_nHeight pp + 1 \<ge> nTieredMNActivationHeight (consensus env)"
    and "\<And>tx. tx \<in> set txs \<Longrightarrow> IsTxTypeSpecial tx \<Longrightarrow> GetTxType tx = TRANSACTION_PROVIDER_REGISTER"
    and "mnlist_ok (env_Hash env) prev" and "index_live intra"
    and "\<And>ph. HasUniqueProperty l ph \<Longrightarrow> HasUniqueProperty prev ph \<or> HasUniqueProperty intra ph"
    and "\<And>tx. tx \<in> set txs \<Longrightarrow> GetMN l (tx_hash tx) = None" and "distinct (map tx_hash txs)"
  shows "registers_free env i txs l \<and> store_ok st' \<and> st_evoDb st' = st_evoDb st"
  using assms(1,3,4,7,9-)
proof (induction txs arbitrary: l intra st)
  case Nil
  then show ?case by simp
next
  case (Cons tx txs)
  let ?H = "env_Hash env"
  let ?intra = "intra_accumulate env (case view of Some v \<Rightarrow> v | None \<Rightarrow> AccessCoin env) i tx intra"
  from Cons.prems(1) pp obtain st1 where
    c: "CheckSpecialTx env st tx (Some pp) (Some intra) view = Some (None, st1)"
    and rest: "check_block_txs env st1 view i txs ?intra = Some (None, st')"
    by (auto split: option.splits prod.splits)
  show ?case
  proof (cases "IsTxTypeSpecial tx")
    case False
    then have "st1 = st" "?intra = intra" using c by (simp_all add: CheckSpecialTx_def intra_accumulate_def)
    moreover have "apply_special env i tx l = Inr l" "register_free env i tx l"
      using False by (simp_all add: apply_special_def register_free_def)
    ultimately show ?thesis
      using Cons.IH [of st intra l] rest Cons.prems by simp
  next
    case True
    have ty: "GetTxType tx = TRANSACTION_PROVIDER_REGISTER" using Cons.prems(4) [of tx] True by simp
    have "CheckProRegTx env st tx (Some pp) (Some intra) view = Some (None, st1)"
      using c True ty by (simp add: CheckSpecialTx_def)
    then obtain p l0 where e: "GetTxPayload Unserialize_CProRegTx tx = Some p"
      "GetListForBlock env st (Some pp) = Some (l0, st1)"
      "first_error (register_list_errors env p l0 []) = None"
      "first_error (register_list_errors env p intra ''-intrablock'') = None"
      by (rule CheckProRegTx_acceptE) (use assms(6) in blast)
    have l0: "l0 = prev" and st1: "store_ok st1" "st_evoDb st1 = st_evoDb st"
      using e(2) GetListForBlock_stored [OF Cons.prems(2,3) assms(5)] by auto
    let ?mn = "new_masternode env i tx p l"
    let ?im = "intra_masternode env (case view of Some v \<Rightarrow> v | None \<Rightarrow> AccessCoin env) i tx p intra"
    have props: "mn_props ?mn = register_props p" "mn_props ?im = register_props p"
      by (auto simp: mn_props_def state_props_def new_masternode_def intra_masternode_def register_props_def)
    have "\<not> HasUniqueProperty l (prop_hash ?H q)" if "q \<in> register_props p" for q
      using register_list_free [OF e(3) [unfolded l0] mnlist_ok_live [OF assms(8)] that]
        register_list_free [OF e(4) Cons.prems(5) that] Cons.prems(6) by blast
    then have free: "register_free env i tx l"
      using Cons.prems(7) [of tx] e(1) by (simp add: register_free_def props)
    have app: "apply_special env i tx l = Inr (AddMN ?H l ?mn)"
      using True ty e(1) by (simp add: apply_special_def apply_register_def)
    have intra: "?intra = AddMN ?H intra ?im"
      using True ty e(1) by (simp add: intra_accumulate_def)
    have "registers_free env i txs (AddMN ?H l ?mn) \<and> store_ok st' \<and> st_evoDb st' = st_evoDb st1"
    proof (rule Cons.IH [OF rest st1(1)])
      show "HasUniqueProperty prev ph \<or> HasUniqueProperty ?intra ph"
        if "HasUniqueProperty (AddMN ?H l ?mn) ph" for ph
        using that Cons.prems(6) [of ph] props
        by (auto simp: HasUniqueProperty_def intra find_AddMN prop_hashes_def split: if_splits)
      show "GetMN (AddMN ?H l ?mn) (tx_hash t) = None" if "t \<in> set txs" for t
        using that Cons.prems(7) [of t] Cons.prems(8) by (auto simp: GetMN_AddMN new_masternode_def image_iff)
    qed (use Cons.prems st1 in \<open>auto simp: intra index_live_AddMN\<close>)
    then show ?thesis using free app st1(2) by simp
  qed
qed

lemma HasUniqueProperty_start:
  assumes "mnlist_ok (env_Hash env) prev" and "HasUniqueProperty (list_start env block i prev) ph"
  shows "HasUniqueProperty prev ph"
proof -
  have ok: "mnlist_ok (env_Hash env) (list_start env block i prev)"
    using list_inv_start [OF assms(1) subset_refl] by (simp add: list_inv_def)
  obtain h where h: "om_find (mnUniquePropertyMap (list_start env block i prev)) ph = Some h"
    using assms(2) by (auto simp: HasUniqueProperty_def)
  then obtain mn where mn: "GetMN (list_start env block i prev) h = Some mn" "ph \<in> prop_hashes (env_Hash env) mn"
    using ok index_exactD [of "GetMN (list_start env block i prev)"
      "om_find (mnUniquePropertyMap (list_start env block i prev))" "prop_hashes (env_Hash env)" ph h]
    by (auto simp: mnlist_ok_def)
  then have "GetMN prev h = Some mn"
    by (auto simp: list_start_def GetMN_BatchRemove copy_list_ok(2) [OF assms(1)] restrict_map_def split: if_splits)
  then show ?thesis
    using assms(1) mn(2) index_exactD [of "GetMN prev" "om_find (mnUniquePropertyMap prev)" "prop_hashes (env_Hash env)" ph h]
    by (auto simp: mnlist_ok_def HasUniqueProperty_def)
qed

lemma registration_block_ok:
  assumes acc: "ProcessSpecialTxsInBlock env st block i False view = Some (None, st')"
    and pp: "bi_pprev i = Some pp" and st: "store_ok st" and prev: "db_list (st_evoDb st) (bi_hash pp) = Some prev"
    and act: "bi_nHeight pp \<ge> nMasternodeActivationHeight (consensus env)"
    and tier: "bi_nHeight pp + 1 \<ge> nTieredMNActivationHeight (consensus env)"
    and reg: "\<And>tx. tx \<in> set (vtx block) \<Longrightarrow> IsTxTypeSpecial tx \<Longrightarrow> GetTxType tx = TRANSACTION_PROVIDER_REGISTER"
    and ok: "mnlist_ok (env_Hash env) prev"
    and new: "\<And>tx. tx \<in> set (vtx block) \<Longrightarrow> GetMN prev (tx_hash tx) = None" "distinct (map tx_hash (vtx block))"
    and cf: "collision_free (env_Hash env) (list_props prev \<union> block_props block)"
  shows "\<exists>l. tipList st' = Some l \<and> mnlist_ok (env_Hash env) l"
proof -
  let ?new = "CDeterministicMNList_new (bi_hash i) (bi_nHeight i)"
  from acc obtain st1 where c: "check_block_txs env st view i (vtx block) ?new = Some (None, st1)"
    and p: "ProcessBlock env st1 block i False = Some (None, st')"
    by (auto simp: ProcessSpecialTxsInBlock_def split: if_splits option.splits prod.splits)
  have start: "GetMN (list_start env block i prev) (tx_hash tx) = None" if "tx \<in> set (vtx block)" for tx
    using new(1) [OF that]
    by (auto simp: list_start_def GetMN_BatchRemove copy_list_ok(2) [OF ok] restrict_map_def)
  have "registers_free env i (vtx block) (list_start env block i prev) \<and> store_ok st1 \<and> st_evoDb st1 = st_evoDb st"
    by (rule check_block_registers [OF c pp st prev act tier reg ok])
      (auto intro: mnlist_ok_live [OF mnlist_ok_new] start new(2) HasUniqueProperty_start [OF ok])
  then have free: "registers_free env i (vtx block) (list_start env block i prev)"
    and st1: "store_ok st1" "db_list (st_evoDb st1) (bi_hash pp) = Some prev" using prev by auto
  obtain st2 where st2: "GetListForBlock env st1 (Some pp) = Some (prev, st2)" "store_ok st2"
    using GetListForBlock_stored [OF st1 act] by auto
  with p pp have "finish_block env block i False prev st2 = Some (None, st')" by (simp add: ProcessBlock.simps)
  then obtain l mo d where l: "process_list env block i prev (st_pose st2, st_evoDb st2) = Some (Inr (l, mo, d))"
    and "commit_block i l (st2\<lparr>st_pose := mo, st_evoDb := d\<rparr>) = Some st'"
    by (auto simp: finish_block_def Let_def split: option.splits sum.splits prod.splits)
  moreover have "idle d"
    using list_frame_process_list [OF l] st2(2) by (simp add: store_ok_def list_frame_def)
  ultimately have "tipList st' = Some l" by (auto simp: commit_block_eq)
  moreover have "mnlist_ok (env_Hash env) l" by (rule process_list_wf [OF ok cf free l])
  ultimately show ?thesis by blast
qed

end
