(* ===== verification/Examples.thy ===== *)
theory Examples
  imports ProviderTx
begin

text \<open>
  Concrete values on which the properties are instantiated: a stand-in for the hash function
  (a table that tells the unique properties of the examples apart), one
  registered masternode and the list that holds it, a registration, a chain of two blocks, consensus parameters,
  and an environment whose cryptography accepts every signature.
\<close>

definition ex_addr :: "u16 \<Rightarrow> CService" where
  "ex_addr p = Service 0x08080808FFFF00000000000000000000 p"

definition ex_mn :: CDeterministicMN where
  "ex_mn = \<lparr>proTxHash = UINT256 7, collateralOutpoint = OutPoint (UINT256 5) 0, nOperatorReward = 0,
     mn_state = CDeterministicMNState_default\<lparr>nRegisteredHeight := 1000, keyIDOwner := 11,
       vchOperatorPubKey := [1], keyIDVoting := 12, addr := ex_addr 8770\<rparr>, internalId = 0\<rparr>"

definition ex_table :: "(byte list \<times> 256 word) list" where
  "ex_table = map (\<lambda>(p, n). (prop_preimage p, n))
     [(P_coll (OutPoint (UINT256 5) 0), 1), (P_addr (ex_addr 8770), 2), (P_owner 11, 3), (P_vote 12, 4),
      (P_oper [1], 5), (P_addr (ex_addr 8771), 6), (P_vote 13, 7), (P_oper [2], 8),
      (P_coll (OutPoint (UINT256 6) 0), 9), (P_owner 21, 10), (P_vote 22, 11), (P_oper (replicate 48 3), 12)]"

definition ex_Hash :: "byte list \<Rightarrow> uint256" where
  "ex_Hash bs = UINT256 (case map_of ex_table bs of Some n \<Rightarrow> n | None \<Rightarrow> 0)"

definition ex_list :: CDeterministicMNList where
  "ex_list = AddMN ex_Hash (CDeterministicMNList_new (UINT256 100) 1100) ex_mn"

definition ex_params :: Params where
  "ex_params = \<lparr>powLimit = UINT256 0, kawpowLimit = UINT256 0, fPowAllowMinDifficultyBlocks = False,
     fPowNoRetargeting = False, nPowTargetSpacing = 60, nPowTargetTimespan = 120960,
     nKawPowActivationTime = 0, nSubsidyHalvingInterval = 2100000, nMasternodeCollateral = 10000,
     nMasternodeCollateralTier2 = 20000, nMasternodeCollateralTier3 = 30000,
     nTieredMNActivationHeight = 100, nMasternodeCollateralConfirmations = 15,
     nMasternodeActivationHeight = 10, nMasternodeRewardPercent = 45, nPoSePenaltyIncrement = 66,
     nPoSeBanThreshold = 100, nPoSeRevivalHeight = 720, nProUpServCooldown = 10, nProUpRegCooldown = 10,
     nMNv2MigrationHeight = 50\<rparr>"

definition ex_crypto :: crypto where
  "ex_crypto = \<lparr>Hash = ex_Hash, RecoverKeyID = (\<lambda>h s. Some 21), BLSPublicKey_SetBytes = (\<lambda>b. True),
     BLSPublicKey_IsValid = (\<lambda>b. True), BLSSignature_SetBytes = (\<lambda>b. True),
     VerifyWithDomain = (\<lambda>s k h d. True), AggregatePublicKeys = (\<lambda>ks. [])\<rparr>"

definition ex_pp :: CBlockIndex where "ex_pp = BlockIndex (UINT256 100) 1100 0 0 0 None None"
definition ex_i :: CBlockIndex where "ex_i = BlockIndex (UINT256 101) 1101 0 0 0 (Some ex_pp) None"

definition ex_block :: CBlock where "ex_block = \<lparr>blk_hash = UINT256 101, vtx = []\<rparr>"

definition ex_env :: evo_env where
  "ex_env = \<lparr>env_crypto = ex_crypto, consensus = ex_params, MineBlocksOnDemand = False,
     AccessCoin = (\<lambda>out. \<lparr>coin_out = \<lparr>nValue = 10000, scriptPubKey = [1]\<rparr>, coin_fCoinBase = False, coin_nHeight = 900\<rparr>),
     ReadBlockFromDisk = (\<lambda>i. Some ex_block)\<rparr>"


lemma ex_Hash_props:
  "ex_Hash (prop_preimage p) = UINT256
    (if p = P_coll (OutPoint (UINT256 5) 0) then 1 else if p = P_addr (ex_addr 8770) then 2
     else if p = P_owner 11 then 3 else if p = P_vote 12 then 4 else if p = P_oper [1] then 5
     else if p = P_addr (ex_addr 8771) then 6 else if p = P_vote 13 then 7 else if p = P_oper [2] then 8
     else if p = P_coll (OutPoint (UINT256 6) 0) then 9 else if p = P_owner 21 then 10
     else if p = P_vote 22 then 11 else if p = P_oper (replicate 48 3) then 12 else 0)"
  unfolding ex_Hash_def ex_table_def
  by (auto simp: prop_preimage_inject simp del: prop_preimage.simps)

lemma prop_preimage_head: "hd (prop_preimage p) \<in> {3, 4, 6, 8} \<and> prop_preimage p \<noteq> []"
  by (cases p) (simp_all add: Serialize_string_def Serialize_bytes_def WriteCompactSize_def ser_writedata8_def)

lemma ex_Hash_other: "b \<notin> {3, 4, 6, 8} \<Longrightarrow> ex_Hash (b # bs) = UINT256 0" "ex_Hash [] = UINT256 0"
proof -
  have "map_of (map (\<lambda>(p, n). (prop_preimage p, n)) ps) xs = None" if "xs = [] \<or> hd xs \<notin> {3, 4, 6, 8}" for ps :: "(mn_prop \<times> 256 word) list" and xs
  proof -
    have "xs \<noteq> prop_preimage p" for p using that prop_preimage_head [of p] by auto
    then show ?thesis unfolding map_of_eq_None_iff by force
  qed
  then show "b \<notin> {3, 4, 6, 8} \<Longrightarrow> ex_Hash (b # bs) = UINT256 0" "ex_Hash [] = UINT256 0"
    unfolding ex_Hash_def ex_table_def by (simp_all del: prop_preimage.simps list.map)
qed

definition ex_props :: "mn_prop set" where
  "ex_props = {P_coll (OutPoint (UINT256 5) 0), P_addr (ex_addr 8770), P_owner 11, P_vote 12,
      P_oper [1], P_addr (ex_addr 8771), P_vote 13, P_oper [2],
      P_coll (OutPoint (UINT256 6) 0), P_owner 21, P_vote 22, P_oper (replicate 48 3)}"

lemma ex_addr_inject [simp]: "ex_addr a = ex_addr b \<longleftrightarrow> a = b"
  by (simp add: ex_addr_def)

lemma ex_collision_free: "collision_free ex_Hash ex_props"
  unfolding collision_free_def inj_on_def
  by (simp add: ex_props_def ex_Hash_props del: prop_preimage.simps)

lemma ex_mn_props: "mn_props ex_mn = {P_coll (OutPoint (UINT256 5) 0), P_addr (ex_addr 8770), P_owner 11, P_vote 12, P_oper [1]}"
  by (simp add: mn_props_def state_props_def ex_mn_def)

lemma ex_GetMN: "GetMN ex_list = [UINT256 7 \<mapsto> ex_mn]"
  by (auto simp: ex_list_def GetMN_AddMN CDeterministicMNList_new_def GetMN_def ex_mn_def fun_eq_iff)

lemma ex_list_ok: "mnlist_ok ex_Hash ex_list"
  unfolding ex_list_def
  by (rule mnlist_ok_AddMN) (simp, simp, simp add: HasUniqueProperty_def CDeterministicMNList_new_def)

lemma ex_list_props: "list_props ex_list = mn_props ex_mn"
  by (auto simp: list_props_iff ex_GetMN split: if_splits)

definition ex_mn2 :: CDeterministicMN where
  "ex_mn2 = \<lparr>proTxHash = UINT256 9, collateralOutpoint = OutPoint (UINT256 6) 0, nOperatorReward = 0,
     mn_state = CDeterministicMNState_default\<lparr>nRegisteredHeight := 1000, keyIDOwner := 21,
       vchOperatorPubKey := [2], keyIDVoting := 22, addr := ex_addr 8771\<rparr>, internalId = 1\<rparr>"

definition ex_list2 :: CDeterministicMNList where
  "ex_list2 = AddMN ex_Hash ex_list ex_mn2"

lemma ex_mn2_props: "mn_props ex_mn2 = {P_coll (OutPoint (UINT256 6) 0), P_addr (ex_addr 8771), P_owner 21, P_vote 22, P_oper [2]}"
  by (simp add: mn_props_def state_props_def ex_mn2_def)

lemma ex_list2_ok: "mnlist_ok ex_Hash ex_list2"
  unfolding ex_list2_def
proof (rule mnlist_ok_AddMN [OF ex_list_ok])
  show "GetMN ex_list (proTxHash ex_mn2) = None" by (simp add: ex_GetMN ex_mn2_def)
  have sub: "mn_props ex_mn \<subseteq> ex_props" "mn_props ex_mn2 \<subseteq> ex_props" "mn_props ex_mn \<inter> mn_props ex_mn2 = {}"
    by (simp_all add: ex_mn_props ex_mn2_props ex_props_def)
  have "prop_hash ex_Hash p \<notin> prop_hashes ex_Hash ex_mn" if "p \<in> mn_props ex_mn2" for p
  proof
    assume "prop_hash ex_Hash p \<in> prop_hashes ex_Hash ex_mn"
    then obtain q where "q \<in> mn_props ex_mn" "prop_hash ex_Hash p = prop_hash ex_Hash q"
      unfolding prop_hashes_def by blast
    with sub that show False using collision_freeD [OF ex_collision_free, of p q] by blast
  qed
  then show "\<forall>p \<in> mn_props ex_mn2. \<not> HasUniqueProperty ex_list (prop_hash ex_Hash p)"
    by (simp add: HasUniqueProperty_def ex_list_def AddMN_def find_index_add CDeterministicMNList_new_def)
qed

lemma ex_mns2: "set (mns ex_list2) = {ex_mn, ex_mn2}"
proof -
  have ids: "proTxHash ex_mn = UINT256 7" "proTxHash ex_mn2 = UINT256 9" by (simp_all add: ex_mn_def ex_mn2_def)
  have "GetMN ex_list2 = [UINT256 7 \<mapsto> ex_mn, UINT256 9 \<mapsto> ex_mn2]"
    by (simp add: ex_list2_def GetMN_AddMN ex_GetMN ids)
  then have "mn \<in> set (mns ex_list2) \<longleftrightarrow> mn = ex_mn2 \<or> mn = ex_mn" for mn
    unfolding mem_mns_iff [OF ex_list2_ok] by (auto simp: ids split: if_splits)
  then show ?thesis by auto
qed

definition ex_edb :: evodb where "ex_edb = CEvoDB_open om_empty"

definition ex_pose :: CPoSeManager where
  "ex_pose = CPoSeManager_new\<lparr>stateMap := om_put (UINT256 7)
     \<lparr>penaltyScore = 120, missedSessions = 3, lastProcessedHeight = 1100\<rparr> om_empty\<rparr>"

text \<open>The registration of a masternode whose properties are not in use in \<open>ex_list\<close>.\<close>

definition ex_p2pkh :: CScript where
  "ex_p2pkh = [0x76, 0xa9, 0x14] @ replicate 20 0 @ [0x88, 0xac]"

definition ex_reg :: CProRegTx where
  "ex_reg = \<lparr>pr_nVersion = 2, pr_nType = 0, pr_nMode = 0, pr_collateralOutpoint = OutPoint (UINT256 6) 0,
     pr_addr = ex_addr 8771, pr_keyIDOwner = 21, pr_vchOperatorPubKey = replicate 48 3, pr_keyIDVoting = 22,
     pr_nOperatorReward = 0, pr_scriptPayout = ex_p2pkh, pr_inputsHash = UINT256 0, pr_vchSig = replicate 65 0,
     pr_vchOperatorPoP = replicate 96 0\<rparr>"

definition ex_reg_tx :: CTransaction where
  "ex_reg_tx = \<lparr>vin = [], vout = [], nVersion = 3, nType = 1, nLockTime = 0,
     vExtraPayload = Serialize_CProRegTx False ex_reg, tx_hash = UINT256 55\<rparr>"

lemma ex_reg_payload: "GetTxPayload Unserialize_CProRegTx ex_reg_tx = Some ex_reg"
  by (simp add: preg.payload_iff ex_reg_tx_def CProRegTx_ok_def ex_reg_def ex_p2pkh_def)

lemma ex_reg_type: "IsTxTypeSpecial ex_reg_tx" "GetTxType ex_reg_tx = TRANSACTION_PROVIDER_REGISTER"
  "tx_hash ex_reg_tx = UINT256 55"
  by (simp_all add: ex_reg_tx_def IsTxTypeSpecial_def GetTxType_def TxType_of_def)

lemma ex_reg_free:
  assumes "p \<in> register_props ex_reg"
  shows "\<not> HasUniqueProperty ex_list (prop_hash ex_Hash p)"
proof -
  have "length (replicate 48 (3 :: byte)) \<noteq> length [1 :: byte]" by simp
  then have "replicate 48 3 \<noteq> [1 :: byte]" by metis
  then have sub: "mn_props ex_mn \<subseteq> ex_props" "register_props ex_reg \<subseteq> ex_props" "mn_props ex_mn \<inter> register_props ex_reg = {}"
    by (simp_all add: ex_mn_props register_props_def ex_reg_def ex_props_def)
  have "prop_hash ex_Hash p \<notin> prop_hashes ex_Hash ex_mn"
  proof
    assume "prop_hash ex_Hash p \<in> prop_hashes ex_Hash ex_mn"
    then obtain q where "q \<in> mn_props ex_mn" "prop_hash ex_Hash p = prop_hash ex_Hash q"
      unfolding prop_hashes_def by blast
    with sub assms show False using collision_freeD [OF ex_collision_free, of p q] by blast
  qed
  then show ?thesis
    by (simp add: HasUniqueProperty_def ex_list_def AddMN_def find_index_add CDeterministicMNList_new_def)
qed

end
