(* ===== verification/Props_Encoding.thy ===== *)
theory Props_Encoding
  imports Examples
begin

text \<open>
  Properties of the wire and storage formats (src/src/serialize.h, primitives/transaction.h,
  evo/providertx.h, evo/deterministicmns.h) and of the evolution database.
\<close>

text \<open>Variable-length integers.  Reading what \<open>WriteVarInt\<close> wrote gives the number back and
  leaves the rest of the stream untouched, for every 64-bit value and whatever follows; the number of
  bytes written is what \<open>GetSizeOfVarInt\<close> announces and never exceeds the ten bytes of the
  writer's buffer.\<close>

lemma varint_roundtrip:
  "ReadVarInt (WriteVarInt n @ rest) = Some (n, rest) \<and>
   length (WriteVarInt n) = GetSizeOfVarInt n \<and> GetSizeOfVarInt n \<le> 10"
proof -
  have "unat n < 2 ^ 64" using unsigned_less [of n] by simp
  then have "unat n < 128 ^ Suc 9" by (rule less_trans) simp
  then have "GetSizeOfVarInt n \<le> 10" using GetSizeOfVarInt_bound [of n 9] by simp
  moreover have "length (WriteVarInt n) = GetSizeOfVarInt n" by (simp add: WriteVarInt_def WriteVarInt_tmp_length)
  ultimately show ?thesis by (simp add: ReadVarInt_WriteVarInt)
qed

text \<open>Compact sizes are canonical.  \<open>ReadCompactSize\<close> accepts a byte string exactly when it
  starts with the bytes \<open>WriteCompactSize\<close> produces for a size of at most \<open>MAX_SIZE\<close>; no
  longer encoding of the same size is accepted.\<close>

lemma compact_size_canonical:
  "ReadCompactSize bs = Some (n, rest) \<longleftrightarrow> n \<le> MAX_SIZE \<and> bs = WriteCompactSize n @ rest"
  by (rule compact.unser_iff)

text \<open>C27: Transactions.  A transaction within the ranges of the format, extended payload and
  witnesses included, is read back unchanged from its serialisation, with or without witness data,
  and the reader stops exactly at its end.\<close>

theorem transaction_read_back:
  assumes "tx_ok w tx"
  shows "UnserializeTransaction w (SerializeTransaction w tx @ rest) = Some (tx, rest)"
  by (rule transaction_roundtrip [OF assms])

definition ex_tx :: CMutableTransaction where
  "ex_tx = \<lparr>vin = [\<lparr>prevout = OutPoint (UINT256 9) 1, scriptSig = [1, 2], nSequence = 0xFFFFFFFF,
       scriptWitness = [[3], []]\<rparr>], vout = [\<lparr>nValue = 5000, scriptPubKey = [0x51]\<rparr>],
     nVersion = 3, nType = 1, nLockTime = 7, vExtraPayload = [1, 2, 3]\<rparr>"

theorem transaction_read_back_witness:
  "UnserializeTransaction True (SerializeTransaction True ex_tx @ [42]) = Some (ex_tx, [42])"
  by (rule transaction_read_back) (simp add: tx_ok_def ex_tx_def)

text \<open>C26: Special-transaction payloads.  \<open>GetTxPayload\<close> yields a payload exactly when the extra
  payload is the serialisation of that payload, byte for byte and with nothing left over, for all
  five payload types: no two payloads share an encoding and no payload has two.\<close>

theorem payload_exact:
  "(GetTxPayload Unserialize_CProRegTx tx = Some p1 \<longleftrightarrow> CProRegTx_ok p1 \<and> vExtraPayload tx = Serialize_CProRegTx False p1) \<and>
   (GetTxPayload Unserialize_CProUpServTx tx = Some p2 \<longleftrightarrow> CProUpServTx_ok p2 \<and> vExtraPayload tx = Serialize_CProUpServTx False p2) \<and>
   (GetTxPayload Unserialize_CProUpRegTx tx = Some p3 \<longleftrightarrow> CProUpRegTx_ok p3 \<and> vExtraPayload tx = Serialize_CProUpRegTx False p3) \<and>
   (GetTxPayload Unserialize_CProUpRevTx tx = Some p4 \<longleftrightarrow> CProUpRevTx_ok p4 \<and> vExtraPayload tx = Serialize_CProUpRevTx False p4) \<and>
   (GetTxPayload Unserialize_CQuorumCommitmentTx tx = Some p5 \<longleftrightarrow>
      CQuorumCommitmentTx_ok p5 \<and> vExtraPayload tx = Serialize_CQuorumCommitmentTx False p5)"
  by (simp add: preg.payload_iff puserv.payload_iff pureg.payload_iff purev.payload_iff qctx.payload_iff)

text \<open>Stored masternode lists.  A list whose heights fit their fields, both maps included, is
  read back unchanged from the bytes the evolution database stores for it.\<close>

lemma stored_list_read_back:
  assumes "list_range l"
  shows "Unserialize_CDeterministicMNList (Serialize_CDeterministicMNList l @ rest) = Some (l, rest)"
  by (rule mnlistrt.unser_ser [OF assms])

lemma stored_list_read_back_instance:
  "Unserialize_CDeterministicMNList (Serialize_CDeterministicMNList ex_list @ [9]) = Some (ex_list, [9])"
proof (rule stored_list_read_back)
  have "mns ex_list = [ex_mn]"
    by (simp add: ex_list_def AddMN_def mns_def CDeterministicMNList_new_def om_put.rep_eq om_empty.rep_eq)
  moreover have "om_size (mnMap ex_list) \<le> 5" "om_size (mnUniquePropertyMap ex_list) \<le> 5"
    by (simp_all add: ex_list_def AddMN_def CDeterministicMNList_new_def index_add_def om_size_card
        card_insert_if om_find_put)
  ultimately show "list_range ex_list"
    by (simp add: list_range_def state_range_def ex_mn_def ex_list_def AddMN_def
        CDeterministicMNList_new_def CDeterministicMNState_default_def)
qed

text \<open>C25: Database transactions.  The writes and erasures made between \<open>BeginTransaction\<close> and
  \<open>CommitTransaction\<close> have the effect of making them directly, in their order, and all of them or
  none: until the commit a reader sees the old contents, and a rollback leaves them as they were.\<close>

theorem evodb_transaction:
  assumes "BeginTransaction d = Some d1" and "evodb_ok d"
  shows "CommitTransaction (fold db_op ops d1) = Some (fold db_op ops d) \<and>
    RollbackTransaction (fold db_op ops d1) = Some d \<and>
    (\<forall>k. evo_Read (fold db_op ops d1) k = evo_Read d k)"
proof -
  have d: "curDBTransaction d = None" "\<not> hasTransaction d"
    and d1: "d1 = d\<lparr>curDBTransaction := Some [], hasTransaction := True\<rparr>"
    using assms by (auto simp: BeginTransaction_def evodb_ok_def split: if_splits)
  have ops: "fold db_op ops d1 = d1\<lparr>curDBTransaction := Some ops\<rparr>"
    using db_ops_batched [of d1 "[]" ops] by (simp add: d1)
  show ?thesis
    unfolding ops db_ops_direct [OF d(1)] using d
    by (simp add: CommitTransaction_def RollbackTransaction_def evo_Read_def d1)
qed

definition ex_db :: "(nat, nat) CEvoDB" where
  "ex_db = CEvoDB_open (om_put 1 10 om_empty)"

theorem evodb_transaction_witness:
  "CommitTransaction (fold db_op [(2, Some 20), (1, None)] (ex_db\<lparr>curDBTransaction := Some [], hasTransaction := True\<rparr>)) =
     Some (fold db_op [(2, Some 20), (1, None)] ex_db)"
  using evodb_transaction [of ex_db "ex_db\<lparr>curDBTransaction := Some [], hasTransaction := True\<rparr>" "[(2, Some 20), (1, None)]"]
  by (simp add: ex_db_def BeginTransaction_def CEvoDB_open_def evodb_ok_def)

end
