(* ===== verification/Props_Masternodes.thy ===== *)
theory Props_Masternodes
  imports Examples
begin

text \<open>
  Properties of the deterministic masternode list (src/src/evo/deterministicmns.cpp), of Proof of
  Service (src/src/evo/pose.cpp) and of the block index (src/src/chain.cpp).
\<close>

section \<open>The masternode list\<close>

text \<open>\<open>UpdateMN\<close> keeps the list consistent.  Whatever the new state, as long as it keeps the
  owner key, the unique-property index still maps exactly the properties of every masternode to it
  after the update, also when the update is refused because a property belongs to another
  masternode.  The hash is only assumed not to collide on the properties involved.\<close>

lemma update_keeps_index:
  assumes "mnlist_ok H l" and "\<And>mn. GetMN l h = Some mn \<Longrightarrow> keyIDOwner s = keyIDOwner (mn_state mn)"
    and "collision_free H (list_props l \<union> state_props s)"
  shows "mnlist_ok H (UpdateMN H l h s)"
  by (rule mnlist_ok_UpdateMN [OF assms])

definition ex_state :: CDeterministicMNState where
  "ex_state = (mn_state ex_mn)\<lparr>addr := ex_addr 8771, keyIDVoting := 13, vchOperatorPubKey := [2]\<rparr>"

lemma ex_state_props: "state_props ex_state = {P_addr (ex_addr 8771), P_owner 11, P_vote 13, P_oper [2]}"
  by (simp add: state_props_def ex_state_def ex_mn_def)

lemma update_keeps_index_instance: "mnlist_ok ex_Hash (UpdateMN ex_Hash ex_list (UINT256 7) ex_state)"
proof (rule update_keeps_index [OF ex_list_ok])
  show "keyIDOwner ex_state = keyIDOwner (mn_state mn)" if "GetMN ex_list (UINT256 7) = Some mn" for mn
    using that by (auto simp: ex_GetMN ex_state_def)
  show "collision_free ex_Hash (list_props ex_list \<union> state_props ex_state)"
    by (rule collision_free_subset [OF ex_collision_free])
      (simp add: ex_list_props ex_mn_props ex_props_def ex_state_props)
qed

text \<open>Lookups through the index are exact.  In a consistent list the masternode found by
  collateral, by service address or by operator key is the one masternode of the list that has it,
  and nothing is found when no masternode has it.\<close>

lemma lookups_exact:
  assumes "mnlist_ok H l"
    and "collision_free H (list_props l \<union> {P_coll c, P_addr a, P_oper k})"
  shows "(GetMNByCollateral H l c = Some mn \<longleftrightarrow> GetMN l (proTxHash mn) = Some mn \<and> collateralOutpoint mn = c) \<and>
    (GetMNByService H l a = Some mn \<longleftrightarrow> GetMN l (proTxHash mn) = Some mn \<and> addr (mn_state mn) = a) \<and>
    (GetMNByOperatorKey H l k = Some mn \<longleftrightarrow> GetMN l (proTxHash mn) = Some mn \<and> vchOperatorPubKey (mn_state mn) = k)"
proof -
  have "find_property l (prop_hash H p) = Some mn \<longleftrightarrow> GetMN l (proTxHash mn) = Some mn \<and> p \<in> mn_props mn"
    if "p \<in> {P_coll c, P_addr a, P_oper k}" for p
    unfolding mem_mns_iff [OF assms(1), symmetric]
    by (rule find_property_iff [OF assms(1)], rule collision_free_subset [OF assms(2)]) (use that in auto)
  then show ?thesis
    by (auto simp: GetMNByCollateral_def GetMNByService_def GetMNByOperatorKey_def prop_hash_eqs
        mn_props_def state_props_def)
qed

lemma lookups_exact_instance:
  "GetMNByService ex_Hash ex_list (ex_addr 8770) = Some ex_mn \<and>
   GetMNByOperatorKey ex_Hash ex_list [2] \<noteq> Some ex_mn"
proof -
  have "collision_free ex_Hash (list_props ex_list \<union> {P_coll (OutPoint (UINT256 5) 0), P_addr (ex_addr 8770), P_oper [2]})"
    by (rule collision_free_subset [OF ex_collision_free]) (auto simp: ex_list_props ex_mn_props ex_props_def)
  from lookups_exact [OF ex_list_ok this, of ex_mn]
  show ?thesis by (simp add: ex_GetMN) (simp add: ex_mn_def)
qed

text \<open>C21: The payee.  \<open>GetMNPayee\<close> returns a masternode exactly when one is eligible, and then the
  eligible masternode that is least by score and, on equal scores, by registration hash; in a
  consistent list that masternode is unique, so every node pays the same one.\<close>

theorem payee_least:
  "(GetMNPayee H p l bh ht = None \<longleftrightarrow> GetValidMNsForPayment p l ht = []) \<and>
   (\<forall>w m. GetMNPayee H p l bh ht = Some w \<and> mnlist_ok H l \<and> m \<in> set (GetValidMNsForPayment p l ht) \<and> m \<noteq> w \<longrightarrow>
      w \<in> set (GetValidMNsForPayment p l ht) \<and>
      (CalcScore H w bh ht, UintToArith256 (proTxHash w)) < (CalcScore H m bh ht, UintToArith256 (proTxHash m)))"
proof -
  have "payee_key H bh ht w < payee_key H bh ht m"
    if w: "GetMNPayee H p l bh ht = Some w" and ok: "mnlist_ok H l" and m: "m \<in> set (GetValidMNsForPayment p l ht)"
      and ne: "m \<noteq> w" for w m
  proof -
    have "m \<in> set (mns l)" "w \<in> set (mns l)"
      using m GetMNPayee_min(1) [OF w] by (simp_all add: GetValidMNsForPayment_def)
    then have "proTxHash m \<noteq> proTxHash w" using ne mem_mns_iff [OF ok] by auto
    then have "payee_key H bh ht w \<noteq> payee_key H bh ht m" by (auto simp: payee_key_def uint256.expand)
    then show ?thesis using GetMNPayee_min(2) [OF w m] by simp
  qed
  then show ?thesis using GetMNPayee_min(1) by (auto simp: GetMNPayee_None payee_key_def)
qed

text \<open>Both masternodes of the example are eligible, and the first is paid.\<close>

theorem payee_least_witness:
  "GetMNPayee ex_Hash ex_params ex_list2 (UINT256 100) 1101 = Some ex_mn \<and>
   (CalcScore ex_Hash ex_mn (UINT256 100) 1101, UintToArith256 (proTxHash ex_mn)) <
   (CalcScore ex_Hash ex_mn2 (UINT256 100) 1101, UintToArith256 (proTxHash ex_mn2))"
  (is "?pay = _ \<and> ?key ex_mn < ?key ex_mn2")
proof -
  have v: "set (GetValidMNsForPayment ex_params ex_list2 1101) = {ex_mn, ex_mn2}"
    by (auto simp: GetValidMNsForPayment_def ex_mns2 eligible_def MN_IsValid_def IsBanned_def Let_def)
      (auto simp: ex_mn_def ex_mn2_def ex_params_def CDeterministicMNState_default_def)
  have ne: "ex_mn \<noteq> ex_mn2" by (simp add: ex_mn_def ex_mn2_def)
  have score: "CalcScore ex_Hash ex_mn (UINT256 100) 1101 = CalcScore ex_Hash ex_mn2 (UINT256 100) 1101"
    by (simp add: CalcScore_def ex_mn_def ex_mn2_def CDeterministicMNState_default_def Serialize_uint256_def
        blob_data_def bytes_eval ex_Hash_other Let_def)
  then have lt: "?key ex_mn < ?key ex_mn2" by (simp add: less_prod_def ex_mn_def ex_mn2_def)
  note p = payee_least [of ex_Hash ex_params ex_list2 "UINT256 100" 1101]
  from p v obtain w where w: "?pay = Some w" by (cases ?pay) auto
  with p v ne ex_list2_ok lt have "w = ex_mn" by (metis insertE insert_iff order_less_asym singletonD)
  with w lt show ?thesis by simp
qed

section \<open>Proof of Service\<close>

text \<open>Punishment.  \<open>CheckAndPunish\<close> changes exactly the masternodes that are not banned and have
  a penalty record: their list penalty becomes the recorded score, and they are banned at the current
  height when the score reaches the threshold.  Every other masternode, banned ones included, is
  unchanged, and a consistent list stays consistent.\<close>

lemma punishment_effect:
  "GetMN (CheckAndPunish H m l ht inc th) h = (case GetMN l h of None \<Rightarrow> None
     | Some mn \<Rightarrow> Some (if IsBanned (mn_state mn) then mn else case om_find (stateMap m) h of
         None \<Rightarrow> mn
       | Some ps \<Rightarrow> mn\<lparr>mn_state := (mn_state mn)\<lparr>nPoSePenalty := penaltyScore ps, nPoSeBanHeight :=
           (if penaltyScore ps \<ge> th then ht else nPoSeBanHeight (mn_state mn))\<rparr>\<rparr>)) \<and>
   (mnlist_ok H l \<longrightarrow> mnlist_ok H (CheckAndPunish H m l ht inc th))"
  by (auto simp: GetMN_CheckAndPunish mnlist_ok_CheckAndPunish punished_def punish_update_def Let_def
      split: option.split)

lemma punishment_effect_instance:
  "mnlist_ok ex_Hash ex_list \<and> mnlist_ok ex_Hash (CheckAndPunish ex_Hash ex_pose ex_list 1101 66 100) \<and>
   map_option (nPoSeBanHeight \<circ> mn_state) (GetMN (CheckAndPunish ex_Hash ex_pose ex_list 1101 66 100) (UINT256 7)) = Some 1101"
proof -
  have "\<not> IsBanned (mn_state ex_mn)" by (simp add: ex_mn_def IsBanned_def CDeterministicMNState_default_def)
  then show ?thesis
    using punishment_effect [of ex_Hash ex_pose ex_list 1101 66 100 "UINT256 7"] ex_list_ok
    by (simp add: ex_GetMN ex_pose_def)
qed

lemma PrepareUndo_frame:
  "stateMap (fst (PrepareUndo bh aff (m, d))) = stateMap m"
  "idle d \<Longrightarrow> idle (snd (PrepareUndo bh aff (m, d)))"
  by (simp_all add: PrepareUndo_def Let_def trim_undo_frame trim_undo_idle)

text \<open>Undoing a block.  \<open>PrepareUndo\<close> for the highest block so far records the state of every
  affected masternode; whatever happens to those masternodes afterwards, \<open>UndoBlock\<close> at that height
  succeeds, brings the whole penalty map back to what it was, and leaves the database with the restored
  states of the affected masternodes.\<close>

lemma pose_undo:
  assumes "idle d" and "nonzero_states m" and "\<And>k. om_find (undoEntries m) k \<noteq> None \<Longrightarrow> k \<le> bh"
    and "om_find (undoEntries m2) bh = om_find (undoEntries (fst (PrepareUndo bh aff (m, d)))) bh"
    and "\<And>h. h \<notin> set aff \<Longrightarrow> om_find (stateMap m2) h = om_find (stateMap m) h" and "idle d2"
  shows "\<exists>m3 d3. Pose_UndoBlock bh (m2, d2) = (True, (m3, d3)) \<and> stateMap m3 = stateMap m \<and>
    (\<forall>h \<in> set aff. read_pose_state d3 h = om_find (stateMap m) h)"
  by (rule Pose_undo_restores [OF assms])

lemma pose_undo_instance:
  "\<exists>m3 d3. Pose_UndoBlock 1101 (IncrementPenalty (UINT256 7) 30 (PrepareUndo 1101 [UINT256 7] (ex_pose, ex_edb))) = (True, (m3, d3)) \<and>
     stateMap m3 = stateMap ex_pose \<and> (\<forall>h \<in> set [UINT256 7]. read_pose_state d3 h = om_find (stateMap ex_pose) h)"
proof -
  obtain m d where md: "PrepareUndo 1101 [UINT256 7] (ex_pose, ex_edb) = (m, d)" by fastforce
  have m: "stateMap m = stateMap ex_pose" and d: "idle d"
    using PrepareUndo_frame(1) [of 1101 "[UINT256 7]" ex_pose ex_edb]
      PrepareUndo_frame(2) [of ex_edb 1101 "[UINT256 7]" ex_pose] by (simp_all add: md) (simp add: ex_edb_def)
  have inc: "IncrementPenalty (UINT256 7) 30 (m, d) =
      (m\<lparr>stateMap := om_put (UINT256 7) ((state_or_default m (UINT256 7))\<lparr>penaltyScore :=
        penaltyScore (state_or_default m (UINT256 7)) + 30\<rparr>) (stateMap m), fDirty := True\<rparr>, d)" (is "_ = (?m2, d)")
    by (simp add: IncrementPenalty_def Let_def)
  show ?thesis
    unfolding md inc
  proof (rule pose_undo)
    show "om_find (undoEntries ?m2) 1101 = om_find (undoEntries (fst (PrepareUndo 1101 [UINT256 7] (ex_pose, ex_edb)))) 1101"
      by (simp add: md)
    show "nonzero_states ex_pose"
      by (simp add: nonzero_states_def ex_pose_def CPoSeState_default_def CPoSeManager_new_def)
    show "k \<le> 1101" if "om_find (undoEntries ex_pose) k \<noteq> None" for k
      using that by (simp add: ex_pose_def CPoSeManager_new_def)
  qed (simp_all add: m d ex_edb_def)
qed

text \<open>The states the manager reaches by its operations, \<open>ResetPenalty\<close> and \<open>UndoBlock\<close> apart.\<close>

inductive pose_run :: "pose \<Rightarrow> bool" where
  start: "pose_run (InitPoSe (CEvoDB_open om_empty))"
| increment: "pose_run st \<Longrightarrow> pose_run (IncrementPenalty h a st)"
| decrement: "pose_run st \<Longrightarrow> pose_run (DecrementPenalty h a st)"
| prepare: "pose_run st \<Longrightarrow> pose_run (PrepareUndo bh aff st)"
| session: "pose_run st \<Longrightarrow> pose_run (ProcessQuorumSession p parts exps ht st)"
| flush: "pose_run st \<Longrightarrow> pose_run (Pose_Flush st)"

lemma pose_run_synced: "pose_run st \<Longrightarrow> pose_synced st"
proof (induction rule: pose_run.induct)
  case start
  have "read_pose_state (CEvoDB_open om_empty) h = None" for h
    by (simp add: read_pose_state_def evo_Read_def CEvoDB_open_def)
  moreover obtain m where m: "InitPoSe (CEvoDB_open om_empty) = (m, CEvoDB_open om_empty)"
    by (simp add: InitPoSe_def Pose_Init_def Let_def)
  ultimately show ?case
    using Pose_Init_states [of CPoSeManager_new "CEvoDB_open om_empty"]
    by (simp add: pose_synced_def InitPoSe_def CPoSeManager_new_def)
qed (simp_all add: synced_Increment synced_Decrement synced_PrepareUndo synced_QuorumSession synced_Flush)

text \<open>Restart.  After any sequence of penalty increments and decrements, quorum sessions, undo
  preparations and flushes from an empty database, stopping the manager and starting a new one on
  the same database gives back every penalty record.\<close>

lemma pose_restart:
  assumes "pose_run st"
  shows "stateMap (fst (InitPoSe (StopPoSe st))) = stateMap (fst st)"
  by (rule pose_restart_states [OF pose_run_synced [OF assms]])

lemma pose_restart_instance:
  "stateMap (fst (InitPoSe (StopPoSe (IncrementPenalty (UINT256 7) 30 (InitPoSe (CEvoDB_open om_empty)))))) =
   stateMap (fst (IncrementPenalty (UINT256 7) 30 (InitPoSe (CEvoDB_open om_empty))))"
  by (rule pose_restart) (intro pose_run.intros)

text \<open>C24: \<open>ResetPenalty\<close> loses other records.  It clears the dirty flag although only its own erasure
  has been written: a record of another masternode that was not flushed yet is in memory before, and
  is gone after the next restart.\<close>

theorem reset_penalty_loses:
  assumes "idle d" and "om_find (stateMap m) h = Some s" and "om_find (stateMap m) g = Some t" and "g \<noteq> h"
    and "read_pose_state d g = None"
  shows "om_find (stateMap (fst (ResetPenalty h (m, d)))) g = Some t \<and>
    om_find (stateMap (fst (InitPoSe (StopPoSe (ResetPenalty h (m, d)))))) g = None"
proof -
  have "StopPoSe (ResetPenalty h (m, d)) = evo_Erase (DB_POSE_STATE h) d"
    using assms(2) by (simp add: ResetPenalty_def StopPoSe_def Pose_Flush_def)
  then show ?thesis
    using assms by (simp add: ResetPenalty_def InitPoSe_def Pose_Init_states read_pose_state_write CPoSeManager_new_def)
qed

definition ex_pose2 :: CPoSeManager where
  "ex_pose2 = ex_pose\<lparr>stateMap := om_put (UINT256 8) (CPoSeState_default\<lparr>penaltyScore := 66\<rparr>) (stateMap ex_pose)\<rparr>"

theorem reset_penalty_loses_witness:
  "om_find (stateMap (fst (ResetPenalty (UINT256 7) (ex_pose2, ex_edb)))) (UINT256 8) = Some (CPoSeState_default\<lparr>penaltyScore := 66\<rparr>) \<and>
   om_find (stateMap (fst (InitPoSe (StopPoSe (ResetPenalty (UINT256 7) (ex_pose2, ex_edb)))))) (UINT256 8) = None"
  by (rule reset_penalty_loses)
    (simp_all add: ex_edb_def ex_pose2_def ex_pose_def read_pose_state_def evo_Read_def CEvoDB_open_def idle_cur)

section \<open>The block index\<close>

text \<open>C28: Ancestors.  On a block index whose skip pointers \<open>BuildSkip\<close> could have made,
  \<open>GetAncestor\<close> never fails its assertion and returns the block that following \<open>pprev\<close> one block
  at a time reaches at that height, for every height of the chain, and the null pointer for a height
  outside it.\<close>

theorem ancestor_correct:
  assumes "chain_ok i"
  shows "GetAncestor i h = Some (if 0 \<le> h \<and> h \<le> bi_nHeight i then anc i h else None)"
  using GetAncestor_anc [OF assms, of h] by (simp add: GetAncestor_def)

definition ex_b0 :: CBlockIndex where "ex_b0 = BlockIndex (UINT256 0) 0 0 0 0 None None"
definition ex_b1 :: CBlockIndex where "ex_b1 = BlockIndex (UINT256 1) 1 0 0 0 (Some ex_b0) (Some ex_b0)"
definition ex_b2 :: CBlockIndex where "ex_b2 = BlockIndex (UINT256 2) 2 0 0 0 (Some ex_b1) (Some ex_b0)"

lemma ex_chain: "chain_ok ex_b2" "anc ex_b2 0 = Some ex_b0" "chain_ok ex_b1"
proof -
  have sk: "GetSkipHeight 1 = 0" "GetSkipHeight 2 = 0" by code_simp+
  show "chain_ok ex_b2" "chain_ok ex_b1" "anc ex_b2 0 = Some ex_b0"
    by (simp_all add: ex_b0_def ex_b1_def ex_b2_def chain_ok.simps anc.simps sk)
qed

theorem ancestor_correct_witness: "GetAncestor ex_b2 0 = Some (Some ex_b0)"
  using ancestor_correct [OF ex_chain(1), of 0] ex_chain(2) by (simp add: ex_b2_def)

text \<open>Skip pointers.  \<open>BuildSkip\<close> on a new block above a well-formed chain succeeds, keeps the
  block's hash, height and parent, and gives a well-formed chain again.\<close>

lemma build_skip_correct:
  assumes "bi_pprev i = Some p" and "chain_ok p" and "bi_nHeight i = bi_nHeight p + 1"
  shows "\<exists>j. BuildSkip i = Some j \<and> chain_ok j \<and> bi_pprev j = bi_pprev i \<and> bi_nHeight j = bi_nHeight i \<and>
    bi_hash j = bi_hash i"
  by (rule chain_ok_BuildSkip [OF assms])

lemma build_skip_correct_instance:
  "\<exists>j. BuildSkip (BlockIndex (UINT256 2) 2 0 0 0 (Some ex_b1) None) = Some j \<and> chain_ok j \<and>
    bi_pprev j = Some ex_b1 \<and> bi_nHeight j = 2 \<and> bi_hash j = UINT256 2"
  using build_skip_correct [of "BlockIndex (UINT256 2) 2 0 0 0 (Some ex_b1) None" ex_b1] ex_chain(3)
  by (simp add: ex_b1_def)

end
