(* ===== verification/Props_Blocks.thy ===== *)
theory Props_Blocks
  imports Examples
begin

text \<open>
  Properties of the masternode list across blocks: \<open>ProcessBlock\<close>, \<open>UndoBlock\<close> and
  \<open>GetListForBlock\<close> of src/src/evo/deterministicmns.cpp and the transaction checks of
  src/src/evo/providertx.cpp.
\<close>

section \<open>Example blocks\<close>

text \<open>A block that spends the collateral of the first masternode of \<open>ex_list2\<close>.\<close>

definition ex_spend :: CBlock where
  "ex_spend = \<lparr>blk_hash = UINT256 101, vtx = [\<lparr>vin = [\<lparr>prevout = OutPoint (UINT256 5) 0, scriptSig = [],
     nSequence = 0, scriptWitness = []\<rparr>], vout = [], nVersion = 2, nType = 0, nLockTime = 0, vExtraPayload = [],
     tx_hash = UINT256 55\<rparr>]\<rparr>"

lemma ex_spend_outpoints: "spent_outpoints ex_spend = [OutPoint (UINT256 5) 0]"
  by (simp add: spent_outpoints_def ex_spend_def IsCoinBase_def COutPoint_IsNull_def)

lemma ex_spend_plain: "list_all (\<lambda>tx. \<not> IsTxTypeSpecial tx) (vtx ex_spend)"
  by (simp add: ex_spend_def IsTxTypeSpecial_def)

lemma tx_props_normal: "nType tx = 0 \<Longrightarrow> tx_props tx = {}"
  by (simp add: tx_props_def GetTxType_def)

lemma registers_free_plain: "list_all (\<lambda>tx. \<not> IsTxTypeSpecial tx) txs \<Longrightarrow> registers_free env i txs l"
  by (induction txs arbitrary: l) (simp_all add: register_free_def apply_special_def)

lemma ex_list2_props: "list_props ex_list2 \<subseteq> ex_props"
  by (auto simp: list_props_def ex_mns2 ex_mn_props ex_mn2_props ex_props_def)

lemma ex_spend_collision: "collision_free ex_Hash (list_props ex_list2 \<union> block_props ex_spend)"
proof (rule collision_free_subset [OF ex_collision_free])
  have "block_props ex_spend = {P_coll (OutPoint (UINT256 5) 0)}"
    by (simp add: block_props_def ex_spend_outpoints) (simp add: ex_spend_def tx_props_normal)
  then show "list_props ex_list2 \<union> block_props ex_spend \<subseteq> ex_props"
    using ex_list2_props by (simp add: ex_props_def)
qed

lemma ex_heights: "bi_nHeight ex_i = 1101" "bi_hash ex_i = UINT256 101" "bi_pprev ex_i = Some ex_pp"
  "bi_hash ex_pp = UINT256 100" "bi_nHeight ex_pp = 1100" "nMNv2MigrationHeight (consensus ex_env) = 50"
  "l_blockHash ex_list2 = UINT256 100" "env_Hash ex_env = ex_Hash"
  by (simp_all add: ex_i_def ex_pp_def ex_env_def ex_params_def ex_crypto_def ex_list2_def ex_list_def AddMN_def
      CDeterministicMNList_new_def)

lemma ex_tier: "tier_mismatch ex_env ex_i mn \<longleftrightarrow> nTier (mn_state mn) \<noteq> 1"
  by (simp add: tier_mismatch_def ex_env_def ex_params_def ex_i_def Coin_IsSpent_def CTxOut_IsNull_def
      GetMasternodeTier_def Let_def)

lemma ex_mn_fields: "collateralOutpoint ex_mn = OutPoint (UINT256 5) 0" "collateralOutpoint ex_mn2 = OutPoint (UINT256 6) 0"
  "nTier (mn_state ex_mn) = 1" "nTier (mn_state ex_mn2) = 1" "proTxHash ex_mn = UINT256 7" "proTxHash ex_mn2 = UINT256 9"
  by (simp_all add: ex_mn_def ex_mn2_def CDeterministicMNState_default_def)

lemma ex_GetMN2: "GetMN ex_list2 = [UINT256 7 \<mapsto> ex_mn, UINT256 9 \<mapsto> ex_mn2]"
  by (simp add: ex_list2_def GetMN_AddMN ex_GetMN ex_mn_fields)

text \<open>The list after that block holds the second masternode only.\<close>

lemma ex_spend_result:
  obtains l' mo' d' where "process_list ex_env ex_spend ex_i ex_list2 (mo, d) = Some (Inr (l', mo', d'))"
    "GetMN l' (UINT256 9) = Some (revived ex_env ex_i (pose_state ex_env ex_i mo (UINT256 9)
       (paid_state ex_env ex_i ex_list2 (UINT256 9) ex_mn2)))" "GetMN l' (UINT256 7) = None"
proof -
  obtain l' mo' d' where p: "process_list ex_env ex_spend ex_i ex_list2 (mo, d) = Some (Inr (l', mo', d'))"
    using process_list_plain_ok [OF ex_spend_plain, of ex_i ex_list2 ex_env mo d] by (auto simp: ex_heights)
  note eff = process_list_plain [OF _ _ ex_spend_plain _ p, unfolded ex_heights, OF ex_list2_ok ex_spend_collision]
  show thesis
    by (rule that [OF p]) (simp_all add: eff ex_GetMN2 ex_spend_outpoints ex_mn_fields ex_tier)
qed

text \<open>A block that registers the masternode of \<open>ex_reg\<close>, whose collateral is output 0 of transaction 6, and then
  spends an output.\<close>

definition ex_reg_spend :: "COutPoint \<Rightarrow> CBlock" where
  "ex_reg_spend out = \<lparr>blk_hash = UINT256 101, vtx = [ex_reg_tx, \<lparr>vin = [\<lparr>prevout = out, scriptSig = [],
     nSequence = 0, scriptWitness = []\<rparr>], vout = [], nVersion = 2, nType = 0, nLockTime = 0, vExtraPayload = [],
     tx_hash = UINT256 56\<rparr>]\<rparr>"

abbreviation ex_reg_mn :: "CBlock \<Rightarrow> CDeterministicMN" where
  "ex_reg_mn block \<equiv> new_masternode ex_env ex_i ex_reg_tx ex_reg (list_start ex_env block ex_i ex_list)"

lemma ex_list_heights: "l_blockHash ex_list = UINT256 100"
  by (simp add: ex_list_def AddMN_def CDeterministicMNList_new_def)

lemma ex_reg_mn_fields: "collateralOutpoint (ex_reg_mn block) = OutPoint (UINT256 6) 0" "proTxHash (ex_reg_mn block) = UINT256 55"
  "nTier (mn_state (ex_reg_mn block)) = 1"
  by (simp_all add: new_masternode_def ex_reg_def ex_reg_type)
    (simp add: ex_env_def ex_params_def ex_i_def GetMasternodeTier_def)

lemma ex_reg_spend_outpoints: "\<not> COutPoint_IsNull out \<Longrightarrow> spent_outpoints (ex_reg_spend out) = [out]"
  by (simp add: spent_outpoints_def ex_reg_spend_def IsCoinBase_def) (simp add: ex_reg_tx_def)

lemma ex_reg_spend_specials:
  "apply_specials ex_env ex_i (vtx (ex_reg_spend out)) l = Inr (AddMN ex_Hash l (new_masternode ex_env ex_i ex_reg_tx ex_reg l))"
  by (simp add: ex_reg_spend_def apply_special_def apply_register_def ex_reg_type ex_reg_payload ex_heights)
    (simp add: IsTxTypeSpecial_def)

lemma ex_start_sub: "GetMN (list_start ex_env block ex_i ex_list) h = Some mn \<Longrightarrow> GetMN ex_list h = Some mn"
  by (auto simp: list_start_def ex_heights GetMN_BatchRemove copy_list_ok(2) [OF ex_list_ok] restrict_map_def
      split: if_splits)

lemma ex_reg_spend_free:
  "registers_free ex_env ex_i (vtx (ex_reg_spend out)) (list_start ex_env (ex_reg_spend out) ex_i ex_list)"
proof -
  let ?l = "list_start ex_env (ex_reg_spend out) ex_i ex_list"
  have "GetMN ?l (UINT256 55) = None"
    using ex_start_sub [of "ex_reg_spend out" "UINT256 55"] by (cases "GetMN ?l (UINT256 55)") (auto simp: ex_GetMN)
  moreover have "\<not> HasUniqueProperty ?l (prop_hash ex_Hash q)" if "q \<in> mn_props (new_masternode ex_env ex_i ex_reg_tx ex_reg ?l)" for q
  proof -
    have "q \<in> register_props ex_reg" using that by (auto simp: mn_props_def state_props_def new_masternode_def register_props_def)
    then show ?thesis using ex_reg_free HasUniqueProperty_start [of ex_env ex_list] by (auto simp: ex_heights ex_list_ok)
  qed
  ultimately have "register_free ex_env ex_i ex_reg_tx ?l"
    by (simp add: register_free_def ex_reg_type ex_reg_payload ex_heights)
  then show ?thesis
    by (simp add: ex_reg_spend_def register_free_def apply_special_def split: sum.split) (simp add: IsTxTypeSpecial_def)
qed

lemma ex_reg_spend_collision:
  assumes "out \<in> {OutPoint (UINT256 5) 0, OutPoint (UINT256 6) 0}"
  shows "collision_free ex_Hash (list_props ex_list \<union> block_props (ex_reg_spend out))"
proof (rule collision_free_subset [OF ex_collision_free])
  have "spent_outpoints (ex_reg_spend out) = [out]"
    using assms by (intro ex_reg_spend_outpoints) (auto simp: COutPoint_IsNull_def)
  then have "block_props (ex_reg_spend out) = insert (P_coll out) (register_props ex_reg)"
    by (simp add: block_props_def) (simp add: ex_reg_spend_def tx_props_normal, simp add: tx_props_def ex_reg_type ex_reg_payload register_props_def)
  then show "list_props ex_list \<union> block_props (ex_reg_spend out) \<subseteq> ex_props"
    using assms by (auto simp: ex_list_props ex_mn_props ex_props_def register_props_def ex_reg_def)
qed

text \<open>The block is accepted; it leaves the masternodes whose collateral it does not spend.\<close>

lemma ex_reg_spend_result:
  assumes "out \<in> {OutPoint (UINT256 5) 0, OutPoint (UINT256 6) 0}"
  obtains l' mo' d' where "process_list ex_env (ex_reg_spend out) ex_i ex_list (mo, d) = Some (Inr (l', mo', d'))"
    "\<And>mn. GetMN l' (UINT256 55) = Some mn \<Longrightarrow> collateralOutpoint mn = OutPoint (UINT256 6) 0"
    "out = OutPoint (UINT256 5) 0 \<Longrightarrow> GetMN l' (UINT256 55) \<noteq> None"
    "out = OutPoint (UINT256 6) 0 \<Longrightarrow> GetMN l' (UINT256 7) \<noteq> None"
proof -
  let ?b = "ex_reg_spend out" and ?P = "list_props ex_list \<union> block_props (ex_reg_spend out)"
  let ?s = "list_start ex_env ?b ex_i ex_list"
  let ?l = "AddMN ex_Hash ?s (ex_reg_mn ?b)"
  note specials = ex_reg_spend_specials [of out ?s]
  note cf = ex_reg_spend_collision [OF assms]
  have cf': "collision_free ex_Hash (?P \<union> P_coll ` set (spent_outpoints ?b))"
    by (rule collision_free_subset [OF cf]) (auto simp: block_props_def)
  have out: "spent_outpoints ?b = [out]"
    using assms by (intro ex_reg_spend_outpoints) (auto simp: COutPoint_IsNull_def)
  obtain l' mo' d' where p: "process_list ex_env ?b ex_i ex_list (mo, d) = Some (Inr (l', mo', d'))"
    using process_list_accepts [OF specials, of mo d] by (auto simp: ex_heights ex_list_heights)
  have inv: "list_inv ex_Hash ?P ?l"
    using list_inv_after_specials [OF _ _ ex_reg_spend_free specials, unfolded ex_heights, OF ex_list_ok cf] .
  have copy: "list_inv ex_Hash ?P (copy_list ex_Hash ex_i ex_list)"
    by (auto simp: list_inv_def copy_list_ok [OF ex_list_ok] list_props_iff)
  have start: "GetMN ?s (UINT256 7) = (if out = OutPoint (UINT256 5) 0 then None else Some ex_mn)"
    using GetMN_collateral_removed [OF copy cf', of "UINT256 7"]
    by (simp add: list_start_def ex_heights copy_list_ok(2) [OF ex_list_ok] ex_GetMN ex_mn_fields out)
  have removed: "GetMN (list_removed ex_env ?b ex_i ?l) h = (case GetMN ?l h of None \<Rightarrow> None
     | Some mn \<Rightarrow> if collateralOutpoint mn = out \<or> nTier (mn_state mn) \<noteq> 1 then None else Some mn)" for h
    using GetMN_list_removed [of ex_env, unfolded ex_heights, OF inv cf', of ex_i h] by (simp add: ex_tier out split: option.split)
  have both: "GetMN (list_removed ex_env ?b ex_i ?l) (UINT256 55) = (if out = OutPoint (UINT256 6) 0 then None else Some (ex_reg_mn ?b))"
    "GetMN (list_removed ex_env ?b ex_i ?l) (UINT256 7) = (if out = OutPoint (UINT256 5) 0 then None else Some ex_mn)"
    by (auto simp: removed GetMN_AddMN ex_reg_mn_fields ex_mn_fields start)
  from p show thesis
  proof (cases rule: process_list_cases)
    case (normal l)
    then have "l = ?l" using specials by simp
    then have g: "GetMN l' h = map_option (\<lambda>mn. revived ex_env ex_i (pose_state ex_env ex_i mo h (paid_state ex_env ex_i ex_list h mn)))
        (GetMN (list_removed ex_env ?b ex_i ?l) h)" for h using normal(3) by simp
    have "GetMN l' (UINT256 55) = (if out = OutPoint (UINT256 6) 0 then None else Some (revived ex_env ex_i (pose_state ex_env ex_i mo
        (UINT256 55) (paid_state ex_env ex_i ex_list (UINT256 55) (ex_reg_mn ?b)))))"
      and "GetMN l' (UINT256 7) \<noteq> None \<longleftrightarrow> out \<noteq> OutPoint (UINT256 5) 0"
      by (simp_all add: g both)
    then show thesis
      by (intro that [OF p]) (auto simp: ex_reg_mn_fields split: if_splits)
  qed (simp add: ex_heights)
qed

text \<open>The second masternode of \<open>ex_list2\<close> after a revocation with reason 1 at height 300, long enough ago that
  without a reason it would be revived.\<close>

definition ex_revoked :: CDeterministicMNState where
  "ex_revoked = revoke_update (BlockIndex (UINT256 30) 300 0 0 0 None None)
     \<lparr>rv_nVersion = 1, rv_proTxHash = UINT256 9, rv_nReason = 1, rv_inputsHash = UINT256 0, rv_vchSig = []\<rparr> (mn_state ex_mn2)"

definition ex_list_revoked :: CDeterministicMNList where
  "ex_list_revoked = UpdateMN ex_Hash ex_list2 (UINT256 9) ex_revoked"

lemma ex_revoked_keys: "same_keys ex_revoked (mn_state ex_mn2)"
  by (simp add: same_keys_def ex_revoked_def revoke_update_def)

lemma ex_revoked_facts: "nRevocationReason ex_revoked = 1" "IsBanned ex_revoked" "nTier ex_revoked = 1" "nPoSeBanHeight ex_revoked = 300"
  by (simp_all add: ex_revoked_def revoke_update_def IsBanned_def ex_mn_fields)

lemma ex_list_revoked_ok: "mnlist_ok ex_Hash ex_list_revoked" "l_blockHash ex_list_revoked = UINT256 100"
  "GetMN ex_list_revoked = [UINT256 7 \<mapsto> ex_mn, UINT256 9 \<mapsto> ex_mn2\<lparr>mn_state := ex_revoked\<rparr>]"
proof -
  have mn: "GetMN ex_list2 (UINT256 9) = Some ex_mn2" by (simp add: ex_GetMN2)
  show "mnlist_ok ex_Hash ex_list_revoked" "l_blockHash ex_list_revoked = UINT256 100"
    "GetMN ex_list_revoked = [UINT256 7 \<mapsto> ex_mn, UINT256 9 \<mapsto> ex_mn2\<lparr>mn_state := ex_revoked\<rparr>]"
    unfolding ex_list_revoked_def
    using mnlist_ok_UpdateMN_same [OF ex_list2_ok mn ex_revoked_keys] GetMN_UpdateMN_same [OF mn ex_revoked_keys, of ex_Hash]
      UpdateMN_same [OF mn ex_revoked_keys, of ex_Hash]
    by (simp_all add: ex_GetMN2 ex_heights fun_eq_iff)
qed

lemma ex_revoked_result:
  obtains l' mo' d' mn where "process_list ex_env ex_spend ex_i ex_list_revoked (mo, d) = Some (Inr (l', mo', d'))"
    "GetMN l' (UINT256 9) = Some mn"
proof -
  obtain l' mo' d' where p: "process_list ex_env ex_spend ex_i ex_list_revoked (mo, d) = Some (Inr (l', mo', d'))"
    using process_list_plain_ok [OF ex_spend_plain, of ex_i ex_list_revoked ex_env mo d] by (auto simp: ex_heights ex_list_revoked_ok)
  have "list_props ex_list_revoked = list_props ex_list2"
    by (simp add: list_props_iff set_eq_iff ex_list_revoked_ok ex_GetMN2 mn_props_same_keys [OF ex_revoked_keys])
  then have "collision_free ex_Hash (list_props ex_list_revoked \<union> block_props ex_spend)" using ex_spend_collision by simp
  note eff = process_list_plain [OF _ _ ex_spend_plain _ p, unfolded ex_heights, OF ex_list_revoked_ok(1) this]
  show thesis
    by (rule that [OF p]) (simp add: eff ex_list_revoked_ok ex_spend_outpoints ex_mn_fields ex_tier ex_revoked_facts)
qed

section \<open>One block\<close>

text \<open>C1: A block keeps the list consistent.  If the previous list is consistent, the hash does not
  collide on the properties of the list and of the block, and every registration of the block is of a new
  masternode whose properties are not in use when it is applied, then the list \<open>ProcessBlock\<close> computes is consistent,
  through removals, registrations, updates, revocations, payment, punishment and revival.  The last hypothesis is
  needed: the checks of a block see the registrations of its earlier transactions, but not what these change in masternodes
  that are already on the chain.\<close>

theorem block_keeps_list:
  assumes "mnlist_ok (env_Hash env) prev"
    and "collision_free (env_Hash env) (list_props prev \<union> block_props block)"
    and "registers_free env i (vtx block) (list_start env block i prev)"
    and "process_list env block i prev (mo, d) = Some (Inr (l', mo', d'))"
  shows "mnlist_ok (env_Hash env) l'"
  by (rule process_list_wf [OF assms])

theorem block_keeps_list_witness:
  "\<exists>l' mo' d'. process_list ex_env (ex_reg_spend (OutPoint (UINT256 5) 0)) ex_i ex_list (Some ex_pose, ex_edb) = Some (Inr (l', mo', d')) \<and>
     GetMN ex_list (UINT256 55) = None \<and> GetMN l' (UINT256 55) \<noteq> None \<and> mnlist_ok ex_Hash l'"
proof -
  obtain l' mo' d' where p: "process_list ex_env (ex_reg_spend (OutPoint (UINT256 5) 0)) ex_i ex_list (Some ex_pose, ex_edb) = Some (Inr (l', mo', d'))"
    and new: "GetMN l' (UINT256 55) \<noteq> None"
    by (rule ex_reg_spend_result [of "OutPoint (UINT256 5) 0" "Some ex_pose" ex_edb]) auto
  have "mnlist_ok (env_Hash ex_env) l'"
    by (rule block_keeps_list [OF _ _ ex_reg_spend_free p])
      (simp_all add: ex_heights ex_list_ok ex_reg_spend_collision)
  then show ?thesis using p new by (auto simp: ex_heights ex_GetMN)
qed

text \<open>C16: Spent collateral.  If the previous list is consistent, the hash does not collide on the properties of the
  list and of the block, and every registration of the block is of a new masternode whose properties are not in use when
  it is applied, then, outside the migration block, no masternode of the list after the block has a collateral that
  the block spends, whether it was registered before or in the same block.\<close>

theorem no_spent_collateral:
  assumes "mnlist_ok (env_Hash env) prev"
    and "collision_free (env_Hash env) (list_props prev \<union> block_props block)"
    and "registers_free env i (vtx block) (list_start env block i prev)"
    and "process_list env block i prev (mo, d) = Some (Inr (l', mo', d'))"
    and "bi_nHeight i \<noteq> nMNv2MigrationHeight (consensus env)" and "GetMN l' h = Some mn"
  shows "collateralOutpoint mn \<notin> set (spent_outpoints block)"
  by (rule process_list_no_spent [OF assms])

theorem no_spent_collateral_witness:
  "\<exists>l l' mo' d'. apply_specials ex_env ex_i (vtx (ex_reg_spend (OutPoint (UINT256 6) 0)))
       (list_start ex_env (ex_reg_spend (OutPoint (UINT256 6) 0)) ex_i ex_list) = Inr l \<and>
     map_option collateralOutpoint (GetMN l (UINT256 55)) = Some (OutPoint (UINT256 6) 0) \<and>
     process_list ex_env (ex_reg_spend (OutPoint (UINT256 6) 0)) ex_i ex_list (None, ex_edb) = Some (Inr (l', mo', d')) \<and>
     GetMN l' (UINT256 55) = None \<and> GetMN l' (UINT256 7) \<noteq> None"
proof -
  let ?b = "ex_reg_spend (OutPoint (UINT256 6) 0)"
  obtain l' mo' d' where p: "process_list ex_env ?b ex_i ex_list (None, ex_edb) = Some (Inr (l', mo', d'))"
    and coll: "\<And>mn. GetMN l' (UINT256 55) = Some mn \<Longrightarrow> collateralOutpoint mn = OutPoint (UINT256 6) 0"
    and stays: "GetMN l' (UINT256 7) \<noteq> None"
    by (rule ex_reg_spend_result [of "OutPoint (UINT256 6) 0" None ex_edb]) auto
  have "collateralOutpoint mn \<notin> set (spent_outpoints ?b)" if "GetMN l' (UINT256 55) = Some mn" for mn
    by (rule no_spent_collateral [OF _ _ ex_reg_spend_free p _ that])
      (simp_all add: ex_heights ex_list_ok ex_reg_spend_collision)
  then have "GetMN l' (UINT256 55) = None"
    using coll by (cases "GetMN l' (UINT256 55)") (auto simp: ex_reg_spend_outpoints COutPoint_IsNull_def)
  then show ?thesis
    using p stays by (simp add: ex_reg_spend_specials GetMN_AddMN ex_reg_mn_fields)
qed

text \<open>Tiers.  Outside the migration block, every masternode of the list after a block whose
  collateral is unspent in the coin database has the tier its collateral amount has at that height, and
  that tier is not 0.\<close>

lemma tiers_match:
  assumes "process_list env block i prev (mo, d) = Some (Inr (l', mo', d'))"
    and "bi_nHeight i \<noteq> nMNv2MigrationHeight (consensus env)"
    and "GetMN l' h = Some mn" and "\<not> Coin_IsSpent (AccessCoin env (collateralOutpoint mn))"
  shows "nTier (mn_state mn) = GetMasternodeTier (consensus env)
      (nValue (coin_out (AccessCoin env (collateralOutpoint mn)))) (bi_nHeight i) \<and> nTier (mn_state mn) \<noteq> 0"
  by (rule process_list_tiers [OF assms])

lemma tiers_match_instance:
  "\<exists>l' mo' d' mn. process_list ex_env ex_spend ex_i ex_list2 (None, ex_edb) = Some (Inr (l', mo', d')) \<and>
     GetMN l' (UINT256 9) = Some mn \<and> nTier (mn_state mn) = GetMasternodeTier ex_params 10000 1101"
proof -
  obtain l' mo' d' where p: "process_list ex_env ex_spend ex_i ex_list2 (None, ex_edb) = Some (Inr (l', mo', d'))"
    and g: "GetMN l' (UINT256 9) = Some (revived ex_env ex_i (pose_state ex_env ex_i None (UINT256 9)
       (paid_state ex_env ex_i ex_list2 (UINT256 9) ex_mn2)))" (is "_ = Some ?mn")
    by (rule ex_spend_result)
  have "nTier (mn_state ?mn) = GetMasternodeTier ex_params 10000 1101"
    using tiers_match [OF p _ g]
    by (simp add: ex_heights) (simp add: ex_env_def Coin_IsSpent_def CTxOut_IsNull_def)
  then show ?thesis using p g by blast
qed

text \<open>Payment is recorded.  The masternode \<open>GetMNPayee\<close> selects from the previous list for this
  height, when it is still in the list after the block, has this height as its last paid height.\<close>

lemma payee_recorded:
  assumes "process_list env block i prev (mo, d) = Some (Inr (l', mo', d'))"
    and "bi_nHeight i \<noteq> nMNv2MigrationHeight (consensus env)"
    and "bi_pprev i = Some pp" and "GetValidMNsCount prev > 0"
    and "GetMNPayee (env_Hash env) (consensus env) prev (bi_hash pp) (bi_nHeight i) = Some payee"
    and "GetMN l' (proTxHash payee) = Some mn"
  shows "nLastPaidHeight (mn_state mn) = bi_nHeight i"
  by (rule process_list_payee [OF assms])

lemma ex_mns1: "mns ex_list = [ex_mn]"
  by (simp add: ex_list_def AddMN_def mns_def CDeterministicMNList_new_def om_put.rep_eq om_empty.rep_eq)

lemma payee_recorded_instance:
  "\<exists>l' mo' d' mn. process_list ex_env ex_block ex_i ex_list (None, ex_edb) = Some (Inr (l', mo', d')) \<and>
     GetMN l' (UINT256 7) = Some mn \<and> nLastPaidHeight (mn_state mn) = 1101"
proof -
  have plain: "list_all (\<lambda>tx. \<not> IsTxTypeSpecial tx) (vtx ex_block)" "spent_outpoints ex_block = []"
    by (simp_all add: ex_block_def spent_outpoints_def)
  have cf: "collision_free ex_Hash (list_props ex_list \<union> block_props ex_block)"
    by (rule collision_free_subset [OF ex_collision_free])
      (simp add: block_props_def ex_block_def spent_outpoints_def ex_list_props ex_mn_props ex_props_def)
  have bh: "l_blockHash ex_list = UINT256 100" by (simp add: ex_list_def AddMN_def CDeterministicMNList_new_def)
  obtain l' mo' d' where p: "process_list ex_env ex_block ex_i ex_list (None, ex_edb) = Some (Inr (l', mo', d'))"
    using process_list_plain_ok [OF plain(1), of ex_i ex_list ex_env None ex_edb] by (auto simp: ex_heights bh)
  have g: "GetMN l' (UINT256 7) = Some (revived ex_env ex_i (pose_state ex_env ex_i None (UINT256 7)
       (paid_state ex_env ex_i ex_list (UINT256 7) ex_mn)))" (is "_ = Some ?mn")
    using process_list_plain [OF _ _ plain(1) _ p, unfolded ex_heights, OF ex_list_ok cf]
    by (simp add: ex_GetMN plain(2) ex_mn_fields ex_tier)
  have valid: "GetValidMNsForPayment ex_params ex_list 1101 = [ex_mn]" "GetValidMNsCount ex_list > 0"
    by (simp_all add: GetValidMNsForPayment_def GetValidMNsCount_def ex_mns1 eligible_def MN_IsValid_def IsBanned_def)
      (simp_all add: ex_mn_def ex_params_def CDeterministicMNState_default_def)
  have pay: "GetMNPayee ex_Hash ex_params ex_list (UINT256 100) 1101 = Some ex_mn"
    by (simp add: GetMNPayee_def valid payee_step_first)
  have "nLastPaidHeight (mn_state ?mn) = 1101"
    using payee_recorded [OF p _ ex_heights(3) valid(2), of ex_mn ?mn] pay g
    by (simp add: ex_heights ex_mn_fields) (simp add: ex_env_def)
  then show ?thesis using p g by blast
qed

section \<open>Bans and revocations\<close>




text \<open>C18: Revocation lasts.  A block changes neither the revocation reason of a masternode nor, when
  that reason is not 0, its ban, unless the block contains a revocation of that masternode: as long as the masternode
  stays in the list, no service or registrar update, payment, punishment or revival clears it.\<close>

theorem revocation_lasts:
  assumes "mnlist_ok (env_Hash env) prev"
    and "process_list env block i prev (mo, d) = Some (Inr (l', mo', d'))"
    and "\<And>tx. tx \<in> set (vtx block) \<Longrightarrow> tx_hash tx \<noteq> h \<and> \<not> revokes h tx"
    and "bi_nHeight i \<ge> 0" and "GetMN l' h = Some mn'"
  shows "\<exists>mn. GetMN prev h = Some mn \<and> nRevocationReason (mn_state mn') = nRevocationReason (mn_state mn) \<and>
     (nRevocationReason (mn_state mn) \<noteq> 0 \<and> IsBanned (mn_state mn) \<longrightarrow> IsBanned (mn_state mn'))"
  using process_list_ban_kept [OF assms] by (simp add: ban_kept_def)

theorem revocation_lasts_witness:
  "\<exists>l' mo' d' mn'. nPoSeRevivalHeight (consensus ex_env) \<le> bi_nHeight ex_i - nPoSeBanHeight ex_revoked \<and>
     process_list ex_env ex_spend ex_i ex_list_revoked (Some ex_pose, ex_edb) = Some (Inr (l', mo', d')) \<and>
     GetMN l' (UINT256 9) = Some mn' \<and> nRevocationReason (mn_state mn') = 1 \<and> IsBanned (mn_state mn')"
proof -
  obtain l' mo' d' mn' where p: "process_list ex_env ex_spend ex_i ex_list_revoked (Some ex_pose, ex_edb) = Some (Inr (l', mo', d'))"
    and g: "GetMN l' (UINT256 9) = Some mn'"
    by (rule ex_revoked_result)
  have "tx_hash tx \<noteq> UINT256 9 \<and> \<not> revokes (UINT256 9) tx" if "tx \<in> set (vtx ex_spend)" for tx
    using that by (simp add: ex_spend_def revokes_def GetTxType_def)
  from revocation_lasts [OF _ p this _ g] have "nRevocationReason (mn_state mn') = 1 \<and> IsBanned (mn_state mn')"
    by (simp add: ex_heights ex_list_revoked_ok ex_revoked_facts)
  moreover have "nPoSeRevivalHeight (consensus ex_env) = 720" by (simp add: ex_env_def ex_params_def)
  ultimately show ?thesis using p g by (simp add: ex_heights ex_revoked_facts)
qed

text \<open>C19: A revocation without reason does not last.  The check accepts the reason 0; a masternode
  revoked with it is revived, and valid again, by the revival pass of the first block that is
  \<open>nPoSeRevivalHeight\<close> blocks later.\<close>

theorem reasonless_revocation_revived:
  assumes "rv_nReason p = 0" and "bi_nHeight i \<ge> 0"
    and "bi_nHeight j - bi_nHeight i \<ge> nPoSeRevivalHeight (consensus env)"
    and "GetMN l h = Some mn" and "mn_state mn = revoke_update i p s"
  shows "\<exists>mn'. GetMN (fst (pose_revive env j (l, mo, d))) h = Some mn' \<and> MN_IsValid mn'"
  by (rule revoked_zero_revivable [OF assms])

definition ex_revocation :: CProUpRevTx where
  "ex_revocation = \<lparr>rv_nVersion = 1, rv_proTxHash = UINT256 7, rv_nReason = 0, rv_inputsHash = UINT256 0, rv_vchSig = []\<rparr>"

definition ex_later :: CBlockIndex where "ex_later = BlockIndex (UINT256 200) 1900 0 0 0 None None"

theorem reasonless_revocation_revived_witness:
  "\<exists>mn'. GetMN (fst (pose_revive ex_env ex_later (ex_list\<lparr>mnMap := om_put (UINT256 7)
      (ex_mn\<lparr>mn_state := revoke_update ex_i ex_revocation (mn_state ex_mn)\<rparr>) om_empty\<rparr>, None, ex_edb))) (UINT256 7) = Some mn' \<and>
    MN_IsValid mn'"
  by (rule reasonless_revocation_revived [where p = ex_revocation and i = ex_i and s = "mn_state ex_mn" and
        mn = "ex_mn\<lparr>mn_state := revoke_update ex_i ex_revocation (mn_state ex_mn)\<rparr>"])
    (simp_all add: ex_revocation_def ex_heights ex_later_def ex_env_def ex_params_def GetMN_def)

section \<open>Where lists are kept\<close>

text \<open>The cache stays bounded.  As long as the heights of the cached lists are block heights,
  \<open>CleanupCache\<close> leaves at most \<open>MAX_CACHE_SIZE\<close> entries, keeps only entries that were there, and
  evicts no entry that is higher than one it keeps.\<close>

lemma cache_bounded:
  assumes "\<forall>k l. om_find m k = Some l \<longrightarrow> l_nHeight l < INT_MAX"
  shows "om_size (CleanupCache m) \<le> MAX_CACHE_SIZE \<and>
    (\<forall>k l. om_find (CleanupCache m) k = Some l \<longrightarrow> om_find m k = Some l) \<and>
    (\<forall>k l k' l'. om_find m k = Some l \<and> om_find (CleanupCache m) k = None \<and>
       om_find (CleanupCache m) k' = Some l' \<longrightarrow> l_nHeight l \<le> l_nHeight l')"
proof (intro conjI)
  show "om_size (CleanupCache m) \<le> MAX_CACHE_SIZE" by (rule CleanupCache_size) (use assms in blast)
qed (use CleanupCache_sub [of m] CleanupCache_evicts_lowest [of m] in blast)+

definition ex_cache :: "int \<Rightarrow> int list \<Rightarrow> (uint256, CDeterministicMNList) omap" where
  "ex_cache b ns = fold (\<lambda>n. om_put (UINT256 (word_of_int n)) (CDeterministicMNList_new (UINT256 (word_of_int n)) (b + n))) ns om_empty"

lemma find_ex_cache:
  assumes "om_find (ex_cache b ns) k = Some l"
  shows "\<exists>n \<in> set ns. k = UINT256 (word_of_int n) \<and> l = CDeterministicMNList_new (UINT256 (word_of_int n)) (b + n)"
proof -
  have "om_find (fold (\<lambda>n. om_put (UINT256 (word_of_int n)) (CDeterministicMNList_new (UINT256 (word_of_int n)) (b + n))) ns m) k =
        Some l \<Longrightarrow> om_find m k = Some l \<or> (\<exists>n \<in> set ns. k = UINT256 (word_of_int n) \<and>
          l = CDeterministicMNList_new (UINT256 (word_of_int n)) (b + n))" for m
    by (induction ns arbitrary: m) (fastforce split: if_splits)+
  from this [of om_empty] assms show ?thesis by (simp add: ex_cache_def)
qed

text \<open>The database of the example holds the list of the parent block.\<close>

definition ex_st :: evo_state where
  "ex_st = \<lparr>st_evoDb = CEvoDB_open (om_put (DB_LIST_SNAPSHOT (UINT256 100)) (V_LIST ex_list2) om_empty),
     st_pose = None, mnListsCache = om_empty, tipList = None\<rparr>"

lemma ex_st_list: "db_list (st_evoDb ex_st) = [UINT256 100 \<mapsto> ex_list2]"
  by (auto simp: db_list_def ex_st_def CEvoDB_open_def evo_Read_def fun_eq_iff)

lemma ex_st_ok: "store_ok ex_st"
proof -
  have "idle (st_evoDb ex_st)" "mnListsCache ex_st = om_empty" by (simp_all add: ex_st_def)
  then show ?thesis by (auto simp: store_ok_def ex_st_list ex_heights split: if_splits)
qed

lemma ex_active: "nMasternodeActivationHeight (consensus ex_env) = 10"
  by (simp add: ex_env_def ex_params_def)

lemma ex_processed: "\<exists>st'. ProcessBlock ex_env ex_st ex_spend ex_i False = Some (None, st')"
proof -
  have "db_list (st_evoDb ex_st) (bi_hash ex_pp) = Some ex_list2"
    "nMasternodeActivationHeight (consensus ex_env) \<le> bi_nHeight ex_pp"
    by (simp_all add: ex_st_list ex_heights ex_active)
  from GetListForBlock_stored [OF ex_st_ok this] obtain st1 where
    g: "GetListForBlock ex_env ex_st (Some ex_pp) = Some (ex_list2, st1)" and ok: "store_ok st1" by blast
  obtain l mo d where p: "process_list ex_env ex_spend ex_i ex_list2 (st_pose st1, st_evoDb st1) = Some (Inr (l, mo, d))"
    by (rule ex_spend_result)
  have "idle d" using list_frame_process_list [OF p] ok by (simp add: store_ok_def list_frame_def)
  then show ?thesis using g p by (simp add: ProcessBlock.simps ex_heights finish_block_def commit_block_eq)
qed

text \<open>C9: A committed list is found again.  After \<open>ProcessBlock\<close> accepts a block, the tip list is the
  list of that block, with its hash and height, and \<open>GetListForBlock\<close> returns that same list, whether
  the cache still holds it or it has to be loaded from the database.\<close>

theorem committed_found:
  assumes "store_ok st" and "ProcessBlock env st block i False = Some (None, st')"
    and "bi_nHeight i \<ge> nMasternodeActivationHeight (consensus env)"
  shows "\<exists>l st''. tipList st' = Some l \<and> GetListForBlock env st' (Some i) = Some (l, st'') \<and>
     l_blockHash l = bi_hash i \<and> l_nHeight l = bi_nHeight i"
  by (rule committed_list_found [OF assms])

theorem committed_found_witness:
  "\<exists>st' l st''. ProcessBlock ex_env ex_st ex_spend ex_i False = Some (None, st') \<and> tipList st' = Some l \<and>
     GetListForBlock ex_env st' (Some ex_i) = Some (l, st'') \<and> l_blockHash l = UINT256 101 \<and> l_nHeight l = 1101"
proof -
  obtain st' where p: "ProcessBlock ex_env ex_st ex_spend ex_i False = Some (None, st')" using ex_processed by blast
  from committed_found [OF ex_st_ok p] show ?thesis using p by (auto simp: ex_heights ex_active)
qed

text \<open>C10: Every list in the cache is the one in the database, stored under the hash of its block, with
  no transaction left open: \<open>ProcessBlock\<close> keeps this invariant, whether it accepts or rejects the block
  and whatever lists it has to load or rebuild on the way.\<close>

theorem store_consistent:
  assumes "store_ok st" and "ProcessBlock env st block i jc = Some (r, st')"
  shows "store_ok st'"
  by (rule store_ok_steps(2) [OF assms])

theorem store_consistent_witness:
  "\<exists>st'. ProcessBlock ex_env ex_st ex_spend ex_i False = Some (None, st') \<and> store_ok st'"
  using ex_processed store_consistent [OF ex_st_ok] by blast

text \<open>C11: Undoing a block.  Processing a block and then undoing it makes the list of the previous block
  the tip list again and leaves the stored lists as they were, less any list of the undone block.\<close>

theorem undo_block:
  assumes "store_ok st" and "ProcessBlock env st block i False = Some (None, st')"
    and "bi_pprev i = Some pp" and "bi_hash i \<noteq> bi_hash pp"
    and "bi_nHeight pp \<ge> nMasternodeActivationHeight (consensus env)"
    and "LoadListFromDb st (bi_hash pp) = Some prev"
  shows "\<exists>st''. Manager_UndoBlock env st' block i = Some st'' \<and> tipList st'' = Some prev \<and> store_ok st'' \<and>
    LoadListFromDb st'' = (LoadListFromDb st)(bi_hash i := None)"
  by (rule undo_block_tip [OF assms(1-5) assms(6) [unfolded LoadListFromDb_db_list]])

theorem undo_block_witness:
  "\<exists>st' st''. ProcessBlock ex_env ex_st ex_spend ex_i False = Some (None, st') \<and>
     Manager_UndoBlock ex_env st' ex_spend ex_i = Some st'' \<and> tipList st'' = Some ex_list2"
proof -
  obtain st' where p: "ProcessBlock ex_env ex_st ex_spend ex_i False = Some (None, st')" using ex_processed by blast
  from undo_block [OF ex_st_ok p ex_heights(3), of ex_list2] show ?thesis
    using p by (auto simp: ex_heights ex_active LoadListFromDb_db_list ex_st_list)
qed

text \<open>A rebuilt list can be evicted before it is returned.  When the list of the parent comes from
  the database and the cache is full of lists of higher blocks, the list rebuilt for the block is stored
  but evicted at once, and \<open>GetListForBlock\<close> returns the list of the parent instead.\<close>

lemma rebuilt_evicted:
  assumes "store_ok st" and "bi_pprev i = Some pp"
    and "nMasternodeActivationHeight (consensus env) \<le> bi_nHeight pp" "bi_nHeight pp < bi_nHeight i"
      "l_nHeight prev = bi_nHeight pp" "bi_nHeight i < INT_MAX"
    and "bi_hash i \<noteq> bi_hash pp" "om_find (mnListsCache st) (bi_hash i) = None" "LoadListFromDb st (bi_hash i) = None"
    and "om_find (mnListsCache st) (bi_hash pp) = None" "LoadListFromDb st (bi_hash pp) = Some prev"
    and "om_size (mnListsCache st) = MAX_CACHE_SIZE"
      "\<And>h l. om_find (mnListsCache st) h = Some l \<Longrightarrow> bi_nHeight i < l_nHeight l"
    and "ReadBlockFromDisk env i = Some block"
      "process_list env block i prev (st_pose st, st_evoDb st) = Some (Inr (l, mo, d))"
  shows "\<exists>st'. GetListForBlock env st (Some i) = Some (prev, st') \<and> LoadListFromDb st' (bi_hash i) = Some l \<and>
    l_blockHash prev \<noteq> bi_hash i"
  by (rule rebuilt_list_evicted [OF assms])

text \<open>A hundred lists of higher blocks, all in the cache and in the database.\<close>

definition ex_id :: "nat \<Rightarrow> uint256" where "ex_id n = UINT256 (of_nat n)"

definition ex_lists :: "(uint256 \<times> CDeterministicMNList) list" where
  "ex_lists = map (\<lambda>n. (ex_id n, CDeterministicMNList_new (ex_id n) (2000 + int n))) [1000..<1100]"

definition ex_full :: evo_state where
  "ex_full = \<lparr>st_evoDb = CEvoDB_open (fold (\<lambda>(k, v). om_put k v)
       ((DB_LIST_SNAPSHOT (UINT256 100), V_LIST ex_list2) # map (\<lambda>(h, l). (DB_LIST_SNAPSHOT h, V_LIST l)) ex_lists) om_empty),
     st_pose = None, mnListsCache = fold (\<lambda>(k, v). om_put k v) ex_lists om_empty, tipList = None\<rparr>"

lemma ex_id_inject: "m < 2000 \<Longrightarrow> n < 2000 \<Longrightarrow> ex_id m = ex_id n \<longleftrightarrow> m = n"
proof -
  have "unat (of_nat k :: 256 word) = k" if "k < 2000" for k
    using less_trans [OF that, of "2 ^ 256"] by (simp add: unsigned_of_nat take_bit_nat_eq_self)
  then show "m < 2000 \<Longrightarrow> n < 2000 \<Longrightarrow> ex_id m = ex_id n \<longleftrightarrow> m = n" by (metis ex_id_def uint256.inject)
qed

lemma ex_lists_distinct: "distinct (map fst ex_lists)"
proof -
  have "map fst ex_lists = map ex_id [1000..<1100]" by (simp add: ex_lists_def comp_def del: upt_rec_numeral)
  moreover have "inj_on ex_id (set [1000..<1100])" by (auto simp: inj_on_def ex_id_inject simp del: upt_rec_numeral)
  ultimately show ?thesis by (simp add: distinct_map del: upt_rec_numeral)
qed

lemma ex_lists_of:
  assumes "map_of ex_lists h = Some l"
  shows "\<exists>n \<ge> 1000. n < 1100 \<and> h = ex_id n \<and> l = CDeterministicMNList_new h (2000 + int n)"
  using map_of_SomeD [OF assms] by (auto simp: ex_lists_def simp del: upt_rec_numeral)

lemma ex_full_cache: "om_find (mnListsCache ex_full) = map_of ex_lists"
  by (simp add: ex_full_def find_fold_put [OF ex_lists_distinct])

lemma ex_100: "UINT256 100 = ex_id 100" "UINT256 101 = ex_id 101"
  by (simp_all add: ex_id_def)

lemma ex_not_listed: "map_of ex_lists (UINT256 100) = None" "map_of ex_lists (UINT256 101) = None"
proof -
  have "map_of ex_lists (ex_id n) = None" if "n < 1000" for n
  proof (rule ccontr)
    assume "map_of ex_lists (ex_id n) \<noteq> None"
    then obtain l where "map_of ex_lists (ex_id n) = Some l" by auto
    from ex_lists_of [OF this] that show False by (auto simp: ex_id_inject)
  qed
  then show "map_of ex_lists (UINT256 100) = None" "map_of ex_lists (UINT256 101) = None"
    by (simp_all add: ex_100)
qed

lemma ex_full_list: "db_list (st_evoDb ex_full) = (map_of ex_lists)(UINT256 100 \<mapsto> ex_list2)"
proof -
  let ?es = "(DB_LIST_SNAPSHOT (UINT256 100), V_LIST ex_list2) # map (\<lambda>(h, l). (DB_LIST_SNAPSHOT h, V_LIST l)) ex_lists"
  have m: "map_of (map (\<lambda>(h, l). (DB_LIST_SNAPSHOT h, V_LIST l)) es) (DB_LIST_SNAPSHOT h) = map_option V_LIST (map_of es h)" for es h
    by (induction es) auto
  have "map fst ?es = map DB_LIST_SNAPSHOT (UINT256 100 # map fst ex_lists)" by (simp add: split_beta)
  moreover have "distinct (map DB_LIST_SNAPSHOT (UINT256 100 # map fst ex_lists))"
    using ex_lists_distinct ex_not_listed(1) by (auto simp: distinct_map inj_on_def map_of_eq_None_iff)
  ultimately have "distinct (map fst ?es)" by (simp only:)
  from find_fold_put [OF this, of om_empty]
  have f: "evo_Read (st_evoDb ex_full) k = map_of ?es k" for k
    by (simp add: ex_full_def evo_Read_def CEvoDB_open_def)
  show ?thesis
    by (auto simp: db_list_def f m fun_eq_iff split: option.split)
qed

lemma ex_full_ok: "store_ok ex_full"
proof -
  have "l_blockHash l = h" if "map_of ex_lists h = Some l" for h l
    using ex_lists_of [OF that] by (auto simp: CDeterministicMNList_new_def)
  moreover have "idle (st_evoDb ex_full)" by (simp add: ex_full_def)
  ultimately show ?thesis
    using ex_not_listed(1) by (auto simp: store_ok_def ex_full_cache ex_full_list ex_heights)
qed

lemma rebuilt_evicted_instance:
  "\<exists>st'. GetListForBlock (ex_env\<lparr>ReadBlockFromDisk := \<lambda>i. Some ex_spend\<rparr>) ex_full (Some ex_i) = Some (ex_list2, st') \<and>
     l_blockHash ex_list2 \<noteq> bi_hash ex_i"
proof -
  let ?env = "ex_env\<lparr>ReadBlockFromDisk := \<lambda>i. Some ex_spend\<rparr>"
  have bh: "\<And>pp. bi_pprev ex_i = Some pp \<Longrightarrow> l_blockHash ex_list2 = bi_hash pp" by (simp add: ex_heights)
  obtain l mo d where p: "process_list ?env ex_spend ex_i ex_list2 (st_pose ex_full, st_evoDb ex_full) = Some (Inr (l, mo, d))"
    using process_list_plain_ok [OF ex_spend_plain bh, where env = ?env and mo = "st_pose ex_full" and d = "st_evoDb ex_full"]
    by blast
  have h: "l_nHeight ex_list2 = 1100"
    by (simp add: ex_list2_def ex_list_def AddMN_def CDeterministicMNList_new_def)
  have "length ex_lists = 100" by (simp add: ex_lists_def del: upt_rec_numeral)
  moreover have "card (dom (map_of ex_lists)) = length ex_lists"
    using distinct_card [OF ex_lists_distinct] by (simp add: dom_map_of_conv_image_fst)
  ultimately have size: "om_size (mnListsCache ex_full) = MAX_CACHE_SIZE"
    by (simp add: om_size_card ex_full_cache MAX_CACHE_SIZE_def)
  have high: "1101 < l_nHeight l" if "map_of ex_lists k = Some l" for k l
    using ex_lists_of [OF that] by (auto simp: CDeterministicMNList_new_def)
  show ?thesis
    using rebuilt_evicted [OF ex_full_ok ex_heights(3), where env = ?env and prev = ex_list2 and block = ex_spend, OF _ _ _ _ _ _ _ _ _ size _ _ p]
    by (auto simp: ex_heights ex_active h INT_MAX_def ex_full_cache ex_full_list ex_not_listed LoadListFromDb_db_list high)
qed

end
