(* ===== verification/Props_Transactions.thy ===== *)
theory Props_Transactions
  imports Examples
begin

text \<open>
  Properties of the checks of special transactions, src/src/evo/providertx.cpp.
\<close>

section \<open>Example transactions\<close>

definition ex_store :: evo_state where
  "ex_store = \<lparr>st_evoDb = CEvoDB_open (om_put (DB_LIST_SNAPSHOT (UINT256 100)) (V_LIST ex_list) om_empty),
     st_pose = None, mnListsCache = om_empty, tipList = None\<rparr>"

lemma ex_store_list: "db_list (st_evoDb ex_store) = [UINT256 100 \<mapsto> ex_list]"
  by (auto simp: db_list_def ex_store_def CEvoDB_open_def evo_Read_def fun_eq_iff)

lemma ex_index: "bi_nHeight ex_i = 1101" "bi_hash ex_i = UINT256 101" "bi_pprev ex_i = Some ex_pp"
  "bi_hash ex_pp = UINT256 100" "bi_nHeight ex_pp = 1100" "l_blockHash ex_list = UINT256 100"
  "Hash ex_crypto = ex_Hash" "consensus ex_env = ex_params" "env_crypto ex_env = ex_crypto"
  "nMasternodeActivationHeight ex_params = 10" "nTieredMNActivationHeight ex_params = 100"
  by (simp_all add: ex_i_def ex_pp_def ex_env_def ex_params_def ex_crypto_def ex_list_def AddMN_def
      CDeterministicMNList_new_def)

lemma ex_store_ok: "store_ok ex_store"
proof -
  have "idle (st_evoDb ex_store)" "mnListsCache ex_store = om_empty" by (simp_all add: ex_store_def)
  then show ?thesis by (auto simp: store_ok_def ex_store_list ex_index split: if_splits)
qed

lemma ex_store_get: "\<exists>st'. GetListForBlock ex_env ex_store (Some ex_pp) = Some (ex_list, st')"
  using GetListForBlock_stored [OF ex_store_ok, of ex_pp ex_list ex_env] by (simp add: ex_store_list ex_index) blast

lemma ex_addr_bytes: "ip_bytes (ex_addr p) = [0, 0, 0, 0, 0, 0, 0, 0, 0, 0, 0xff, 0xff, 8, 8, 8, 8]"
  by (simp add: ip_bytes_def ex_addr_def bytes_eval)

lemma ex_addr_ok: "CService_IsValid (ex_addr p)" "IsRoutable (ex_addr p)"
proof -
  note bs = ex_addr_bytes memcmp_eq_def GetByte_def
  have ip: "IsIPv4 (ex_addr p)" "\<not> IsInternal (ex_addr p)"
    by (simp_all add: IsIPv4_def IsInternal_def pchIPv4_def g_internal_prefix_def bs)
  have "replicate 16 (0 :: byte) = [0, 0, 0, 0, 0, 0, 0, 0, 0, 0, 0, 0, 0, 0, 0, 0]" by (simp add: numeral_eq_Suc)
  with ip show v: "CService_IsValid (ex_addr p)"
    by (simp add: CService_IsValid_def IsRFC3849_def pchIPv4_def bs)
  show "IsRoutable (ex_addr p)"
    by (simp add: IsRoutable_def v ip IsRFC1918_def IsRFC2544_def IsRFC3927_def IsRFC4862_def IsRFC6598_def
        IsRFC5737_def IsRFC4193_def IsRFC4843_def IsLocal_def bs)
qed

lemma ex_reg_pop: "CProRegTx_VerifyProofOfPossession ex_crypto ex_reg"
  by (simp add: CProRegTx_VerifyProofOfPossession_def ex_reg_def ex_crypto_def)

lemma ex_reg_sig: "CProRegTx_CheckSignature ex_crypto ex_reg 21"
  by (simp add: CProRegTx_CheckSignature_def ex_crypto_def)

lemma register_list_no_errors:
  assumes "\<And>q. q \<in> register_props p \<Longrightarrow> \<not> HasUniqueProperty l (prop_hash (env_Hash env) q)"
  shows "first_error (register_list_errors env p l s) = None"
  using assms
  by (simp add: first_error_None_iff register_list_errors_def register_props_def prop_hash_eqs GetMNByCollateral_def
      find_property_def HasUniqueProperty_def Let_def)

lemma ex_reg_errors:
  "first_error (register_payload_errors ex_env ex_reg_tx ex_reg (Some ex_pp)) = None"
  "first_error (register_collateral_errors ex_env (AccessCoin ex_env) ex_reg (Some ex_pp)) = None"
proof -
  have inp: "CalcTxInputsHash ex_crypto ex_reg_tx = UINT256 0"
    by (simp add: CalcTxInputsHash_def ex_reg_tx_def ex_crypto_def ex_Hash_other)
  have f: "pr_addr ex_reg = ex_addr 8771" "pr_inputsHash ex_reg = UINT256 0" "pr_keyIDOwner ex_reg = 21"
    by (simp_all add: ex_reg_def)
  have script: "IsPayToPublicKeyHash (pr_scriptPayout ex_reg)" "length (pr_scriptPayout ex_reg) = 25"
    by (simp_all add: ex_reg_def ex_p2pkh_def IsPayToPublicKeyHash_def OP_DUP_def OP_HASH160_def OP_EQUALVERIFY_def
        OP_CHECKSIG_def nth_append)
  show "first_error (register_payload_errors ex_env ex_reg_tx ex_reg (Some ex_pp)) = None"
    by (simp add: first_error_None_iff register_payload_errors_def bad_inputs_hash_def ex_index inp f ex_addr_ok script
        ex_reg_pop MAX_SCRIPT_ELEMENT_SIZE_def next_height_def IsMasternodeActivationHeight_def Let_def)
      (simp add: ex_reg_def ex_crypto_def ex_addr_def CProRegTx_MIN_VERSION_def CProRegTx_CURRENT_VERSION_def)
  show "first_error (register_collateral_errors ex_env (AccessCoin ex_env) ex_reg (Some ex_pp)) = None"
    by (simp add: first_error_None_iff register_collateral_errors_def ex_index f ex_reg_sig next_height_def Let_def)
      (simp add: ex_env_def ex_params_def Coin_IsSpent_def CTxOut_IsNull_def IsValidCollateralAmount_def GetMasternodeTier_def)
qed

lemma ex_reg_accepted:
  assumes "ex = Some (CDeterministicMNList_new h n) \<or> ex = None"
  shows "\<exists>st'. CheckProRegTx ex_env ex_store ex_reg_tx (Some ex_pp) ex None = Some (None, st')"
proof -
  obtain st' where g: "GetListForBlock ex_env ex_store (Some ex_pp) = Some (ex_list, st')" using ex_store_get by blast
  have "first_error (register_list_errors ex_env ex_reg ex_list []) = None"
    by (rule register_list_no_errors) (simp add: ex_index ex_reg_free)
  moreover have "first_error (register_list_errors ex_env ex_reg (CDeterministicMNList_new h n) s) = None" for h n s
    by (rule register_list_no_errors) (simp add: HasUniqueProperty_def CDeterministicMNList_new_def)
  ultimately show ?thesis
    using g ex_reg_payload ex_reg_errors assms
    by (auto simp: CheckProRegTx_def first_error_append ex_index) (simp_all add: ex_reg_tx_def)
qed

section \<open>Single transactions\<close>

text \<open>C20: What an accepted registration guarantees.  A registration accepted on top of a block whose list
  is stored and consistent carries a valid proof of possession of its operator key and the owner's
  signature, commits to the transaction's own inputs, names an unspent collateral of an amount that has a
  tier at that height and with enough confirmations, and none of its collateral, service address, owner,
  voting and operator key is in use in that list.\<close>

theorem registration_accepted:
  assumes "CheckProRegTx env st tx (Some i) pExtraList view = Some (None, st')" and "store_ok st"
    and "LoadListFromDb st (bi_hash i) = Some l" and "mnlist_ok (env_Hash env) l"
    and "bi_nHeight i \<ge> nMasternodeActivationHeight (consensus env)"
    and "GetTxPayload Unserialize_CProRegTx tx = Some p"
    and "coin = (case view of Some v \<Rightarrow> v | None \<Rightarrow> AccessCoin env) (pr_collateralOutpoint p)"
  shows "CProRegTx_VerifyProofOfPossession (env_crypto env) p \<and>
    CProRegTx_CheckSignature (env_crypto env) p (pr_keyIDOwner p) \<and>
    \<not> Coin_IsSpent coin \<and>
    GetMasternodeTier (consensus env) (nValue (coin_out coin)) (bi_nHeight i + 1) \<noteq> 0 \<and>
    bi_nHeight i + 1 - uint (coin_nHeight coin) \<ge> nMasternodeCollateralConfirmations (consensus env) \<and>
    CalcTxInputsHash (env_crypto env) tx = pr_inputsHash p \<and>
    (\<forall>q \<in> register_props p. \<not> HasUniqueProperty l (prop_hash (env_Hash env) q))"
  using register_accepted [OF assms(1,2) assms(3) [unfolded LoadListFromDb_db_list] assms(4,5,6)]
  by (simp add: assms(7))

theorem registration_accepted_witness:
  "\<exists>st'. CheckProRegTx ex_env ex_store ex_reg_tx (Some ex_pp) None None = Some (None, st') \<and>
     CProRegTx_VerifyProofOfPossession ex_crypto ex_reg \<and> \<not> HasUniqueProperty ex_list (prop_hash ex_Hash (P_owner 21))"
proof -
  obtain st' where c: "CheckProRegTx ex_env ex_store ex_reg_tx (Some ex_pp) None None = Some (None, st')"
    using ex_reg_accepted by blast
  have "P_owner 21 \<in> register_props ex_reg" by (simp add: register_props_def ex_reg_def)
  with registration_accepted [OF c ex_store_ok _ _ _ ex_reg_payload refl, of ex_list]
  show ?thesis using c by (auto simp: ex_index LoadListFromDb_db_list ex_store_list ex_list_ok)
qed

text \<open>What an accepted service update guarantees.  It names a masternode of the previous list,
  carries a signature of that masternode's operator, and its new address belongs to no other masternode of
  that list.\<close>

lemma service_update_accepted:
  assumes "CheckProUpServTx env st tx (Some i) pExtraList = Some (None, st')" and "store_ok st"
    and "LoadListFromDb st (bi_hash i) = Some l" and "mnlist_ok (env_Hash env) l"
    and "bi_nHeight i \<ge> nMasternodeActivationHeight (consensus env)"
    and "GetTxPayload Unserialize_CProUpServTx tx = Some p"
  shows "\<exists>mn. GetMN l (us_proTxHash p) = Some mn \<and>
    VerifyWithDomain (env_crypto env) (us_vchSig p) (vchOperatorPubKey (mn_state mn))
      (CProUpServTx_GetSignatureHash (env_crypto env) p) OPERATOR_KEY \<and>
    (\<forall>h x. GetMN l h = Some x \<and> addr (mn_state x) = us_addr p \<longrightarrow> h = us_proTxHash p)"
  using service_accepted [OF assms(1,2) assms(3) [unfolded LoadListFromDb_db_list] assms(4,5,6)]
    addr_index [OF assms(4)] by metis

definition ex_serv :: CProUpServTx where
  "ex_serv = \<lparr>us_nVersion = 1, us_proTxHash = UINT256 7, us_addr = ex_addr 8771, us_scriptOperatorPayout = [],
     us_inputsHash = UINT256 0, us_vchSig = replicate 96 0\<rparr>"

definition ex_serv_tx :: CTransaction where
  "ex_serv_tx = \<lparr>vin = [], vout = [], nVersion = 3, nType = 2, nLockTime = 0,
     vExtraPayload = Serialize_CProUpServTx False ex_serv, tx_hash = UINT256 56\<rparr>"

lemma ex_serv_payload: "GetTxPayload Unserialize_CProUpServTx ex_serv_tx = Some ex_serv"
  by (simp add: puserv.payload_iff ex_serv_tx_def CProUpServTx_ok_def ex_serv_def)

lemma ex_serv_accepted:
  "\<exists>st'. CheckProUpServTx ex_env ex_store ex_serv_tx (Some ex_pp) None = Some (None, st')"
proof -
  obtain st' where g: "GetListForBlock ex_env ex_store (Some ex_pp) = Some (ex_list, st')" using ex_store_get by blast
  have "CalcTxInputsHash ex_crypto ex_serv_tx = UINT256 0"
    by (simp add: CalcTxInputsHash_def ex_serv_tx_def ex_crypto_def ex_Hash_other)
  moreover have "\<not> service_addr_taken ex_env ex_serv ex_list"
    using ex_reg_free [of "P_addr (ex_addr 8771)"]
    by (simp add: service_addr_taken_def ex_index ex_serv_def prop_hash_eqs register_props_def ex_reg_def)
  moreover have f: "us_addr ex_serv = ex_addr 8771" "us_proTxHash ex_serv = UINT256 7" "us_inputsHash ex_serv = UINT256 0"
    "us_nVersion ex_serv = 1" "nType ex_serv_tx = 2" "port (ex_addr 8771) = 8771"
    "nLastServiceUpdateHeight (mn_state ex_mn) = 0"
    by (simp_all add: ex_serv_def ex_serv_tx_def ex_addr_def ex_mn_def CDeterministicMNState_default_def)
  ultimately show ?thesis
    using g by (simp add: CheckProUpServTx_def ex_serv_payload ex_addr_ok bad_inputs_hash_def ex_index ex_GetMN
        CProUpServTx_CURRENT_VERSION_def first_error_None_iff service_mn_errors_def operator_signature_errors_def Let_def)
      (simp add: ex_crypto_def)
qed

lemma service_update_accepted_instance:
  "\<exists>st' mn. CheckProUpServTx ex_env ex_store ex_serv_tx (Some ex_pp) None = Some (None, st') \<and>
     GetMN ex_list (UINT256 7) = Some mn \<and>
     VerifyWithDomain ex_crypto (us_vchSig ex_serv) (vchOperatorPubKey (mn_state mn))
       (CProUpServTx_GetSignatureHash ex_crypto ex_serv) OPERATOR_KEY"
proof -
  obtain st' where c: "CheckProUpServTx ex_env ex_store ex_serv_tx (Some ex_pp) None = Some (None, st')"
    using ex_serv_accepted by blast
  have "us_proTxHash ex_serv = UINT256 7" by (simp add: ex_serv_def)
  then show ?thesis
    using c service_update_accepted [OF c ex_store_ok _ _ _ ex_serv_payload, of ex_list]
    by (auto simp: ex_index LoadListFromDb_db_list ex_store_list ex_list_ok)
qed

text \<open>What an accepted registrar update guarantees.  It names a masternode of the previous list and
  carries its owner's signature.  A new operator key comes with a proof of possession, is a valid key, and
  no masternode of that list has it; a new voting key is not in use there either.\<close>

lemma registrar_update_accepted:
  assumes "CheckProUpRegTx env st tx (Some i) pExtraList = Some (None, st')" and "store_ok st"
    and "LoadListFromDb st (bi_hash i) = Some l"
    and "bi_nHeight i \<ge> nMasternodeActivationHeight (consensus env)"
    and "GetTxPayload Unserialize_CProUpRegTx tx = Some p"
  shows "\<exists>mn. GetMN l (ur_proTxHash p) = Some mn \<and>
    CProUpRegTx_CheckSignature (env_crypto env) p (keyIDOwner (mn_state mn)) \<and>
    (ur_vchOperatorPubKey p \<noteq> [] \<and> ur_vchOperatorPubKey p \<noteq> vchOperatorPubKey (mn_state mn) \<longrightarrow>
      CProUpRegTx_VerifyProofOfPossession (env_crypto env) p \<and> BLSPublicKey_IsValid (env_crypto env) (ur_vchOperatorPubKey p) \<and>
      \<not> HasUniqueProperty l (GetOperatorKeyHash (env_Hash env) (ur_vchOperatorPubKey p))) \<and>
    (ur_keyIDVoting p \<noteq> 0 \<and> ur_keyIDVoting p \<noteq> keyIDVoting (mn_state mn) \<longrightarrow>
      \<not> HasUniqueProperty l (GetVotingKeyHash (env_Hash env) (ur_keyIDVoting p)))"
  by (rule registrar_accepted [OF assms(1,2) assms(3) [unfolded LoadListFromDb_db_list] assms(4,5)])

text \<open>An environment in which signatures recover to the key of the owner of the registered masternode.\<close>

definition ex_env_owner :: evo_env where
  "ex_env_owner = ex_env\<lparr>env_crypto := ex_crypto\<lparr>RecoverKeyID := (\<lambda>h s. Some 11)\<rparr>\<rparr>"

definition ex_upreg :: CProUpRegTx where
  "ex_upreg = \<lparr>ur_nVersion = 2, ur_proTxHash = UINT256 7, ur_nMode = 0, ur_vchOperatorPubKey = replicate 48 3,
     ur_keyIDVoting = 22, ur_scriptPayout = [], ur_inputsHash = UINT256 0, ur_vchSig = replicate 65 0,
     ur_vchOperatorPoP = replicate 96 0\<rparr>"

definition ex_upreg_tx :: CTransaction where
  "ex_upreg_tx = \<lparr>vin = [], vout = [], nVersion = 3, nType = 3, nLockTime = 0,
     vExtraPayload = Serialize_CProUpRegTx False ex_upreg, tx_hash = UINT256 57\<rparr>"

lemma ex_upreg_payload: "GetTxPayload Unserialize_CProUpRegTx ex_upreg_tx = Some ex_upreg"
  by (simp add: pureg.payload_iff ex_upreg_tx_def CProUpRegTx_ok_def ex_upreg_def)

lemma ex_owner_env: "env_Hash ex_env_owner = ex_Hash" "consensus ex_env_owner = ex_params"
  "env_crypto ex_env_owner = ex_crypto\<lparr>RecoverKeyID := (\<lambda>h s. Some 11)\<rparr>"
  by (simp_all add: ex_env_owner_def ex_index)

lemma ex_upreg_checks:
  "CProUpRegTx_CheckSignature (env_crypto ex_env_owner) ex_upreg 11"
  "CProUpRegTx_VerifyProofOfPossession (env_crypto ex_env_owner) ex_upreg"
  by (simp_all add: CProUpRegTx_CheckSignature_def CProUpRegTx_VerifyProofOfPossession_def ex_owner_env ex_upreg_def ex_crypto_def)

lemma ex_upreg_accepted:
  "\<exists>st'. CheckProUpRegTx ex_env_owner ex_store ex_upreg_tx (Some ex_pp) None = Some (None, st')"
proof -
  obtain st' where g: "GetListForBlock ex_env_owner ex_store (Some ex_pp) = Some (ex_list, st')"
    using GetListForBlock_stored [OF ex_store_ok, of ex_pp ex_list ex_env_owner] by (auto simp: ex_store_list ex_index ex_owner_env)
  have "CalcTxInputsHash (env_crypto ex_env_owner) ex_upreg_tx = UINT256 0"
    by (simp add: CalcTxInputsHash_def ex_upreg_tx_def ex_owner_env ex_index ex_Hash_other)
  moreover have "\<not> HasUniqueProperty ex_list (GetOperatorKeyHash ex_Hash (replicate 48 3))"
    "\<not> HasUniqueProperty ex_list (GetVotingKeyHash ex_Hash 22)"
    using ex_reg_free [of "P_oper (replicate 48 3)"] ex_reg_free [of "P_vote 22"]
    by (simp_all add: prop_hash_eqs register_props_def ex_reg_def)
  moreover have f: "ur_vchOperatorPubKey ex_upreg = replicate 48 3" "ur_keyIDVoting ex_upreg = 22" "ur_nVersion ex_upreg = 2"
    "ur_scriptPayout ex_upreg = []" "ur_inputsHash ex_upreg = UINT256 0" "ur_proTxHash ex_upreg = UINT256 7" "nType ex_upreg_tx = 3"
    "keyIDOwner (mn_state ex_mn) = 11" "nLastRegistrarUpdateHeight (mn_state ex_mn) = 0"
    by (simp_all add: ex_upreg_def ex_upreg_tx_def ex_mn_def CDeterministicMNState_default_def)
  moreover have "BLSPublicKey_SetBytes (env_crypto ex_env_owner) k" "BLSPublicKey_IsValid (env_crypto ex_env_owner) k" for k
    by (simp_all add: ex_owner_env ex_crypto_def)
  ultimately show ?thesis
    using g by (simp add: CheckProUpRegTx_def ex_upreg_payload bad_inputs_hash_def ex_GetMN ex_upreg_checks
        CProUpRegTx_CURRENT_VERSION_def CProUpRegTx_MIN_VERSION_def first_error_None_iff registrar_mn_errors_def Let_def
        ex_owner_env(1,2) ex_index)
qed

lemma registrar_update_accepted_instance:
  "\<exists>st' mn. CheckProUpRegTx ex_env_owner ex_store ex_upreg_tx (Some ex_pp) None = Some (None, st') \<and>
     GetMN ex_list (UINT256 7) = Some mn \<and>
     CProUpRegTx_CheckSignature (env_crypto ex_env_owner) ex_upreg (keyIDOwner (mn_state mn))"
proof -
  obtain st' where c: "CheckProUpRegTx ex_env_owner ex_store ex_upreg_tx (Some ex_pp) None = Some (None, st')"
    using ex_upreg_accepted by blast
  have "ur_proTxHash ex_upreg = UINT256 7" by (simp add: ex_upreg_def)
  then show ?thesis
    using c registrar_update_accepted [OF c ex_store_ok _ _ ex_upreg_payload, of ex_list]
    by (auto simp: ex_index LoadListFromDb_db_list ex_store_list ex_owner_env)
qed

section \<open>Blocks\<close>

text \<open>C2: Blocks of registrations.  When \<open>ProcessSpecialTxsInBlock\<close> accepts and applies a block whose
  special transactions are all registrations, from the height at which conflicts inside a block are
  checked on, the new tip list is consistent: no two of its masternodes share a collateral, an address or
  a key, even when several registrations of the same block would have conflicted.\<close>

theorem registration_block:
  assumes "ProcessSpecialTxsInBlock env st block i False view = Some (None, st')"
    and "bi_pprev i = Some pp" and "store_ok st" and "LoadListFromDb st (bi_hash pp) = Some prev"
    and "bi_nHeight pp \<ge> nMasternodeActivationHeight (consensus env)"
    and "bi_nHeight pp + 1 \<ge> nTieredMNActivationHeight (consensus env)"
    and "\<And>tx. tx \<in> set (vtx block) \<Longrightarrow> IsTxTypeSpecial tx \<Longrightarrow> GetTxType tx = TRANSACTION_PROVIDER_REGISTER"
    and "mnlist_ok (env_Hash env) prev"
    and "\<And>tx. tx \<in> set (vtx block) \<Longrightarrow> GetMN prev (tx_hash tx) = None" and "distinct (map tx_hash (vtx block))"
    and "collision_free (env_Hash env) (list_props prev \<union> block_props block)"
  shows "\<exists>l. tipList st' = Some l \<and> mnlist_ok (env_Hash env) l"
  by (rule registration_block_ok [OF assms(1-3) assms(4) [unfolded LoadListFromDb_db_list] assms(5-)])

definition ex_reg_block :: CBlock where "ex_reg_block = \<lparr>blk_hash = UINT256 101, vtx = [ex_reg_tx]\<rparr>"

lemma ex_reg_block_accepted:
  "\<exists>st'. ProcessSpecialTxsInBlock ex_env ex_store ex_reg_block ex_i False None = Some (None, st')"
proof -
  obtain st1 where c: "CheckProRegTx ex_env ex_store ex_reg_tx (Some ex_pp)
      (Some (CDeterministicMNList_new (bi_hash ex_i) (bi_nHeight ex_i))) None = Some (None, st1)"
    using ex_reg_accepted by blast
  then obtain l0 where "GetListForBlock ex_env ex_store (Some ex_pp) = Some (l0, st1)" by (rule CheckProRegTx_acceptE)
  moreover have db: "db_list (st_evoDb ex_store) (bi_hash ex_pp) = Some ex_list"
    and act: "nMasternodeActivationHeight (consensus ex_env) \<le> bi_nHeight ex_pp"
    by (simp_all add: ex_store_list ex_index)
  ultimately have "store_ok st1" "db_list (st_evoDb st1) (bi_hash ex_pp) = Some ex_list"
    using GetListForBlock_stored [OF ex_store_ok db act] by auto
  from GetListForBlock_stored [OF this act] obtain st2 where
    g: "GetListForBlock ex_env st1 (Some ex_pp) = Some (ex_list, st2)" and ok: "store_ok st2" by blast
  have "\<exists>l. apply_specials ex_env ex_i (vtx ex_reg_block) (list_start ex_env ex_reg_block ex_i ex_list) = Inr l"
    by (simp add: ex_reg_block_def apply_special_def apply_register_def ex_reg_type ex_reg_payload)
  then obtain l mo d where p: "process_list ex_env ex_reg_block ex_i ex_list (st_pose st2, st_evoDb st2) = Some (Inr (l, mo, d))"
    using process_list_accepts [of ex_env ex_i ex_reg_block ex_list _ "st_pose st2" "st_evoDb st2"] by (auto simp: ex_index)
  have "idle d" using list_frame_process_list [OF p] ok by (simp add: store_ok_def list_frame_def)
  then have pb: "\<exists>st'. ProcessBlock ex_env st1 ex_reg_block ex_i False = Some (None, st')"
    using g p by (simp add: ProcessBlock.simps ex_index finish_block_def commit_block_eq)
  have "check_block_txs ex_env ex_store None ex_i (vtx ex_reg_block)
      (CDeterministicMNList_new (bi_hash ex_i) (bi_nHeight ex_i)) = Some (None, st1)"
    using c by (simp add: ex_reg_block_def CheckSpecialTx_def ex_reg_type ex_index)
  then show ?thesis
    using pb by (simp add: ProcessSpecialTxsInBlock_def) (simp add: ex_reg_block_def ex_reg_type MAX_SPECIAL_TXS_PER_BLOCK_def)
qed

theorem registration_block_witness:
  "\<exists>st' l. ProcessSpecialTxsInBlock ex_env ex_store ex_reg_block ex_i False None = Some (None, st') \<and>
     tipList st' = Some l \<and> mnlist_ok ex_Hash l"
proof -
  obtain st' where p: "ProcessSpecialTxsInBlock ex_env ex_store ex_reg_block ex_i False None = Some (None, st')"
    using ex_reg_block_accepted by blast
  have "block_props ex_reg_block = register_props ex_reg"
    by (simp add: block_props_def spent_outpoints_def ex_reg_block_def tx_props_def ex_reg_type ex_reg_payload register_props_def)
      (simp add: ex_reg_tx_def)
  then have "collision_free ex_Hash (list_props ex_list \<union> block_props ex_reg_block)"
    by (intro collision_free_subset [OF ex_collision_free])
      (simp add: ex_list_props ex_mn_props ex_props_def register_props_def ex_reg_def)
  then show ?thesis
    using registration_block [OF p ex_index(3) ex_store_ok, of ex_list] p
    by (auto simp: ex_index LoadListFromDb_db_list ex_store_list ex_list_ok ex_GetMN ex_reg_block_def ex_reg_type)
qed

end
