(* ===== verification/AssetTypes.thy ===== *)
theory AssetTypes
  imports Script
begin

text \<open>
  The asset payloads an output script can carry, src/src/assets/assettypes.h, the functions of
  src/src/assets/assets.cpp that append them to a script, and the functions of src/src/script/script.cpp
  that read the amount back, on which \<open>IsUnspendable\<close> rests.  A C++ string is its bytes.
\<close>

section \<open>Strings\<close>

text \<open>A string is read in one piece, unlike a byte vector.\<close>

definition Serialize_str :: "byte list \<Rightarrow> byte list" where
  "Serialize_str str = WriteCompactSize (of_nat (length str)) @ str"

definition Unserialize_str :: "byte list reader" where
  "Unserialize_str is = do { (nSize, is) \<leftarrow> ReadCompactSize is; stream_read (unat nSize) is }"

section \<open>Payloads\<close>

definition IPFS_SHA2_256 :: byte where "IPFS_SHA2_256 = 0x12"
definition TXID_NOTIFIER :: byte where "TXID_NOTIFIER = 0x54"
definition IPFS_SHA2_256_LEN :: byte where "IPFS_SHA2_256_LEN = 0x20"
definition OWNER_TAG :: byte where "OWNER_TAG = 33"
definition COIN :: CAmount where "COIN = 100000000"
definition OWNER_ASSET_AMOUNT :: CAmount where "OWNER_ASSET_AMOUNT = 1 * COIN"

text \<open>\<open>ReadWriteAssetHash\<close> in its two directions; the flag is the value it returns.\<close>

definition WriteAssetHash :: "byte list \<Rightarrow> byte list \<times> bool" where
  "WriteAssetHash h =
     (if length h = 34 then (ser_writedata8 IPFS_SHA2_256 @ Serialize_str (drop 2 h), True)
      else if length h = 32 then (ser_writedata8 TXID_NOTIFIER @ Serialize_str h, True)
      else ([], False))"

definition ReadAssetHash :: "(byte list \<times> bool) reader" where
  "ReadAssetHash is =
     (if length is \<ge> 33 then do {
        (sha, is) \<leftarrow> ser_readdata8 is;
        (hash, is) \<leftarrow> Unserialize_str is;
        Some (((if sha = IPFS_SHA2_256 then [IPFS_SHA2_256, IPFS_SHA2_256_LEN] else []) @ take 32 hash, True), is) }
      else Some (([], False), is))"

record CNewAsset =
  na_strName :: "byte list"
  na_nAmount :: CAmount
  na_units :: byte
  na_nReissuable :: byte
  na_nHasIPFS :: byte
  na_strIPFSHash :: "byte list"

definition Serialize_CNewAsset :: "CNewAsset \<Rightarrow> byte list" where
  "Serialize_CNewAsset a = Serialize_str (na_strName a) @ Serialize_int64 (na_nAmount a) @ ser_writedata8 (na_units a) @
     ser_writedata8 (na_nReissuable a) @ ser_writedata8 (na_nHasIPFS a) @
     (if na_nHasIPFS a = 1 then fst (WriteAssetHash (na_strIPFSHash a)) else [])"

definition Unserialize_CNewAsset :: "CNewAsset reader" where
  "Unserialize_CNewAsset is = do {
     (nm, is) \<leftarrow> Unserialize_str is;
     (am, is) \<leftarrow> Unserialize_int64 is;
     (un, is) \<leftarrow> ser_readdata8 is;
     (re, is) \<leftarrow> ser_readdata8 is;
     (hi, is) \<leftarrow> ser_readdata8 is;
     ((h, _), is) \<leftarrow> (if hi = 1 then ReadAssetHash is else Some (([], False), is));
     Some (\<lparr>na_strName = nm, na_nAmount = am, na_units = un, na_nReissuable = re, na_nHasIPFS = hi,
       na_strIPFSHash = h\<rparr>, is) }"

record CAssetTransfer =
  tr_strName :: "byte list"
  tr_nAmount :: CAmount
  tr_message :: "byte list"
  tr_nExpireTime :: int

definition Serialize_CAssetTransfer :: "CAssetTransfer \<Rightarrow> byte list" where
  "Serialize_CAssetTransfer a = Serialize_str (tr_strName a) @ Serialize_int64 (tr_nAmount a) @
     (let (bs, valid) = WriteAssetHash (tr_message a)
      in bs @ (if valid \<and> tr_nExpireTime a \<noteq> 0 then Serialize_int64 (tr_nExpireTime a) else []))"

definition Unserialize_CAssetTransfer :: "CAssetTransfer reader" where
  "Unserialize_CAssetTransfer is = do {
     (nm, is) \<leftarrow> Unserialize_str is;
     (am, is) \<leftarrow> Unserialize_int64 is;
     ((m, valid), is) \<leftarrow> ReadAssetHash is;
     (ex, is) \<leftarrow> (if valid \<and> length is \<ge> 8 then Unserialize_int64 is else Some (0, is));
     Some (\<lparr>tr_strName = nm, tr_nAmount = am, tr_message = m, tr_nExpireTime = ex\<rparr>, is) }"

record CReissueAsset =
  re_strName :: "byte list"
  re_nAmount :: CAmount
  re_nUnits :: byte
  re_nReissuable :: byte
  re_strIPFSHash :: "byte list"

definition Serialize_CReissueAsset :: "CReissueAsset \<Rightarrow> byte list" where
  "Serialize_CReissueAsset a = Serialize_str (re_strName a) @ Serialize_int64 (re_nAmount a) @
     ser_writedata8 (re_nUnits a) @ ser_writedata8 (re_nReissuable a) @ fst (WriteAssetHash (re_strIPFSHash a))"

definition Unserialize_CReissueAsset :: "CReissueAsset reader" where
  "Unserialize_CReissueAsset is = do {
     (nm, is) \<leftarrow> Unserialize_str is;
     (am, is) \<leftarrow> Unserialize_int64 is;
     (un, is) \<leftarrow> ser_readdata8 is;
     (re, is) \<leftarrow> ser_readdata8 is;
     ((h, _), is) \<leftarrow> ReadAssetHash is;
     Some (\<lparr>re_strName = nm, re_nAmount = am, re_nUnits = un, re_nReissuable = re, re_strIPFSHash = h\<rparr>, is) }"

section \<open>Asset scripts\<close>

definition OP_DROP :: byte where "OP_DROP = 0x75"

definition CNewAsset_ConstructTransaction :: "CNewAsset \<Rightarrow> CScript \<Rightarrow> CScript" where
  "CNewAsset_ConstructTransaction a script =
     script @ [OP_RVN_ASSET] @ push_data ([RVN_R, RVN_V, RVN_N, RVN_Q] @ Serialize_CNewAsset a) @ [OP_DROP]"

definition CNewAsset_ConstructOwnerTransaction :: "CNewAsset \<Rightarrow> CScript \<Rightarrow> CScript" where
  "CNewAsset_ConstructOwnerTransaction a script =
     script @ [OP_RVN_ASSET] @ push_data ([RVN_R, RVN_V, RVN_N, RVN_O] @ Serialize_str (na_strName a @ [OWNER_TAG])) @
       [OP_DROP]"

definition CAssetTransfer_ConstructTransaction :: "CAssetTransfer \<Rightarrow> CScript \<Rightarrow> CScript" where
  "CAssetTransfer_ConstructTransaction a script =
     script @ [OP_RVN_ASSET] @ push_data ([RVN_R, RVN_V, RVN_N, RVN_T] @ Serialize_CAssetTransfer a) @ [OP_DROP]"

definition CReissueAsset_ConstructTransaction :: "CReissueAsset \<Rightarrow> CScript \<Rightarrow> CScript" where
  "CReissueAsset_ConstructTransaction a script =
     script @ [OP_RVN_ASSET] @ push_data ([RVN_R, RVN_V, RVN_N, RVN_R] @ Serialize_CReissueAsset a) @ [OP_DROP]"

definition ScriptNewAsset :: "CScript \<Rightarrow> nat option" where
  "ScriptNewAsset sc = (case IsAssetScript sc of
     Some (t, own, start) \<Rightarrow> if t = TX_NEW_ASSET \<and> \<not> own then Some start else None | None \<Rightarrow> None)"

definition ScriptTransferAsset :: "CScript \<Rightarrow> nat option" where
  "ScriptTransferAsset sc = (case IsAssetScript sc of
     Some (t, own, start) \<Rightarrow> if t = TX_TRANSFER_ASSET then Some start else None | None \<Rightarrow> None)"

definition ScriptReissueAsset :: "CScript \<Rightarrow> nat option" where
  "ScriptReissueAsset sc = (case IsAssetScript sc of
     Some (t, own, start) \<Rightarrow> if t = TX_REISSUE_ASSET then Some start else None | None \<Rightarrow> None)"

text \<open>The amount, or \<open>None\<close> where the function returns false; a stream that ends early is caught there.\<close>

definition AmountFromNewAssetScript :: "CScript \<Rightarrow> CAmount option" where
  "AmountFromNewAssetScript sc = do {
     start \<leftarrow> ScriptNewAsset sc; (a, _) \<leftarrow> Unserialize_CNewAsset (drop start sc); Some (na_nAmount a) }"

definition AmountFromTransferScript :: "CScript \<Rightarrow> CAmount option" where
  "AmountFromTransferScript sc = do {
     start \<leftarrow> ScriptTransferAsset sc; (a, _) \<leftarrow> Unserialize_CAssetTransfer (drop start sc); Some (tr_nAmount a) }"

definition AmountFromReissueScript :: "CScript \<Rightarrow> CAmount option" where
  "AmountFromReissueScript sc = do {
     start \<leftarrow> ScriptReissueAsset sc; (a, _) \<leftarrow> Unserialize_CReissueAsset (drop start sc); Some (re_nAmount a) }"

definition GetAssetAmountFromScript :: "CScript \<Rightarrow> CAmount option" where
  "GetAssetAmountFromScript sc =
     (case IsAssetScript sc of
       None \<Rightarrow> None
     | Some (t, own, _) \<Rightarrow>
         if t = TX_NEW_ASSET \<and> \<not> own then AmountFromNewAssetScript sc
         else if t = TX_TRANSFER_ASSET then AmountFromTransferScript sc
         else if t = TX_NEW_ASSET \<and> own then Some OWNER_ASSET_AMOUNT
         else if t = TX_REISSUE_ASSET then AmountFromReissueScript sc
         else None)"

definition IsUnspendable :: "CScript \<Rightarrow> bool" where
  "IsUnspendable sc \<longleftrightarrow> (length sc > 0 \<and> hd sc = OP_RETURN) \<or> (length sc > 0 \<and> hd sc = OP_RVN_ASSET) \<or>
     length sc > MAX_SCRIPT_SIZE \<or> GetAssetAmountFromScript sc = Some 0"

section \<open>Payloads are read back\<close>

lemma Unserialize_str_eq: "Unserialize_str = Unserialize_bytes"
  by (simp add: fun_eq_iff Unserialize_str_def Unserialize_bytes_def read_blocks_eq)

lemma Serialize_str_eq: "Serialize_str = Serialize_bytes"
  by (simp add: fun_eq_iff Serialize_str_def Serialize_bytes_def)

lemma str_read [codec_read]: "length s \<le> 0x02000000 \<Longrightarrow> Unserialize_str (Serialize_str s @ rest) = Some (s, rest)"
  unfolding Unserialize_str_eq Serialize_str_eq by (rule bytes.unser_ser) simp

lemma length_Serialize_str: "length s < 253 \<Longrightarrow> length (Serialize_str s) = Suc (length s)"
  by (simp add: Serialize_str_def WriteCompactSize_length GetSizeOfCompactSize_def word_less_nat_alt unat_of_nat_small)

text \<open>The hashes that are written and read back: with the prefix of an IPFS hash, or without one.\<close>

definition asset_hash_ok :: "byte list \<Rightarrow> bool" where
  "asset_hash_ok h \<longleftrightarrow> (length h = 34 \<and> take 2 h = [IPFS_SHA2_256, IPFS_SHA2_256_LEN]) \<or> length h = 32 \<or> h = []"

lemma asset_hash_read:
  assumes "asset_hash_ok h" and "h = [] \<Longrightarrow> length rest < 33"
  shows "ReadAssetHash (fst (WriteAssetHash h) @ rest) = Some ((h, h \<noteq> []), rest)"
    and "snd (WriteAssetHash h) = (h \<noteq> [])"
proof -
  have w: "length (ser_writedata8 b) = 1" for b by (simp add: ser_writedata8_def)
  consider "length h = 34" "take 2 h = [IPFS_SHA2_256, IPFS_SHA2_256_LEN]" | "length h = 32" | "h = []"
    using assms(1) by (auto simp: asset_hash_ok_def)
  then show "ReadAssetHash (fst (WriteAssetHash h) @ rest) = Some ((h, h \<noteq> []), rest)"
  proof cases
    case 1
    have "h = take 2 h @ drop 2 h" by simp
    also have "\<dots> = [IPFS_SHA2_256, IPFS_SHA2_256_LEN] @ drop 2 h" using 1 by simp
    finally have "h = [IPFS_SHA2_256, IPFS_SHA2_256_LEN] @ take 32 (drop 2 h)" using 1(1) by simp
    moreover have "h \<noteq> []" using 1(1) by auto
    ultimately show ?thesis
      using 1(1) by (simp add: WriteAssetHash_def ReadAssetHash_def codec_read w length_Serialize_str)
  next
    case 2
    have "TXID_NOTIFIER \<noteq> IPFS_SHA2_256" by (simp add: TXID_NOTIFIER_def IPFS_SHA2_256_def)
    moreover have "h \<noteq> []" using 2 by auto
    ultimately show ?thesis
      using 2 by (simp add: WriteAssetHash_def ReadAssetHash_def codec_read w length_Serialize_str)
  next
    case 3
    then show ?thesis using assms(2) by (simp add: WriteAssetHash_def ReadAssetHash_def)
  qed
  show "snd (WriteAssetHash h) = (h \<noteq> [])"
    using assms(1) by (auto simp: asset_hash_ok_def WriteAssetHash_def)
qed

definition new_asset_ok :: "CNewAsset \<Rightarrow> bool" where
  "new_asset_ok a \<longleftrightarrow> length (na_strName a) \<le> 40 \<and> int64_ok (na_nAmount a) \<and> asset_hash_ok (na_strIPFSHash a) \<and>
     (na_nHasIPFS a = 1 \<or> na_strIPFSHash a = [])"

definition transfer_ok :: "CAssetTransfer \<Rightarrow> bool" where
  "transfer_ok a \<longleftrightarrow> length (tr_strName a) \<le> 40 \<and> int64_ok (tr_nAmount a) \<and> asset_hash_ok (tr_message a) \<and>
     int64_ok (tr_nExpireTime a) \<and> (tr_message a = [] \<longrightarrow> tr_nExpireTime a = 0)"

definition reissue_ok :: "CReissueAsset \<Rightarrow> bool" where
  "reissue_ok a \<longleftrightarrow> length (re_strName a) \<le> 40 \<and> int64_ok (re_nAmount a) \<and> asset_hash_ok (re_strIPFSHash a)"

lemma new_asset_read:
  assumes "new_asset_ok a" and "length rest < 33"
  shows "Unserialize_CNewAsset (Serialize_CNewAsset a @ rest) = Some (a, rest)"
  using assms asset_hash_read [of "na_strIPFSHash a" rest]
  by (auto simp: new_asset_ok_def Unserialize_CNewAsset_def Serialize_CNewAsset_def codec_read int64.unser_ser)

lemma transfer_read:
  assumes "transfer_ok a" and "length rest < 8"
  shows "Unserialize_CAssetTransfer (Serialize_CAssetTransfer a @ rest) = Some (a, rest)"
proof -
  have l8: "length (Serialize_int64 x) = 8" for x
    by (simp add: Serialize_int64_def ser_writedata64_def)
  let ?e = "if tr_message a \<noteq> [] \<and> tr_nExpireTime a \<noteq> 0 then Serialize_int64 (tr_nExpireTime a) else []"
  have h: "asset_hash_ok (tr_message a)" "tr_message a = [] \<Longrightarrow> length (?e @ rest) < 33"
    using assms by (auto simp: transfer_ok_def)
  note r = asset_hash_read [OF h]
  have e: "Serialize_CAssetTransfer a @ rest = Serialize_str (tr_strName a) @ Serialize_int64 (tr_nAmount a) @
      (fst (WriteAssetHash (tr_message a)) @ (?e @ rest))"
    using r(2) by (simp add: Serialize_CAssetTransfer_def split_def Let_def)
  show ?thesis
    unfolding e Unserialize_CAssetTransfer_def using assms r(1) l8
    by (auto simp: transfer_ok_def codec_read int64.unser_ser)
qed

lemma reissue_read:
  assumes "reissue_ok a" and "length rest < 33"
  shows "Unserialize_CReissueAsset (Serialize_CReissueAsset a @ rest) = Some (a, rest)"
  using assms asset_hash_read [of "re_strIPFSHash a" rest]
  by (auto simp: reissue_ok_def Unserialize_CReissueAsset_def Serialize_CReissueAsset_def codec_read int64.unser_ser)

section \<open>Asset scripts are recognised\<close>

text \<open>
  The marker \<open>rvn\<close> stands after a one-byte length or after \<open>OP_PUSHDATA1\<close> and a length byte.  A payload
  of 114 bytes would have the length byte \<open>r\<close> and be missed; the payloads here are shorter.
\<close>

definition asset_script :: "CScript \<Rightarrow> byte \<Rightarrow> byte list \<Rightarrow> CScript" where
  "asset_script p ty body = p @ [OP_RVN_ASSET] @ push_data ([RVN_R, RVN_V, RVN_N, ty] @ body) @ [OP_DROP]"

definition asset_start :: "byte list \<Rightarrow> nat" where
  "asset_start body = (if length body < 72 then 31 else 32)"

lemma asset_script_parts:
  assumes "length p = 25" and "length body < 110"
  shows "asset_script p ty body ! 25 = OP_RVN_ASSET"
    and "asset_index (asset_script p ty body) = int (asset_start body - 1)"
    and "asset_script p ty body ! (asset_start body - 1) = ty"
    and "drop (asset_start body) (asset_script p ty body) = body @ [OP_DROP]"
    and "length (asset_script p ty body) = asset_start body + length body + 1"
proof -
  have o: "unat OP_PUSHDATA1 = 76" by (simp add: opcode_defs)
  have n: "(of_nat (length body + 4) :: byte) \<noteq> RVN_R"
    using assms(2) by (simp add: RVN_R_def word_unat_eq_iff unat_of_nat_small del: of_nat_add)
  have s: "asset_script p ty body = p @ (if length body < 72 then [OP_RVN_ASSET, of_nat (length body + 4)]
      else [OP_RVN_ASSET, OP_PUSHDATA1, of_nat (length body + 4)]) @ [RVN_R, RVN_V, RVN_N, ty] @ body @ [OP_DROP]"
    using assms(2) by (simp add: asset_script_def push_data_def o add.commute)
  have i: "asset_script p ty body ! (25 + k) = ((if length body < 72 then [OP_RVN_ASSET, of_nat (length body + 4)]
      else [OP_RVN_ASSET, OP_PUSHDATA1, of_nat (length body + 4)]) @ [RVN_R, RVN_V, RVN_N, ty] @ body @ [OP_DROP]) ! k" for k
    unfolding s using assms(1) by (metis nth_append_length_plus)
  note ix = i [of 0] i [of 2] i [of 3] i [of 4] i [of 5] i [of 6]
  show "asset_script p ty body ! 25 = OP_RVN_ASSET" using i [of 0] by simp
  show "asset_index (asset_script p ty body) = int (asset_start body - 1)"
    using ix n by (auto simp: asset_index_def asset_start_def RVN_R_def RVN_V_def RVN_N_def)
  show "asset_script p ty body ! (asset_start body - 1) = ty"
    using ix by (auto simp: asset_start_def)
  show "drop (asset_start body) (asset_script p ty body) = body @ [OP_DROP]"
    unfolding s using assms(1) by (simp add: asset_start_def)
  show "length (asset_script p ty body) = asset_start body + length body + 1"
    unfolding s using assms(1) by (simp add: asset_start_def)
qed

lemma IsAssetScript_asset_script:
  assumes "length p = 25" and "length body < 110" and "8 \<le> length body"
  shows "IsAssetScript (asset_script p RVN_T body) = Some (TX_TRANSFER_ASSET, False, asset_start body)"
    and "IsAssetScript (asset_script p RVN_Q body) = Some (TX_NEW_ASSET, False, asset_start body)"
    and "IsAssetScript (asset_script p RVN_O body) = Some (TX_NEW_ASSET, True, asset_start body)"
    and "IsAssetScript (asset_script p RVN_R body) = Some (TX_REISSUE_ASSET, False, asset_start body)"
proof -
  have s: "31 \<le> asset_start body" by (simp add: asset_start_def)
  note p = asset_script_parts [OF assms(1,2)]
  have ix: "nat (asset_index (asset_script p ty body)) = asset_start body - 1" "0 < asset_index (asset_script p ty body)" for ty
    using p(2) [of ty] s by simp_all
  show "IsAssetScript (asset_script p RVN_T body) = Some (TX_TRANSFER_ASSET, False, asset_start body)"
    "IsAssetScript (asset_script p RVN_Q body) = Some (TX_NEW_ASSET, False, asset_start body)"
    "IsAssetScript (asset_script p RVN_O body) = Some (TX_NEW_ASSET, True, asset_start body)"
    "IsAssetScript (asset_script p RVN_R body) = Some (TX_REISSUE_ASSET, False, asset_start body)"
    using s assms(3) p(1,3,5) ix
    by (simp_all add: IsAssetScript_def RVN_R_def RVN_T_def RVN_O_def RVN_Q_def)
qed

lemma length_WriteAssetHash: "length (fst (WriteAssetHash h)) \<le> 34"
  using length_Serialize_str [of h] length_Serialize_str [of "drop 2 h"]
  by (simp add: WriteAssetHash_def ser_writedata8_def)

lemma payload_lengths:
  "new_asset_ok a \<Longrightarrow> 8 \<le> length (Serialize_CNewAsset a) \<and> length (Serialize_CNewAsset a) < 110"
  "transfer_ok t \<Longrightarrow> 8 \<le> length (Serialize_CAssetTransfer t) \<and> length (Serialize_CAssetTransfer t) < 110"
  "reissue_ok r \<Longrightarrow> 8 \<le> length (Serialize_CReissueAsset r) \<and> length (Serialize_CReissueAsset r) < 110"
proof -
  have l8: "length (Serialize_int64 x) = 8" "length (ser_writedata8 b) = 1" for x b
    by (simp_all add: Serialize_int64_def ser_writedata64_def ser_writedata8_def)
  show "new_asset_ok a \<Longrightarrow> 8 \<le> length (Serialize_CNewAsset a) \<and> length (Serialize_CNewAsset a) < 110"
    using length_WriteAssetHash [of "na_strIPFSHash a"] length_Serialize_str [of "na_strName a"]
    by (simp add: new_asset_ok_def Serialize_CNewAsset_def l8)
  show "transfer_ok t \<Longrightarrow> 8 \<le> length (Serialize_CAssetTransfer t) \<and> length (Serialize_CAssetTransfer t) < 110"
    using length_WriteAssetHash [of "tr_message t"] length_Serialize_str [of "tr_strName t"]
    by (simp add: transfer_ok_def Serialize_CAssetTransfer_def l8 split_def Let_def)
  show "reissue_ok r \<Longrightarrow> 8 \<le> length (Serialize_CReissueAsset r) \<and> length (Serialize_CReissueAsset r) < 110"
    using length_WriteAssetHash [of "re_strIPFSHash r"] length_Serialize_str [of "re_strName r"]
    by (simp add: reissue_ok_def Serialize_CReissueAsset_def l8)
qed

lemma constructed_scripts:
  "CNewAsset_ConstructTransaction a p = asset_script p RVN_Q (Serialize_CNewAsset a)"
  "CAssetTransfer_ConstructTransaction t p = asset_script p RVN_T (Serialize_CAssetTransfer t)"
  "CReissueAsset_ConstructTransaction r p = asset_script p RVN_R (Serialize_CReissueAsset r)"
  by (simp_all add: asset_script_def CNewAsset_ConstructTransaction_def CAssetTransfer_ConstructTransaction_def
      CReissueAsset_ConstructTransaction_def)

lemma constructed_amounts:
  assumes "length p = 25"
  shows "new_asset_ok a \<Longrightarrow> GetAssetAmountFromScript (CNewAsset_ConstructTransaction a p) = Some (na_nAmount a)"
    and "transfer_ok t \<Longrightarrow> GetAssetAmountFromScript (CAssetTransfer_ConstructTransaction t p) = Some (tr_nAmount t)"
    and "reissue_ok r \<Longrightarrow> GetAssetAmountFromScript (CReissueAsset_ConstructTransaction r p) = Some (re_nAmount r)"
proof -
  show "new_asset_ok a \<Longrightarrow> GetAssetAmountFromScript (CNewAsset_ConstructTransaction a p) = Some (na_nAmount a)"
    using payload_lengths(1) [of a] new_asset_read [of a "[OP_DROP]"]
    by (simp add: constructed_scripts GetAssetAmountFromScript_def AmountFromNewAssetScript_def ScriptNewAsset_def
        IsAssetScript_asset_script assms asset_script_parts)
  show "transfer_ok t \<Longrightarrow> GetAssetAmountFromScript (CAssetTransfer_ConstructTransaction t p) = Some (tr_nAmount t)"
    using payload_lengths(2) [of t] transfer_read [of t "[OP_DROP]"]
    by (simp add: constructed_scripts GetAssetAmountFromScript_def AmountFromTransferScript_def ScriptTransferAsset_def
        IsAssetScript_asset_script assms asset_script_parts)
  show "reissue_ok r \<Longrightarrow> GetAssetAmountFromScript (CReissueAsset_ConstructTransaction r p) = Some (re_nAmount r)"
    using payload_lengths(3) [of r] reissue_read [of r "[OP_DROP]"]
    by (simp add: constructed_scripts GetAssetAmountFromScript_def AmountFromReissueScript_def ScriptReissueAsset_def
        IsAssetScript_asset_script assms asset_script_parts)
qed

end
