(* ===== verification/CoinsCache.thy ===== *)
theory CoinsCache
  imports AssetTypes
begin

text \<open>
  The view of the unspent outputs, src/src/coins.cpp, src/src/coins.h and the database at its bottom,
  src/src/txdb.cpp.  Views are stacked: a cache has a base, which is another cache or the database.
  A lookup that misses fills the caches on its way, so it returns the changed view.  What a view stands
  for is the map \<open>cache_utxo\<close>; the operations are shown to act on that map, and \<open>Flush\<close> to keep it.
  The memory accounting (\<open>cachedCoinsUsage\<close>) and the bookkeeping of assets are left out.  The hash map
  of the cache is an ordered map here: no result depends on the order of its entries.
\<close>

section \<open>Data\<close>

record CCoinsCacheEntry =
  entry_coin :: Coin
  DIRTY :: bool
  FRESH :: bool

type_synonym CCoinsMap = "(COutPoint, CCoinsCacheEntry) omap"

record CCoinsViewDB =
  db_coins :: "(COutPoint, Coin) omap"
  db_best_block :: "uint256 option"
  db_head_blocks :: "uint256 list"

datatype CCoinsView = ViewDB CCoinsViewDB | ViewCache CCoinsViewCache
  and CCoinsViewCache = CCoinsViewCache (hashBlock: uint256) (cacheCoins: CCoinsMap) (cache_base: CCoinsView)

text \<open>A failed assertion and a thrown \<open>std::logic_error\<close>.\<close>

datatype coins_error = assertion_failed | logic_error string

definition coinEmpty :: Coin where
  "coinEmpty = Coin_Clear"

section \<open>Lookup\<close>

primrec FetchCoin :: "CCoinsViewCache \<Rightarrow> COutPoint \<Rightarrow> CCoinsCacheEntry option \<times> CCoinsViewCache"
  and View_GetCoin :: "CCoinsView \<Rightarrow> COutPoint \<Rightarrow> Coin option \<times> CCoinsView"
where
  "FetchCoin (CCoinsViewCache h c b) = (\<lambda>outpoint.
     case om_find c outpoint of
       Some e \<Rightarrow> (Some e, CCoinsViewCache h c b)
     | None \<Rightarrow>
        (case View_GetCoin b outpoint of
          (None, b) \<Rightarrow> (None, CCoinsViewCache h c b)
        | (Some tmp, b) \<Rightarrow>
           (let e = \<lparr>entry_coin = tmp, DIRTY = False, FRESH = Coin_IsSpent tmp\<rparr>
            in (Some e, CCoinsViewCache h (om_put outpoint e c) b))))"
| "View_GetCoin (ViewDB d) = (\<lambda>outpoint. (om_find (db_coins d) outpoint, ViewDB d))"
| "View_GetCoin (ViewCache k) = (\<lambda>outpoint.
     case FetchCoin k outpoint of
       (None, k) \<Rightarrow> (None, ViewCache k)
     | (Some e, k) \<Rightarrow> (if Coin_IsSpent (entry_coin e) then None else Some (entry_coin e), ViewCache k))"

definition GetCoin :: "CCoinsViewCache \<Rightarrow> COutPoint \<Rightarrow> Coin option \<times> CCoinsViewCache" where
  "GetCoin k outpoint =
     (case FetchCoin k outpoint of
       (None, k) \<Rightarrow> (None, k)
     | (Some e, k) \<Rightarrow> (if Coin_IsSpent (entry_coin e) then None else Some (entry_coin e), k))"

definition Cache_AccessCoin :: "CCoinsViewCache \<Rightarrow> COutPoint \<Rightarrow> Coin \<times> CCoinsViewCache" where
  "Cache_AccessCoin k outpoint =
     (case FetchCoin k outpoint of (None, k) \<Rightarrow> (coinEmpty, k) | (Some e, k) \<Rightarrow> (entry_coin e, k))"

definition HaveCoin :: "CCoinsViewCache \<Rightarrow> COutPoint \<Rightarrow> bool \<times> CCoinsViewCache" where
  "HaveCoin k outpoint =
     (case FetchCoin k outpoint of (None, k) \<Rightarrow> (False, k) | (Some e, k) \<Rightarrow> (\<not> Coin_IsSpent (entry_coin e), k))"

definition HaveCoinInCache :: "CCoinsViewCache \<Rightarrow> COutPoint \<Rightarrow> bool" where
  "HaveCoinInCache k outpoint =
     (case om_find (cacheCoins k) outpoint of None \<Rightarrow> False | Some e \<Rightarrow> \<not> Coin_IsSpent (entry_coin e))"

primrec GetBestBlock :: "CCoinsViewCache \<Rightarrow> uint256 \<times> CCoinsViewCache"
  and View_GetBestBlock :: "CCoinsView \<Rightarrow> uint256 \<times> CCoinsView"
where
  "GetBestBlock (CCoinsViewCache h c b) =
     (if h = uint256_null then (let (h, b) = View_GetBestBlock b in (h, CCoinsViewCache h c b))
      else (h, CCoinsViewCache h c b))"
| "View_GetBestBlock (ViewDB d) = (case db_best_block d of None \<Rightarrow> uint256_null | Some h \<Rightarrow> h, ViewDB d)"
| "View_GetBestBlock (ViewCache k) = (let (h, k) = GetBestBlock k in (h, ViewCache k))"

definition SetBestBlock :: "uint256 \<Rightarrow> CCoinsViewCache \<Rightarrow> CCoinsViewCache" where
  "SetBestBlock h k = CCoinsViewCache h (cacheCoins k) (cache_base k)"

definition GetCacheSize :: "CCoinsViewCache \<Rightarrow> nat" where
  "GetCacheSize k = om_size (cacheCoins k)"

section \<open>Modification\<close>

definition AddCoin ::
  "COutPoint \<Rightarrow> Coin \<Rightarrow> bool \<Rightarrow> CCoinsViewCache \<Rightarrow> coins_error + CCoinsViewCache" where
  "AddCoin outpoint coin possible_overwrite k =
     (if Coin_IsSpent coin then Inl assertion_failed
      else if IsUnspendable (scriptPubKey (coin_out coin)) then Inr k
      else (let e = (case om_find (cacheCoins k) outpoint of
                  Some e \<Rightarrow> e
                | None \<Rightarrow> \<lparr>entry_coin = coinEmpty, DIRTY = False, FRESH = False\<rparr>)
        in if \<not> possible_overwrite \<and> \<not> Coin_IsSpent (entry_coin e)
           then Inl (logic_error ''Adding new coin that replaces non-pruned entry'')
           else (let fresh = (\<not> possible_overwrite \<and> \<not> DIRTY e);
                     e = \<lparr>entry_coin = coin, DIRTY = True, FRESH = FRESH e \<or> fresh\<rparr>
             in Inr (CCoinsViewCache (hashBlock k) (om_put outpoint e (cacheCoins k)) (cache_base k)))))"

text \<open>The coin moved out, or \<open>None\<close> where \<open>SpendCoin\<close> returns false.\<close>

definition SpendCoin :: "COutPoint \<Rightarrow> CCoinsViewCache \<Rightarrow> Coin option \<times> CCoinsViewCache" where
  "SpendCoin outpoint k =
     (case FetchCoin k outpoint of
       (None, k) \<Rightarrow> (None, k)
     | (Some e, k) \<Rightarrow>
        (Some (entry_coin e),
         if FRESH e then CCoinsViewCache (hashBlock k) (om_erase outpoint (cacheCoins k)) (cache_base k)
         else CCoinsViewCache (hashBlock k)
           (om_put outpoint (e\<lparr>DIRTY := True, entry_coin := Coin_Clear\<rparr>) (cacheCoins k)) (cache_base k)))"

definition Uncache :: "COutPoint \<Rightarrow> CCoinsViewCache \<Rightarrow> CCoinsViewCache" where
  "Uncache outpoint k =
     (case om_find (cacheCoins k) outpoint of
       None \<Rightarrow> k
     | Some e \<Rightarrow> if \<not> DIRTY e \<and> \<not> FRESH e
         then CCoinsViewCache (hashBlock k) (om_erase outpoint (cacheCoins k)) (cache_base k) else k)"

subsection \<open>Writing a child's entries\<close>

definition write_entry :: "COutPoint \<Rightarrow> CCoinsCacheEntry \<Rightarrow> CCoinsMap \<Rightarrow> coins_error + CCoinsMap" where
  "write_entry outpoint e c =
     (if \<not> DIRTY e then Inr c
      else case om_find c outpoint of
        None \<Rightarrow>
          if FRESH e \<and> Coin_IsSpent (entry_coin e) then Inr c
          else Inr (om_put outpoint \<lparr>entry_coin = entry_coin e, DIRTY = True, FRESH = FRESH e\<rparr> c)
      | Some us \<Rightarrow>
          if FRESH e \<and> \<not> Coin_IsSpent (entry_coin us) then
            Inl (logic_error ''FRESH flag misapplied to cache entry for base transaction with spendable outputs'')
          else if FRESH us \<and> Coin_IsSpent (entry_coin e) then Inr (om_erase outpoint c)
          else Inr (om_put outpoint (us\<lparr>entry_coin := entry_coin e, DIRTY := True\<rparr>) c))"

fun write_entries :: "(COutPoint \<times> CCoinsCacheEntry) list \<Rightarrow> CCoinsMap \<Rightarrow> coins_error + CCoinsMap" where
  "write_entries [] c = Inr c"
| "write_entries ((outpoint, e) # es) c =
     (case write_entry outpoint e c of Inl err \<Rightarrow> Inl err | Inr c \<Rightarrow> write_entries es c)"

definition Cache_BatchWrite :: "CCoinsMap \<Rightarrow> uint256 \<Rightarrow> CCoinsViewCache \<Rightarrow> coins_error + CCoinsViewCache" where
  "Cache_BatchWrite m hashBlockIn k =
     (case write_entries (om_entries m) (cacheCoins k) of
       Inl err \<Rightarrow> Inl err
     | Inr c \<Rightarrow> Inr (CCoinsViewCache hashBlockIn c (cache_base k)))"

text \<open>The database writes its batches one after the other; the state is the one after the last.\<close>

definition write_db_entry :: "COutPoint \<times> CCoinsCacheEntry \<Rightarrow> (COutPoint, Coin) omap \<Rightarrow> (COutPoint, Coin) omap" where
  "write_db_entry = (\<lambda>(outpoint, e) m.
     if \<not> DIRTY e then m
     else if Coin_IsSpent (entry_coin e) then om_erase outpoint m
     else om_put outpoint (entry_coin e) m)"

definition DB_BatchWrite :: "CCoinsMap \<Rightarrow> uint256 \<Rightarrow> CCoinsViewDB \<Rightarrow> coins_error + CCoinsViewDB" where
  "DB_BatchWrite m hashBlockIn d =
     (if hashBlockIn = uint256_null then Inl assertion_failed
      else if (case db_best_block d of None \<Rightarrow> True | Some h \<Rightarrow> h = uint256_null) \<and>
          length (db_head_blocks d) = 2 \<and> db_head_blocks d ! 0 \<noteq> hashBlockIn
        then Inl assertion_failed
      else Inr \<lparr>db_coins = fold write_db_entry (om_entries m) (db_coins d),
             db_best_block = Some hashBlockIn, db_head_blocks = []\<rparr>)"

definition Flush :: "CCoinsViewCache \<Rightarrow> coins_error + CCoinsViewCache" where
  "Flush k =
     (case cache_base k of
       ViewDB d \<Rightarrow>
         (case DB_BatchWrite (cacheCoins k) (hashBlock k) d of
           Inl err \<Rightarrow> Inl err | Inr d \<Rightarrow> Inr (CCoinsViewCache (hashBlock k) om_empty (ViewDB d)))
     | ViewCache p \<Rightarrow>
         (case Cache_BatchWrite (cacheCoins k) (hashBlock k) p of
           Inl err \<Rightarrow> Inl err | Inr p \<Rightarrow> Inr (CCoinsViewCache (hashBlock k) om_empty (ViewCache p))))"

section \<open>What a view stands for\<close>

definition live :: "Coin \<Rightarrow> Coin option" where
  "live coin = (if Coin_IsSpent coin then None else Some coin)"

definition overlay :: "CCoinsMap \<Rightarrow> (COutPoint \<Rightarrow> Coin option) \<Rightarrow> COutPoint \<Rightarrow> Coin option" where
  "overlay c m outpoint = (case om_find c outpoint of Some e \<Rightarrow> live (entry_coin e) | None \<Rightarrow> m outpoint)"

primrec cache_utxo :: "CCoinsViewCache \<Rightarrow> COutPoint \<Rightarrow> Coin option"
  and view_utxo :: "CCoinsView \<Rightarrow> COutPoint \<Rightarrow> Coin option"
where
  "cache_utxo (CCoinsViewCache h c b) = overlay c (view_utxo b)"
| "view_utxo (ViewDB d) = om_find (db_coins d)"
| "view_utxo (ViewCache k) = cache_utxo k"

text \<open>
  The flags mean what \<open>coins.h\<close> says: below a fresh entry there is no coin, and an entry that is not
  dirty has the coin of the base.  The database has no spent coins.
\<close>

definition entry_ok :: "CCoinsView \<Rightarrow> COutPoint \<Rightarrow> CCoinsCacheEntry \<Rightarrow> bool" where
  "entry_ok b outpoint e \<longleftrightarrow>
     (FRESH e \<longrightarrow> view_utxo b outpoint = None) \<and> (\<not> DIRTY e \<longrightarrow> view_utxo b outpoint = live (entry_coin e))"

primrec cache_ok :: "CCoinsViewCache \<Rightarrow> bool" and view_ok :: "CCoinsView \<Rightarrow> bool" where
  "cache_ok (CCoinsViewCache h c b) \<longleftrightarrow> view_ok b \<and> (\<forall>outpoint e. om_find c outpoint = Some e \<longrightarrow> entry_ok b outpoint e)"
| "view_ok (ViewDB d) \<longleftrightarrow> (\<forall>outpoint coin. om_find (db_coins d) outpoint = Some coin \<longrightarrow> \<not> Coin_IsSpent coin)"
| "view_ok (ViewCache k) \<longleftrightarrow> cache_ok k"

lemma Coin_Clear_spent [simp]: "Coin_IsSpent Coin_Clear" "Coin_IsSpent coinEmpty"
  by (simp_all add: Coin_IsSpent_def Coin_Clear_def CTxOut_IsNull_def coinEmpty_def)

lemma live_simps [simp]: "live Coin_Clear = None" "live coin = Some c \<longleftrightarrow> c = coin \<and> \<not> Coin_IsSpent coin"
  "live coin = None \<longleftrightarrow> Coin_IsSpent coin" "Coin_IsSpent coin \<Longrightarrow> live coin = None"
  by (auto simp: live_def)

lemma overlay_put [simp]: "overlay (om_put outpoint e c) m = (overlay c m)(outpoint := live (entry_coin e))"
  by (auto simp: overlay_def om_find_put fun_eq_iff)

lemma overlay_erase [simp]: "overlay (om_erase outpoint c) m = (overlay c m)(outpoint := m outpoint)"
  by (auto simp: overlay_def om_find_erase fun_eq_iff)

lemma overlay_empty [simp]: "overlay om_empty m = m"
  by (simp add: overlay_def fun_eq_iff)

lemma overlay_at: "om_find c outpoint = Some e \<Longrightarrow> overlay c m outpoint = live (entry_coin e)"
  "om_find c outpoint = None \<Longrightarrow> overlay c m outpoint = m outpoint"
  by (simp_all add: overlay_def)

lemma utxo_unspent:
  "cache_ok k \<Longrightarrow> cache_utxo k outpoint = Some coin \<Longrightarrow> \<not> Coin_IsSpent coin"
  "view_ok v \<Longrightarrow> view_utxo v outpoint = Some coin \<Longrightarrow> \<not> Coin_IsSpent coin"
  by (induction k and v) (auto simp: overlay_def split: option.splits)

text \<open>A lookup finds what the view stands for, and filling the caches does not change that.\<close>

lemma Fetch_Get:
  "cache_ok k \<Longrightarrow> FetchCoin k outpoint = (r, k') \<Longrightarrow>
    cache_ok k' \<and> cache_utxo k' = cache_utxo k \<and> om_find (cacheCoins k') outpoint = r \<and>
    (case r of None \<Rightarrow> cache_utxo k outpoint = None | Some e \<Rightarrow> cache_utxo k outpoint = live (entry_coin e))"
  "view_ok v \<Longrightarrow> View_GetCoin v outpoint = (s, v') \<Longrightarrow>
    view_ok v' \<and> view_utxo v' = view_utxo v \<and> s = view_utxo v outpoint"
proof (induction k and v arbitrary: r k' and s v')
  case (CCoinsViewCache h c b)
  show ?case
  proof (cases "om_find c outpoint")
    case (Some e)
    then have "r = Some e" "k' = CCoinsViewCache h c b" using CCoinsViewCache.prems(2) by simp_all
    then show ?thesis using CCoinsViewCache.prems(1) Some by (simp add: overlay_at)
  next
    case None
    obtain s b' where g: "View_GetCoin b outpoint = (s, b')" by fastforce
    from CCoinsViewCache.prems(1) have ok: "view_ok b" by simp
    from CCoinsViewCache.IH [OF ok g] have b': "view_ok b'" "view_utxo b' = view_utxo b" "s = view_utxo b outpoint" by auto
    show ?thesis
    proof (cases s)
      case None
      then show ?thesis using CCoinsViewCache.prems b' g \<open>om_find c outpoint = None\<close>
        by (auto simp: entry_ok_def overlay_at)
    next
      case (Some coin)
      then have u: "\<not> Coin_IsSpent coin" "view_utxo b outpoint = Some coin"
        using utxo_unspent(2) [OF ok, of outpoint coin] b'(3) by simp_all
      let ?e = "\<lparr>entry_coin = coin, DIRTY = False, FRESH = False\<rparr>"
      have "r = Some ?e" "k' = CCoinsViewCache h (om_put outpoint ?e c) b'"
        using CCoinsViewCache.prems(2) g None Some u(1) by (simp_all add: Let_def)
      moreover have "overlay c (view_utxo b) outpoint = Some coin" using u(2) None by (simp add: overlay_at)
      ultimately show ?thesis
        using CCoinsViewCache.prems(1) b'(1,2) u
        by (auto simp: entry_ok_def om_find_put live_def fun_upd_idem split: if_splits)
    qed
  qed
next
  case (ViewDB d)
  then show ?case by auto
next
  case (ViewCache k)
  then show ?case
    by (cases "FetchCoin k outpoint") (auto simp: live_def split: option.splits if_splits)
qed

lemma FetchCoin_base: "view_ok (cache_base k) \<Longrightarrow> FetchCoin k outpoint = (r, k') \<Longrightarrow> view_utxo (cache_base k') = view_utxo (cache_base k)"
  by (cases k) (auto simp: Let_def split: option.splits prod.splits dest: Fetch_Get(2))

lemma GetCoin_utxo:
  assumes "cache_ok k" and "GetCoin k outpoint = (r, k')"
  shows "r = cache_utxo k outpoint \<and> cache_ok k' \<and> cache_utxo k' = cache_utxo k"
  using assms Fetch_Get(1) [OF assms(1), of outpoint]
  by (cases "FetchCoin k outpoint") (auto simp: GetCoin_def live_def split: option.splits if_splits)

lemma HaveCoin_utxo:
  assumes "cache_ok k" and "HaveCoin k outpoint = (r, k')"
  shows "r = (cache_utxo k outpoint \<noteq> None) \<and> cache_ok k' \<and> cache_utxo k' = cache_utxo k"
  using assms Fetch_Get(1) [OF assms(1), of outpoint]
  by (cases "FetchCoin k outpoint") (auto simp: HaveCoin_def live_def split: option.splits if_splits)

lemma AccessCoin_utxo:
  assumes "cache_ok k" and "Cache_AccessCoin k outpoint = (r, k')"
  shows "live r = cache_utxo k outpoint \<and> cache_ok k' \<and> cache_utxo k' = cache_utxo k"
  using assms Fetch_Get(1) [OF assms(1), of outpoint]
  by (cases "FetchCoin k outpoint") (auto simp: Cache_AccessCoin_def coinEmpty_def split: option.splits)

section \<open>Modifications act on the map\<close>

lemma cache_ok_fields: "cache_ok k \<longleftrightarrow> view_ok (cache_base k) \<and>
    (\<forall>outpoint e. om_find (cacheCoins k) outpoint = Some e \<longrightarrow> entry_ok (cache_base k) outpoint e)"
  by (cases k) simp

lemma cache_utxo_fields: "cache_utxo k = overlay (cacheCoins k) (view_utxo (cache_base k))"
  by (cases k) simp

lemma AddCoin_utxo:
  assumes ok: "cache_ok k" and "\<not> Coin_IsSpent coin" and new: "\<not> ow \<Longrightarrow> cache_utxo k outpoint = None"
  shows "\<exists>k'. AddCoin outpoint coin ow k = Inr k' \<and> cache_ok k' \<and> cache_utxo k' =
    (if IsUnspendable (scriptPubKey (coin_out coin)) then cache_utxo k else (cache_utxo k)(outpoint \<mapsto> coin))"
proof (cases "IsUnspendable (scriptPubKey (coin_out coin))")
  case True
  then show ?thesis using assms by (simp add: AddCoin_def)
next
  case False
  let ?e = "case om_find (cacheCoins k) outpoint of Some e \<Rightarrow> e
    | None \<Rightarrow> \<lparr>entry_coin = coinEmpty, DIRTY = False, FRESH = False\<rparr>"
  let ?n = "\<lparr>entry_coin = coin, DIRTY = True, FRESH = FRESH ?e \<or> (\<not> ow \<and> \<not> DIRTY ?e)\<rparr>"
  have "ow \<or> Coin_IsSpent (entry_coin ?e)"
    using new by (cases ow) (auto simp: cache_utxo_fields overlay_def split: option.splits)
  moreover have "entry_ok (cache_base k) outpoint ?n"
    using ok new by (auto simp: cache_ok_fields cache_utxo_fields entry_ok_def overlay_def split: option.splits)
  ultimately show ?thesis
    using assms(1,2) False
    by (auto simp: AddCoin_def Let_def cache_ok_fields cache_utxo_fields om_find_put live_def)
qed

lemma SpendCoin_utxo:
  assumes "cache_ok k" and "SpendCoin outpoint k = (r, k')"
  shows "cache_ok k' \<and> cache_utxo k' = (cache_utxo k)(outpoint := None) \<and>
    (\<forall>coin. cache_utxo k outpoint = Some coin \<longrightarrow> r = Some coin)"
proof -
  obtain f k1 where f: "FetchCoin k outpoint = (f, k1)" by fastforce
  note k1 = Fetch_Get(1) [OF assms(1) f]
  show ?thesis
  proof (cases f)
    case None
    then show ?thesis using assms f k1 by (auto simp: SpendCoin_def)
  next
    case (Some e)
    then have e: "om_find (cacheCoins k1) outpoint = Some e" "entry_ok (cache_base k1) outpoint e"
      using k1 by (simp_all add: cache_ok_fields)
    have u: "cache_utxo k = cache_utxo k1" using k1 by simp
    show ?thesis
    proof (cases "FRESH e")
      case True
      then have "k' = CCoinsViewCache (hashBlock k1) (om_erase outpoint (cacheCoins k1)) (cache_base k1)" "r = Some (entry_coin e)"
        using assms(2) f Some by (simp_all add: SpendCoin_def)
      then show ?thesis
        using k1 e True Some unfolding u
        by (auto simp: om_find_erase cache_utxo_fields cache_ok_fields entry_ok_def overlay_at)
    next
      case False
      then have "k' = CCoinsViewCache (hashBlock k1) (om_put outpoint (e\<lparr>DIRTY := True, entry_coin := Coin_Clear\<rparr>) (cacheCoins k1)) (cache_base k1)"
        "r = Some (entry_coin e)"
        using assms(2) f Some by (simp_all add: SpendCoin_def)
      then show ?thesis
        using k1 e False Some unfolding u
        by (auto simp: om_find_put cache_utxo_fields cache_ok_fields entry_ok_def overlay_at)
    qed
  qed
qed

lemma Uncache_utxo:
  assumes "cache_ok k"
  shows "cache_ok (Uncache outpoint k) \<and> cache_utxo (Uncache outpoint k) = cache_utxo k"
  using assms
  by (auto simp: Uncache_def om_find_erase cache_utxo_fields cache_ok_fields entry_ok_def overlay_at fun_upd_idem
      split: option.splits)

section \<open>Flush\<close>

lemma write_entry_utxo:
  assumes "\<And>x u. om_find c x = Some u \<Longrightarrow> entry_ok b x u"
    and fresh: "FRESH e \<Longrightarrow> overlay c (view_utxo b) outpoint = None"
    and clean: "\<not> DIRTY e \<Longrightarrow> overlay c (view_utxo b) outpoint = live (entry_coin e)"
  shows "\<exists>c'. write_entry outpoint e c = Inr c' \<and> (\<forall>x u. om_find c' x = Some u \<longrightarrow> entry_ok b x u) \<and>
    overlay c' (view_utxo b) = (overlay c (view_utxo b))(outpoint := live (entry_coin e))"
proof (cases "DIRTY e")
  case False
  then show ?thesis using clean assms(1) by (simp add: write_entry_def fun_upd_idem)
next
  case True
  show ?thesis
  proof (cases "om_find c outpoint")
    case None
    then show ?thesis
      using True assms(1) fresh
      by (auto simp: write_entry_def overlay_at om_find_put entry_ok_def fun_upd_idem)
  next
    case (Some us)
    then have "FRESH e \<Longrightarrow> Coin_IsSpent (entry_coin us)" "entry_ok b outpoint us"
      using fresh assms(1) by (simp_all add: overlay_at)
    then show ?thesis
      using True assms(1) Some
      by (auto simp: write_entry_def om_find_put om_find_erase entry_ok_def)
  qed
qed

lemma write_entries_utxo:
  assumes "\<And>x u. om_find c x = Some u \<Longrightarrow> entry_ok b x u" and "distinct (map fst es)"
    and "\<And>x e. (x, e) \<in> set es \<Longrightarrow> (FRESH e \<longrightarrow> overlay c (view_utxo b) x = None) \<and>
      (\<not> DIRTY e \<longrightarrow> overlay c (view_utxo b) x = live (entry_coin e))"
  shows "\<exists>c'. write_entries es c = Inr c' \<and> (\<forall>x u. om_find c' x = Some u \<longrightarrow> entry_ok b x u) \<and>
    overlay c' (view_utxo b) =
      (\<lambda>x. case map_of es x of Some e \<Rightarrow> live (entry_coin e) | None \<Rightarrow> overlay c (view_utxo b) x)"
  using assms
proof (induction es arbitrary: c)
  case Nil
  then show ?case by simp
next
  case (Cons xe es)
  obtain x e where xe: "xe = (x, e)" by fastforce
  have "FRESH e \<longrightarrow> overlay c (view_utxo b) x = None" "\<not> DIRTY e \<longrightarrow> overlay c (view_utxo b) x = live (entry_coin e)"
    using Cons.prems(3) [of x e] xe by simp_all
  then obtain c1 where c1: "write_entry x e c = Inr c1" "\<And>y u. om_find c1 y = Some u \<Longrightarrow> entry_ok b y u"
    "overlay c1 (view_utxo b) = (overlay c (view_utxo b))(x := live (entry_coin e))"
    using write_entry_utxo [of c b e x] Cons.prems(1) by blast
  have "(FRESH e' \<longrightarrow> overlay c1 (view_utxo b) y = None) \<and> (\<not> DIRTY e' \<longrightarrow> overlay c1 (view_utxo b) y = live (entry_coin e'))"
    if "(y, e') \<in> set es" for y e'
  proof -
    have "y \<noteq> x" using that Cons.prems(2) xe by force
    then show ?thesis using Cons.prems(3) [of y e'] that c1(3) by simp
  qed
  moreover have "distinct (map fst es)" "map_of es x = None"
    using Cons.prems(2) xe by (simp_all add: map_of_eq_None_iff)
  ultimately obtain c' where "write_entries es c1 = Inr c'" "\<forall>x u. om_find c' x = Some u \<longrightarrow> entry_ok b x u"
    "overlay c' (view_utxo b) = (\<lambda>x. case map_of es x of Some e \<Rightarrow> live (entry_coin e) | None \<Rightarrow> overlay c1 (view_utxo b) x)"
    using Cons.IH [of c1] c1(2) by blast
  then show ?case
    using c1 xe \<open>map_of es x = None\<close> by (auto simp: fun_eq_iff split: option.split)
qed

lemma write_db_utxo:
  assumes "distinct (map fst es)"
    and "\<And>x e. (x, e) \<in> set es \<Longrightarrow> \<not> DIRTY e \<Longrightarrow> om_find m x = live (entry_coin e)"
  shows "om_find (fold write_db_entry es m) =
    (\<lambda>x. case map_of es x of Some e \<Rightarrow> live (entry_coin e) | None \<Rightarrow> om_find m x)"
  using assms
proof (induction es arbitrary: m)
  case Nil
  then show ?case by simp
next
  case (Cons xe es)
  obtain x e where xe: "xe = (x, e)" by fastforce
  have w: "om_find (write_db_entry (x, e) m) = (om_find m)(x := live (entry_coin e))"
    using Cons.prems(2) [of x e] xe
    by (auto simp: write_db_entry_def fun_eq_iff om_find_put om_find_erase live_def)
  have "om_find (write_db_entry (x, e) m) y = live (entry_coin e')" if "(y, e') \<in> set es" "\<not> DIRTY e'" for y e'
  proof -
    have "y \<noteq> x" using that Cons.prems(1) xe by force
    then show ?thesis using Cons.prems(2) [of y e'] that w by simp
  qed
  moreover have "distinct (map fst es)" "map_of es x = None"
    using Cons.prems(1) xe by (simp_all add: map_of_eq_None_iff)
  ultimately show ?case
    using Cons.IH [of "write_db_entry (x, e) m"] xe w by (auto simp: fun_eq_iff split: option.split)
qed

text \<open>The assertions of \<open>CCoinsViewDB::BatchWrite\<close> hold: a best block is set, and no write was cut short.\<close>

definition flushable :: "CCoinsViewCache \<Rightarrow> bool" where
  "flushable k \<longleftrightarrow> hashBlock k \<noteq> uint256_null \<and>
     (case cache_base k of ViewDB d \<Rightarrow> db_head_blocks d = [] | ViewCache p \<Rightarrow> True)"

lemma Flush_utxo:
  assumes ok: "cache_ok k" and "flushable k"
  shows "\<exists>k'. Flush k = Inr k' \<and> cache_ok k' \<and> flushable k' \<and> cache_utxo k' = cache_utxo k \<and>
    view_utxo (cache_base k') = cache_utxo k \<and> cacheCoins k' = om_empty"
proof -
  have es: "distinct (map fst (om_entries (cacheCoins k)))" by (rule om_distinct)
  have ent: "entry_ok (cache_base k) x e" if "(x, e) \<in> set (om_entries (cacheCoins k))" for x e
    using that ok by (simp add: cache_ok_fields om_entries_iff)
  have utxo: "cache_utxo k = (\<lambda>x. case map_of (om_entries (cacheCoins k)) x of
      Some e \<Rightarrow> live (entry_coin e) | None \<Rightarrow> view_utxo (cache_base k) x)"
    by (simp add: cache_utxo_fields overlay_def om_find_def fun_eq_iff)
  show ?thesis
  proof (cases "cache_base k")
    case (ViewDB d)
    let ?d = "\<lparr>db_coins = fold write_db_entry (om_entries (cacheCoins k)) (db_coins d), db_best_block = Some (hashBlock k),
      db_head_blocks = []\<rparr>"
    have f: "Flush k = Inr (CCoinsViewCache (hashBlock k) om_empty (ViewDB ?d))"
      using assms(2) ViewDB by (simp add: Flush_def DB_BatchWrite_def flushable_def)
    have "om_find (db_coins ?d) = cache_utxo k"
      using write_db_utxo [OF es, of "db_coins d"] ent unfolding utxo ViewDB
      by (simp add: entry_ok_def cong: option.case_cong)
    then show ?thesis
      using f utxo_unspent(1) [OF ok] assms(2) ViewDB by (auto simp: flushable_def)
  next
    case (ViewCache p)
    obtain h c b where p: "p = CCoinsViewCache h c b" by (cases p)
    have "\<exists>c'. write_entries (om_entries (cacheCoins k)) c = Inr c' \<and> (\<forall>x u. om_find c' x = Some u \<longrightarrow> entry_ok b x u) \<and>
      overlay c' (view_utxo b) = (\<lambda>x. case map_of (om_entries (cacheCoins k)) x of
        Some e \<Rightarrow> live (entry_coin e) | None \<Rightarrow> overlay c (view_utxo b) x)"
      by (rule write_entries_utxo [OF _ es]) (use ok ent ViewCache p in \<open>auto simp: cache_ok_fields entry_ok_def\<close>)
    then obtain c' where c': "write_entries (om_entries (cacheCoins k)) c = Inr c'"
      "\<forall>x u. om_find c' x = Some u \<longrightarrow> entry_ok b x u" "overlay c' (view_utxo b) = cache_utxo k"
      unfolding utxo ViewCache p by (auto cong: option.case_cong)
    then have "Flush k = Inr (CCoinsViewCache (hashBlock k) om_empty (ViewCache (CCoinsViewCache (hashBlock k) c' b)))"
      using ViewCache p by (simp add: Flush_def Cache_BatchWrite_def)
    then show ?thesis
      using c' ok assms(2) ViewCache p by (auto simp: flushable_def cache_ok_fields)
  qed
qed

section \<open>Sequences of operations\<close>

primrec run_ops :: "('op \<Rightarrow> 's \<Rightarrow> 'e + 's) \<Rightarrow> 'op list \<Rightarrow> 's \<Rightarrow> 'e + 's" where
  "run_ops step [] s = Inr s"
| "run_ops step (op # ops) s = (case step op s of Inl e \<Rightarrow> Inl e | Inr s \<Rightarrow> run_ops step ops s)"

primrec ops_allowed :: "('op \<Rightarrow> 'a \<Rightarrow> bool) \<Rightarrow> ('op \<Rightarrow> 'a \<Rightarrow> 'a) \<Rightarrow> 'op list \<Rightarrow> 'a \<Rightarrow> bool" where
  "ops_allowed allowed spec [] a \<longleftrightarrow> True"
| "ops_allowed allowed spec (op # ops) a \<longleftrightarrow> allowed op a \<and> ops_allowed allowed spec ops (spec op a)"

lemma run_ops_append:
  "run_ops step (ops @ ops') s = (case run_ops step ops s of Inl e \<Rightarrow> Inl e | Inr s \<Rightarrow> run_ops step ops' s)"
  by (induction ops arbitrary: s) (auto split: sum.split)

text \<open>
  An implementation whose every operation, where the specification allows it, succeeds and does what the
  specification says on the abstract state.
\<close>

locale refines =
  fixes step :: "'op \<Rightarrow> 's \<Rightarrow> 'e + 's" and allowed :: "'op \<Rightarrow> 'a \<Rightarrow> bool" and spec :: "'op \<Rightarrow> 'a \<Rightarrow> 'a"
    and inv :: "'s \<Rightarrow> bool" and abs :: "'s \<Rightarrow> 'a"
  assumes step_refines: "inv s \<Longrightarrow> allowed op (abs s) \<Longrightarrow> \<exists>s'. step op s = Inr s' \<and> inv s' \<and> abs s' = spec op (abs s)"
begin

lemma run_refines:
  "inv s \<Longrightarrow> ops_allowed allowed spec ops (abs s) \<Longrightarrow> \<exists>s'. run_ops step ops s = Inr s' \<and> inv s' \<and> abs s' = fold spec ops (abs s)"
proof (induction ops arbitrary: s)
  case Nil
  then show ?case by simp
next
  case (Cons op ops)
  obtain s1 where s1: "step op s = Inr s1" "inv s1" "abs s1 = spec op (abs s)"
    using step_refines [of s op] Cons.prems by auto
  then show ?case using Cons.IH [of s1] Cons.prems(2) by simp
qed

end

datatype coin_op = Op_Add COutPoint Coin bool | Op_Spend COutPoint | Op_Get COutPoint | Op_Uncache COutPoint
  | Op_SetBest uint256 | Op_Flush

primrec coin_step :: "coin_op \<Rightarrow> CCoinsViewCache \<Rightarrow> coins_error + CCoinsViewCache" where
  "coin_step (Op_Add x coin ow) k = AddCoin x coin ow k"
| "coin_step (Op_Spend x) k = Inr (snd (SpendCoin x k))"
| "coin_step (Op_Get x) k = Inr (snd (GetCoin k x))"
| "coin_step (Op_Uncache x) k = Inr (Uncache x k)"
| "coin_step (Op_SetBest h) k = Inr (SetBestBlock h k)"
| "coin_step Op_Flush k = Flush k"

primrec coin_allowed :: "coin_op \<Rightarrow> (COutPoint \<Rightarrow> Coin option) \<Rightarrow> bool" where
  "coin_allowed (Op_Add x coin ow) m \<longleftrightarrow> \<not> Coin_IsSpent coin \<and> (ow \<or> m x = None)"
| "coin_allowed (Op_Spend x) m \<longleftrightarrow> True"
| "coin_allowed (Op_Get x) m \<longleftrightarrow> True"
| "coin_allowed (Op_Uncache x) m \<longleftrightarrow> True"
| "coin_allowed (Op_SetBest h) m \<longleftrightarrow> h \<noteq> uint256_null"
| "coin_allowed Op_Flush m \<longleftrightarrow> True"

primrec coin_spec :: "coin_op \<Rightarrow> (COutPoint \<Rightarrow> Coin option) \<Rightarrow> COutPoint \<Rightarrow> Coin option" where
  "coin_spec (Op_Add x coin ow) m = (if IsUnspendable (scriptPubKey (coin_out coin)) then m else m(x \<mapsto> coin))"
| "coin_spec (Op_Spend x) m = m(x := None)"
| "coin_spec (Op_Get x) m = m"
| "coin_spec (Op_Uncache x) m = m"
| "coin_spec (Op_SetBest h) m = m"
| "coin_spec Op_Flush m = m"

text \<open>No operation but \<open>Flush\<close> touches the best block or the database below.\<close>

lemma View_GetCoin_heads:
  "View_GetCoin v x = (r, v') \<Longrightarrow> (case v' of ViewDB d \<Rightarrow> P d | ViewCache p \<Rightarrow> True) = (case v of ViewDB d \<Rightarrow> P d | ViewCache p \<Rightarrow> True)"
  by (cases v) (auto split: prod.splits option.splits)

lemma FetchCoin_flushable: "FetchCoin k x = (r, k') \<Longrightarrow> flushable k' = flushable k"
  by (cases k) (auto simp: flushable_def Let_def View_GetCoin_heads split: option.splits prod.splits)

lemma flushable_ops:
  "flushable (snd (SpendCoin x k)) = flushable k" "flushable (snd (GetCoin k x)) = flushable k"
  "flushable (Uncache x k) = flushable k" "AddCoin x coin ow k = Inr k' \<Longrightarrow> flushable k' = flushable k"
proof -
  obtain r k1 where f: "FetchCoin k x = (r, k1)" by fastforce
  note k1 = FetchCoin_flushable [OF f, unfolded flushable_def]
  show "flushable (snd (SpendCoin x k)) = flushable k" "flushable (snd (GetCoin k x)) = flushable k"
    using k1 by (simp_all add: SpendCoin_def GetCoin_def f flushable_def split: option.splits)
  show "flushable (Uncache x k) = flushable k"
    by (simp add: Uncache_def flushable_def split: option.splits)
  show "AddCoin x coin ow k = Inr k' \<Longrightarrow> flushable k' = flushable k"
    by (auto simp: AddCoin_def Let_def flushable_def split: if_splits)
qed

interpretation coins: refines "coin_step" coin_allowed "coin_spec" "\<lambda>k. cache_ok k \<and> flushable k" cache_utxo
proof
  fix k op
  assume k: "cache_ok k \<and> flushable k" and al: "coin_allowed op (cache_utxo k)"
  show "\<exists>k'. coin_step op k = Inr k' \<and> (cache_ok k' \<and> flushable k') \<and> cache_utxo k' = coin_spec op (cache_utxo k)"
  proof (cases op)
    case (Op_Add x coin ow)
    then show ?thesis using AddCoin_utxo [of k coin ow x] k al flushable_ops(4) [of x coin ow k] by auto
  next
    case (Op_Spend x)
    then show ?thesis
      using SpendCoin_utxo [of k x] k flushable_ops(1) [of x k] by (cases "SpendCoin x k") simp
  next
    case (Op_Get x)
    then show ?thesis using GetCoin_utxo [of k x] k flushable_ops(2) [of k x] by (cases "GetCoin k x") simp
  next
    case (Op_Uncache x)
    then show ?thesis using Uncache_utxo [of k x] k flushable_ops(3) [of x k] by simp
  next
    case (Op_SetBest h)
    then show ?thesis using k al by (simp add: SetBestBlock_def cache_ok_fields cache_utxo_fields flushable_def)
  next
    case Op_Flush
    then show ?thesis using Flush_utxo [of k] k by auto
  qed
qed

end
