(* ===== verification/TxVerify.thy ===== *)
theory TxVerify
  imports CoinsCache Chain
begin

text \<open>
  The checks of a transaction against the coins and the chain, src/src/consensus/tx_verify.cpp, and its
  effect on the coins, \<open>UpdateCoins\<close> of src/src/validation.cpp with \<open>AddCoins\<close> of src/src/coins.cpp.  Lookups fill
  the cache, so the checks return the view too.  Asset bookkeeping is left out; signature operations are
  counted as the source counts them, but for those in witnesses.
\<close>

section \<open>Amounts\<close>

definition MAX_MONEY :: CAmount where "MAX_MONEY = 21000000000 * COIN"

definition MoneyRange :: "CAmount \<Rightarrow> bool" where
  "MoneyRange v \<longleftrightarrow> 0 \<le> v \<and> v \<le> MAX_MONEY"

text \<open>\<open>None\<close> is the \<open>std::runtime_error\<close> of \<open>GetValueOut\<close>.\<close>

fun value_out_from :: "bool \<Rightarrow> CAmount \<Rightarrow> CTxOut list \<Rightarrow> CAmount option" where
  "value_out_from fAreEnforcedValues nValueOut [] = Some nValueOut"
| "value_out_from fAreEnforcedValues nValueOut (tx_out # outs) =
     (if \<not> fAreEnforcedValues \<and> IsAssetScript (scriptPubKey tx_out) \<noteq> None
      then value_out_from fAreEnforcedValues nValueOut outs
      else let nValueOut = nValueOut + nValue tx_out
        in if \<not> MoneyRange (nValue tx_out) \<or> \<not> MoneyRange nValueOut then None
           else value_out_from fAreEnforcedValues nValueOut outs)"

definition GetValueOut :: "bool \<Rightarrow> 'a CMutableTransaction_scheme \<Rightarrow> CAmount option" where
  "GetValueOut fAreEnforcedValues tx = value_out_from fAreEnforcedValues 0 (vout tx)"

section \<open>Lock times\<close>

definition LOCKTIME_THRESHOLD :: int where "LOCKTIME_THRESHOLD = 500000000"
definition SEQUENCE_FINAL :: u32 where "SEQUENCE_FINAL = 0xffffffff"
definition SEQUENCE_LOCKTIME_DISABLE_FLAG :: u32 where "SEQUENCE_LOCKTIME_DISABLE_FLAG = push_bit 31 1"
definition SEQUENCE_LOCKTIME_TYPE_FLAG :: u32 where "SEQUENCE_LOCKTIME_TYPE_FLAG = push_bit 22 1"
definition SEQUENCE_LOCKTIME_MASK :: u32 where "SEQUENCE_LOCKTIME_MASK = 0x0000ffff"
definition SEQUENCE_LOCKTIME_GRANULARITY :: nat where "SEQUENCE_LOCKTIME_GRANULARITY = 9"
definition LOCKTIME_VERIFY_SEQUENCE :: int where "LOCKTIME_VERIFY_SEQUENCE = push_bit 0 1"

definition IsFinalTx :: "'a CMutableTransaction_scheme \<Rightarrow> int \<Rightarrow> int \<Rightarrow> bool" where
  "IsFinalTx tx nBlockHeight nBlockTime =
     (if nLockTime tx = 0 then True
      else if uint (nLockTime tx) < (if uint (nLockTime tx) < LOCKTIME_THRESHOLD then nBlockHeight else nBlockTime) then True
      else list_all (\<lambda>txin. nSequence txin = SEQUENCE_FINAL) (vin tx))"

text \<open>
  The loop of \<open>CalculateSequenceLocks\<close>: the lock pair and the heights, zeroed where an input has no relative
  lock.  \<open>None\<close> is a failed assertion, or the dereference of a null ancestor.
\<close>

fun sequence_locks :: "CBlockIndex \<Rightarrow> CTxIn list \<Rightarrow> int list \<Rightarrow> int \<Rightarrow> int \<Rightarrow> ((int \<times> int) \<times> int list) option" where
  "sequence_locks block (txin # ins) (nCoinHeight # hs) nMinHeight nMinTime =
     (if and (nSequence txin) SEQUENCE_LOCKTIME_DISABLE_FLAG \<noteq> 0 then
        map_option (\<lambda>(l, hs). (l, 0 # hs)) (sequence_locks block ins hs nMinHeight nMinTime)
      else if and (nSequence txin) SEQUENCE_LOCKTIME_TYPE_FLAG \<noteq> 0 then
        (case GetAncestor block (max (nCoinHeight - 1) 0) of
          Some (Some a) \<Rightarrow>
            map_option (\<lambda>(l, hs). (l, nCoinHeight # hs)) (sequence_locks block ins hs nMinHeight
              (max nMinTime (GetMedianTimePast a +
                 uint (push_bit SEQUENCE_LOCKTIME_GRANULARITY (and (nSequence txin) SEQUENCE_LOCKTIME_MASK)) - 1)))
        | _ \<Rightarrow> None)
      else
        map_option (\<lambda>(l, hs). (l, nCoinHeight # hs)) (sequence_locks block ins hs
          (max nMinHeight (nCoinHeight + uint (and (nSequence txin) SEQUENCE_LOCKTIME_MASK) - 1)) nMinTime))"
| "sequence_locks block _ hs nMinHeight nMinTime = Some ((nMinHeight, nMinTime), hs)"

definition CalculateSequenceLocks ::
  "'a CMutableTransaction_scheme \<Rightarrow> int \<Rightarrow> int list \<Rightarrow> CBlockIndex \<Rightarrow> ((int \<times> int) \<times> int list) option" where
  "CalculateSequenceLocks tx flags prevHeights block =
     (if length prevHeights \<noteq> length (vin tx) then None
      else if \<not> ((word_of_int (nVersion tx) :: u32) \<ge> 2 \<and> and flags LOCKTIME_VERIFY_SEQUENCE \<noteq> 0)
        then Some ((- 1, - 1), prevHeights)
      else sequence_locks block (vin tx) prevHeights (- 1) (- 1))"

definition EvaluateSequenceLocks :: "CBlockIndex \<Rightarrow> int \<times> int \<Rightarrow> bool option" where
  "EvaluateSequenceLocks block lockPair =
     (case bi_pprev block of
       None \<Rightarrow> None
     | Some p \<Rightarrow> Some (\<not> (fst lockPair \<ge> bi_nHeight block \<or> snd lockPair \<ge> GetMedianTimePast p)))"

definition SequenceLocks :: "'a CMutableTransaction_scheme \<Rightarrow> int \<Rightarrow> int list \<Rightarrow> CBlockIndex \<Rightarrow> bool option" where
  "SequenceLocks tx flags prevHeights block =
     (case CalculateSequenceLocks tx flags prevHeights block of
       None \<Rightarrow> None | Some (lockPair, _) \<Rightarrow> EvaluateSequenceLocks block lockPair)"

section \<open>Signature operations\<close>

definition WITNESS_SCALE_FACTOR :: int where "WITNESS_SCALE_FACTOR = 4"

definition GetLegacySigOpCount :: "'a CMutableTransaction_scheme \<Rightarrow> u32" where
  "GetLegacySigOpCount tx =
     fold (\<lambda>txout n. n + GetSigOpCount False (scriptPubKey txout)) (vout tx)
       (fold (\<lambda>txin n. n + GetSigOpCount False (scriptSig txin)) (vin tx) 0)"

text \<open>\<open>None\<close> is the failed assertion that the coin is unspent.\<close>

fun p2sh_sigops :: "CTxIn list \<Rightarrow> u32 \<Rightarrow> CCoinsViewCache \<Rightarrow> u32 option \<times> CCoinsViewCache" where
  "p2sh_sigops [] nSigOps k = (Some nSigOps, k)"
| "p2sh_sigops (txin # ins) nSigOps k =
     (let (coin, k) = Cache_AccessCoin k (prevout txin); pk = scriptPubKey (coin_out coin)
      in if Coin_IsSpent coin then (None, k)
         else p2sh_sigops ins (if IsPayToScriptHash pk then nSigOps + GetSigOpCount_P2SH (scriptSig txin) pk else nSigOps) k)"

definition GetP2SHSigOpCount :: "'a CMutableTransaction_scheme \<Rightarrow> CCoinsViewCache \<Rightarrow> u32 option \<times> CCoinsViewCache" where
  "GetP2SHSigOpCount tx k = (if IsCoinBase tx then (Some 0, k) else p2sh_sigops (vin tx) 0 k)"

section \<open>Inputs\<close>

primrec have_inputs :: "CTxIn list \<Rightarrow> CCoinsViewCache \<Rightarrow> bool \<times> CCoinsViewCache" where
  "have_inputs [] k = (True, k)"
| "have_inputs (txin # ins) k =
     (let (have, k) = HaveCoin k (prevout txin) in if \<not> have then (False, k) else have_inputs ins k)"

definition HaveInputs :: "'a CMutableTransaction_scheme \<Rightarrow> CCoinsViewCache \<Rightarrow> bool \<times> CCoinsViewCache" where
  "HaveInputs tx k = (if \<not> IsCoinBase tx then have_inputs (vin tx) k else (True, k))"

primrec value_in_from :: "CAmount \<Rightarrow> CTxIn list \<Rightarrow> CCoinsViewCache \<Rightarrow> CAmount \<times> CCoinsViewCache" where
  "value_in_from nResult [] k = (nResult, k)"
| "value_in_from nResult (txin # ins) k =
     (let (coin, k) = Cache_AccessCoin k (prevout txin) in value_in_from (nResult + nValue (coin_out coin)) ins k)"

definition GetValueIn :: "'a CMutableTransaction_scheme \<Rightarrow> CCoinsViewCache \<Rightarrow> CAmount \<times> CCoinsViewCache" where
  "GetValueIn tx k = (if IsCoinBase tx then (0, k) else value_in_from 0 (vin tx) k)"

text \<open>A check is rejected, fails an assertion or throws.\<close>

datatype tx_error = Tx_reject reject | Tx_assert | Tx_throw

fun check_inputs :: "int \<Rightarrow> int \<Rightarrow> CTxIn list \<Rightarrow> CAmount \<Rightarrow> CCoinsViewCache \<Rightarrow> (tx_error + CAmount) \<times> CCoinsViewCache" where
  "check_inputs nCoinbaseMaturity nSpendHeight [] nValueIn k = (Inr nValueIn, k)"
| "check_inputs nCoinbaseMaturity nSpendHeight (txin # ins) nValueIn k =
     (let (coin, k) = Cache_AccessCoin k (prevout txin)
      in if Coin_IsSpent coin then (Inl Tx_assert, k)
         else if coin_fCoinBase coin \<and> nSpendHeight - uint (coin_nHeight coin) < nCoinbaseMaturity
           then (Inl (Tx_reject (DoS 0 REJECT_INVALID ''bad-txns-premature-spend-of-coinbase'')), k)
         else let nValueIn = nValueIn + nValue (coin_out coin)
           in if \<not> MoneyRange (nValue (coin_out coin)) \<or> \<not> MoneyRange nValueIn
              then (Inl (Tx_reject (DoS 100 REJECT_INVALID ''bad-txns-inputvalues-outofrange'')), k)
              else check_inputs nCoinbaseMaturity nSpendHeight ins nValueIn k)"

definition CheckTxInputs ::
  "int \<Rightarrow> bool \<Rightarrow> 'a CMutableTransaction_scheme \<Rightarrow> int \<Rightarrow> CCoinsViewCache \<Rightarrow> (tx_error + CAmount) \<times> CCoinsViewCache" where
  "CheckTxInputs nCoinbaseMaturity fAreEnforcedValues tx nSpendHeight k =
     (let (have, k) = HaveInputs tx k
      in if \<not> have then (Inl (Tx_reject (DoS 100 REJECT_INVALID ''bad-txns-inputs-missingorspent'')), k)
         else (case check_inputs nCoinbaseMaturity nSpendHeight (vin tx) 0 k of
           (Inl e, k) \<Rightarrow> (Inl e, k)
         | (Inr nValueIn, k) \<Rightarrow>
            (case GetValueOut fAreEnforcedValues tx of
              None \<Rightarrow> (Inl Tx_throw, k)
            | Some value_out \<Rightarrow>
               if nValueIn < value_out then (Inl (Tx_reject (DoS 100 REJECT_INVALID ''bad-txns-in-belowout'')), k)
               else if \<not> MoneyRange (nValueIn - value_out)
                 then (Inl (Tx_reject (DoS 100 REJECT_INVALID ''bad-txns-fee-out-of-range'')), k)
               else (Inr (nValueIn - value_out), k))))"

section \<open>Effect on the coins\<close>

text \<open>\<open>Coin(out, nHeight, fCoinBase)\<close>: the height is kept in 31 bits.\<close>

definition mk_coin :: "CTxOut \<Rightarrow> int \<Rightarrow> bool \<Rightarrow> Coin" where
  "mk_coin out nHeight fCoinBase = \<lparr>coin_out = out, coin_fCoinBase = fCoinBase, coin_nHeight = word_of_int (nHeight mod 2 ^ 31)\<rparr>"

primrec add_outputs ::
  "uint256 \<Rightarrow> int \<Rightarrow> bool \<Rightarrow> bool \<Rightarrow> CTxOut list \<Rightarrow> nat \<Rightarrow> CCoinsViewCache \<Rightarrow> coins_error + CCoinsViewCache" where
  "add_outputs txid nHeight fCoinbase check [] i k = Inr k"
| "add_outputs txid nHeight fCoinbase check (out # outs) i k =
     (let (overwrite, k) = (if check then HaveCoin k (OutPoint txid (of_nat i)) else (fCoinbase, k))
      in case AddCoin (OutPoint txid (of_nat i)) (mk_coin out nHeight fCoinbase) overwrite k of
           Inl e \<Rightarrow> Inl e | Inr k \<Rightarrow> add_outputs txid nHeight fCoinbase check outs (Suc i) k)"

definition AddCoins :: "CTransaction \<Rightarrow> int \<Rightarrow> bool \<Rightarrow> CCoinsViewCache \<Rightarrow> coins_error + CCoinsViewCache" where
  "AddCoins tx nHeight check k = add_outputs (tx_hash tx) nHeight (IsCoinBase tx) check (vout tx) 0 k"

type_synonym CTxUndo = "Coin list"
type_synonym CBlockUndo = "CTxUndo list"

primrec spend_inputs :: "CTxIn list \<Rightarrow> CCoinsViewCache \<Rightarrow> coins_error + CTxUndo \<times> CCoinsViewCache" where
  "spend_inputs [] k = Inr ([], k)"
| "spend_inputs (txin # ins) k =
     (case SpendCoin (prevout txin) k of
       (None, k) \<Rightarrow> Inl assertion_failed
     | (Some coin, k) \<Rightarrow> (case spend_inputs ins k of Inl e \<Rightarrow> Inl e | Inr (undo, k) \<Rightarrow> Inr (coin # undo, k)))"

definition UpdateCoins :: "CTransaction \<Rightarrow> int \<Rightarrow> CCoinsViewCache \<Rightarrow> coins_error + CTxUndo \<times> CCoinsViewCache" where
  "UpdateCoins tx nHeight k =
     (case (if \<not> IsCoinBase tx then spend_inputs (vin tx) k else Inr ([], k)) of
       Inl e \<Rightarrow> Inl e
     | Inr (txundo, k) \<Rightarrow> (case AddCoins tx nHeight False k of Inl e \<Rightarrow> Inl e | Inr k \<Rightarrow> Inr (txundo, k)))"

section \<open>The operations on the map of unspent outputs\<close>

definition coin_value :: "(COutPoint \<Rightarrow> Coin option) \<Rightarrow> COutPoint \<Rightarrow> CAmount" where
  "coin_value m x = (case m x of Some coin \<Rightarrow> nValue (coin_out coin) | None \<Rightarrow> 0)"

definition same_view :: "CCoinsViewCache \<Rightarrow> CCoinsViewCache \<Rightarrow> bool" where
  "same_view k k' \<longleftrightarrow> cache_ok k' \<and> cache_utxo k' = cache_utxo k"

lemma have_inputs_utxo:
  assumes "cache_ok k" and "have_inputs ins k = (b, k')"
  shows "same_view k k' \<and> b = (\<forall>x\<in>set ins. cache_utxo k (prevout x) \<noteq> None)"
  using assms
proof (induction ins arbitrary: k)
  case (Cons txin ins)
  obtain h k1 where h: "HaveCoin k (prevout txin) = (h, k1)" by fastforce
  note u = HaveCoin_utxo [OF Cons.prems(1) h]
  show ?case using Cons.IH [of k1] Cons.prems(2) h u by (auto simp: same_view_def split: if_splits)
qed (simp add: same_view_def)

lemma HaveInputs_utxo:
  assumes "cache_ok k" and "HaveInputs tx k = (b, k')" and "\<not> IsCoinBase tx"
  shows "same_view k k' \<and> b = (\<forall>x\<in>set (vin tx). cache_utxo k (prevout x) \<noteq> None)"
  using assms have_inputs_utxo [of k "vin tx" b k'] by (simp add: HaveInputs_def)

lemma check_inputs_utxo:
  assumes "cache_ok k" and "check_inputs mat h ins v k = (r, k')"
  shows "same_view k k' \<and> (\<forall>w. r = Inr w \<longrightarrow>
    w = v + sum_list (map (\<lambda>x. coin_value (cache_utxo k) (prevout x)) ins) \<and>
    (\<forall>x\<in>set ins. \<exists>coin. cache_utxo k (prevout x) = Some coin \<and> MoneyRange (nValue (coin_out coin)) \<and>
       (coin_fCoinBase coin \<longrightarrow> mat \<le> h - uint (coin_nHeight coin))))"
  using assms
proof (induction mat h ins v k rule: check_inputs.induct)
  case (1 mat h v k)
  then show ?case by (auto simp: same_view_def)
next
  case (2 mat h txin ins v k)
  obtain coin k1 where c: "Cache_AccessCoin k (prevout txin) = (coin, k1)" by fastforce
  note u = AccessCoin_utxo [OF "2.prems"(1) c]
  show ?case
  proof (cases "Coin_IsSpent coin \<or> (coin_fCoinBase coin \<and> h - uint (coin_nHeight coin) < mat) \<or>
      \<not> MoneyRange (nValue (coin_out coin)) \<or> \<not> MoneyRange (v + nValue (coin_out coin))")
    case True
    then show ?thesis using "2.prems"(2) c u by (auto simp: same_view_def Let_def split: if_splits)
  next
    case False
    then have "check_inputs mat h ins (v + nValue (coin_out coin)) k1 = (r, k')"
      using "2.prems"(2) c by (auto simp: Let_def split: if_splits)
    moreover have "cache_utxo k (prevout txin) = Some coin" using u False by (auto simp: live_def split: if_splits)
    ultimately show ?thesis
      using "2.IH" [of "(coin, k1)" coin k1 "v + nValue (coin_out coin)"] c u False
      by (auto simp: same_view_def coin_value_def)
  qed
qed

text \<open>A transaction that passes spends mature coins that exist, and its fee is what they leave.\<close>

lemma CheckTxInputs_utxo:
  assumes "cache_ok k" and "CheckTxInputs mat ev tx h k = (Inr fee, k')" and "\<not> IsCoinBase tx"
  shows "same_view k k' \<and> 0 \<le> fee \<and>
    GetValueOut ev tx = Some (sum_list (map (\<lambda>x. coin_value (cache_utxo k) (prevout x)) (vin tx)) - fee) \<and>
    (\<forall>x\<in>set (vin tx). \<exists>coin. cache_utxo k (prevout x) = Some coin \<and> MoneyRange (nValue (coin_out coin)) \<and>
       (coin_fCoinBase coin \<longrightarrow> mat \<le> h - uint (coin_nHeight coin)))"
proof -
  obtain b k1 where b: "HaveInputs tx k = (b, k1)" by fastforce
  note h1 = HaveInputs_utxo [OF assms(1) b assms(3)]
  obtain r k2 where r: "check_inputs mat h (vin tx) 0 k1 = (r, k2)" by fastforce
  have ok: "cache_ok k1" "cache_utxo k1 = cache_utxo k" using h1 by (simp_all add: same_view_def)
  note c = check_inputs_utxo [OF ok(1) r]
  from assms(2) b r obtain v out where v: "r = Inr v" "GetValueOut ev tx = Some out" "fee = v - out" "\<not> v < out" "k' = k2"
    by (auto simp: CheckTxInputs_def split: if_splits sum.splits option.splits)
  show ?thesis using c v ok by (auto simp: same_view_def)
qed

primrec spend_map :: "CTxIn list \<Rightarrow> (COutPoint \<Rightarrow> Coin option) \<Rightarrow> COutPoint \<Rightarrow> Coin option" where
  "spend_map [] m = m"
| "spend_map (txin # ins) m = spend_map ins (m(prevout txin := None))"

primrec outputs_map :: "uint256 \<Rightarrow> int \<Rightarrow> bool \<Rightarrow> CTxOut list \<Rightarrow> nat \<Rightarrow> (COutPoint \<Rightarrow> Coin option) \<Rightarrow> COutPoint \<Rightarrow> Coin option" where
  "outputs_map txid h cb [] i m = m"
| "outputs_map txid h cb (out # outs) i m =
     outputs_map txid h cb outs (Suc i)
       (if IsUnspendable (scriptPubKey out) then m else m(OutPoint txid (of_nat i) \<mapsto> mk_coin out h cb))"

definition tx_map :: "CTransaction \<Rightarrow> int \<Rightarrow> (COutPoint \<Rightarrow> Coin option) \<Rightarrow> COutPoint \<Rightarrow> Coin option" where
  "tx_map tx h m = outputs_map (tx_hash tx) h (IsCoinBase tx) (vout tx) 0 (if IsCoinBase tx then m else spend_map (vin tx) m)"

text \<open>The values a transaction gives its outputs and the outputs it finds free.\<close>

definition outs_ok :: "CTxOut list \<Rightarrow> bool" where
  "outs_ok outs \<longleftrightarrow> length outs < 2 ^ 32 \<and> (\<forall>out\<in>set outs. 0 \<le> nValue out)"

definition txid_free :: "uint256 \<Rightarrow> (COutPoint \<Rightarrow> Coin option) \<Rightarrow> bool" where
  "txid_free txid m \<longleftrightarrow> (\<forall>n. m (OutPoint txid n) = None)"

lemma spend_map_eq: "spend_map ins m = (\<lambda>x. if x \<in> prevout ` set ins then None else m x)"
  by (induction ins arbitrary: m) (auto simp: fun_eq_iff)

lemma spend_inputs_utxo:
  assumes "cache_ok k" and "distinct (map prevout ins)" and "\<forall>x\<in>set ins. cache_utxo k (prevout x) \<noteq> None"
  shows "\<exists>k'. spend_inputs ins k = Inr (map (\<lambda>x. the (cache_utxo k (prevout x))) ins, k') \<and> cache_ok k' \<and>
    cache_utxo k' = spend_map ins (cache_utxo k)"
  using assms
proof (induction ins arbitrary: k)
  case (Cons txin ins)
  obtain r k1 where s: "SpendCoin (prevout txin) k = (r, k1)" by fastforce
  obtain coin where coin: "cache_utxo k (prevout txin) = Some coin" using Cons.prems(3) by auto
  note u = SpendCoin_utxo [OF Cons.prems(1) s]
  have k1: "cache_ok k1" "cache_utxo k1 = (cache_utxo k)(prevout txin := None)" "r = Some coin" using u coin by auto
  have "prevout txin \<notin> prevout ` set ins" using Cons.prems(2) by simp
  then have ne: "prevout x \<noteq> prevout txin" if "x \<in> set ins" for x using that by (metis imageI)
  have "\<forall>x\<in>set ins. cache_utxo k1 (prevout x) \<noteq> None" using k1 ne Cons.prems(3) by auto
  then obtain k' where "spend_inputs ins k1 = Inr (map (\<lambda>x. the (cache_utxo k1 (prevout x))) ins, k')" "cache_ok k'"
    "cache_utxo k' = spend_map ins (cache_utxo k1)"
    using Cons.IH [of k1] k1(1) Cons.prems(2) by auto
  moreover have "map (\<lambda>x. the (cache_utxo k1 (prevout x))) ins = map (\<lambda>x. the (cache_utxo k (prevout x))) ins"
    using k1(2) ne by auto
  ultimately show ?case using s k1 coin by simp
qed simp

lemma mk_coin_unspent: "0 \<le> nValue out \<Longrightarrow> \<not> Coin_IsSpent (mk_coin out h cb)"
  by (simp add: Coin_IsSpent_def mk_coin_def CTxOut_IsNull_def)

lemma of_nat_u32_inject: "i < 2 ^ 32 \<Longrightarrow> j < 2 ^ 32 \<Longrightarrow> (of_nat i :: u32) = of_nat j \<longleftrightarrow> i = j"
proof -
  assume "i < 2 ^ 32" "j < 2 ^ 32"
  then have "unat (of_nat i :: u32) = i" "unat (of_nat j :: u32) = j" by (simp_all add: unat_of_nat_small)
  then show ?thesis by metis
qed

lemma add_outputs_utxo:
  assumes "cache_ok k" and "i + length outs < 2 ^ 32" and "\<forall>out\<in>set outs. 0 \<le> nValue out"
    and "\<And>j. i \<le> j \<Longrightarrow> j < i + length outs \<Longrightarrow> \<not> cb \<Longrightarrow> cache_utxo k (OutPoint txid (of_nat j)) = None"
  shows "\<exists>k'. add_outputs txid h cb False outs i k = Inr k' \<and> cache_ok k' \<and>
    cache_utxo k' = outputs_map txid h cb outs i (cache_utxo k)"
  using assms
proof (induction outs arbitrary: i k)
  case (Cons out outs)
  have "\<not> Coin_IsSpent (mk_coin out h cb)" using Cons.prems(3) by (simp add: mk_coin_unspent)
  moreover have "\<not> cb \<Longrightarrow> cache_utxo k (OutPoint txid (of_nat i)) = None" using Cons.prems(4) [of i] by simp
  ultimately obtain k1 where k1: "AddCoin (OutPoint txid (of_nat i)) (mk_coin out h cb) cb k = Inr k1" "cache_ok k1"
    "cache_utxo k1 = (if IsUnspendable (scriptPubKey out) then cache_utxo k
       else (cache_utxo k)(OutPoint txid (of_nat i) \<mapsto> mk_coin out h cb))"
    using AddCoin_utxo [of k "mk_coin out h cb" cb "OutPoint txid (of_nat i)"] Cons.prems(1) by (auto simp: mk_coin_def)
  have "cache_utxo k1 (OutPoint txid (of_nat j)) = None" if "Suc i \<le> j" "j < Suc i + length outs" "\<not> cb" for j
    using that k1(3) Cons.prems(2) Cons.prems(4) [of j] of_nat_u32_inject [of i j] by auto
  then obtain k' where "add_outputs txid h cb False outs (Suc i) k1 = Inr k'" "cache_ok k'"
    "cache_utxo k' = outputs_map txid h cb outs (Suc i) (cache_utxo k1)"
    using Cons.IH [of k1 "Suc i"] k1(2) Cons.prems(2,3) by auto
  then show ?case using k1 by simp
qed simp

lemma UpdateCoins_utxo:
  assumes "cache_ok k" and "outs_ok (vout tx)" and "txid_free (tx_hash tx) (cache_utxo k)"
    and "\<not> IsCoinBase tx \<Longrightarrow> distinct (map prevout (vin tx)) \<and> (\<forall>x\<in>set (vin tx). cache_utxo k (prevout x) \<noteq> None)"
  shows "\<exists>k'. UpdateCoins tx h k =
      Inr (if IsCoinBase tx then [] else map (\<lambda>x. the (cache_utxo k (prevout x))) (vin tx), k') \<and>
    cache_ok k' \<and> cache_utxo k' = tx_map tx h (cache_utxo k)"
proof -
  have "\<exists>k1. (if \<not> IsCoinBase tx then spend_inputs (vin tx) k else Inr ([], k)) =
      Inr (if IsCoinBase tx then [] else map (\<lambda>x. the (cache_utxo k (prevout x))) (vin tx), k1) \<and> cache_ok k1 \<and>
    cache_utxo k1 = (if IsCoinBase tx then cache_utxo k else spend_map (vin tx) (cache_utxo k))"
  proof (cases "IsCoinBase tx")
    case False
    then show ?thesis using spend_inputs_utxo [OF assms(1), of "vin tx"] assms(4) by simp
  qed (simp add: assms(1))
  then obtain k1 where k1: "(if \<not> IsCoinBase tx then spend_inputs (vin tx) k else Inr ([], k)) =
      Inr (if IsCoinBase tx then [] else map (\<lambda>x. the (cache_utxo k (prevout x))) (vin tx), k1)" "cache_ok k1"
    "cache_utxo k1 = (if IsCoinBase tx then cache_utxo k else spend_map (vin tx) (cache_utxo k))"
    by blast
  have "cache_utxo k1 (OutPoint (tx_hash tx) n) = None" for n
    using k1(3) assms(3) by (auto simp: spend_map_eq txid_free_def)
  then obtain k' where "add_outputs (tx_hash tx) h (IsCoinBase tx) False (vout tx) 0 k1 = Inr k'" "cache_ok k'"
    "cache_utxo k' = outputs_map (tx_hash tx) h (IsCoinBase tx) (vout tx) 0 (cache_utxo k1)"
    using add_outputs_utxo [OF k1(2), of 0 "vout tx" "IsCoinBase tx" "tx_hash tx" h] assms(2) by (auto simp: outs_ok_def)
  then show ?thesis using k1 by (simp add: UpdateCoins_def AddCoins_def tx_map_def)
qed

end
