(* ===== verification/BlockReward.thy ===== *)
theory BlockReward
  imports ProviderTx TxVerify
begin

text \<open>
  The reward of a block: the subsidy and the rules for the coinbase in src/src/validation.cpp
  (\<open>GetBlockSubsidy\<close>, \<open>ContextualCheckBlock\<close>, the end of \<open>ConnectBlock\<close>), the development allocation of
  src/src/consensus/devalloc.h and devalloc.cpp, and the coinbase that \<open>CreateNewBlock\<close> of src/src/miner.cpp
  builds.  Amounts are HOL integers; they stay far below \<open>2 ^ 63\<close>.
\<close>

section \<open>Subsidy\<close>

definition GetBlockSubsidy :: "int \<Rightarrow> Params \<Rightarrow> CAmount" where
  "GetBlockSubsidy nHeight p =
     (let halvings = nHeight sdiv nSubsidyHalvingInterval p
      in if halvings \<ge> 64 then 0 else drop_bit (nat halvings) (5000 * COIN))"

section \<open>Development allocation\<close>

definition DEV_FEE_PERCENT :: int where "DEV_FEE_PERCENT = 3"
definition DEV_MULTISIG_ENFORCEMENT_HEIGHT :: int where "DEV_MULTISIG_ENFORCEMENT_HEIGHT = 2100000"

definition GENESIS_DEV_PUBKEY_BYTES :: "byte list" where
  "GENESIS_DEV_PUBKEY_BYTES = [
    0x02, 0xe9, 0xfe, 0x9e, 0x70, 0x2c, 0x1c, 0x60,
    0x70, 0xcc, 0xc5, 0x7a, 0x10, 0xca, 0x25, 0xcd,
    0x5f, 0xdd, 0x1a, 0x1b, 0x04, 0xd9, 0x42, 0x7b,
    0xb0, 0xcc, 0x08, 0x3a, 0x29, 0x51, 0x53, 0x16,
    0x2c]"

definition WALLET_DEV_PUBKEY_BYTES :: "byte list" where
  "WALLET_DEV_PUBKEY_BYTES = [
    0x03, 0xb7, 0x03, 0x9b, 0xad, 0x8e, 0x50, 0x6d,
    0x66, 0x73, 0xf4, 0xaa, 0xb2, 0x41, 0x93, 0xf0,
    0x6f, 0xfe, 0x2f, 0x31, 0xc9, 0x7f, 0xc0, 0xb8,
    0xd8, 0x61, 0xe5, 0x0a, 0x06, 0x50, 0x78, 0xeb,
    0x6c]"

definition DEV_MULTISIG_SCRIPT_PUBKEY :: "byte list" where
  "DEV_MULTISIG_SCRIPT_PUBKEY = [
    0xa9, 0x14,
    0x03, 0xe4, 0x25, 0x52, 0x60, 0x85, 0x73, 0x29,
    0x27, 0xdd, 0xc5, 0xd6, 0xeb, 0x77, 0xd8, 0xcb,
    0x8d, 0xd2, 0xc9, 0x32,
    0x87]"

definition GetGenesisDevScript :: CScript where
  "GetGenesisDevScript = push_data GENESIS_DEV_PUBKEY_BYTES @ [OP_CHECKSIG]"

definition GetWalletDevScript :: CScript where
  "GetWalletDevScript = push_data WALLET_DEV_PUBKEY_BYTES @ [OP_CHECKSIG]"

definition GetDevScriptMultisig :: CScript where
  "GetDevScriptMultisig = DEV_MULTISIG_SCRIPT_PUBKEY"

definition IsDevScriptMultisigInitialized :: bool where
  "IsDevScriptMultisigInitialized = True"

definition GetDevAllocation :: "int \<Rightarrow> CAmount \<Rightarrow> CAmount" where
  "GetDevAllocation nHeight nBlockSubsidy = nBlockSubsidy * DEV_FEE_PERCENT sdiv 100"

definition GetDevScriptForHeight :: "int \<Rightarrow> CScript" where
  "GetDevScriptForHeight nHeight =
     (if nHeight = 0 then GetGenesisDevScript
      else if nHeight \<ge> DEV_MULTISIG_ENFORCEMENT_HEIGHT then GetDevScriptMultisig
      else GetWalletDevScript)"

definition IsValidDevScript :: "CScript \<Rightarrow> int \<Rightarrow> bool" where
  "IsValidDevScript script nHeight =
     (if nHeight = 0 then script = GetGenesisDevScript
      else if nHeight \<ge> DEV_MULTISIG_ENFORCEMENT_HEIGHT then
        (if \<not> IsDevScriptMultisigInitialized then False else script = GetDevScriptMultisig)
      else script = GetWalletDevScript)"

section \<open>What a block must pay\<close>

text \<open>The value limit and the development allocation at the end of \<open>ConnectBlock\<close>.\<close>

definition check_coinbase_value :: "Params \<Rightarrow> bool \<Rightarrow> int \<Rightarrow> CAmount \<Rightarrow> 'a CMutableTransaction_scheme \<Rightarrow> tx_error option" where
  "check_coinbase_value p fAreEnforcedValues nHeight nFees coinbase =
     (let blockReward = nFees + GetBlockSubsidy nHeight p
      in case GetValueOut fAreEnforcedValues coinbase of
           None \<Rightarrow> Some Tx_throw
         | Some v \<Rightarrow> if v > blockReward then Some (Tx_reject (DoS 100 REJECT_INVALID ''bad-cb-amount'')) else None)"

definition check_dev_allocation :: "Params \<Rightarrow> int \<Rightarrow> CTxOut list \<Rightarrow> reject option" where
  "check_dev_allocation p nHeight outs =
     (let nRequiredDevAllocation = GetDevAllocation nHeight (GetBlockSubsidy nHeight p)
      in case find (\<lambda>out. IsValidDevScript (scriptPubKey out) nHeight) outs of
           None \<Rightarrow> Some (DoS 100 REJECT_INVALID ''bad-cb-missing-devalloc'')
         | Some out \<Rightarrow> if nValue out \<noteq> nRequiredDevAllocation
             then Some (DoS 100 REJECT_INVALID ''bad-cb-devalloc-amount'') else None)"

definition mn_payment :: "Params \<Rightarrow> int \<Rightarrow> CAmount" where
  "mn_payment p nHeight = GetBlockSubsidy nHeight p * nMasternodeRewardPercent p sdiv 100"

definition operator_payment :: "CAmount \<Rightarrow> CDeterministicMN \<Rightarrow> CAmount" where
  "operator_payment nTotal payee =
     (if nOperatorReward payee > 0 \<and> scriptOperatorPayout (mn_state payee) \<noteq> []
      then nTotal * uint (nOperatorReward payee) sdiv 10000 else 0)"

text \<open>The masternode payment in \<open>ContextualCheckBlock\<close>.\<close>

definition check_mn_payment :: "Params \<Rightarrow> int \<Rightarrow> CDeterministicMN \<Rightarrow> CTxOut list \<Rightarrow> reject option" where
  "check_mn_payment p nHeight expectedPayee outs =
     (let expectedMNPayment = mn_payment p nHeight;
          foundMNPayment = list_ex (\<lambda>out. scriptPubKey out = scriptPayout (mn_state expectedPayee) \<and>
            nValue out \<ge> expectedMNPayment) outs;
          operatorPayment = operator_payment expectedMNPayment expectedPayee;
          foundOperatorPayment = list_ex (\<lambda>out. scriptPubKey out = scriptOperatorPayout (mn_state expectedPayee) \<and>
            nValue out \<ge> operatorPayment) outs
      in if \<not> foundMNPayment then Some (DoS 100 REJECT_INVALID ''bad-cb-mn-payment'')
         else if operatorPayment > 0 \<and> \<not> foundOperatorPayment \<and> nHeight \<ge> nTieredMNActivationHeight p
           then Some (DoS 100 REJECT_INVALID ''bad-cb-mn-operator-payment'')
         else None)"

text \<open>
  \<open>ContextualCheckBlock\<close> up to the witness commitment.  \<open>context\<close> holds the flags of the chain and what the
  ChainLocks manager answers: its best height, whether the height is locked, and the best lock's block.
\<close>

record contextual =
  nCSVEnabled :: bool
  nBIP34Enabled :: bool
  chain_locks :: "(int \<times> bool \<times> uint256) option"

definition chainlock_conflict :: "contextual \<Rightarrow> CBlock \<Rightarrow> CBlockIndex option \<Rightarrow> int \<Rightarrow> bool" where
  "chainlock_conflict c block pindexPrev nHeight =
     (case (chain_locks c, pindexPrev) of
       (Some (chainLockHeight, locked, bestHash), Some _) \<Rightarrow>
         chainLockHeight > 0 \<and> nHeight \<le> chainLockHeight \<and> locked \<and> nHeight = chainLockHeight \<and> blk_hash block \<noteq> bestHash
     | _ \<Rightarrow> False)"

definition ContextualCheckBlock ::
  "evo_env \<Rightarrow> contextual \<Rightarrow> evo_state \<Rightarrow> CBlock \<Rightarrow> int \<Rightarrow> CBlockIndex option \<Rightarrow> (reject option \<times> evo_state) option" where
  "ContextualCheckBlock env c st block nBlockTime pindexPrev =
     (let p = consensus env;
          nHeight = (case pindexPrev of None \<Rightarrow> 0 | Some i \<Rightarrow> bi_nHeight i + 1);
          nLockTimeCutoff = (case pindexPrev of
             Some i \<Rightarrow> if nCSVEnabled c then GetMedianTimePast i else nBlockTime | None \<Rightarrow> nBlockTime);
          expect = push_int64 nHeight;
          coinbaseTx = hd (vtx block)
      in case first_error
          [(chainlock_conflict c block pindexPrev nHeight, invalid 100 ''bad-block-chainlock-conflict''),
           (\<not> list_all (\<lambda>tx. IsFinalTx tx nHeight nLockTimeCutoff) (vtx block), invalid 10 ''bad-txns-nonfinal''),
           (nBIP34Enabled c \<and> take (length expect) (scriptSig (hd (vin coinbaseTx))) \<noteq> expect, invalid 100 ''bad-cb-height'')] of
        Some e \<Rightarrow> Some (Some e, st)
      | None \<Rightarrow>
         (if IsMasternodePaymentEnforced p (MineBlocksOnDemand env) nHeight \<and> pindexPrev \<noteq> None then
            (case Manager_GetMNPayee env st pindexPrev of
              None \<Rightarrow> None
            | Some (None, st) \<Rightarrow> Some (None, st)
            | Some (Some expectedPayee, st) \<Rightarrow> Some (check_mn_payment p nHeight expectedPayee (vout coinbaseTx), st))
          else Some (None, st)))"

section \<open>What the miner pays\<close>

definition coinbase_outputs :: "Params \<Rightarrow> int \<Rightarrow> CAmount \<Rightarrow> CScript \<Rightarrow> CDeterministicMN option \<Rightarrow> CTxOut list" where
  "coinbase_outputs p nHeight nFees scriptPubKeyIn payee =
     (let nBlockSubsidy = GetBlockSubsidy nHeight p;
          nDevAllocation = GetDevAllocation nHeight nBlockSubsidy;
          devScript = GetDevScriptForHeight nHeight;
          nTotalMNPayment = (case payee of None \<Rightarrow> 0 | Some mn \<Rightarrow> mn_payment p nHeight);
          nOperatorPayment = (case payee of None \<Rightarrow> 0 | Some mn \<Rightarrow> operator_payment nTotalMNPayment mn);
          nMasternodePayment = nTotalMNPayment - nOperatorPayment;
          nMinerReward = nBlockSubsidy - nDevAllocation - nMasternodePayment - nOperatorPayment + nFees
      in [\<lparr>nValue = nMinerReward, scriptPubKey = scriptPubKeyIn\<rparr>, \<lparr>nValue = nDevAllocation, scriptPubKey = devScript\<rparr>] @
         (case payee of
           None \<Rightarrow> []
         | Some mn \<Rightarrow> \<lparr>nValue = nMasternodePayment, scriptPubKey = scriptPayout (mn_state mn)\<rparr> #
             (if nOperatorPayment > 0
              then [\<lparr>nValue = nOperatorPayment, scriptPubKey = scriptOperatorPayout (mn_state mn)\<rparr>] else [])))"

definition COutPoint_null :: COutPoint where "COutPoint_null = OutPoint uint256_null (- 1)"

text \<open>The coinbase before \<open>GenerateCoinbaseCommitment\<close> adds its output; \<open>None\<close> is a failed assertion.\<close>

definition create_coinbase ::
  "evo_env \<Rightarrow> evo_state \<Rightarrow> CBlockIndex \<Rightarrow> CAmount \<Rightarrow> CScript \<Rightarrow> (CMutableTransaction \<times> evo_state) option" where
  "create_coinbase env st pindexPrev nFees scriptPubKeyIn =
     (let p = consensus env; nHeight = bi_nHeight pindexPrev + 1
      in case (if IsMasternodePaymentEnforced p (MineBlocksOnDemand env) nHeight
               then Manager_GetMNPayee env st (Some pindexPrev) else Some (None, st)) of
           None \<Rightarrow> None
         | Some (payee, st) \<Rightarrow> Some
            (\<lparr>vin = [\<lparr>prevout = COutPoint_null, scriptSig = push_int64 nHeight @ [OP_0], nSequence = SEQUENCE_FINAL,
                scriptWitness = []\<rparr>],
              vout = coinbase_outputs p nHeight nFees scriptPubKeyIn payee, nVersion = 2, nType = 0, nLockTime = 0,
              vExtraPayload = []\<rparr>, st))"

section \<open>Bounds\<close>

lemma sdiv_nonneg: "0 \<le> a \<Longrightarrow> 0 < b \<Longrightarrow> a sdiv b = a div (b :: int)"
  by (cases "a = 0") (simp_all add: signed_divide_int_def)

definition halved :: "nat \<Rightarrow> int" where "halved k = 5000 * COIN div 2 ^ k"

lemma halved_zero: "64 \<le> k \<Longrightarrow> halved k = 0"
proof -
  assume "64 \<le> k"
  then have "(2::int) ^ 64 \<le> 2 ^ k" by (rule power_increasing) simp
  then show ?thesis unfolding halved_def COIN_def by (intro div_pos_pos_trivial) simp_all
qed

lemma GetBlockSubsidy_halved:
  assumes "0 < nSubsidyHalvingInterval p"
  shows "GetBlockSubsidy (int h) p = halved (h div nat (nSubsidyHalvingInterval p))"
proof -
  define i where "i = nat (nSubsidyHalvingInterval p)"
  have i: "nSubsidyHalvingInterval p = int i" "0 < i" using assms by (simp_all add: i_def)
  have d: "int h sdiv int i = int (h div i)" using i(2) by (simp add: sdiv_nonneg zdiv_int)
  show ?thesis
    unfolding GetBlockSubsidy_def i(1) nat_int Let_def d
    using halved_zero [of "h div i"] by (auto simp: halved_def drop_bit_eq_div)
qed

lemma halved_bounds: "0 \<le> halved k" "halved k \<le> 5000 * COIN" "2 * halved (Suc k) \<le> halved k"
proof -
  show "0 \<le> halved k" unfolding halved_def by (rule div_int_pos_iff [THEN iffD2]) (simp add: COIN_def)
  show "halved k \<le> 5000 * COIN" using zdiv_mono2 [of "5000 * COIN" 1 "2 ^ k"] by (simp add: halved_def COIN_def)
  have "halved (Suc k) = halved k div 2" unfolding halved_def power_Suc2 by (rule zdiv_zmult2_eq) simp
  then show "2 * halved (Suc k) \<le> halved k" by simp
qed

lemma halved_sum: "(\<Sum>j<k. halved j) \<le> 2 * (5000 * COIN) - 2 * halved k"
proof (induction k)
  case 0
  then show ?case by (simp add: halved_def)
next
  case (Suc k)
  then show ?case using halved_bounds(3) [of k] by simp
qed

lemma subsidy_bounds:
  assumes "0 < nSubsidyHalvingInterval p" and "0 \<le> h"
  shows "0 \<le> GetBlockSubsidy h p \<and> GetBlockSubsidy h p \<le> 5000 * COIN"
  using GetBlockSubsidy_halved [OF assms(1), of "nat h"] assms(2) halved_bounds by simp

text \<open>All the subsidies there will ever be.\<close>

lemma subsidy_total:
  assumes "0 < nSubsidyHalvingInterval p"
  shows "(\<Sum>h<n. GetBlockSubsidy (int h) p) \<le> nSubsidyHalvingInterval p * (2 * (5000 * COIN))"
proof -
  define i where "i = nat (nSubsidyHalvingInterval p)"
  have i: "nSubsidyHalvingInterval p = int i" "0 < i" using assms by (simp_all add: i_def)
  define k where "k = Suc (n div i)"
  have "n \<le> k * i" using dividend_less_times_div [OF i(2), of n] by (simp add: k_def algebra_simps)
  then have "(\<Sum>h<n. halved (h div i)) \<le> (\<Sum>h<k * i. halved (h div i))"
    by (intro sum_mono2) (auto simp: halved_bounds)
  also have "\<dots> = (\<Sum>q<k. sum (\<lambda>h. halved (h div i)) {q * i..<q * i + i})" by (rule sum.nat_group [symmetric])
  also have "\<dots> = (\<Sum>q<k. int i * halved q)"
  proof (rule sum.cong [OF refl])
    fix q
    have "halved (h div i) = halved q" if "h \<in> {q * i..<q * i + i}" for h
      using that i(2) div_nat_eqI [of i q h] by (simp add: mult.commute)
    then have "sum (\<lambda>h. halved (h div i)) {q * i..<q * i + i} = (\<Sum>h\<in>{q * i..<q * i + i}. halved q)" by (rule sum.cong [OF refl])
    then show "sum (\<lambda>h. halved (h div i)) {q * i..<q * i + i} = int i * halved q" by simp
  qed
  also have "\<dots> = int i * (\<Sum>q<k. halved q)" by (simp add: sum_distrib_left)
  also have "\<dots> \<le> int i * (2 * (5000 * COIN))"
    using halved_sum [of k] halved_bounds(1) [of k] by (intro mult_left_mono) linarith+
  finally show ?thesis using GetBlockSubsidy_halved [OF assms] i by simp
qed

section \<open>The miner's coinbase under the validator's rules\<close>

definition reward_params :: "Params \<Rightarrow> bool" where
  "reward_params p \<longleftrightarrow> 0 < nSubsidyHalvingInterval p \<and> 0 \<le> nMasternodeRewardPercent p \<and> nMasternodeRewardPercent p \<le> 97"

lemma reward_shares:
  assumes "reward_params p" and "0 \<le> h"
  shows "0 \<le> GetDevAllocation h (GetBlockSubsidy h p)" and "0 \<le> mn_payment p h"
    and "GetDevAllocation h (GetBlockSubsidy h p) + mn_payment p h \<le> GetBlockSubsidy h p"
proof -
  let ?s = "GetBlockSubsidy h p" and ?c = "nMasternodeRewardPercent p"
  have s: "0 \<le> ?s" and c: "0 \<le> ?c" "?c \<le> 97" using subsidy_bounds assms by (auto simp: reward_params_def)
  have d: "GetDevAllocation h ?s = ?s * 3 div 100" "mn_payment p h = ?s * ?c div 100"
    using s c by (simp_all add: GetDevAllocation_def DEV_FEE_PERCENT_def mn_payment_def sdiv_nonneg)
  show "0 \<le> GetDevAllocation h ?s" "0 \<le> mn_payment p h" using d s c by (simp_all add: pos_imp_zdiv_nonneg_iff)
  have "?s * ?c \<le> ?s * 97" using s c by (intro mult_left_mono)
  then have "?s * ?c div 100 \<le> ?s * 97 div 100" by (intro zdiv_mono1) simp_all
  then show "GetDevAllocation h ?s + mn_payment p h \<le> ?s" unfolding d by linarith
qed

lemma operator_payment_bounds:
  assumes "0 \<le> t" and "uint (nOperatorReward mn) \<le> 10000"
  shows "0 \<le> operator_payment t mn \<and> operator_payment t mn \<le> t"
proof -
  have "t * uint (nOperatorReward mn) \<le> t * 10000" using assms by (intro mult_left_mono)
  then have "t * uint (nOperatorReward mn) div 10000 \<le> t" by linarith
  then show ?thesis using assms(1) by (auto simp: operator_payment_def sdiv_nonneg pos_imp_zdiv_nonneg_iff)
qed

lemma dev_script_valid: "IsValidDevScript s h \<longleftrightarrow> s = GetDevScriptForHeight h"
  by (simp add: IsValidDevScript_def GetDevScriptForHeight_def IsDevScriptMultisigInitialized_def)

lemma template_dev_allocation:
  assumes "scriptPubKeyIn \<noteq> GetDevScriptForHeight h"
  shows "check_dev_allocation p h (coinbase_outputs p h nFees scriptPubKeyIn payee @ extra) = None"
  using assms by (simp add: check_dev_allocation_def coinbase_outputs_def dev_script_valid Let_def)

lemma template_mn_payment:
  assumes "operator_payment (mn_payment p h) mn = 0"
  shows "check_mn_payment p h mn (coinbase_outputs p h nFees scriptPubKeyIn (Some mn) @ extra) = None"
  using assms by (simp add: check_mn_payment_def coinbase_outputs_def Let_def)

lemma value_out_bound:
  assumes "0 \<le> a" and "\<forall>out\<in>set outs. 0 \<le> nValue out" and "a + sum_list (map nValue outs) \<le> MAX_MONEY"
  shows "\<exists>v. value_out_from ev a outs = Some v \<and> a \<le> v \<and> v \<le> a + sum_list (map nValue outs)"
  using assms
proof (induction outs arbitrary: a)
  case (Cons out outs)
  have nn: "0 \<le> nValue out" "0 \<le> sum_list (map nValue outs)"
    using Cons.prems(2) by (auto intro!: sum_list_nonneg)
  show ?case
  proof (cases "\<not> ev \<and> IsAssetScript (scriptPubKey out) \<noteq> None")
    case True
    moreover have "\<exists>v. value_out_from ev a outs = Some v \<and> a \<le> v \<and> v \<le> a + sum_list (map nValue outs)"
      by (rule Cons.IH) (use Cons.prems nn in auto)
    ultimately show ?thesis using nn by fastforce
  next
    case False
    moreover have "\<exists>v. value_out_from ev (a + nValue out) outs = Some v \<and> a + nValue out \<le> v \<and>
        v \<le> a + nValue out + sum_list (map nValue outs)"
      by (rule Cons.IH) (use Cons.prems nn in auto)
    moreover have "MoneyRange (nValue out)" "MoneyRange (a + nValue out)"
      using Cons.prems nn by (auto simp: MoneyRange_def)
    ultimately show ?thesis using nn by (auto simp: Let_def)
  qed
qed simp

lemma template_values:
  assumes "reward_params p" and "0 \<le> h" and "0 \<le> nFees"
    and "\<And>mn. payee = Some mn \<Longrightarrow> uint (nOperatorReward mn) \<le> 10000"
  shows "\<forall>out\<in>set (coinbase_outputs p h nFees spk payee). 0 \<le> nValue out"
    and "sum_list (map nValue (coinbase_outputs p h nFees spk payee)) = GetBlockSubsidy h p + nFees"
proof -
  note r = reward_shares [OF assms(1,2)]
  have o: "0 \<le> operator_payment (mn_payment p h) mn \<and> operator_payment (mn_payment p h) mn \<le> mn_payment p h"
    if "payee = Some mn" for mn by (rule operator_payment_bounds [OF r(2) assms(4) [OF that]])
  show "\<forall>out\<in>set (coinbase_outputs p h nFees spk payee). 0 \<le> nValue out"
    using r o assms(3) by (cases payee) (auto simp: coinbase_outputs_def Let_def)
  show "sum_list (map nValue (coinbase_outputs p h nFees spk payee)) = GetBlockSubsidy h p + nFees"
    using o by (cases payee) (auto simp: coinbase_outputs_def Let_def)
qed

lemma create_coinbase_Some:
  assumes "create_coinbase env st i nFees spk = Some (cb, st')" and "Manager_GetMNPayee env st (Some i) = Some (payee, st1)"
  shows "\<exists>pay. pay = (if IsMasternodePaymentEnforced (consensus env) (MineBlocksOnDemand env) (bi_nHeight i + 1) then payee else None) \<and>
    vout cb = coinbase_outputs (consensus env) (bi_nHeight i + 1) nFees spk pay \<and> nLockTime cb = 0 \<and>
    map scriptSig (vin cb) = [push_int64 (bi_nHeight i + 1) @ [OP_0]] \<and>
    st' = (if IsMasternodePaymentEnforced (consensus env) (MineBlocksOnDemand env) (bi_nHeight i + 1) then st1 else st)"
  using assms by (auto simp: create_coinbase_def Let_def split: if_splits)

text \<open>What \<open>ContextualCheckBlock\<close> says of a block with the template's coinbase.\<close>

lemma template_contextual:
  assumes "create_coinbase env st i nFees spk = Some (cb, st')" and "vtx block = tx # txs"
    and "map scriptSig (vin tx) = map scriptSig (vin cb)" "nLockTime tx = nLockTime cb"
    and "list_all (\<lambda>t. IsFinalTx t (bi_nHeight i + 1) (if nCSVEnabled c then GetMedianTimePast i else nBlockTime)) txs"
    and "\<not> chainlock_conflict c block (Some i) (bi_nHeight i + 1)"
    and "Manager_GetMNPayee env st (Some i) = Some (payee, st1)"
  shows "ContextualCheckBlock env c st block nBlockTime (Some i) = Some
    (if IsMasternodePaymentEnforced (consensus env) (MineBlocksOnDemand env) (bi_nHeight i + 1)
     then case payee of None \<Rightarrow> None | Some mn \<Rightarrow> check_mn_payment (consensus env) (bi_nHeight i + 1) mn (vout tx)
     else None, st')"
proof -
  note cb = create_coinbase_Some [OF assms(1,7)]
  have "IsFinalTx tx h t" for h t using cb assms(4) by (simp add: IsFinalTx_def)
  moreover have "scriptSig (hd (vin tx)) = push_int64 (bi_nHeight i + 1) @ [OP_0]" using cb assms(3) by (cases "vin tx") auto
  ultimately show ?thesis using cb assms
    by (simp add: ContextualCheckBlock_def Let_def split: option.splits)
qed

lemma template_passes:
  assumes "create_coinbase env st i nFees spk = Some (cb, st')" and "vtx block = tx # txs"
    and "map scriptSig (vin tx) = map scriptSig (vin cb)" "nLockTime tx = nLockTime cb" "vout tx = vout cb @ commitment"
    and "list_all (\<lambda>out. nValue out = 0) commitment"
    and "list_all (\<lambda>t. IsFinalTx t (bi_nHeight i + 1) (if nCSVEnabled c then GetMedianTimePast i else nBlockTime)) txs"
    and "\<not> chainlock_conflict c block (Some i) (bi_nHeight i + 1)"
    and "Manager_GetMNPayee env st (Some i) = Some (payee, st1)"
    and op: "payee = None \<or> operator_payment (mn_payment (consensus env) (bi_nHeight i + 1)) (the payee) = 0 \<and> uint (nOperatorReward (the payee)) \<le> 10000"
    and "spk \<noteq> GetDevScriptForHeight (bi_nHeight i + 1)" and "reward_params (consensus env)" and "0 \<le> bi_nHeight i" and "0 \<le> nFees"
    and "GetBlockSubsidy (bi_nHeight i + 1) (consensus env) + nFees \<le> MAX_MONEY"
  shows "ContextualCheckBlock env c st block nBlockTime (Some i) = Some (None, st') \<and>
    check_dev_allocation (consensus env) (bi_nHeight i + 1) (vout tx) = None \<and>
    check_coinbase_value (consensus env) ev (bi_nHeight i + 1) nFees tx = None"
proof (intro conjI)
  let ?p = "consensus env" and ?h = "bi_nHeight i + 1"
  obtain pay where pay: "pay = (if IsMasternodePaymentEnforced ?p (MineBlocksOnDemand env) ?h then payee else None)"
    and outs: "vout tx = coinbase_outputs ?p ?h nFees spk pay @ commitment"
    using create_coinbase_Some [OF assms(1,9)] assms(5) by auto
  show "ContextualCheckBlock env c st block nBlockTime (Some i) = Some (None, st')"
    unfolding template_contextual [OF assms(1-4,7-9)] outs pay
    using op template_mn_payment [of ?p ?h "the payee" nFees spk commitment] by (auto split: option.splits)
  show "check_dev_allocation ?p ?h (vout tx) = None"
    unfolding outs by (rule template_dev_allocation [OF assms(11)])
  have h: "0 \<le> ?h" and r: "uint (nOperatorReward mn) \<le> 10000" if "pay = Some mn" for mn
    using assms(13) op that pay by (auto split: if_splits)
  have z: "sum_list (map nValue commitment) = 0" "\<forall>out\<in>set commitment. 0 \<le> nValue out"
    using assms(6) by (induction commitment) auto
  have "\<forall>out\<in>set (coinbase_outputs ?p ?h nFees spk pay). 0 \<le> nValue out"
    "sum_list (map nValue (coinbase_outputs ?p ?h nFees spk pay)) = GetBlockSubsidy ?h ?p + nFees"
    using template_values [OF assms(12) _ assms(14), of ?h pay spk] assms(13) r by auto
  then have "\<exists>v. GetValueOut ev tx = Some v \<and> v \<le> GetBlockSubsidy ?h ?p + nFees"
    unfolding GetValueOut_def using value_out_bound [of 0 "vout tx" ev] z assms(15) by (auto simp: outs)
  then show "check_coinbase_value ?p ev ?h nFees tx = None" by (auto simp: check_coinbase_value_def Let_def)
qed

text \<open>With an operator's share the validator refuses the block its own assembler builds.\<close>

lemma operator_template_fails:
  assumes "create_coinbase env st i nFees spk = Some (cb, st')" and "vtx block = tx # txs"
    and "map scriptSig (vin tx) = map scriptSig (vin cb)" "nLockTime tx = nLockTime cb" "vout tx = vout cb @ commitment"
    and "list_all (\<lambda>out. nValue out = 0) commitment"
    and "list_all (\<lambda>t. IsFinalTx t (bi_nHeight i + 1) (if nCSVEnabled c then GetMedianTimePast i else nBlockTime)) txs"
    and "\<not> chainlock_conflict c block (Some i) (bi_nHeight i + 1)"
    and "Manager_GetMNPayee env st (Some i) = Some (Some mn, st1)"
    and "IsMasternodePaymentEnforced (consensus env) (MineBlocksOnDemand env) (bi_nHeight i + 1)"
    and "operator_payment (mn_payment (consensus env) (bi_nHeight i + 1)) mn > 0" and "mn_payment (consensus env) (bi_nHeight i + 1) > 0"
    and "scriptPayout (mn_state mn) \<notin> {spk, GetDevScriptForHeight (bi_nHeight i + 1), scriptOperatorPayout (mn_state mn)}"
  shows "ContextualCheckBlock env c st block nBlockTime (Some i) = Some (Some (DoS 100 REJECT_INVALID ''bad-cb-mn-payment''), st')"
proof -
  let ?p = "consensus env" and ?h = "bi_nHeight i + 1"
  have outs: "vout tx = coinbase_outputs ?p ?h nFees spk (Some mn) @ commitment"
    using create_coinbase_Some [OF assms(1,9)] assms(5,10) by auto
  have "list_all (\<lambda>out. \<not> (nValue out \<ge> mn_payment ?p ?h)) commitment"
    using assms(6,12) by (auto simp: list_all_iff)
  then have "check_mn_payment ?p ?h mn (vout tx) = Some (DoS 100 REJECT_INVALID ''bad-cb-mn-payment'')"
    using assms(11,13) by (auto simp: outs check_mn_payment_def coinbase_outputs_def Let_def list_ex_iff list_all_iff)
  then show ?thesis unfolding template_contextual [OF assms(1-4,7-9)] using assms(10) by simp
qed

end
