(* ===== verification/ConnectBlock.thy ===== *)
theory ConnectBlock
  imports BlockReward
begin

text \<open>
  Connecting a block to the coins and disconnecting it again, src/src/validation.cpp: the checks of a block
  by itself (\<open>CheckBlock\<close>, \<open>CheckTransaction\<close>), \<open>ConnectBlock\<close> with the special transactions, the fees, the
  coinbase and the development allocation, and \<open>DisconnectBlock\<close> with the undo data.

  Of the transaction checks those that concern assets are left out; every one modelled here must pass
  for a transaction to be accepted.  \<open>other_checks\<close> stands for what \<open>ConnectBlock\<close> tests of a transaction
  besides the coins: assets, signature operations and scripts.
\<close>

section \<open>A block by itself\<close>

definition GetMaxBlockWeight :: nat where "GetMaxBlockWeight = 8000000"
definition MAX_BLOCK_SIGOPS_COST :: int where "MAX_BLOCK_SIGOPS_COST = 80000"

fun check_outputs :: "CAmount \<Rightarrow> CTxOut list \<Rightarrow> reject option" where
  "check_outputs nValueOut [] = None"
| "check_outputs nValueOut (txout # outs) =
     (if nValue txout < 0 then Some (invalid 100 ''bad-txns-vout-negative'')
      else if nValue txout > MAX_MONEY then Some (invalid 100 ''bad-txns-vout-toolarge'')
      else if \<not> MoneyRange (nValueOut + nValue txout) then Some (invalid 100 ''bad-txns-txouttotal-toolarge'')
      else check_outputs (nValueOut + nValue txout) outs)"

definition CheckTransaction :: "'a CMutableTransaction_scheme \<Rightarrow> bool \<Rightarrow> reject option" where
  "CheckTransaction tx fCheckDuplicateInputs =
     (if vin tx = [] then Some (invalid 10 ''bad-txns-vin-empty'')
      else if vout tx = [] then Some (invalid 10 ''bad-txns-vout-empty'')
      else if length (SerializeTransaction False tx) * 4 > GetMaxBlockWeight then Some (invalid 100 ''bad-txns-oversize'')
      else case check_outputs 0 (vout tx) of
        Some e \<Rightarrow> Some e
      | None \<Rightarrow>
         if fCheckDuplicateInputs \<and> \<not> distinct (map prevout (vin tx)) then Some (invalid 100 ''bad-txns-inputs-duplicate'')
         else if IsCoinBase tx then
           (if length (scriptSig (vin tx ! 0)) < 2 \<or> length (scriptSig (vin tx ! 0)) > 100
            then Some (invalid 100 ''bad-cb-length'') else None)
         else if list_ex (\<lambda>txin. COutPoint_IsNull (prevout txin)) (vin tx) then Some (invalid 10 ''bad-txns-prevout-null'')
         else None)"

fun check_txs :: "CTransaction list \<Rightarrow> reject option" where
  "check_txs [] = None"
| "check_txs (tx # txs) = (case CheckTransaction tx True of Some e \<Rightarrow> Some e | None \<Rightarrow> check_txs txs)"

text \<open>\<open>CheckBlock\<close> from the size limits on; \<open>nHeaderSize\<close> is the size of the header.\<close>

definition CheckBlock :: "nat \<Rightarrow> CBlock \<Rightarrow> reject option" where
  "CheckBlock nHeaderSize block =
     (let txs = vtx block;
          size = nHeaderSize + length (Serialize_vector (SerializeTransaction False) txs)
      in if txs = [] \<or> length txs * 4 > GetMaxBlockWeight \<or> size * 4 > GetMaxBlockWeight
           then Some (invalid 100 ''bad-blk-length'')
         else if \<not> IsCoinBase (txs ! 0) then Some (invalid 100 ''bad-cb-missing'')
         else if list_ex IsCoinBase (tl txs) then Some (invalid 100 ''bad-cb-multiple'')
         else case check_txs txs of
           Some e \<Rightarrow> Some e
         | None \<Rightarrow>
            if uint (fold (\<lambda>tx n. n + GetLegacySigOpCount tx) txs 0 * (4 :: u32)) > MAX_BLOCK_SIGOPS_COST
            then Some (invalid 100 ''bad-blk-sigops'') else None)"

section \<open>Connecting\<close>

record connect_params =
  nCoinbaseMaturity :: int
  fAreEnforcedValues :: bool
  hashGenesisBlock :: uint256
  nLockTimeFlags :: int
  other_checks :: "(COutPoint \<Rightarrow> Coin option) \<Rightarrow> CTransaction \<Rightarrow> reject option"

definition coins_tx_error :: "coins_error \<Rightarrow> tx_error" where
  "coins_tx_error e = (case e of assertion_failed \<Rightarrow> Tx_assert | logic_error _ \<Rightarrow> Tx_throw)"

primrec prev_heights :: "CTxIn list \<Rightarrow> CCoinsViewCache \<Rightarrow> int list \<times> CCoinsViewCache" where
  "prev_heights [] k = ([], k)"
| "prev_heights (txin # ins) k =
     (let (coin, k) = Cache_AccessCoin k (prevout txin); (hs, k) = prev_heights ins k
      in (uint (coin_nHeight coin) # hs, k))"

text \<open>The checks of a transaction that is not the coinbase, and the fees with its own.\<close>

definition connect_checks ::
  "connect_params \<Rightarrow> CBlockIndex \<Rightarrow> CTransaction \<Rightarrow> CAmount \<Rightarrow> CCoinsViewCache \<Rightarrow> tx_error + CAmount \<times> CCoinsViewCache" where
  "connect_checks cp pindex tx nFees k =
     (case CheckTxInputs (nCoinbaseMaturity cp) (fAreEnforcedValues cp) tx (bi_nHeight pindex) k of
       (Inl e, k) \<Rightarrow> Inl e
     | (Inr txfee, k) \<Rightarrow>
        if \<not> MoneyRange (nFees + txfee) then Inl (Tx_reject (invalid 100 ''bad-txns-accumulated-fee-outofrange''))
        else (case prev_heights (vin tx) k of
          (hs, k) \<Rightarrow>
           (case SequenceLocks tx (nLockTimeFlags cp) hs pindex of
             None \<Rightarrow> Inl Tx_assert
           | Some False \<Rightarrow> Inl (Tx_reject (invalid 100 ''bad-txns-nonfinal''))
           | Some True \<Rightarrow> Inr (nFees + txfee, k))))"

definition connect_tx ::
  "connect_params \<Rightarrow> CBlockIndex \<Rightarrow> CTransaction \<Rightarrow> CAmount \<Rightarrow> CCoinsViewCache \<Rightarrow>
   tx_error + CTxUndo \<times> CAmount \<times> CCoinsViewCache" where
  "connect_tx cp pindex tx nFees k =
     (case (if \<not> IsCoinBase tx then connect_checks cp pindex tx nFees k else Inr (nFees, k)) of
       Inl e \<Rightarrow> Inl e
     | Inr (nFees, k) \<Rightarrow>
        (case other_checks cp (cache_utxo k) tx of
          Some e \<Rightarrow> Inl (Tx_reject e)
        | None \<Rightarrow>
           (case UpdateCoins tx (bi_nHeight pindex) k of
             Inl e \<Rightarrow> Inl (coins_tx_error e)
           | Inr (undo, k) \<Rightarrow> Inr (undo, nFees, k))))"

text \<open>The undo data has an entry for every transaction but the first.\<close>

fun connect_txs ::
  "connect_params \<Rightarrow> CBlockIndex \<Rightarrow> nat \<Rightarrow> CTransaction list \<Rightarrow> CAmount \<Rightarrow> CCoinsViewCache \<Rightarrow>
   tx_error + CBlockUndo \<times> CAmount \<times> CCoinsViewCache" where
  "connect_txs cp pindex i [] nFees k = Inr ([], nFees, k)"
| "connect_txs cp pindex i (tx # txs) nFees k =
     (case connect_tx cp pindex tx nFees k of
       Inl e \<Rightarrow> Inl e
     | Inr (undo, nFees, k) \<Rightarrow>
        (case connect_txs cp pindex (Suc i) txs nFees k of
          Inl e \<Rightarrow> Inl e
        | Inr (undos, nFees, k) \<Rightarrow> Inr (if i > 0 then undo # undos else undos, nFees, k)))"

definition ConnectBlock ::
  "evo_env \<Rightarrow> connect_params \<Rightarrow> evo_state \<Rightarrow> CBlock \<Rightarrow> CBlockIndex \<Rightarrow> CCoinsViewCache \<Rightarrow> bool \<Rightarrow>
   tx_error + evo_state \<times> CBlockUndo \<times> CCoinsViewCache" where
  "ConnectBlock env cp st block pindex k fJustCheck =
     (let p = consensus env;
          hashPrevBlock = (case bi_pprev pindex of None \<Rightarrow> uint256_null | Some q \<Rightarrow> bi_hash q);
          (best, k) = GetBestBlock k;
          finish = (\<lambda>k. if fJustCheck then k else SetBestBlock (bi_hash pindex) k)
      in if hashPrevBlock \<noteq> best then Inl Tx_assert
         else if blk_hash block = hashGenesisBlock cp then Inr (st, [], finish k)
         else case ProcessSpecialTxsInBlock env st block pindex fJustCheck (Some (\<lambda>x. fst (Cache_AccessCoin k x))) of
           None \<Rightarrow> Inl Tx_assert
         | Some (Some e, st) \<Rightarrow> Inl (Tx_reject e)
         | Some (None, st) \<Rightarrow>
            (case connect_txs cp pindex 0 (vtx block) 0 k of
              Inl e \<Rightarrow> Inl e
            | Inr (undos, nFees, k) \<Rightarrow>
               (case check_coinbase_value p (fAreEnforcedValues cp) (bi_nHeight pindex) nFees (hd (vtx block)) of
                 Some e \<Rightarrow> Inl e
               | None \<Rightarrow>
                  (case check_dev_allocation p (bi_nHeight pindex) (vout (hd (vtx block))) of
                    Some e \<Rightarrow> Inl (Tx_reject e)
                  | None \<Rightarrow> Inr (st, undos, finish k)))))"

section \<open>Disconnecting\<close>

datatype DisconnectResult = DISCONNECT_OK | DISCONNECT_UNCLEAN | DISCONNECT_FAILED

text \<open>The outputs of a transaction are tried one after the other; 36 is the least weight of an output.\<close>

function access_by_txid :: "uint256 \<Rightarrow> nat \<Rightarrow> CCoinsViewCache \<Rightarrow> Coin \<times> CCoinsViewCache" where
  "access_by_txid txid n k =
     (if n < GetMaxBlockWeight div 36 then
        (let (alternate, k) = Cache_AccessCoin k (OutPoint txid (of_nat n))
         in if \<not> Coin_IsSpent alternate then (alternate, k) else access_by_txid txid (Suc n) k)
      else (coinEmpty, k))"
  by pat_completeness auto
termination by (relation "measure (\<lambda>(t, n, k). GetMaxBlockWeight div 36 - n)") auto

declare access_by_txid.simps [simp del]

definition AccessByTxid :: "uint256 \<Rightarrow> CCoinsViewCache \<Rightarrow> Coin \<times> CCoinsViewCache" where
  "AccessByTxid txid k = access_by_txid txid 0 k"

definition ApplyTxInUndo :: "Coin \<Rightarrow> COutPoint \<Rightarrow> CCoinsViewCache \<Rightarrow> coins_error + DisconnectResult \<times> CCoinsViewCache" where
  "ApplyTxInUndo undo out k =
     (let (have, k) = HaveCoin k out;
          fClean = (\<not> have);
          (undo, k) = (if coin_nHeight undo = 0 then
              (let (alternate, k) = AccessByTxid (op_hash out) k
               in if \<not> Coin_IsSpent alternate
                  then (Some (undo\<lparr>coin_nHeight := coin_nHeight alternate, coin_fCoinBase := coin_fCoinBase alternate\<rparr>), k)
                  else (None, k))
            else (Some undo, k))
      in case undo of
           None \<Rightarrow> Inr (DISCONNECT_FAILED, k)
         | Some undo \<Rightarrow>
            (case AddCoin out undo (\<not> fClean) k of
              Inl e \<Rightarrow> Inl e
            | Inr k \<Rightarrow> Inr (if fClean then DISCONNECT_OK else DISCONNECT_UNCLEAN, k)))"

primrec undo_outputs :: "uint256 \<Rightarrow> int \<Rightarrow> bool \<Rightarrow> CTxOut list \<Rightarrow> nat \<Rightarrow> bool \<Rightarrow> CCoinsViewCache \<Rightarrow> bool \<times> CCoinsViewCache" where
  "undo_outputs hash nHeight is_coinbase [] i fClean k = (fClean, k)"
| "undo_outputs hash nHeight is_coinbase (out # outs) i fClean k =
     (if \<not> IsUnspendable (scriptPubKey out) then
        (case SpendCoin (OutPoint hash (of_nat i)) k of
          (r, k) \<Rightarrow>
            undo_outputs hash nHeight is_coinbase outs (Suc i)
              (fClean \<and> (case r of None \<Rightarrow> False
                | Some coin \<Rightarrow> out = coin_out coin \<and> nHeight = uint (coin_nHeight coin) \<and> is_coinbase = coin_fCoinBase coin)) k)
      else undo_outputs hash nHeight is_coinbase outs (Suc i) fClean k)"

text \<open>The inputs and their coins, both in reverse.\<close>

fun undo_inputs :: "(CTxIn \<times> Coin) list \<Rightarrow> bool \<Rightarrow> CCoinsViewCache \<Rightarrow> coins_error + (bool \<times> CCoinsViewCache) option" where
  "undo_inputs [] fClean k = Inr (Some (fClean, k))"
| "undo_inputs ((txin, undo) # ins) fClean k =
     (case ApplyTxInUndo undo (prevout txin) k of
       Inl e \<Rightarrow> Inl e
     | Inr (res, k) \<Rightarrow>
        if res = DISCONNECT_FAILED then Inr None
        else undo_inputs ins (fClean \<and> res \<noteq> DISCONNECT_UNCLEAN) k)"

definition undo_tx ::
  "int \<Rightarrow> CTransaction \<Rightarrow> CTxUndo option \<Rightarrow> bool \<Rightarrow> CCoinsViewCache \<Rightarrow> coins_error + (bool \<times> CCoinsViewCache) option" where
  "undo_tx nHeight tx txundo fClean k =
     (case undo_outputs (tx_hash tx) nHeight (IsCoinBase tx) (vout tx) 0 fClean k of
       (fClean, k) \<Rightarrow>
         (case txundo of
           None \<Rightarrow> Inr (Some (fClean, k))
         | Some vprevout \<Rightarrow>
             if length vprevout \<noteq> length (vin tx) then Inr None
             else undo_inputs (rev (zip (vin tx) vprevout)) fClean k))"

text \<open>The transactions with their undo data, the last first; the coinbase has none.\<close>

fun undo_txs ::
  "int \<Rightarrow> (CTransaction \<times> CTxUndo option) list \<Rightarrow> bool \<Rightarrow> CCoinsViewCache \<Rightarrow> coins_error + (bool \<times> CCoinsViewCache) option" where
  "undo_txs nHeight [] fClean k = Inr (Some (fClean, k))"
| "undo_txs nHeight ((tx, txundo) # txs) fClean k =
     (case undo_tx nHeight tx txundo fClean k of
       Inl e \<Rightarrow> Inl e
     | Inr None \<Rightarrow> Inr None
     | Inr (Some (fClean, k)) \<Rightarrow> undo_txs nHeight txs fClean k)"

text \<open>\<open>blockUndo\<close> is what \<open>UndoReadFromDisk\<close> reads, \<open>None\<close> where it fails; a null \<open>pprev\<close> is a failed assertion.\<close>

definition DisconnectBlock ::
  "CBlock \<Rightarrow> CBlockIndex \<Rightarrow> CBlockUndo option \<Rightarrow> CCoinsViewCache \<Rightarrow> coins_error + DisconnectResult \<times> CCoinsViewCache" where
  "DisconnectBlock block pindex blockUndo k =
     (case blockUndo of
       None \<Rightarrow> Inr (DISCONNECT_FAILED, k)
     | Some vtxundo \<Rightarrow>
        if length vtxundo + 1 \<noteq> length (vtx block) then Inr (DISCONNECT_FAILED, k)
        else (case undo_txs (bi_nHeight pindex) (rev (zip (vtx block) (None # map Some vtxundo))) True k of
          Inl e \<Rightarrow> Inl e
        | Inr None \<Rightarrow> Inr (DISCONNECT_FAILED, k)
        | Inr (Some (fClean, k)) \<Rightarrow>
           (case bi_pprev pindex of
             None \<Rightarrow> Inl assertion_failed
           | Some p \<Rightarrow> Inr (if fClean then DISCONNECT_OK else DISCONNECT_UNCLEAN, SetBestBlock (bi_hash p) k))))"

section \<open>Undoing a transaction\<close>

text \<open>The coins of a chain: none is unspendable, and none is of the genesis block.\<close>

definition coins_ok :: "(COutPoint \<Rightarrow> Coin option) \<Rightarrow> bool" where
  "coins_ok m \<longleftrightarrow> (\<forall>x coin. m x = Some coin \<longrightarrow> \<not> IsUnspendable (scriptPubKey (coin_out coin)) \<and> coin_nHeight coin \<noteq> 0)"

definition spendable_at :: "CTxOut list \<Rightarrow> nat \<Rightarrow> u32 \<Rightarrow> bool" where
  "spendable_at outs i n \<longleftrightarrow> i \<le> unat n \<and> unat n < i + length outs \<and> \<not> IsUnspendable (scriptPubKey (outs ! (unat n - i)))"

lemma spendable_at_Cons:
  assumes "i < 2 ^ 32"
  shows "spendable_at (out # outs) i n \<longleftrightarrow>
    (n = of_nat i \<and> \<not> IsUnspendable (scriptPubKey out)) \<or> spendable_at outs (Suc i) n"
proof -
  have "n = of_nat i \<longleftrightarrow> unat n = i" using assms by (auto simp: unat_of_nat_small)
  moreover have "(out # outs) ! (unat n - i) = outs ! (unat n - Suc i)" if "i < unat n"
    using that by (metis Suc_diff_Suc nth_Cons_Suc)
  ultimately show ?thesis unfolding spendable_at_def
    by (cases "unat n = i") (auto simp: not_less_eq_eq Suc_le_eq)
qed

lemma outputs_map_at:
  assumes "i + length outs < 2 ^ 32"
  shows "outputs_map txid h cb outs i m (OutPoint t n) =
    (if t = txid \<and> spendable_at outs i n then Some (mk_coin (outs ! (unat n - i)) h cb) else m (OutPoint t n))"
  using assms
proof (induction outs arbitrary: i m)
  case Nil
  then show ?case by (auto simp: spendable_at_def)
next
  case (Cons out outs)
  have i: "i < 2 ^ 32" using Cons.prems by simp
  have u: "unat (of_nat i :: u32) = i" using i by (simp add: unat_of_nat_small)
  have s: "(out # outs) ! (unat n - i) = outs ! (unat n - Suc i)" if "spendable_at outs (Suc i) n"
    using that by (metis spendable_at_def Suc_diff_Suc Suc_le_lessD nth_Cons_Suc)
  have no: "\<not> spendable_at outs (Suc i) (of_nat i)" using u by (simp add: spendable_at_def)
  show ?case
    using Cons.IH [of "Suc i"] Cons.prems s no u by (auto simp: spendable_at_Cons [OF i])
qed

primrec erase_outputs :: "uint256 \<Rightarrow> CTxOut list \<Rightarrow> nat \<Rightarrow> (COutPoint \<Rightarrow> Coin option) \<Rightarrow> COutPoint \<Rightarrow> Coin option" where
  "erase_outputs txid [] i m = m"
| "erase_outputs txid (out # outs) i m =
     erase_outputs txid outs (Suc i) (if IsUnspendable (scriptPubKey out) then m else m(OutPoint txid (of_nat i) := None))"

lemma erase_outputs_at:
  assumes "i + length outs < 2 ^ 32"
  shows "erase_outputs txid outs i m (OutPoint t n) =
    (if t = txid \<and> spendable_at outs i n then None else m (OutPoint t n))"
  using assms
proof (induction outs arbitrary: i m)
  case Nil
  then show ?case by (auto simp: spendable_at_def)
next
  case (Cons out outs)
  have i: "i < 2 ^ 32" using Cons.prems by simp
  show ?case using Cons.IH [of "Suc i"] Cons.prems by (auto simp: spendable_at_Cons [OF i])
qed

lemma erase_outputs_map:
  assumes "length outs < 2 ^ 32" and "txid_free txid m"
  shows "erase_outputs txid outs 0 (outputs_map txid h cb outs 0 m) = m"
proof
  fix x
  show "erase_outputs txid outs 0 (outputs_map txid h cb outs 0 m) x = m x"
    using assms by (cases x) (auto simp: erase_outputs_at outputs_map_at txid_free_def)
qed

lemma mk_coin_height: "0 \<le> h \<Longrightarrow> h < 2 ^ 31 \<Longrightarrow> uint (coin_nHeight (mk_coin out h cb)) = h"
  by (simp add: mk_coin_def uint_word_of_int)

lemma undo_outputs_utxo:
  assumes "cache_ok k" and "i + length outs < 2 ^ 32" and "0 \<le> h" and "h < 2 ^ 31"
    and "\<And>n. spendable_at outs i n \<Longrightarrow> cache_utxo k (OutPoint txid n) = Some (mk_coin (outs ! (unat n - i)) h cb)"
  shows "\<exists>k'. undo_outputs txid h cb outs i fClean k = (fClean, k') \<and> cache_ok k' \<and>
    cache_utxo k' = erase_outputs txid outs i (cache_utxo k)"
  using assms
proof (induction outs arbitrary: i k fClean)
  case (Cons out outs)
  have i: "i < 2 ^ 32" using Cons.prems(2) by simp
  have u: "unat (of_nat i :: u32) = i" using i by (simp add: unat_of_nat_small)
  have rest: "\<exists>k'. undo_outputs txid h cb outs (Suc i) fClean k1 = (fClean, k') \<and> cache_ok k' \<and>
      cache_utxo k' = erase_outputs txid outs (Suc i) (cache_utxo k1)"
    if "cache_ok k1" "\<And>n. n \<noteq> of_nat i \<Longrightarrow> cache_utxo k1 (OutPoint txid n) = cache_utxo k (OutPoint txid n)" for k1 fClean
  proof (rule Cons.IH [OF that(1)])
    fix n assume n: "spendable_at outs (Suc i) n"
    then have "n \<noteq> of_nat i" using u by (auto simp: spendable_at_def)
    moreover have "(out # outs) ! (unat n - i) = outs ! (unat n - Suc i)"
      using n by (metis spendable_at_def Suc_diff_Suc Suc_le_lessD nth_Cons_Suc)
    ultimately show "cache_utxo k1 (OutPoint txid n) = Some (mk_coin (outs ! (unat n - Suc i)) h cb)"
      using Cons.prems(5) [of n] that(2) [of n] n by (simp add: spendable_at_Cons [OF i])
  qed (use Cons.prems in auto)
  show ?case
  proof (cases "IsUnspendable (scriptPubKey out)")
    case True
    then show ?thesis using rest [of k fClean] Cons.prems(1) by simp
  next
    case False
    obtain r k1 where s: "SpendCoin (OutPoint txid (of_nat i)) k = (r, k1)" by fastforce
    have "cache_utxo k (OutPoint txid (of_nat i)) = Some (mk_coin out h cb)"
      using Cons.prems(5) [of "of_nat i"] False u by (simp add: spendable_at_Cons [OF i])
    then have k1: "cache_ok k1" "cache_utxo k1 = (cache_utxo k)(OutPoint txid (of_nat i) := None)" "r = Some (mk_coin out h cb)"
      using SpendCoin_utxo [OF Cons.prems(1) s] by auto
    have "coin_out (mk_coin out h cb) = out" "coin_fCoinBase (mk_coin out h cb) = cb" by (simp_all add: mk_coin_def)
    then show ?thesis
      using rest [of k1 fClean] k1 s False mk_coin_height [OF Cons.prems(3,4), of out cb] by auto
  qed
qed simp

lemma ApplyTxInUndo_utxo:
  assumes "cache_ok k" and "cache_utxo k out = None" and "\<not> Coin_IsSpent coin"
    and "\<not> IsUnspendable (scriptPubKey (coin_out coin))" and "coin_nHeight coin \<noteq> 0"
  shows "\<exists>k'. ApplyTxInUndo coin out k = Inr (DISCONNECT_OK, k') \<and> cache_ok k' \<and> cache_utxo k' = (cache_utxo k)(out \<mapsto> coin)"
proof -
  obtain h k1 where h: "HaveCoin k out = (h, k1)" by fastforce
  from HaveCoin_utxo [OF assms(1) h] assms(2) have k1: "\<not> h" "cache_ok k1" "cache_utxo k1 = cache_utxo k" by auto
  have "\<exists>k'. AddCoin out coin False k1 = Inr k' \<and> cache_ok k' \<and> cache_utxo k' = (cache_utxo k1)(out \<mapsto> coin)"
    using AddCoin_utxo [OF k1(2) assms(3), of False out] assms(2,4) k1(3) by simp
  then show ?thesis using h k1 assms(5) by (auto simp: ApplyTxInUndo_def)
qed

definition restore :: "(CTxIn \<times> Coin) list \<Rightarrow> (COutPoint \<Rightarrow> Coin option) \<Rightarrow> COutPoint \<Rightarrow> Coin option" where
  "restore ps m = fold (\<lambda>(txin, coin) m. m(prevout txin \<mapsto> coin)) ps m"

lemma undo_inputs_utxo:
  assumes "cache_ok k" and "distinct (map (prevout \<circ> fst) ps)"
    and "\<forall>(txin, coin)\<in>set ps. cache_utxo k (prevout txin) = None \<and> \<not> Coin_IsSpent coin \<and>
      \<not> IsUnspendable (scriptPubKey (coin_out coin)) \<and> coin_nHeight coin \<noteq> 0"
  shows "\<exists>k'. undo_inputs ps fClean k = Inr (Some (fClean, k')) \<and> cache_ok k' \<and> cache_utxo k' = restore ps (cache_utxo k)"
  using assms
proof (induction ps arbitrary: k)
  case (Cons q ps)
  obtain txin coin where q: "q = (txin, coin)" by fastforce
  obtain k1 where k1: "ApplyTxInUndo coin (prevout txin) k = Inr (DISCONNECT_OK, k1)" "cache_ok k1"
    "cache_utxo k1 = (cache_utxo k)(prevout txin \<mapsto> coin)"
    using ApplyTxInUndo_utxo [OF Cons.prems(1), of "prevout txin" coin] Cons.prems(3) q by auto
  have ne: "prevout (fst r) \<noteq> prevout txin" if "r \<in> set ps" for r
    using that Cons.prems(2) q by (auto simp: image_iff)
  have "\<forall>(txin, coin)\<in>set ps. cache_utxo k1 (prevout txin) = None \<and> \<not> Coin_IsSpent coin \<and>
      \<not> IsUnspendable (scriptPubKey (coin_out coin)) \<and> coin_nHeight coin \<noteq> 0"
    using Cons.prems(3) k1(3) ne by fastforce
  then obtain k' where "undo_inputs ps fClean k1 = Inr (Some (fClean, k'))" "cache_ok k'"
    "cache_utxo k' = restore ps (cache_utxo k1)"
    using Cons.IH [OF k1(2)] Cons.prems(2) by auto
  then show ?case using k1 q by (simp add: restore_def)
qed (simp add: restore_def)

lemma restore_at:
  "distinct (map (prevout \<circ> fst) ps) \<Longrightarrow>
    restore ps m x = (case map_of (map (\<lambda>(txin, coin). (prevout txin, coin)) ps) x of Some coin \<Rightarrow> Some coin | None \<Rightarrow> m x)"
  unfolding restore_def
proof (induction ps arbitrary: m)
  case (Cons q ps)
  obtain txin coin where q: "q = (txin, coin)" by fastforce
  have "map_of (map (\<lambda>(txin, coin). (prevout txin, coin)) ps) (prevout txin) = None"
    using Cons.prems q by (force simp: map_of_eq_None_iff)
  then show ?case using Cons q by (auto split: option.split)
qed simp

text \<open>Spending and restoring the same inputs changes nothing.\<close>

lemma restore_spend:
  assumes "distinct (map prevout ins)" and "\<forall>txin\<in>set ins. m (prevout txin) \<noteq> None"
  shows "restore (rev (zip ins (map (\<lambda>txin. the (m (prevout txin))) ins))) (spend_map ins m) = m"
proof
  fix x
  let ?ps = "zip ins (map (\<lambda>txin. the (m (prevout txin))) ins)"
  have z: "?ps = map (\<lambda>txin. (txin, the (m (prevout txin)))) ins" by (simp add: zip_map2 zip_same_conv_map)
  have d: "distinct (map (prevout \<circ> fst) (rev ?ps))"
    using assms(1) unfolding z by (simp add: comp_def distinct_map flip: rev_map)
  have r: "map (\<lambda>(txin, coin). (prevout txin, coin)) (rev ?ps) = rev (map (\<lambda>txin. (prevout txin, the (m (prevout txin)))) ins)"
    unfolding z by (simp add: rev_map comp_def)
  have "map_of (rev (map (\<lambda>txin. (prevout txin, the (m (prevout txin)))) ins)) =
      map_of (map (\<lambda>txin. (prevout txin, the (m (prevout txin)))) ins)"
    using assms(1) by (intro map_of_inject_set [THEN iffD2]) (simp_all add: comp_def distinct_map flip: rev_map)
  moreover have "map_of (map (\<lambda>txin. (prevout txin, the (m (prevout txin)))) ins) x =
      (if x \<in> prevout ` set ins then Some (the (m x)) else None)" by (induction ins) auto
  ultimately show "restore (rev ?ps) (spend_map ins m) x = m x"
    using assms(2) unfolding restore_at [OF d] r by (auto simp: spend_map_eq)
qed

text \<open>A transaction that fits the coins: its outputs are new and its inputs are there.\<close>

definition tx_fits :: "CTransaction \<Rightarrow> (COutPoint \<Rightarrow> Coin option) \<Rightarrow> bool" where
  "tx_fits tx m \<longleftrightarrow> outs_ok (vout tx) \<and> txid_free (tx_hash tx) m \<and>
     (\<not> IsCoinBase tx \<longrightarrow> distinct (map prevout (vin tx)) \<and> (\<forall>txin\<in>set (vin tx). m (prevout txin) \<noteq> None))"

definition tx_undo :: "CTransaction \<Rightarrow> (COutPoint \<Rightarrow> Coin option) \<Rightarrow> CTxUndo" where
  "tx_undo tx m = (if IsCoinBase tx then [] else map (\<lambda>x. the (m (prevout x))) (vin tx))"

definition tx_undo_entry :: "CTransaction \<Rightarrow> CTxUndo \<Rightarrow> CTxUndo option" where
  "tx_undo_entry tx undo = (if IsCoinBase tx then None else Some undo)"

lemma undo_tx_utxo:
  assumes "cache_ok k" and "cache_utxo k = tx_map tx h m" and "tx_fits tx m" and "0 \<le> h" "h < 2 ^ 31"
    and "coins_ok m" and unspent: "\<And>x coin. m x = Some coin \<Longrightarrow> \<not> Coin_IsSpent coin"
  shows "\<exists>k'. undo_tx h tx (tx_undo_entry tx (tx_undo tx m)) fClean k = Inr (Some (fClean, k')) \<and> cache_ok k' \<and> cache_utxo k' = m"
proof -
  let ?m = "if IsCoinBase tx then m else spend_map (vin tx) m"
  have len: "0 + length (vout tx) < 2 ^ 32" and free: "txid_free (tx_hash tx) ?m"
    using assms(3) by (auto simp: tx_fits_def outs_ok_def txid_free_def spend_map_eq)
  have at: "cache_utxo k (OutPoint (tx_hash tx) n) = Some (mk_coin (vout tx ! (unat n - 0)) h (IsCoinBase tx))"
    if "spendable_at (vout tx) 0 n" for n
    using that outputs_map_at [OF len, of "tx_hash tx" h "IsCoinBase tx" ?m] by (simp add: assms(2) tx_map_def)
  obtain k1 where k1: "undo_outputs (tx_hash tx) h (IsCoinBase tx) (vout tx) 0 fClean k = (fClean, k1)" "cache_ok k1"
    "cache_utxo k1 = erase_outputs (tx_hash tx) (vout tx) 0 (cache_utxo k)"
    using undo_outputs_utxo [OF assms(1) len assms(4,5) at] by blast
  have u1: "cache_utxo k1 = ?m"
    using k1(3) erase_outputs_map [OF _ free] len by (simp add: assms(2) tx_map_def)
  show ?thesis
  proof (cases "IsCoinBase tx")
    case True
    then show ?thesis using k1 u1 by (simp add: undo_tx_def tx_undo_entry_def)
  next
    case False
    let ?ps = "rev (zip (vin tx) (map (\<lambda>x. the (m (prevout x))) (vin tx)))"
    have z: "?ps = rev (map (\<lambda>x. (x, the (m (prevout x)))) (vin tx))" by (simp add: zip_map2 zip_same_conv_map)
    have fits: "distinct (map prevout (vin tx))" "\<forall>txin\<in>set (vin tx). m (prevout txin) \<noteq> None"
      using assms(3) False by (simp_all add: tx_fits_def)
    have "distinct (map (prevout \<circ> fst) ?ps)"
      using fits(1) unfolding z by (simp add: comp_def distinct_map flip: rev_map)
    moreover have "\<forall>(txin, coin)\<in>set ?ps. cache_utxo k1 (prevout txin) = None \<and> \<not> Coin_IsSpent coin \<and>
      \<not> IsUnspendable (scriptPubKey (coin_out coin)) \<and> coin_nHeight coin \<noteq> 0"
      using fits(2) unspent assms(6) u1 False unfolding z by (auto simp: spend_map_eq coins_ok_def)
    ultimately obtain k2 where "undo_inputs ?ps fClean k1 = Inr (Some (fClean, k2))" "cache_ok k2"
      "cache_utxo k2 = restore ?ps (cache_utxo k1)"
      using undo_inputs_utxo [OF k1(2)] by blast
    moreover have "restore ?ps (cache_utxo k1) = m" using restore_spend [OF fits] u1 False by simp
    ultimately show ?thesis using k1 False by (simp add: undo_tx_def tx_undo_entry_def tx_undo_def)
  qed
qed

lemma prev_heights_utxo:
  assumes "cache_ok k" and "prev_heights ins k = (hs, k')"
  shows "same_view k k'"
  using assms
proof (induction ins arbitrary: k hs)
  case (Cons txin ins)
  obtain coin k1 where c: "Cache_AccessCoin k (prevout txin) = (coin, k1)" by fastforce
  obtain hs' k2 where p: "prev_heights ins k1 = (hs', k2)" by fastforce
  show ?case
    using AccessCoin_utxo [OF Cons.prems(1) c] Cons.IH [of k1 hs'] Cons.prems(2) c p by (auto simp: same_view_def)
qed (simp add: same_view_def)

definition inputs_value :: "CTransaction \<Rightarrow> (COutPoint \<Rightarrow> Coin option) \<Rightarrow> CAmount" where
  "inputs_value tx m = sum_list (map (\<lambda>x. coin_value m (prevout x)) (vin tx))"

lemma connect_checks_utxo:
  assumes "cache_ok k" and "connect_checks cp pindex tx nFees k = Inr (nFees', k')" and "\<not> IsCoinBase tx"
  shows "same_view k k' \<and> (\<forall>txin\<in>set (vin tx). cache_utxo k (prevout txin) \<noteq> None) \<and>
    GetValueOut (fAreEnforcedValues cp) tx = Some (inputs_value tx (cache_utxo k) - (nFees' - nFees))"
proof -
  obtain fee k1 hs where c: "CheckTxInputs (nCoinbaseMaturity cp) (fAreEnforcedValues cp) tx (bi_nHeight pindex) k = (Inr fee, k1)"
    "prev_heights (vin tx) k1 = (hs, k')" "nFees' = nFees + fee"
    using assms(2) by (auto simp: connect_checks_def split: prod.splits sum.splits if_splits option.splits bool.splits)
  note u = CheckTxInputs_utxo [OF assms(1) c(1) assms(3)]
  then have "same_view k1 k'" using prev_heights_utxo [OF _ c(2)] by (simp add: same_view_def)
  then show ?thesis using u c(3) by (auto simp: same_view_def inputs_value_def)
qed

lemma connect_tx_utxo:
  assumes "cache_ok k" and "connect_tx cp pindex tx nFees k = Inr (undo, nFees', k')"
    and "outs_ok (vout tx)" and "txid_free (tx_hash tx) (cache_utxo k)" and "distinct (map prevout (vin tx))"
  shows "tx_fits tx (cache_utxo k) \<and> cache_ok k' \<and> cache_utxo k' = tx_map tx (bi_nHeight pindex) (cache_utxo k) \<and>
    undo = tx_undo tx (cache_utxo k) \<and> (if IsCoinBase tx then nFees' = nFees else
      GetValueOut (fAreEnforcedValues cp) tx = Some (inputs_value tx (cache_utxo k) - (nFees' - nFees)))"
proof -
  obtain k1 where c: "(if \<not> IsCoinBase tx then connect_checks cp pindex tx nFees k else Inr (nFees, k)) = Inr (nFees', k1)"
    and u: "UpdateCoins tx (bi_nHeight pindex) k1 = Inr (undo, k')"
    using assms(2) by (auto simp: connect_tx_def split: sum.splits option.splits prod.splits)
  have k1: "cache_ok k1" "cache_utxo k1 = cache_utxo k" "tx_fits tx (cache_utxo k)"
    "if IsCoinBase tx then nFees' = nFees else
      GetValueOut (fAreEnforcedValues cp) tx = Some (inputs_value tx (cache_utxo k) - (nFees' - nFees))"
    using c connect_checks_utxo [OF assms(1)] assms by (auto simp: tx_fits_def same_view_def split: if_splits)
  have "\<exists>k'. UpdateCoins tx (bi_nHeight pindex) k1 = Inr (tx_undo tx (cache_utxo k1), k') \<and> cache_ok k' \<and>
      cache_utxo k' = tx_map tx (bi_nHeight pindex) (cache_utxo k1)"
    unfolding tx_undo_def by (rule UpdateCoins_utxo [OF k1(1)]) (use k1 in \<open>auto simp: tx_fits_def\<close>)
  then show ?thesis using u k1 by auto
qed

section \<open>Undoing a block\<close>

lemma tx_map_at:
  assumes "length (vout tx) < 2 ^ 32"
  shows "tx_map tx h m (OutPoint t n) =
    (if t = tx_hash tx \<and> spendable_at (vout tx) 0 n then Some (mk_coin (vout tx ! unat n) h (IsCoinBase tx))
     else if \<not> IsCoinBase tx \<and> OutPoint t n \<in> prevout ` set (vin tx) then None else m (OutPoint t n))"
  using outputs_map_at [of 0 "vout tx"] assms by (auto simp: tx_map_def spend_map_eq)

lemma txid_free_tx_map:
  "length (vout tx) < 2 ^ 32 \<Longrightarrow> txid_free t m \<Longrightarrow> t \<noteq> tx_hash tx \<Longrightarrow> txid_free t (tx_map tx h m)"
  by (simp add: txid_free_def tx_map_at)

lemma coins_ok_tx_map:
  assumes "coins_ok m" and "length (vout tx) < 2 ^ 32" and "0 < h" and "h < 2 ^ 31"
  shows "coins_ok (tx_map tx h m)"
proof -
  have "coin_nHeight (mk_coin out h cb) \<noteq> 0" for out cb
    using mk_coin_height [of h out cb] assms(3,4) by (metis less_imp_le less_irrefl unsigned_0)
  moreover have "\<not> IsUnspendable (scriptPubKey (coin_out (mk_coin (vout tx ! unat n) h cb)))"
    if "spendable_at (vout tx) 0 n" for n cb using that by (simp add: spendable_at_def mk_coin_def)
  ultimately show ?thesis
    using assms(1) unfolding coins_ok_def
    by (intro allI impI, case_tac x) (auto simp: tx_map_at [OF assms(2)] split: if_splits)
qed

text \<open>What \<open>CheckBlock\<close> and the identifiers give for the transactions of a block.\<close>

definition txs_ok :: "CTransaction list \<Rightarrow> (COutPoint \<Rightarrow> Coin option) \<Rightarrow> bool" where
  "txs_ok txs m \<longleftrightarrow> (\<forall>tx\<in>set txs. outs_ok (vout tx) \<and> distinct (map prevout (vin tx)) \<and> txid_free (tx_hash tx) m) \<and>
     distinct (map tx_hash txs)"

lemma undo_txs_append:
  "undo_txs h (xs @ ys) fClean k = (case undo_txs h xs fClean k of
     Inl e \<Rightarrow> Inl e | Inr None \<Rightarrow> Inr None | Inr (Some (fClean, k)) \<Rightarrow> undo_txs h ys fClean k)"
  by (induction h xs fClean k rule: undo_txs.induct) (auto split: sum.split option.split)

lemma connect_txs_utxo:
  assumes "connect_txs cp pindex i txs nFees k = Inr (undos, nFees', k')" and "cache_ok k" and "txs_ok txs (cache_utxo k)"
    and "coins_ok (cache_utxo k)" and h: "0 < bi_nHeight pindex" "bi_nHeight pindex < 2 ^ 31"
  shows "\<exists>us. length us = length txs \<and> undos = (if i > 0 then us else tl us) \<and> cache_ok k' \<and>
    coins_ok (cache_utxo k') \<and> (\<forall>k''. cache_ok k'' \<longrightarrow> cache_utxo k'' = cache_utxo k' \<longrightarrow>
      (\<exists>k0. undo_txs (bi_nHeight pindex) (rev (map2 (\<lambda>tx u. (tx, tx_undo_entry tx u)) txs us)) fClean k'' = Inr (Some (fClean, k0)) \<and>
        cache_ok k0 \<and> cache_utxo k0 = cache_utxo k))"
  using assms(1-4)
proof (induction txs arbitrary: i nFees k undos)
  case Nil
  then show ?case by auto
next
  case (Cons tx txs)
  let ?h = "bi_nHeight pindex" and ?m = "cache_utxo k"
  obtain u nf k1 undos1 where c: "connect_tx cp pindex tx nFees k = Inr (u, nf, k1)"
    and r: "connect_txs cp pindex (Suc i) txs nf k1 = Inr (undos1, nFees', k')" and un: "undos = (if i > 0 then u # undos1 else undos1)"
    using Cons.prems(1) by (auto split: sum.splits prod.splits)
  have ok: "outs_ok (vout tx)" "distinct (map prevout (vin tx))" "txid_free (tx_hash tx) ?m" and len: "length (vout tx) < 2 ^ 32"
    using Cons.prems(3) by (auto simp: txs_ok_def outs_ok_def)
  note t = connect_tx_utxo [OF Cons.prems(2) c ok(1,3,2)]
  have "txs_ok txs (cache_utxo k1)"
    using Cons.prems(3) t txid_free_tx_map [OF len] by (auto simp: txs_ok_def image_iff)
  moreover have "coins_ok (cache_utxo k1)" using coins_ok_tx_map [OF Cons.prems(4) len h] t by simp
  ultimately obtain us where us: "length us = length txs" "undos1 = us" "cache_ok k'" "coins_ok (cache_utxo k')"
    "\<And>k''. cache_ok k'' \<Longrightarrow> cache_utxo k'' = cache_utxo k' \<Longrightarrow>
      \<exists>k0. undo_txs ?h (rev (map2 (\<lambda>tx u. (tx, tx_undo_entry tx u)) txs us)) fClean k'' = Inr (Some (fClean, k0)) \<and>
        cache_ok k0 \<and> cache_utxo k0 = cache_utxo k1"
    using Cons.IH [OF r] t by auto
  have undone: "\<exists>k0. undo_txs ?h (rev (map2 (\<lambda>tx u. (tx, tx_undo_entry tx u)) (tx # txs) (u # us))) fClean k'' = Inr (Some (fClean, k0)) \<and>
        cache_ok k0 \<and> cache_utxo k0 = ?m" if "cache_ok k''" "cache_utxo k'' = cache_utxo k'" for k''
  proof -
    note k'' = that
    obtain k2 where k2: "undo_txs ?h (rev (map2 (\<lambda>tx u. (tx, tx_undo_entry tx u)) txs us)) fClean k'' = Inr (Some (fClean, k2))"
      "cache_ok k2" "cache_utxo k2 = tx_map tx ?h ?m" using us(5) [OF k''] t by auto
    have "\<exists>k0. undo_tx ?h tx (tx_undo_entry tx (tx_undo tx ?m)) fClean k2 = Inr (Some (fClean, k0)) \<and> cache_ok k0 \<and> cache_utxo k0 = ?m"
      by (rule undo_tx_utxo [OF k2(2,3)]) (use t h Cons.prems(2,4) utxo_unspent(1) in auto)
    then show ?thesis using k2(1) t by (auto simp: undo_txs_append)
  qed
  show ?case
    by (rule exI [of _ "u # us"]) (use us(1-4) un undone in auto)
qed

section \<open>What \<open>CheckBlock\<close> gives\<close>

lemma check_outputs_None:
  "check_outputs a outs = None \<Longrightarrow> \<forall>out\<in>set outs. 0 \<le> nValue out"
  by (induction a outs rule: check_outputs.induct) (auto split: if_splits)

lemma length_vector: "(\<And>x. 1 \<le> length (f x)) \<Longrightarrow> length xs \<le> length (Serialize_vector f xs)"
proof -
  assume f: "\<And>x. 1 \<le> length (f x)"
  have "length xs \<le> length (concat (map f xs))"
  proof (induction xs)
    case (Cons x xs)
    then show ?case using f [of x] by simp
  qed simp
  then show ?thesis by (simp add: Serialize_vector_def)
qed

lemma length_vout_size: "length (vout tx) \<le> length (SerializeTransaction False tx)"
proof -
  have "1 \<le> length (Serialize_CTxOut out)" for out
    by (simp add: Serialize_CTxOut_def Serialize_int64_def ser_writedata64_def)
  from length_vector [of Serialize_CTxOut "vout tx", OF this] show ?thesis
    by (simp add: SerializeTransaction_def Let_def)
qed

lemma CheckTransaction_None:
  assumes "CheckTransaction tx True = None"
  shows "outs_ok (vout tx) \<and> distinct (map prevout (vin tx))"
proof -
  have "length (SerializeTransaction False tx) * 4 \<le> 8000000" "check_outputs 0 (vout tx) = None" "distinct (map prevout (vin tx))"
    using assms by (auto simp: CheckTransaction_def GetMaxBlockWeight_def split: if_splits option.splits)
  then show ?thesis using length_vout_size [of tx] check_outputs_None [of 0 "vout tx"] by (auto simp: outs_ok_def)
qed

lemma check_txs_None: "check_txs txs = None \<Longrightarrow> tx \<in> set txs \<Longrightarrow> CheckTransaction tx True = None"
  by (induction txs) (auto split: option.splits)

lemma CheckBlock_None:
  assumes "CheckBlock n block = None"
  shows "\<exists>cb txs. vtx block = cb # txs \<and> IsCoinBase cb \<and> (\<forall>tx\<in>set txs. \<not> IsCoinBase tx) \<and>
    (\<forall>tx\<in>set (vtx block). outs_ok (vout tx) \<and> distinct (map prevout (vin tx)))"
proof -
  have "vtx block \<noteq> []" "IsCoinBase (vtx block ! 0)" "\<not> list_ex IsCoinBase (tl (vtx block))" "check_txs (vtx block) = None"
    using assms by (auto simp: CheckBlock_def Let_def split: if_splits option.splits)
  moreover from this(4) have "\<forall>tx\<in>set (vtx block). outs_ok (vout tx) \<and> distinct (map prevout (vin tx))"
    using CheckTransaction_None check_txs_None by blast
  ultimately show ?thesis by (cases "vtx block") (simp_all add: list_ex_iff)
qed

section \<open>No coins are made\<close>

definition utxo_total :: "(COutPoint \<Rightarrow> Coin option) \<Rightarrow> CAmount" where
  "utxo_total m = (\<Sum>x\<in>dom m. coin_value m x)"

lemma finite_utxo: "finite (dom (cache_utxo k))" "finite (dom (view_utxo v))"
proof (induction k and v)
  case (CCoinsViewCache h c b)
  have "dom (cache_utxo (CCoinsViewCache h c b)) \<subseteq> dom (om_find c) \<union> dom (view_utxo b)"
    by (auto simp: overlay_def split: option.splits)
  then show ?case using CCoinsViewCache by (meson finite_Un finite_subset om_finite_dom)
qed simp_all

lemma utxo_total_remove:
  assumes "finite (dom m)"
  shows "utxo_total (m(x := None)) = utxo_total m - coin_value m x"
proof -
  have "(\<Sum>y\<in>dom m - {x}. coin_value (m(x := None)) y) = (\<Sum>y\<in>dom m - {x}. coin_value m y)"
    by (rule sum.cong) (auto simp: coin_value_def)
  moreover have "(\<Sum>y\<in>dom m - {x}. coin_value m y) = utxo_total m - (if x \<in> dom m then coin_value m x else 0)"
    using sum_diff1 [OF assms, of "coin_value m" x] by (simp add: utxo_total_def)
  moreover have "coin_value m x = 0" if "x \<notin> dom m" using that by (auto simp: coin_value_def dom_def)
  ultimately show ?thesis by (cases "x \<in> dom m") (simp_all add: utxo_total_def)
qed

lemma utxo_total_add:
  assumes "finite (dom m)" and "m x = None"
  shows "utxo_total (m(x \<mapsto> coin)) = utxo_total m + nValue (coin_out coin)"
proof -
  have "(m(x \<mapsto> coin))(x := None) = m" using assms(2) by auto
  then show ?thesis using utxo_total_remove [of "m(x \<mapsto> coin)" x] assms(1) by (simp add: coin_value_def)
qed

lemma utxo_total_spend:
  assumes "finite (dom m)" and "distinct (map prevout ins)"
  shows "utxo_total (spend_map ins m) = utxo_total m - sum_list (map (\<lambda>x. coin_value m (prevout x)) ins)"
  using assms
proof (induction ins arbitrary: m)
  case (Cons txin ins)
  have "coin_value (m(prevout txin := None)) (prevout x) = coin_value m (prevout x)" if "x \<in> set ins" for x
    using that Cons.prems(2) by (auto simp: coin_value_def image_iff)
  then have "sum_list (map (\<lambda>x. coin_value (m(prevout txin := None)) (prevout x)) ins) = sum_list (map (\<lambda>x. coin_value m (prevout x)) ins)"
    by (metis (mono_tags, lifting) map_cong)
  moreover have "finite (dom (m(prevout txin := None)))" using Cons.prems(1) by simp
  ultimately show ?case using Cons.IH [of "m(prevout txin := None)"] Cons.prems utxo_total_remove [of m "prevout txin"]
    by (simp del: fun_upd_apply)
qed simp

definition outputs_value :: "CTxOut list \<Rightarrow> CAmount" where
  "outputs_value outs = sum_list (map nValue outs)"

lemma utxo_total_outputs:
  assumes "finite (dom m)" and "i + length outs < 2 ^ 32" and "\<And>n. i \<le> unat n \<Longrightarrow> m (OutPoint txid n) = None"
    and "\<forall>out\<in>set outs. 0 \<le> nValue out"
  shows "utxo_total (outputs_map txid h cb outs i m) \<le> utxo_total m + outputs_value outs"
  using assms
proof (induction outs arbitrary: i m)
  case (Cons out outs)
  let ?m = "if IsUnspendable (scriptPubKey out) then m else m(OutPoint txid (of_nat i) \<mapsto> mk_coin out h cb)"
  have u: "unat (of_nat i :: u32) = i" using Cons.prems(2) by (simp add: unat_of_nat_small)
  have "utxo_total ?m \<le> utxo_total m + nValue out"
    using Cons.prems(1,4) Cons.prems(3) [of "of_nat i"] u utxo_total_add [of m "OutPoint txid (of_nat i)" "mk_coin out h cb"]
    by (simp add: mk_coin_def)
  moreover have "utxo_total (outputs_map txid h cb outs (Suc i) ?m) \<le> utxo_total ?m + outputs_value outs"
    by (rule Cons.IH) (use Cons.prems u in auto)
  ultimately show ?case by (simp add: outputs_value_def)
qed (simp add: outputs_value_def)

lemma value_out_all: "value_out_from True a outs = Some v \<Longrightarrow> v = a + outputs_value outs"
proof (induction outs arbitrary: a)
  case (Cons out outs)
  from Cons.prems have "value_out_from True (a + nValue out) outs = Some v" by (simp add: Let_def split: if_splits)
  from Cons.IH [OF this] show ?case by (simp add: outputs_value_def)
qed (simp add: outputs_value_def)

lemma utxo_total_tx:
  assumes "finite (dom m)" and "tx_fits tx m"
  shows "utxo_total (tx_map tx h m) \<le> utxo_total m - (if IsCoinBase tx then 0 else inputs_value tx m) + outputs_value (vout tx)"
proof -
  let ?m = "if IsCoinBase tx then m else spend_map (vin tx) m"
  have "dom ?m \<subseteq> dom m" by (auto simp: spend_map_eq split: if_splits)
  then have fin: "finite (dom ?m)" using assms(1) by (rule finite_subset)
  have "utxo_total (outputs_map (tx_hash tx) h (IsCoinBase tx) (vout tx) 0 ?m) \<le> utxo_total ?m + outputs_value (vout tx)"
    by (rule utxo_total_outputs) (use assms fin in \<open>auto simp: tx_fits_def outs_ok_def txid_free_def spend_map_eq\<close>)
  moreover have "utxo_total ?m = utxo_total m - (if IsCoinBase tx then 0 else inputs_value tx m)"
    using utxo_total_spend [OF assms(1), of "vin tx"] assms(2) by (simp add: tx_fits_def inputs_value_def)
  ultimately show ?thesis by (simp add: tx_map_def)
qed

text \<open>What the coinbases of a list of transactions pay.\<close>

definition coinbases_value :: "CTransaction list \<Rightarrow> CAmount" where
  "coinbases_value txs = sum_list (map (\<lambda>tx. outputs_value (vout tx)) (filter IsCoinBase txs))"

lemma connect_txs_total:
  assumes "connect_txs cp pindex i txs nFees k = Inr (undos, nFees', k')" and "cache_ok k" and "txs_ok txs (cache_utxo k)"
    and ev: "fAreEnforcedValues cp"
  shows "utxo_total (cache_utxo k') \<le> utxo_total (cache_utxo k) + coinbases_value txs - (nFees' - nFees)"
  using assms(1-3)
proof (induction txs arbitrary: i nFees k undos)
  case (Cons tx txs)
  let ?m = "cache_utxo k"
  obtain u nf k1 undos1 where c: "connect_tx cp pindex tx nFees k = Inr (u, nf, k1)"
    and r: "connect_txs cp pindex (Suc i) txs nf k1 = Inr (undos1, nFees', k')"
    using Cons.prems(1) by (auto split: sum.splits prod.splits)
  have ok: "outs_ok (vout tx)" "distinct (map prevout (vin tx))" "txid_free (tx_hash tx) ?m" and len: "length (vout tx) < 2 ^ 32"
    using Cons.prems(3) by (auto simp: txs_ok_def outs_ok_def)
  note t = connect_tx_utxo [OF Cons.prems(2) c ok(1,3,2)]
  have "txs_ok txs (cache_utxo k1)"
    using Cons.prems(3) t txid_free_tx_map [OF len] by (auto simp: txs_ok_def image_iff)
  then have "utxo_total (cache_utxo k') \<le> utxo_total (cache_utxo k1) + coinbases_value txs - (nFees' - nf)"
    using Cons.IH [OF r] t by blast
  moreover have "utxo_total (cache_utxo k1) \<le>
      utxo_total ?m - (if IsCoinBase tx then 0 else inputs_value tx ?m) + outputs_value (vout tx)"
    using utxo_total_tx [OF finite_utxo(1)] t by simp
  moreover have "\<not> IsCoinBase tx \<Longrightarrow> outputs_value (vout tx) = inputs_value tx ?m - (nf - nFees)"
    using t ev value_out_all [of 0 "vout tx"] by (auto simp: GetValueOut_def)
  ultimately show ?case using t by (cases "IsCoinBase tx") (auto simp: coinbases_value_def)
qed (simp add: coinbases_value_def)

section \<open>Blocks\<close>

lemma GetBestBlock_utxo:
  "GetBestBlock k = (h, k') \<Longrightarrow> cache_utxo k' = cache_utxo k \<and> cache_ok k' = cache_ok k"
  "View_GetBestBlock v = (h, v') \<Longrightarrow> view_utxo v' = view_utxo v \<and> view_ok v' = view_ok v"
proof (induction k and v arbitrary: h k' and h v')
  case (CCoinsViewCache h0 c b)
  obtain h1 b1 where v: "View_GetBestBlock b = (h1, b1)" by fastforce
  note b = CCoinsViewCache.IH [OF v]
  have "entry_ok b1 = entry_ok b" using b by (auto simp: fun_eq_iff entry_ok_def)
  then show ?case using CCoinsViewCache.prems v b by (auto split: if_splits)
qed (auto split: prod.splits)

lemma SetBestBlock_utxo [simp]: "cache_utxo (SetBestBlock h k) = cache_utxo k" "cache_ok (SetBestBlock h k) = cache_ok k"
  "hashBlock (SetBestBlock h k) = h"
  by (cases k; simp add: SetBestBlock_def)+

text \<open>The identifiers of the block's transactions are its own, none of an unspent output.\<close>

definition txids_fresh :: "CBlock \<Rightarrow> CCoinsViewCache \<Rightarrow> bool" where
  "txids_fresh block k \<longleftrightarrow> distinct (map tx_hash (vtx block)) \<and> (\<forall>tx\<in>set (vtx block). txid_free (tx_hash tx) (cache_utxo k))"

lemma ConnectBlock_parts:
  assumes "ConnectBlock env cp st block pindex k fJustCheck = Inr (st', undos, k')" and "blk_hash block \<noteq> hashGenesisBlock cp"
    and "CheckBlock n block = None" and "cache_ok k" and "txids_fresh block k"
  shows "\<exists>k1 k2 nFees. cache_ok k1 \<and> cache_utxo k1 = cache_utxo k \<and> txs_ok (vtx block) (cache_utxo k1) \<and>
    connect_txs cp pindex 0 (vtx block) 0 k1 = Inr (undos, nFees, k2) \<and>
    check_coinbase_value (consensus env) (fAreEnforcedValues cp) (bi_nHeight pindex) nFees (hd (vtx block)) = None \<and>
    k' = (if fJustCheck then k2 else SetBestBlock (bi_hash pindex) k2)"
proof -
  obtain best k1 where b: "GetBestBlock k = (best, k1)" by fastforce
  obtain k2 nFees where "connect_txs cp pindex 0 (vtx block) 0 k1 = Inr (undos, nFees, k2)"
    "check_coinbase_value (consensus env) (fAreEnforcedValues cp) (bi_nHeight pindex) nFees (hd (vtx block)) = None"
    "k' = (if fJustCheck then k2 else SetBestBlock (bi_hash pindex) k2)"
    using assms(1,2) by (auto simp: ConnectBlock_def b Let_def split: if_splits option.splits sum.splits prod.splits)
  moreover have "txs_ok (vtx block) (cache_utxo k1)"
    using CheckBlock_None [OF assms(3)] assms(5) GetBestBlock_utxo(1) [OF b] by (auto simp: txs_ok_def txids_fresh_def)
  ultimately show ?thesis using GetBestBlock_utxo(1) [OF b] assms(4) by blast
qed

lemma connect_total:
  assumes "ConnectBlock env cp st block pindex k fJustCheck = Inr (st', undos, k')" and "blk_hash block \<noteq> hashGenesisBlock cp"
    and "CheckBlock n block = None" and "cache_ok k" and "txids_fresh block k" and ev: "fAreEnforcedValues cp"
  shows "utxo_total (cache_utxo k') \<le> utxo_total (cache_utxo k) + GetBlockSubsidy (bi_nHeight pindex) (consensus env)"
proof -
  obtain k1 k2 nFees where p: "cache_ok k1" "cache_utxo k1 = cache_utxo k" "txs_ok (vtx block) (cache_utxo k1)"
    "connect_txs cp pindex 0 (vtx block) 0 k1 = Inr (undos, nFees, k2)"
    "check_coinbase_value (consensus env) (fAreEnforcedValues cp) (bi_nHeight pindex) nFees (hd (vtx block)) = None"
    "k' = (if fJustCheck then k2 else SetBestBlock (bi_hash pindex) k2)"
    using ConnectBlock_parts [OF assms(1-5)] by blast
  obtain cb txs where b: "vtx block = cb # txs" "IsCoinBase cb" "\<forall>tx\<in>set txs. \<not> IsCoinBase tx"
    using CheckBlock_None [OF assms(3)] by blast
  have "coinbases_value (vtx block) = outputs_value (vout cb)" using b by (simp add: coinbases_value_def filter_empty_conv)
  moreover have "outputs_value (vout cb) \<le> nFees + GetBlockSubsidy (bi_nHeight pindex) (consensus env)"
    using p(5) ev value_out_all [of 0 "vout cb"]
    by (auto simp: check_coinbase_value_def GetValueOut_def Let_def b split: option.splits if_splits)
  ultimately show ?thesis using connect_txs_total [OF p(4,1,3) ev] p(2,6) by auto
qed

lemma undo_entries:
  "\<forall>tx\<in>set txs. \<not> IsCoinBase tx \<Longrightarrow> length us = length txs \<Longrightarrow>
   map2 (\<lambda>tx u. (tx, tx_undo_entry tx u)) txs us = zip txs (map Some us)"
  by (induction txs arbitrary: us) (auto simp: length_Suc_conv tx_undo_entry_def)

lemma connect_disconnect:
  assumes "ConnectBlock env cp st block pindex k fJustCheck = Inr (st', undos, k')" and "blk_hash block \<noteq> hashGenesisBlock cp"
    and "CheckBlock n block = None" and "cache_ok k" and "txids_fresh block k"
    and "coins_ok (cache_utxo k)" and h: "0 < bi_nHeight pindex" "bi_nHeight pindex < 2 ^ 31" and "bi_pprev pindex = Some p"
    and k'': "cache_ok k''" "cache_utxo k'' = cache_utxo k'"
  shows "\<exists>k0. DisconnectBlock block pindex (Some undos) k'' = Inr (DISCONNECT_OK, k0) \<and> cache_ok k0 \<and>
    cache_utxo k0 = cache_utxo k \<and> hashBlock k0 = bi_hash p"
proof -
  obtain k1 k2 nFees where c: "cache_ok k1" "cache_utxo k1 = cache_utxo k" "txs_ok (vtx block) (cache_utxo k1)"
    "connect_txs cp pindex 0 (vtx block) 0 k1 = Inr (undos, nFees, k2)"
    "k' = (if fJustCheck then k2 else SetBestBlock (bi_hash pindex) k2)"
    using ConnectBlock_parts [OF assms(1-5)] by blast
  obtain cb txs where b: "vtx block = cb # txs" "IsCoinBase cb" "\<forall>tx\<in>set txs. \<not> IsCoinBase tx"
    using CheckBlock_None [OF assms(3)] by blast
  have "coins_ok (cache_utxo k1)" "cache_utxo k'' = cache_utxo k2" using assms(6) c k'' by auto
  with connect_txs_utxo [OF c(4,1,3) _ h, where fClean = True] k''(1) obtain us k0 where us: "length us = length (vtx block)" "undos = tl us"
    "undo_txs (bi_nHeight pindex) (rev (map2 (\<lambda>tx u. (tx, tx_undo_entry tx u)) (vtx block) us)) True k'' = Inr (Some (True, k0))"
    "cache_ok k0" "cache_utxo k0 = cache_utxo k1" by auto
  then obtain u us' where "us = u # us'" "length us' = length txs" using b(1) by (auto simp: length_Suc_conv)
  then have "map2 (\<lambda>tx u. (tx, tx_undo_entry tx u)) (vtx block) us = zip (vtx block) (None # map Some undos)"
    and "length undos + 1 = length (vtx block)"
    using us b undo_entries [OF b(3)] by (simp_all add: tx_undo_entry_def)
  then show ?thesis using us c(2) assms(9)
    by (auto simp: DisconnectBlock_def intro!: exI [of _ "SetBestBlock (bi_hash p) k0"])
qed

lemma connect_keeps:
  assumes "ConnectBlock env cp st block pindex k fJustCheck = Inr (st', undos, k')" and "blk_hash block \<noteq> hashGenesisBlock cp"
    and "CheckBlock n block = None" and "cache_ok k" and "txids_fresh block k"
    and "coins_ok (cache_utxo k)" and h: "0 < bi_nHeight pindex" "bi_nHeight pindex < 2 ^ 31"
  shows "cache_ok k' \<and> coins_ok (cache_utxo k') \<and> length undos + 1 = length (vtx block)"
proof -
  obtain k1 k2 nFees where c: "cache_ok k1" "cache_utxo k1 = cache_utxo k" "txs_ok (vtx block) (cache_utxo k1)"
    "connect_txs cp pindex 0 (vtx block) 0 k1 = Inr (undos, nFees, k2)"
    "k' = (if fJustCheck then k2 else SetBestBlock (bi_hash pindex) k2)"
    using ConnectBlock_parts [OF assms(1-5)] by blast
  have "vtx block \<noteq> []" using CheckBlock_None [OF assms(3)] by auto
  moreover have "coins_ok (cache_utxo k1)" using assms(6) c(2) by simp
  ultimately show ?thesis
    using connect_txs_utxo [OF c(4,1,3) _ h, where fClean = True] c(5) by (auto simp: Suc_le_eq)
qed

end
