(* ===== verification/Props_Coins.thy ===== *)
theory Props_Coins
  imports ConnectBlock Examples
begin

text \<open>
  Properties of the coins and of the block reward: the cached view against the set of unspent outputs
  (src/src/coins.cpp), connecting and disconnecting a block, what a block may create
  (src/src/validation.cpp) and what the miner pays (src/src/miner.cpp).
\<close>

section \<open>An example block\<close>

text \<open>A block of height 5 whose second transaction spends a coin of 100 and leaves a fee of 1.\<close>

definition ex_c0 :: CBlockIndex where "ex_c0 = BlockIndex (UINT256 50) 4 0 0 0 None None"
definition ex_c1 :: CBlockIndex where "ex_c1 = BlockIndex (UINT256 51) 5 0 0 0 (Some ex_c0) None"

definition ex_coins :: CCoinsViewCache where
  "ex_coins = CCoinsViewCache uint256_null om_empty (ViewDB \<lparr>db_coins = om_put (OutPoint (UINT256 200) 0)
     \<lparr>coin_out = \<lparr>nValue = 100 * COIN, scriptPubKey = [0x51]\<rparr>, coin_fCoinBase = False, coin_nHeight = 2\<rparr> om_empty,
     db_best_block = Some (UINT256 50), db_head_blocks = []\<rparr>)"

definition ex_cb :: CTransaction where
  "ex_cb = \<lparr>vin = [\<lparr>prevout = COutPoint_null, scriptSig = [1, 5], nSequence = SEQUENCE_FINAL, scriptWitness = []\<rparr>],
     vout = [\<lparr>nValue = 4851 * COIN, scriptPubKey = [0x51]\<rparr>, \<lparr>nValue = 150 * COIN, scriptPubKey = GetDevScriptForHeight 5\<rparr>],
     nVersion = 2, nType = 0, nLockTime = 0, vExtraPayload = [], tx_hash = UINT256 201\<rparr>"

definition ex_pay :: CTransaction where
  "ex_pay = \<lparr>vin = [\<lparr>prevout = OutPoint (UINT256 200) 0, scriptSig = [], nSequence = SEQUENCE_FINAL, scriptWitness = []\<rparr>],
     vout = [\<lparr>nValue = 99 * COIN, scriptPubKey = [0x51]\<rparr>],
     nVersion = 2, nType = 0, nLockTime = 0, vExtraPayload = [], tx_hash = UINT256 202\<rparr>"

definition ex_cp :: connect_params where
  "ex_cp = \<lparr>nCoinbaseMaturity = 100, fAreEnforcedValues = True, hashGenesisBlock = UINT256 1, nLockTimeFlags = 0,
     other_checks = (\<lambda>m tx. None)\<rparr>"

definition ex_cblock :: CBlock where "ex_cblock = \<lparr>blk_hash = UINT256 51, vtx = [ex_cb, ex_pay]\<rparr>"

lemma ex_connect_size:
  "length (SerializeTransaction False ex_cb) \<le> 200" "length (SerializeTransaction False ex_pay) \<le> 200"
  "length (Serialize_vector (SerializeTransaction False) (vtx ex_cblock)) \<le> 401"
  by code_simp+

lemma ex_connect_outputs: "check_outputs 0 (vout ex_cb) = None" "check_outputs 0 (vout ex_pay) = None"
  "GetLegacySigOpCount ex_cb = 1" "GetLegacySigOpCount ex_pay = 0"
  "IsCoinBase ex_cb" "\<not> IsCoinBase ex_pay"
  by code_simp+

lemma ex_connect_checked: "CheckBlock 80 ex_cblock = None"
proof -
  have "CheckTransaction ex_cb True = None" "CheckTransaction ex_pay True = None"
    unfolding CheckTransaction_def using ex_connect_size(1,2) ex_connect_outputs
    by (simp_all add: GetMaxBlockWeight_def) (simp_all add: ex_cb_def ex_pay_def COutPoint_IsNull_def)
  then show ?thesis
    unfolding CheckBlock_def using ex_connect_size(3) ex_connect_outputs
    by (simp add: GetMaxBlockWeight_def Let_def ex_cblock_def MAX_BLOCK_SIGOPS_COST_def)
qed

lemma ex_connect_txs: "case connect_txs ex_cp ex_c1 0 (vtx ex_cblock) 0 (snd (GetBestBlock ex_coins)) of
    Inl e \<Rightarrow> False | Inr (u, n, k) \<Rightarrow> n = COIN"
  by code_simp

lemma ex_connect_reward: "check_coinbase_value ex_params True 5 COIN ex_cb = None"
  "check_dev_allocation ex_params 5 (vout ex_cb) = None"
  by code_simp+

lemma ex_connect_best: "fst (GetBestBlock ex_coins) = UINT256 50"
  by code_simp
lemma ex_coins_ok: "cache_ok ex_coins"
  by (simp add: ex_coins_def Coin_IsSpent_def CTxOut_IsNull_def COIN_def split: if_splits)

definition ex_evo :: evo_state where
  "ex_evo = \<lparr>st_evoDb = CEvoDB_open om_empty, st_pose = None, mnListsCache = om_empty, tipList = None\<rparr>"

lemma ex_connect_special: "\<exists>st. ProcessSpecialTxsInBlock ex_env ex_evo ex_cblock ex_c1 False view = Some (None, st)"
proof -
  have plain: "list_all (\<lambda>tx. \<not> IsTxTypeSpecial tx) (vtx ex_cblock)"
    by (simp add: ex_cblock_def ex_cb_def ex_pay_def IsTxTypeSpecial_def)
  let ?l = "CDeterministicMNList_new (UINT256 50) 4"
  have g: "GetListForBlock ex_env ex_evo (Some ex_c0) = Some (?l, ex_evo)"
    by (simp add: GetListForBlock.simps ex_c0_def ex_env_def ex_params_def)
  obtain l mo d where p: "process_list ex_env ex_cblock ex_c1 ?l (None, CEvoDB_open om_empty) = Some (Inr (l, mo, d))"
    using process_list_plain_ok [OF plain, of ex_c1 ?l ex_env None "CEvoDB_open om_empty"]
    by (auto simp: ex_c1_def ex_c0_def CDeterministicMNList_new_def)
  have "idle d" using list_frame_process_list [OF p] by (simp add: list_frame_def)
  then have "\<exists>st. ProcessBlock ex_env ex_evo ex_cblock ex_c1 False = Some (None, st)"
    using g p by (simp add: ProcessBlock.simps ex_evo_def ex_c1_def finish_block_def commit_block_eq)
  moreover have "check_block_txs ex_env ex_evo view ex_c1 (vtx ex_cblock) l' = Some (None, ex_evo)" for l'
    using plain by (simp add: ex_cblock_def CheckSpecialTx_def)
  ultimately show ?thesis
    by (simp add: ProcessSpecialTxsInBlock_def) (simp add: ex_c1_def ex_env_def ex_params_def)
qed

lemma ex_connected:
  "\<exists>st undos k. ConnectBlock ex_env ex_cp ex_evo ex_cblock ex_c1 ex_coins False = Inr (st, undos, k)"
proof -
  obtain b k where g: "GetBestBlock ex_coins = (b, k)" by fastforce
  have b: "b = UINT256 50" using ex_connect_best g by simp
  obtain u k' where t: "connect_txs ex_cp ex_c1 0 (vtx ex_cblock) 0 k = Inr (u, COIN, k')"
    using ex_connect_txs g by (auto split: sum.splits prod.splits)
  have e: "bi_pprev ex_c1 = Some ex_c0" "bi_hash ex_c0 = UINT256 50" "blk_hash ex_cblock \<noteq> hashGenesisBlock ex_cp"
    "bi_nHeight ex_c1 = 5" "hd (vtx ex_cblock) = ex_cb" "consensus ex_env = ex_params" "fAreEnforcedValues ex_cp"
    by (simp_all add: ex_c1_def ex_c0_def ex_cblock_def ex_cp_def ex_env_def)
  obtain st where "ProcessSpecialTxsInBlock ex_env ex_evo ex_cblock ex_c1 False (Some (\<lambda>x. fst (Cache_AccessCoin k x))) = Some (None, st)"
    using ex_connect_special by blast
  then show ?thesis using g b t e ex_connect_reward by (simp add: ConnectBlock_def)
qed

lemma ex_coins_utxo: "cache_utxo ex_coins = [OutPoint (UINT256 200) 0 \<mapsto>
    \<lparr>coin_out = \<lparr>nValue = 100 * COIN, scriptPubKey = [0x51]\<rparr>, coin_fCoinBase = False, coin_nHeight = 2\<rparr>]"
  by (auto simp: ex_coins_def overlay_def fun_eq_iff)

lemma ex_connect_hyps: "cache_ok ex_coins" "txids_fresh ex_cblock ex_coins" "coins_ok (cache_utxo ex_coins)"
  "0 < bi_nHeight ex_c1" "bi_nHeight ex_c1 < 2 ^ 31" "bi_pprev ex_c1 = Some ex_c0"
  "blk_hash ex_cblock \<noteq> hashGenesisBlock ex_cp" "fAreEnforcedValues ex_cp"
proof -
  have "\<not> IsUnspendable [0x51]" by code_simp
  then show "coins_ok (cache_utxo ex_coins)" unfolding coins_ok_def ex_coins_utxo by (auto split: if_splits)
qed (simp_all add: ex_coins_ok txids_fresh_def txid_free_def ex_coins_utxo ex_cblock_def ex_cb_def ex_pay_def ex_c1_def ex_cp_def)

section \<open>The cached view\<close>

text \<open>C8: The cache implements a map.  Over a consistent view, every sequence of adding, spending, reading,
  uncaching, setting the best block and flushing in which a coin is added over an unspent one only with the
  permission to overwrite succeeds, keeps the view consistent, and shows at the end the unspent outputs that
  the same operations on a plain map give; the view below shows the same after a flush.\<close>

theorem coins_cache_refines:
  assumes "cache_ok k" and "flushable k" and "ops_allowed coin_allowed coin_spec ops (cache_utxo k)"
    and "fold coin_spec ops (cache_utxo k) = m"
  shows "\<exists>k' k''. run_ops coin_step ops k = Inr k' \<and> cache_ok k' \<and> cache_utxo k' = m \<and>
    Flush k' = Inr k'' \<and> cache_utxo k'' = m \<and> view_utxo (cache_base k'') = m"
proof -
  obtain k' where k': "run_ops coin_step ops k = Inr k'" "cache_ok k'" "flushable k'" "cache_utxo k' = m"
    using coins.run_refines [of k ops] assms by blast
  obtain k'' where "Flush k' = Inr k''" "cache_utxo k'' = m" "view_utxo (cache_base k'') = m"
    using Flush_utxo [OF k'(2,3)] k'(4) by blast
  then show ?thesis using k' by blast
qed

theorem coins_cache_refines_witness:
  "\<exists>k' k''. run_ops coin_step [Op_Spend (OutPoint (UINT256 200) 0), Op_Flush, Op_Add (OutPoint (UINT256 201) 0) (mk_coin (hd (vout ex_pay)) 5 False) False]
       (SetBestBlock (UINT256 50) ex_coins) = Inr k' \<and>
     Flush k' = Inr k'' \<and> view_utxo (cache_base k'') = [OutPoint (UINT256 201) 0 \<mapsto> mk_coin (hd (vout ex_pay)) 5 False]"
proof -
  let ?k = "SetBestBlock (UINT256 50) ex_coins" and ?c = "mk_coin (hd (vout ex_pay)) 5 False"
  let ?ops = "[Op_Spend (OutPoint (UINT256 200) 0), Op_Flush, Op_Add (OutPoint (UINT256 201) 0) ?c False]"
  have c: "\<not> Coin_IsSpent ?c" "\<not> IsUnspendable (scriptPubKey (coin_out ?c))" by code_simp+
  have k: "cache_ok ?k" "flushable ?k" "cache_utxo ?k = cache_utxo ex_coins"
    using ex_coins_ok by (simp_all add: flushable_def SetBestBlock_def ex_coins_def uint256_null_def)
  have m: "ops_allowed coin_allowed coin_spec ?ops (cache_utxo ?k)"
    "fold coin_spec ?ops (cache_utxo ?k) = [OutPoint (UINT256 201) 0 \<mapsto> ?c]"
    using c unfolding k(3) ex_coins_utxo by (simp_all add: fun_eq_iff)
  show ?thesis using coins_cache_refines [OF k(1,2) m] by blast
qed

section \<open>Blocks\<close>

text \<open>C4: Disconnecting undoes connecting.  Take a block that \<open>CheckBlock\<close> accepts, with transaction
  identifiers that are its own, and a consistent view with the coins of a chain.  If \<open>ConnectBlock\<close> accepts
  the block, then \<open>DisconnectBlock\<close> with the undo data that it wrote, on any consistent view that shows the
  same coins as the view after it, succeeds cleanly, shows again the unspent outputs from before and has the
  parent as its best block.  The undo of assets is not part of this.\<close>

theorem connect_then_disconnect:
  assumes "ConnectBlock env cp st block pindex k fJustCheck = Inr (st', undos, k')" and "blk_hash block \<noteq> hashGenesisBlock cp"
    and "CheckBlock n block = None" and "cache_ok k" and "txids_fresh block k" and "coins_ok (cache_utxo k)"
    and "0 < bi_nHeight pindex" and "bi_nHeight pindex < 2 ^ 31" and "bi_pprev pindex = Some p"
    and "cache_ok k''" and "cache_utxo k'' = cache_utxo k'"
  shows "\<exists>k0. DisconnectBlock block pindex (Some undos) k'' = Inr (DISCONNECT_OK, k0) \<and> cache_ok k0 \<and>
    cache_utxo k0 = cache_utxo k \<and> hashBlock k0 = bi_hash p"
  by (rule connect_disconnect [OF assms])

theorem connect_then_disconnect_witness:
  "\<exists>st undos k k0. ConnectBlock ex_env ex_cp ex_evo ex_cblock ex_c1 ex_coins False = Inr (st, undos, k) \<and>
     DisconnectBlock ex_cblock ex_c1 (Some undos) k = Inr (DISCONNECT_OK, k0) \<and> cache_utxo k0 = cache_utxo ex_coins"
proof -
  obtain st undos k where c: "ConnectBlock ex_env ex_cp ex_evo ex_cblock ex_c1 ex_coins False = Inr (st, undos, k)"
    using ex_connected by blast
  have "cache_ok k" using connect_keeps [OF c ex_connect_hyps(7) ex_connect_checked ex_connect_hyps(1-5)] by simp
  from connect_then_disconnect [OF c ex_connect_hyps(7) ex_connect_checked ex_connect_hyps(1-6) this refl] c
  show ?thesis by blast
qed

text \<open>C29: Connecting a block keeps the coins well formed.  After \<open>ConnectBlock\<close> accepts such a block, the
  view is consistent, every unspent output in it can be spent and has a height above the genesis block, and
  the undo data has one entry for every transaction but the coinbase.\<close>

theorem connect_well_formed:
  assumes "ConnectBlock env cp st block pindex k fJustCheck = Inr (st', undos, k')" and "blk_hash block \<noteq> hashGenesisBlock cp"
    and "CheckBlock n block = None" and "cache_ok k" and "txids_fresh block k" and "coins_ok (cache_utxo k)"
    and "0 < bi_nHeight pindex" and "bi_nHeight pindex < 2 ^ 31"
  shows "cache_ok k' \<and> coins_ok (cache_utxo k') \<and> length undos + 1 = length (vtx block)"
  by (rule connect_keeps [OF assms])

theorem connect_well_formed_witness:
  "\<exists>st undos k. ConnectBlock ex_env ex_cp ex_evo ex_cblock ex_c1 ex_coins False = Inr (st, undos, k) \<and>
     cache_ok k \<and> coins_ok (cache_utxo k) \<and> length undos = 1"
proof -
  obtain st undos k where c: "ConnectBlock ex_env ex_cp ex_evo ex_cblock ex_c1 ex_coins False = Inr (st, undos, k)"
    using ex_connected by blast
  from connect_well_formed [OF c ex_connect_hyps(7) ex_connect_checked ex_connect_hyps(1-5)] c
  show ?thesis by (auto simp: ex_cblock_def)
qed

text \<open>C3: No inflation.  A block that \<open>CheckBlock\<close> and \<open>ConnectBlock\<close> accept, with the output values
  enforced, raises the value of all unspent outputs by at most the subsidy of its height: the fees its
  coinbase may claim are what its other transactions leave.\<close>

theorem no_inflation:
  assumes "ConnectBlock env cp st block pindex k fJustCheck = Inr (st', undos, k')" and "blk_hash block \<noteq> hashGenesisBlock cp"
    and "CheckBlock n block = None" and "cache_ok k" and "txids_fresh block k" and "fAreEnforcedValues cp"
  shows "utxo_total (cache_utxo k') \<le> utxo_total (cache_utxo k) + GetBlockSubsidy (bi_nHeight pindex) (consensus env)"
  by (rule connect_total [OF assms])

theorem no_inflation_witness:
  "\<exists>st undos k. ConnectBlock ex_env ex_cp ex_evo ex_cblock ex_c1 ex_coins False = Inr (st, undos, k) \<and>
     utxo_total (cache_utxo k) \<le> utxo_total (cache_utxo ex_coins) + GetBlockSubsidy 5 ex_params"
proof -
  obtain st undos k where c: "ConnectBlock ex_env ex_cp ex_evo ex_cblock ex_c1 ex_coins False = Inr (st, undos, k)"
    using ex_connected by blast
  from no_inflation [OF c ex_connect_hyps(7) ex_connect_checked ex_connect_hyps(1,2,8)] c
  show ?thesis by (auto simp: ex_c1_def ex_env_def)
qed

section \<open>The block reward\<close>

text \<open>C32: The supply is bounded.  With the halving interval of the network, the subsidies of any number of
  blocks add up to no more than the greatest amount of money.\<close>

theorem supply_bounded:
  assumes "nSubsidyHalvingInterval p = 2100000"
  shows "(\<Sum>h<n. GetBlockSubsidy (int h) p) \<le> MAX_MONEY"
  using subsidy_total [of p n] assms by (simp add: MAX_MONEY_def COIN_def)

theorem supply_bounded_witness: "(\<Sum>h<10000000. GetBlockSubsidy (int h) ex_params) \<le> MAX_MONEY"
  by (rule supply_bounded) (simp add: ex_params_def)

text \<open>The list of the example with one masternode, in the cache for the block \<open>ex_pp\<close>.\<close>

definition ex_paying :: "CDeterministicMN \<Rightarrow> evo_state" where
  "ex_paying mn = ex_evo\<lparr>mnListsCache := om_put (UINT256 100) (AddMN ex_Hash (CDeterministicMNList_new (UINT256 100) 1100) mn) om_empty\<rparr>"

definition ex_opmn :: CDeterministicMN where
  "ex_opmn = ex_mn\<lparr>nOperatorReward := 1000, mn_state := (mn_state ex_mn)\<lparr>scriptPayout := [0x52], scriptOperatorPayout := [0x53]\<rparr>\<rparr>"

lemma ex_payee:
  assumes "MN_IsValid mn" and "nRegisteredHeight (mn_state mn) = 1000" and "nTier (mn_state mn) = 1"
  shows "Manager_GetMNPayee ex_env (ex_paying mn) (Some ex_pp) = Some (Some mn, ex_paying mn)"
proof -
  let ?l = "AddMN ex_Hash (CDeterministicMNList_new (UINT256 100) 1100) mn"
  have "mns ?l = [mn]" by (simp add: AddMN_def mns_def CDeterministicMNList_new_def om_put.rep_eq om_empty.rep_eq)
  then have "GetValidMNsForPayment ex_params ?l 1101 = [mn]"
    using assms by (simp add: GetValidMNsForPayment_def eligible_def) (simp add: ex_params_def)
  then have "GetMNPayee ex_Hash ex_params ?l (UINT256 100) 1101 = Some mn" by (simp add: GetMNPayee_def payee_step_first)
  then show ?thesis
    by (simp add: Manager_GetMNPayee_def GetListForBlock.simps ex_paying_def ex_pp_def ex_env_def ex_crypto_def)
      (simp add: ex_params_def)
qed

lemma ex_enforced: "IsMasternodePaymentEnforced (consensus ex_env) (MineBlocksOnDemand ex_env) (bi_nHeight ex_pp + 1)"
  by (simp add: ex_env_def ex_params_def ex_pp_def IsMasternodePaymentEnforced_def GetMasternodePaymentGracePeriod_def)

lemma ex_mn_valid: "MN_IsValid ex_mn" "nRegisteredHeight (mn_state ex_mn) = 1000" "nTier (mn_state ex_mn) = 1"
  "MN_IsValid ex_opmn" "nRegisteredHeight (mn_state ex_opmn) = 1000" "nTier (mn_state ex_opmn) = 1"
  by (simp_all add: ex_mn_def ex_opmn_def MN_IsValid_def IsBanned_def CDeterministicMNState_default_def)

text \<open>The template on top of \<open>ex_pp\<close> and the block with it.\<close>

definition ex_template :: "CDeterministicMN \<Rightarrow> CMutableTransaction" where
  "ex_template mn = (case create_coinbase ex_env (ex_paying mn) ex_pp 7 [0x51] of Some (cb, _) \<Rightarrow> cb)"

text \<open>The commitment gives the coinbase's input a nonce as its witness.\<close>

definition ex_nonce :: "CMutableTransaction \<Rightarrow> CMutableTransaction" where
  "ex_nonce t = t\<lparr>vin := map (\<lambda>i. i\<lparr>scriptWitness := [replicate 32 0]\<rparr>) (vin t)\<rparr>"

definition ex_mined :: "CDeterministicMN \<Rightarrow> CBlock" where
  "ex_mined mn = \<lparr>blk_hash = UINT256 101,
     vtx = [CMutableTransaction.extend (ex_nonce (ex_template mn)) (CTransaction.fields (UINT256 301))]\<rparr>"

lemma ex_template:
  assumes "MN_IsValid mn" and "nRegisteredHeight (mn_state mn) = 1000" and "nTier (mn_state mn) = 1"
  shows "create_coinbase ex_env (ex_paying mn) ex_pp 7 [0x51] = Some (ex_template mn, ex_paying mn)"
  using ex_enforced unfolding ex_template_def create_coinbase_def by (simp add: ex_payee [OF assms] Let_def)

definition ex_context :: contextual where
  "ex_context = \<lparr>nCSVEnabled = True, nBIP34Enabled = True, chain_locks = None\<rparr>"

lemma ex_mined:
  "vtx (ex_mined mn) = [CMutableTransaction.extend (ex_nonce (ex_template mn)) (CTransaction.fields (UINT256 301))]"
  "map scriptSig (vin (CMutableTransaction.extend (ex_nonce t) (CTransaction.fields h))) = map scriptSig (vin t)"
  "vout (CMutableTransaction.extend (ex_nonce t) (CTransaction.fields h)) = vout t @ []"
  "nLockTime (CMutableTransaction.extend (ex_nonce t) (CTransaction.fields h)) = nLockTime t"
  "\<not> chainlock_conflict ex_context block i n"
  by (simp_all add: ex_mined_def ex_nonce_def CMutableTransaction.defs CTransaction.defs ex_context_def chainlock_conflict_def comp_def)

lemma ex_reward: "reward_params (consensus ex_env)" "[0x51] \<noteq> GetDevScriptForHeight (bi_nHeight ex_pp + 1)" "0 \<le> bi_nHeight ex_pp"
  "GetBlockSubsidy (bi_nHeight ex_pp + 1) (consensus ex_env) + 7 \<le> MAX_MONEY" "mn_payment (consensus ex_env) (bi_nHeight ex_pp + 1) = 2250 * COIN"
  by code_simp+



text \<open>C31: The operator's share stops the miner.  When the payee has an operator share and the operator is
  paid to a script of its own, the block assembler takes the share out of the owner's output, while
  \<open>ContextualCheckBlock\<close> wants the whole masternode payment there: the assembled block is rejected with
  bad-cb-mn-payment.\<close>

theorem operator_template_rejected:
  assumes "create_coinbase env st i nFees spk = Some (cb, st')" and "vtx block = tx # txs"
    and "map scriptSig (vin tx) = map scriptSig (vin cb)" "nLockTime tx = nLockTime cb" "vout tx = vout cb @ commitment"
    and "list_all (\<lambda>out. nValue out = 0) commitment"
    and "list_all (\<lambda>t. IsFinalTx t (bi_nHeight i + 1) (if nCSVEnabled c then GetMedianTimePast i else nBlockTime)) txs"
    and "\<not> chainlock_conflict c block (Some i) (bi_nHeight i + 1)"
    and "Manager_GetMNPayee env st (Some i) = Some (Some mn, st1)"
    and "IsMasternodePaymentEnforced (consensus env) (MineBlocksOnDemand env) (bi_nHeight i + 1)"
    and "operator_payment (mn_payment (consensus env) (bi_nHeight i + 1)) mn > 0" and "mn_payment (consensus env) (bi_nHeight i + 1) > 0"
    and "scriptPayout (mn_state mn) \<notin> {spk, GetDevScriptForHeight (bi_nHeight i + 1), scriptOperatorPayout (mn_state mn)}"
  shows "ContextualCheckBlock env c st block nBlockTime (Some i) = Some (Some (DoS 100 REJECT_INVALID ''bad-cb-mn-payment''), st')"
  by (rule operator_template_fails [OF assms])

theorem operator_template_rejected_witness:
  "ContextualCheckBlock ex_env ex_context (ex_paying ex_opmn) (ex_mined ex_opmn) 0 (Some ex_pp) =
     Some (Some (DoS 100 REJECT_INVALID ''bad-cb-mn-payment''), ex_paying ex_opmn)"
proof -
  have op: "operator_payment (2250 * COIN) ex_opmn > 0" by code_simp
  have dev: "[0x52] \<noteq> GetDevScriptForHeight (bi_nHeight ex_pp + 1)" by code_simp
  have scr: "scriptPayout (mn_state ex_opmn) = [0x52]" "scriptOperatorPayout (mn_state ex_opmn) = [0x53]"
    by (simp_all add: ex_opmn_def)
  show ?thesis
    by (rule operator_template_rejected [OF ex_template [OF ex_mn_valid(4-6)] ex_mined(1,2,4,3) _ _ ex_mined(5)
          ex_payee [OF ex_mn_valid(4-6)] ex_enforced])
      (use op dev in \<open>simp_all add: ex_reward(5) scr COIN_def\<close>)
qed

end
