(* ===== verification/AssetNames.thy ===== *)
theory AssetNames
  imports Mynta_Prelude
begin

text \<open>
  The rules for asset names, the first part of src/src/assets/assets.cpp.  The source tests names with
  \<open>std::regex_match\<close>, which is modelled by derivatives and shown to decide the language of the
  expression; each expression of the source is one definition.
\<close>

section \<open>Regular expressions\<close>

datatype regex = R_Zero | R_One | R_Sym "char \<Rightarrow> bool" | R_Alt regex regex | R_Seq regex regex | R_Star regex

primrec nullable :: "regex \<Rightarrow> bool" where
  "nullable R_Zero = False"
| "nullable R_One = True"
| "nullable (R_Sym p) = False"
| "nullable (R_Alt r s) = (nullable r \<or> nullable s)"
| "nullable (R_Seq r s) = (nullable r \<and> nullable s)"
| "nullable (R_Star r) = True"

primrec deriv :: "char \<Rightarrow> regex \<Rightarrow> regex" where
  "deriv c R_Zero = R_Zero"
| "deriv c R_One = R_Zero"
| "deriv c (R_Sym p) = (if p c then R_One else R_Zero)"
| "deriv c (R_Alt r s) = R_Alt (deriv c r) (deriv c s)"
| "deriv c (R_Seq r s) =
     (if nullable r then R_Alt (R_Seq (deriv c r) s) (deriv c s) else R_Seq (deriv c r) s)"
| "deriv c (R_Star r) = R_Seq (deriv c r) (R_Star r)"

definition regex_match :: "string \<Rightarrow> regex \<Rightarrow> bool" where
  "regex_match s r = nullable (fold deriv s r)"

primrec lang :: "regex \<Rightarrow> string set" where
  "lang R_Zero = {}"
| "lang R_One = {[]}"
| "lang (R_Sym p) = {[c] | c. p c}"
| "lang (R_Alt r s) = lang r \<union> lang s"
| "lang (R_Seq r s) = {u @ v | u v. u \<in> lang r \<and> v \<in> lang s}"
| "lang (R_Star r) = {concat us | us. set us \<subseteq> lang r}"

lemma nullable_lang: "nullable r \<longleftrightarrow> [] \<in> lang r"
  by (induction r) (auto intro: exI [of _ "[]"])

lemma star_Cons:
  "c # s \<in> {concat us | us. set us \<subseteq> A} \<longleftrightarrow> (\<exists>u v. s = u @ v \<and> c # u \<in> A \<and> v \<in> {concat us | us. set us \<subseteq> A})"
proof -
  have "\<exists>u v. s = u @ v \<and> c # u \<in> A \<and> (\<exists>ws. v = concat ws \<and> set ws \<subseteq> A)" if "c # s = concat us" "set us \<subseteq> A" for us
    using that
  proof (induction us)
    case (Cons u us)
    then show ?case by (cases u) auto
  qed simp
  moreover have "\<exists>us. c # u @ concat ws = concat us \<and> set us \<subseteq> A" if "c # u \<in> A" "set ws \<subseteq> A" for u ws
    using that by (intro exI [of _ "(c # u) # ws"]) auto
  ultimately show ?thesis by blast
qed

lemma deriv_lang: "s \<in> lang (deriv c r) \<longleftrightarrow> c # s \<in> lang r"
proof (induction r arbitrary: s)
  case (R_Seq r1 r2)
  have "c # s \<in> lang (R_Seq r1 r2) \<longleftrightarrow>
    (\<exists>u v. s = u @ v \<and> c # u \<in> lang r1 \<and> v \<in> lang r2) \<or> ([] \<in> lang r1 \<and> c # s \<in> lang r2)"
    by (auto simp: Cons_eq_append_conv)
  then show ?case using R_Seq by (auto simp: nullable_lang)
next
  case (R_Star r)
  show ?case using R_Star star_Cons [of c s "lang r"] by simp
qed auto

lemma regex_match_lang: "regex_match s r \<longleftrightarrow> s \<in> lang r"
  unfolding regex_match_def by (induction s arbitrary: r) (auto simp: nullable_lang deriv_lang)

text \<open>The repetitions \<open>r+\<close> and \<open>r{n,}\<close> and a literal string.\<close>

definition r_plus :: "regex \<Rightarrow> regex" where "r_plus r = R_Seq r (R_Star r)"

primrec r_atleast :: "nat \<Rightarrow> regex \<Rightarrow> regex" where
  "r_atleast 0 r = R_Star r"
| "r_atleast (Suc n) r = R_Seq r (r_atleast n r)"

primrec r_lit :: "string \<Rightarrow> regex" where
  "r_lit [] = R_One"
| "r_lit (c # s) = R_Seq (R_Sym (\<lambda>d. d = c)) (r_lit s)"

definition r_alt :: "regex list \<Rightarrow> regex" where "r_alt rs = foldr R_Alt rs R_Zero"

text \<open>Character classes.  The dot is any character but a line terminator.\<close>

definition between :: "char \<Rightarrow> char \<Rightarrow> char \<Rightarrow> bool" where
  "between a b c \<longleftrightarrow> (of_char a :: nat) \<le> of_char c \<and> (of_char c :: nat) \<le> of_char b"

definition any_of :: "string \<Rightarrow> char \<Rightarrow> bool" where "any_of s c \<longleftrightarrow> c \<in> set s"
definition none_of :: "string \<Rightarrow> char \<Rightarrow> bool" where "none_of s c \<longleftrightarrow> c \<notin> set s"
definition r_dot :: regex where "r_dot = R_Sym (none_of [CHR 0x0A, CHR 0x0D])"

definition name_char :: "char \<Rightarrow> bool" where
  "name_char c \<longleftrightarrow> between CHR ''A'' CHR ''Z'' c \<or> between CHR ''0'' CHR ''9'' c \<or> any_of ''._'' c"

section \<open>The expressions of the source\<close>

definition ROOT_NAME_CHARACTERS :: regex where "ROOT_NAME_CHARACTERS = r_atleast 3 (R_Sym name_char)"
definition SUB_NAME_CHARACTERS :: regex where "SUB_NAME_CHARACTERS = r_plus (R_Sym name_char)"

definition UNIQUE_TAG_CHARACTERS :: regex where
  "UNIQUE_TAG_CHARACTERS = r_plus (R_Sym (\<lambda>c. between CHR ''A'' CHR ''Z'' c \<or> between CHR ''a'' CHR ''z'' c \<or>
     between CHR ''0'' CHR ''9'' c \<or> any_of ''-@$%&*()[]{}_.?:'' c))"

definition MSG_CHANNEL_TAG_CHARACTERS :: regex where
  "MSG_CHANNEL_TAG_CHARACTERS = r_plus (R_Sym (\<lambda>c. between CHR ''A'' CHR ''Z'' c \<or> between CHR ''a'' CHR ''z'' c \<or>
     between CHR ''0'' CHR ''9'' c \<or> any_of ''_'' c))"

definition VOTE_TAG_CHARACTERS :: regex where "VOTE_TAG_CHARACTERS = r_plus (R_Sym name_char)"

definition QUALIFIER_NAME_CHARACTERS :: regex where
  "QUALIFIER_NAME_CHARACTERS = R_Seq (R_Sym (any_of ''#'')) (r_atleast 3 (R_Sym name_char))"

definition SUB_QUALIFIER_NAME_CHARACTERS :: regex where
  "SUB_QUALIFIER_NAME_CHARACTERS = R_Seq (R_Sym (any_of ''#'')) (r_plus (R_Sym name_char))"

definition RESTRICTED_NAME_CHARACTERS :: regex where
  "RESTRICTED_NAME_CHARACTERS = R_Seq (R_Sym (any_of ''$'')) (r_atleast 3 (R_Sym name_char))"

definition DOUBLE_PUNCTUATION :: regex where
  "DOUBLE_PUNCTUATION = R_Seq (R_Star r_dot) (R_Seq (r_atleast 2 (R_Sym (any_of ''._''))) (R_Star r_dot))"

definition LEADING_PUNCTUATION :: regex where
  "LEADING_PUNCTUATION = R_Seq (R_Sym (any_of ''._'')) (R_Star r_dot)"

definition TRAILING_PUNCTUATION :: regex where
  "TRAILING_PUNCTUATION = R_Seq (R_Star r_dot) (R_Sym (any_of ''._''))"

definition QUALIFIER_LEADING_PUNCTUATION :: regex where
  "QUALIFIER_LEADING_PUNCTUATION = R_Seq (R_Sym (any_of ''#$'')) (R_Seq (R_Sym (any_of ''._'')) (R_Star r_dot))"

definition UNIQUE_INDICATOR :: regex where
  "UNIQUE_INDICATOR = R_Seq (r_plus (R_Sym (none_of ''^~#!''))) (R_Seq (R_Sym (any_of ''#'')) (r_plus (R_Sym (none_of ''~#!/''))))"

definition MSG_CHANNEL_INDICATOR :: regex where
  "MSG_CHANNEL_INDICATOR = R_Seq (r_plus (R_Sym (none_of ''^~#!''))) (R_Seq (R_Sym (any_of ''~'')) (r_plus (R_Sym (none_of ''~#!/''))))"

definition OWNER_INDICATOR :: regex where
  "OWNER_INDICATOR = R_Seq (r_plus (R_Sym (none_of ''^~#!''))) (R_Sym (any_of ''!''))"

definition VOTE_INDICATOR :: regex where
  "VOTE_INDICATOR = R_Seq (r_plus (R_Sym (none_of ''^~#!''))) (R_Seq (R_Sym (any_of ''^'')) (r_plus (R_Sym (none_of ''~#!/''))))"

definition QUALIFIER_INDICATOR :: regex where
  "QUALIFIER_INDICATOR = R_Seq (R_Sym (any_of ''#'')) (r_atleast 3 (R_Sym name_char))"

definition SUB_QUALIFIER_INDICATOR :: regex where
  "SUB_QUALIFIER_INDICATOR = R_Seq (R_Sym (any_of ''#'')) (R_Seq (r_plus (R_Sym name_char))
     (R_Seq (R_Sym (any_of ''/'')) (R_Seq (R_Sym (any_of ''#'')) (r_plus (R_Sym name_char)))))"

definition RESTRICTED_INDICATOR :: regex where
  "RESTRICTED_INDICATOR = R_Seq (R_Sym (any_of ''$'')) (r_atleast 3 (R_Sym name_char))"

definition RAVEN_NAMES :: regex where
  "RAVEN_NAMES = r_alt (map r_lit [''RVN'', ''RAVEN'', ''RAVENCOIN'', ''#RVN'', ''#RAVEN'', ''#RAVENCOIN''])"

section \<open>Names\<close>

definition IsRootNameValid :: "string \<Rightarrow> bool" where
  "IsRootNameValid name \<longleftrightarrow> regex_match name ROOT_NAME_CHARACTERS \<and> \<not> regex_match name DOUBLE_PUNCTUATION \<and>
     \<not> regex_match name LEADING_PUNCTUATION \<and> \<not> regex_match name TRAILING_PUNCTUATION \<and> \<not> regex_match name RAVEN_NAMES"

definition IsQualifierNameValid :: "string \<Rightarrow> bool" where
  "IsQualifierNameValid name \<longleftrightarrow> regex_match name QUALIFIER_NAME_CHARACTERS \<and> \<not> regex_match name DOUBLE_PUNCTUATION \<and>
     \<not> regex_match name QUALIFIER_LEADING_PUNCTUATION \<and> \<not> regex_match name TRAILING_PUNCTUATION \<and>
     \<not> regex_match name RAVEN_NAMES"

definition IsRestrictedNameValid :: "string \<Rightarrow> bool" where
  "IsRestrictedNameValid name \<longleftrightarrow> regex_match name RESTRICTED_NAME_CHARACTERS \<and> \<not> regex_match name DOUBLE_PUNCTUATION \<and>
     \<not> regex_match name LEADING_PUNCTUATION \<and> \<not> regex_match name TRAILING_PUNCTUATION \<and> \<not> regex_match name RAVEN_NAMES"

definition IsSubQualifierNameValid :: "string \<Rightarrow> bool" where
  "IsSubQualifierNameValid name \<longleftrightarrow> regex_match name SUB_QUALIFIER_NAME_CHARACTERS \<and>
     \<not> regex_match name DOUBLE_PUNCTUATION \<and> \<not> regex_match name LEADING_PUNCTUATION \<and>
     \<not> regex_match name TRAILING_PUNCTUATION"

definition IsSubNameValid :: "string \<Rightarrow> bool" where
  "IsSubNameValid name \<longleftrightarrow> regex_match name SUB_NAME_CHARACTERS \<and> \<not> regex_match name DOUBLE_PUNCTUATION \<and>
     \<not> regex_match name LEADING_PUNCTUATION \<and> \<not> regex_match name TRAILING_PUNCTUATION"

definition IsUniqueTagValid :: "string \<Rightarrow> bool" where
  "IsUniqueTagValid tag = regex_match tag UNIQUE_TAG_CHARACTERS"

definition IsVoteTagValid :: "string \<Rightarrow> bool" where
  "IsVoteTagValid tag = regex_match tag VOTE_TAG_CHARACTERS"

definition IsMsgChannelTagValid :: "string \<Rightarrow> bool" where
  "IsMsgChannelTagValid tag \<longleftrightarrow> regex_match tag MSG_CHANNEL_TAG_CHARACTERS \<and> \<not> regex_match tag DOUBLE_PUNCTUATION \<and>
     \<not> regex_match tag LEADING_PUNCTUATION \<and> \<not> regex_match tag TRAILING_PUNCTUATION"

text \<open>\<open>boost::split\<close> on one delimiter: the parts between its occurrences, at least one.\<close>

fun split_at :: "char \<Rightarrow> string \<Rightarrow> string list" where
  "split_at d [] = [[]]"
| "split_at d (c # s) =
     (if c = d then [] # split_at d s else case split_at d s of p # ps \<Rightarrow> (c # p) # ps | [] \<Rightarrow> [[c]])"

definition IsNameValidBeforeTag :: "string \<Rightarrow> bool" where
  "IsNameValidBeforeTag name =
     (let parts = split_at CHR ''/'' name
      in if \<not> IsRootNameValid (hd parts) then False else list_all IsSubNameValid (tl parts))"

definition IsQualifierNameValidBeforeTag :: "string \<Rightarrow> bool" where
  "IsQualifierNameValidBeforeTag name =
     (let parts = split_at CHR ''/'' name
      in if \<not> IsQualifierNameValid (hd parts) then False
         else if length parts > 2 then False
         else list_all IsSubQualifierNameValid (tl parts))"

definition IsAssetNameASubasset :: "string \<Rightarrow> bool" where
  "IsAssetNameASubasset name =
     (let parts = split_at CHR ''/'' name in if \<not> IsRootNameValid (hd parts) then False else length parts > 1)"

definition IsAssetNameASubQualifier :: "string \<Rightarrow> bool" where
  "IsAssetNameASubQualifier name =
     (let parts = split_at CHR ''/'' name in if \<not> IsQualifierNameValid (hd parts) then False else length parts > 1)"

section \<open>Types\<close>

datatype AssetType = ROOT | SUB | UNIQUE | MSGCHANNEL | QUALIFIER | SUB_QUALIFIER | RESTRICTED | VOTE | REISSUE
  | OWNER | NULL_ADD_QUALIFIER | INVALID

definition MAX_NAME_LENGTH :: nat where "MAX_NAME_LENGTH = 31"
definition MAX_CHANNEL_NAME_LENGTH :: nat where "MAX_CHANNEL_NAME_LENGTH = 12"
definition MIN_ASSET_LENGTH :: nat where "MIN_ASSET_LENGTH = 3"

text \<open>The messages put into \<open>error\<close>; \<open>No_message\<close> is the early return that sets none.\<close>

datatype name_error = No_message | Longer_than nat | Channel_longer_than nat | Shorter_than nat | Bad_unique
  | Bad_channel | Bad_owner | Bad_vote | Bad_qualifier | Bad_restricted | At_least_3 | Bad_name

text \<open>\<open>None\<close> where the function returns true.\<close>

definition IsTypeCheckNameValid :: "AssetType \<Rightarrow> string \<Rightarrow> name_error option" where
  "IsTypeCheckNameValid type name =
     (if type \<in> {UNIQUE, MSGCHANNEL, OWNER, VOTE, QUALIFIER, SUB_QUALIFIER, RESTRICTED} \<and> length name > MAX_NAME_LENGTH
      then Some (Longer_than MAX_NAME_LENGTH)
      else if type = UNIQUE then
        (let parts = split_at CHR ''#'' name
         in if IsNameValidBeforeTag (hd parts) \<and> IsUniqueTagValid (last parts) then None else Some Bad_unique)
      else if type = MSGCHANNEL then
        (let parts = split_at CHR ''~'' name
         in if length (last parts) > MAX_CHANNEL_NAME_LENGTH then Some (Channel_longer_than MAX_CHANNEL_NAME_LENGTH)
            else if IsNameValidBeforeTag (hd parts) \<and> IsMsgChannelTagValid (last parts) then None else Some Bad_channel)
      else if type = OWNER then
        (if IsNameValidBeforeTag (take (length name - 1) name) then None else Some Bad_owner)
      else if type = VOTE then
        (let parts = split_at CHR ''^'' name
         in if IsNameValidBeforeTag (hd parts) \<and> IsVoteTagValid (last parts) then None else Some Bad_vote)
      else if type = QUALIFIER \<or> type = SUB_QUALIFIER then
        (if IsQualifierNameValidBeforeTag name then None else Some Bad_qualifier)
      else if type = RESTRICTED then
        (if IsRestrictedNameValid name then None else Some Bad_restricted)
      else if length name > MAX_NAME_LENGTH - 1 then Some (Longer_than (MAX_NAME_LENGTH - 1))
      else if \<not> IsAssetNameASubasset name \<and> length name < MIN_ASSET_LENGTH then Some (Shorter_than MIN_ASSET_LENGTH)
      else if \<not> IsNameValidBeforeTag name \<and> IsAssetNameASubasset name \<and> length name < 3 then Some At_least_3
      else if \<not> IsNameValidBeforeTag name then Some Bad_name
      else None)"

text \<open>
  The type of a name the function accepts, or the error.  \<open>typed t t' name\<close> is the shape its branches
  share: the check for \<open>t\<close>, and the type \<open>t'\<close> where it passes.
\<close>

definition typed :: "AssetType \<Rightarrow> AssetType \<Rightarrow> string \<Rightarrow> name_error + AssetType" where
  "typed t t' name = (case IsTypeCheckNameValid t name of Some e \<Rightarrow> Inl e | None \<Rightarrow> Inr t')"

definition IsAssetNameValid :: "string \<Rightarrow> name_error + AssetType" where
  "IsAssetNameValid name =
     (if length name > 40 then Inl No_message
      else if regex_match name UNIQUE_INDICATOR then typed UNIQUE UNIQUE name
      else if regex_match name MSG_CHANNEL_INDICATOR then typed MSGCHANNEL MSGCHANNEL name
      else if regex_match name OWNER_INDICATOR then typed OWNER OWNER name
      else if regex_match name VOTE_INDICATOR then typed VOTE VOTE name
      else if regex_match name QUALIFIER_INDICATOR then
        typed QUALIFIER (if IsAssetNameASubQualifier name then SUB_QUALIFIER else QUALIFIER) name
      else if regex_match name SUB_QUALIFIER_INDICATOR then
        typed SUB_QUALIFIER (if IsAssetNameASubQualifier name then SUB_QUALIFIER else INVALID) name
      else if regex_match name RESTRICTED_INDICATOR then typed RESTRICTED RESTRICTED name
      else (let type = if IsAssetNameASubasset name then SUB else ROOT in typed type type name))"

definition IsAssetNameARoot :: "string \<Rightarrow> bool" where
  "IsAssetNameARoot name = (IsAssetNameValid name = Inr ROOT)"

definition IsAssetNameAnOwner :: "string \<Rightarrow> bool" where
  "IsAssetNameAnOwner name \<longleftrightarrow> \<not> isl (IsAssetNameValid name) \<and> regex_match name OWNER_INDICATOR"

definition IsAssetNameAnRestricted :: "string \<Rightarrow> bool" where
  "IsAssetNameAnRestricted name \<longleftrightarrow> \<not> isl (IsAssetNameValid name) \<and> regex_match name RESTRICTED_INDICATOR"

definition IsAssetNameAQualifier :: "string \<Rightarrow> bool \<Rightarrow> bool" where
  "IsAssetNameAQualifier name fOnlyQualifiers =
     (if fOnlyQualifiers then \<not> isl (IsAssetNameValid name) \<and> regex_match name QUALIFIER_INDICATOR
      else \<not> isl (IsAssetNameValid name) \<and>
        (regex_match name QUALIFIER_INDICATOR \<or> regex_match name SUB_QUALIFIER_INDICATOR))"

definition IsAssetNameAnMsgChannel :: "string \<Rightarrow> bool" where
  "IsAssetNameAnMsgChannel name \<longleftrightarrow> \<not> isl (IsAssetNameValid name) \<and> regex_match name MSG_CHANNEL_INDICATOR"

definition RestrictedNameToOwnerName :: "string \<Rightarrow> string" where
  "RestrictedNameToOwnerName name = (if \<not> IsAssetNameAnRestricted name then [] else drop 1 name @ ''!'')"

text \<open>\<open>find_last_of\<close>, with \<open>None\<close> for \<open>npos\<close>.\<close>

fun find_last_of :: "char \<Rightarrow> string \<Rightarrow> nat option" where
  "find_last_of d [] = None"
| "find_last_of d (c # s) =
     (case find_last_of d s of Some i \<Rightarrow> Some (Suc i) | None \<Rightarrow> if c = d then Some 0 else None)"

definition parent_index :: "AssetType \<Rightarrow> string \<Rightarrow> nat option" where
  "parent_index type name =
     (if type = SUB then find_last_of CHR ''/'' name
      else if type = UNIQUE then find_last_of CHR ''#'' name
      else if type = MSGCHANNEL then find_last_of CHR ''~'' name
      else if type = VOTE then find_last_of CHR ''^'' name
      else if type = SUB_QUALIFIER then find_last_of CHR ''/'' name
      else None)"

definition GetParentName :: "string \<Rightarrow> string" where
  "GetParentName name =
     (case IsAssetNameValid name of
       Inl _ \<Rightarrow> []
     | Inr type \<Rightarrow> (case parent_index type name of Some index \<Rightarrow> take index name | None \<Rightarrow> name))"

definition GetUniqueAssetName :: "string \<Rightarrow> string \<Rightarrow> string" where
  "GetUniqueAssetName parent tag =
     (let unique = parent @ ''#'' @ tag in if IsAssetNameValid unique \<noteq> Inr UNIQUE then [] else unique)"

section \<open>The characters of valid names\<close>

lemma lang_star_sym [simp]: "s \<in> lang (R_Star (R_Sym p)) \<longleftrightarrow> list_all p s"
proof
  assume "s \<in> lang (R_Star (R_Sym p))"
  then obtain us where "s = concat us" "set us \<subseteq> {[c] | c. p c}" by auto
  then show "list_all p s" by (induction us arbitrary: s) auto
next
  assume a: "list_all p s"
  have "s = concat (map (\<lambda>c. [c]) s)" by (induction s) auto
  moreover have "set (map (\<lambda>c. [c]) s) \<subseteq> {[c] | c. p c}" using a by (auto simp: list_all_iff)
  ultimately show "s \<in> lang (R_Star (R_Sym p))" unfolding lang.simps by blast
qed

lemma lang_seq_sym: "s \<in> lang (R_Seq (R_Sym p) r) \<longleftrightarrow> (\<exists>c u. s = c # u \<and> p c \<and> u \<in> lang r)"
  by (auto intro: exI [of _ "[_]"])

lemma lang_plus_sym: "s \<in> lang (r_plus (R_Sym p)) \<longleftrightarrow> s \<noteq> [] \<and> list_all p s"
  unfolding r_plus_def lang_seq_sym by (cases s) (auto simp del: lang.simps)

lemma lang_atleast_sym: "s \<in> lang (r_atleast n (R_Sym p)) \<longleftrightarrow> n \<le> length s \<and> list_all p s"
proof (induction n arbitrary: s)
  case 0
  then show ?case by (simp del: lang.simps)
next
  case (Suc n)
  then show ?case
    unfolding r_atleast.simps lang_seq_sym by (cases s) (auto simp del: lang.simps)
qed

lemma root_name_chars: "IsRootNameValid s \<Longrightarrow> 3 \<le> length s \<and> list_all name_char s"
  by (simp add: IsRootNameValid_def ROOT_NAME_CHARACTERS_def regex_match_lang lang_atleast_sym)

lemma sub_name_chars: "IsSubNameValid s \<Longrightarrow> s \<noteq> [] \<and> list_all name_char s"
  by (simp add: IsSubNameValid_def SUB_NAME_CHARACTERS_def regex_match_lang lang_plus_sym)

lemma split_at_not_Nil [simp]: "split_at d s \<noteq> []"
  by (induction s) (auto split: list.splits)

lemma split_at_chars: "set s \<subseteq> insert d (\<Union> (set ` set (split_at d s)))"
proof (induction s)
  case (Cons c s)
  then show ?case by (cases "split_at d s") auto
qed simp

lemma split_at_none: "d \<notin> set s \<Longrightarrow> split_at d s = [s]"
  by (induction s) auto

lemma find_last_of_Some:
  "find_last_of d s = Some i \<Longrightarrow> i < length s \<and> s ! i = d \<and> d \<notin> set (drop (Suc i) s)"
proof (induction s arbitrary: i)
  case (Cons c s)
  then show ?case
  proof (cases "find_last_of d s")
    case None
    then have "d \<notin> set s" by (induction s) (auto split: option.splits if_splits)
    then show ?thesis using Cons.prems None by (auto split: if_splits)
  qed auto
qed simp

lemma find_last_of_None: "find_last_of d s = None \<longleftrightarrow> d \<notin> set s"
  by (induction s) (auto split: option.splits)

lemma split_at_append: "split_at d (u @ d # v) = split_at d u @ split_at d v"
  by (induction u) (auto split: list.splits simp: Cons_eq_append_conv)

lemma split_at_last:
  assumes "find_last_of d s = Some i"
  shows "split_at d s = split_at d (take i s) @ [drop (Suc i) s]"
proof -
  note f = find_last_of_Some [OF assms]
  then have "s = take i s @ d # drop (Suc i) s" by (metis id_take_nth_drop)
  then show ?thesis using f split_at_append [of d "take i s" "drop (Suc i) s"] split_at_none [of d "drop (Suc i) s"] by simp
qed

definition plain_name :: "string \<Rightarrow> bool" where
  "plain_name s \<longleftrightarrow> (\<forall>c\<in>set s. name_char c \<or> c = CHR ''/'')"

lemma name_char_not: "name_char c \<or> c = CHR ''/'' \<Longrightarrow> c \<notin> set ''^~#!$''"
  by (auto simp: name_char_def between_def any_of_def)

lemma NameValidBeforeTag_plain:
  assumes "IsNameValidBeforeTag s"
  shows "plain_name s"
proof -
  have h: "list_all name_char p" if "p \<in> set (split_at CHR ''/'' s)" for p
  proof (cases "split_at CHR ''/'' s")
    case Nil
    then show ?thesis using that by simp
  next
    case (Cons q ps)
    then show ?thesis
      using assms that root_name_chars [of q] sub_name_chars [of p]
      by (auto simp: IsNameValidBeforeTag_def list_all_iff split: if_splits)
  qed
  show ?thesis unfolding plain_name_def
  proof
    fix c assume "c \<in> set s"
    then show "name_char c \<or> c = CHR ''/''"
      using split_at_chars [of s "CHR ''/''"] h by (auto simp: list_all_iff)
  qed
qed

text \<open>A name of such characters matches none of the indicators of the other types.\<close>

lemma plain_no_indicator:
  assumes "plain_name s"
  shows "\<not> regex_match s UNIQUE_INDICATOR" "\<not> regex_match s MSG_CHANNEL_INDICATOR" "\<not> regex_match s OWNER_INDICATOR"
    "\<not> regex_match s VOTE_INDICATOR" "\<not> regex_match s QUALIFIER_INDICATOR" "\<not> regex_match s SUB_QUALIFIER_INDICATOR"
    "\<not> regex_match s RESTRICTED_INDICATOR"
proof -
  have no: "c \<notin> set s" if "c \<in> set ''^~#!$''" for c
    using that assms name_char_not by (auto simp: plain_name_def)
  show "\<not> regex_match s UNIQUE_INDICATOR" "\<not> regex_match s MSG_CHANNEL_INDICATOR" "\<not> regex_match s OWNER_INDICATOR"
    "\<not> regex_match s VOTE_INDICATOR" "\<not> regex_match s QUALIFIER_INDICATOR" "\<not> regex_match s SUB_QUALIFIER_INDICATOR"
    "\<not> regex_match s RESTRICTED_INDICATOR"
    using no [of "CHR ''#''"] no [of "CHR ''~''"] no [of "CHR ''!''"] no [of "CHR ''^''"] no [of "CHR ''$''"]
    by (auto simp: regex_match_lang UNIQUE_INDICATOR_def MSG_CHANNEL_INDICATOR_def OWNER_INDICATOR_def VOTE_INDICATOR_def
        QUALIFIER_INDICATOR_def SUB_QUALIFIER_INDICATOR_def RESTRICTED_INDICATOR_def any_of_def)
qed

section \<open>Owner names and parent names\<close>

lemma split_at_hd_length: "length (hd (split_at d s)) \<le> length s"
  by (induction s) (auto split: list.splits)

lemma plain_valid:
  assumes "IsNameValidBeforeTag s" and "length s \<le> 30"
  shows "IsAssetNameValid s = Inr (if IsAssetNameASubasset s then SUB else ROOT)"
proof -
  have "IsRootNameValid (hd (split_at CHR ''/'' s))"
    using assms(1) by (simp add: IsNameValidBeforeTag_def Let_def split: if_splits)
  then have "3 \<le> length s" using root_name_chars split_at_hd_length [of "CHR ''/''" s] by (meson order_trans)
  then have "IsTypeCheckNameValid t s = None" if "t = SUB \<or> t = ROOT" for t
    using that assms by (auto simp: IsTypeCheckNameValid_def MAX_NAME_LENGTH_def MIN_ASSET_LENGTH_def)
  then show ?thesis
    using plain_no_indicator [OF NameValidBeforeTag_plain [OF assms(1)]] assms(2)
    by (simp add: IsAssetNameValid_def typed_def)
qed

lemma root_or_sub:
  assumes "IsAssetNameValid s = Inr t" and "t = ROOT \<or> t = SUB"
  shows "IsNameValidBeforeTag s \<and> length s \<le> 30"
  using assms
  by (auto simp: IsAssetNameValid_def typed_def IsTypeCheckNameValid_def Let_def MAX_NAME_LENGTH_def
      split: if_splits)

lemma lang_has_delimiter: "s \<in> lang (R_Seq r (R_Seq (R_Sym (any_of [d])) r')) \<Longrightarrow> d \<in> set s"
  by (auto simp: any_of_def)

lemma owner_valid:
  assumes "IsNameValidBeforeTag s" and "length s \<le> 30"
  shows "IsAssetNameValid (s @ ''!'') = Inr OWNER"
proof -
  have plain: "plain_name s" by (rule NameValidBeforeTag_plain [OF assms(1)])
  then have no: "c \<notin> set s" if "c \<in> set ''^~#!$''" for c
    using that name_char_not by (auto simp: plain_name_def)
  have "split_at CHR ''/'' [] = [[]]" by simp
  then have "s \<noteq> []" using assms(1) root_name_chars [of "[]"] by (auto simp: IsNameValidBeforeTag_def split: if_splits)
  moreover have "list_all (none_of ''^~#!'') s" using no by (auto simp: list_all_iff none_of_def)
  ultimately have "s \<in> lang (r_plus (R_Sym (none_of ''^~#!'')))" by (simp add: lang_plus_sym)
  then have "regex_match (s @ ''!'') OWNER_INDICATOR"
    by (auto simp: regex_match_lang OWNER_INDICATOR_def any_of_def)
  moreover have "\<not> regex_match (s @ ''!'') UNIQUE_INDICATOR" "\<not> regex_match (s @ ''!'') MSG_CHANNEL_INDICATOR"
  proof -
    have "CHR ''#'' \<notin> set (s @ ''!'')" "CHR ''~'' \<notin> set (s @ ''!'')" using no by auto
    then show "\<not> regex_match (s @ ''!'') UNIQUE_INDICATOR" "\<not> regex_match (s @ ''!'') MSG_CHANNEL_INDICATOR"
      unfolding regex_match_lang UNIQUE_INDICATOR_def MSG_CHANNEL_INDICATOR_def by (blast dest: lang_has_delimiter)+
  qed
  ultimately show ?thesis
    using assms by (simp add: IsAssetNameValid_def typed_def IsTypeCheckNameValid_def MAX_NAME_LENGTH_def)
qed

text \<open>A name with one tag is its parent, the delimiter and the tag.\<close>

lemma tagged_parts:
  assumes "s \<in> lang (R_Seq (r_plus (R_Sym (none_of ''^~#!''))) (R_Seq (R_Sym (any_of [d])) (r_plus (R_Sym (none_of ''~#!/'')))))"
    and "d = CHR ''#'' \<or> d = CHR ''~''"
  shows "\<exists>u v. s = u @ d # v \<and> v \<noteq> [] \<and> split_at d s = [u, v] \<and> find_last_of d s = Some (length u)"
proof -
  from assms(1) obtain u v where s: "s = u @ d # v" and u: "list_all (none_of ''^~#!'') u"
    and v: "v \<noteq> []" "list_all (none_of ''~#!/'') v"
    by (auto simp: lang_plus_sym any_of_def)
  then have "d \<notin> set u" "d \<notin> set v" using assms(2) by (auto simp: list_all_iff none_of_def)
  moreover have "find_last_of d (w @ d # v) = Some (length w)" if "d \<notin> set v" for w
    using that find_last_of_None [of d v] by (induction w) auto
  ultimately show ?thesis using s v split_at_append [of d u v] by (auto simp: split_at_none)
qed

lemma parent_valid:
  assumes "IsAssetNameValid s = Inr t" and "t = SUB \<or> t = UNIQUE \<or> t = MSGCHANNEL"
  shows "IsNameValidBeforeTag (GetParentName s) \<and> length (GetParentName s) \<le> 30"
proof -
  consider "t = SUB" | "t = UNIQUE" | "t = MSGCHANNEL" using assms(2) by blast
  then show ?thesis
  proof cases
    case 1
    have sub: "IsAssetNameASubasset s" "length s \<le> 30" "IsNameValidBeforeTag s"
      using assms(1) root_or_sub [OF assms(1)] 1
      by (auto simp: IsAssetNameValid_def typed_def Let_def split: if_splits option.splits)
    then have "length (split_at CHR ''/'' s) > 1" by (simp add: IsAssetNameASubasset_def Let_def split: if_splits)
    then have "CHR ''/'' \<in> set s" using split_at_none [of "CHR ''/''" s] by fastforce
    then obtain i where i: "find_last_of CHR ''/'' s = Some i" using find_last_of_None by fastforce
    have "IsNameValidBeforeTag (take i s)"
      using sub(3) split_at_last [OF i] by (simp add: IsNameValidBeforeTag_def Let_def hd_append tl_append split: if_splits list.splits)
    then show ?thesis using sub(2) i assms(1) 1 by (simp add: GetParentName_def parent_index_def)
  next
    case 2
    then have a: "regex_match s UNIQUE_INDICATOR" "IsTypeCheckNameValid UNIQUE s = None"
      using assms(1) by (auto simp: IsAssetNameValid_def typed_def Let_def split: if_splits option.splits)
    then obtain u v where u: "s = u @ CHR ''#'' # v" "v \<noteq> []" "split_at CHR ''#'' s = [u, v]"
      "find_last_of CHR ''#'' s = Some (length u)"
      using tagged_parts [of s "CHR ''#''"] by (auto simp: regex_match_lang UNIQUE_INDICATOR_def simp del: lang.simps)
    have "IsNameValidBeforeTag u" "length s \<le> 31"
      using a(2) u(3) by (auto simp: IsTypeCheckNameValid_def MAX_NAME_LENGTH_def split: if_splits)
    then show ?thesis using assms(1) 2 u by (cases v) (simp_all add: GetParentName_def parent_index_def)
  next
    case 3
    then have a: "regex_match s MSG_CHANNEL_INDICATOR" "IsTypeCheckNameValid MSGCHANNEL s = None"
      using assms(1) by (auto simp: IsAssetNameValid_def typed_def Let_def split: if_splits option.splits)
    then obtain u v where u: "s = u @ CHR ''~'' # v" "v \<noteq> []" "split_at CHR ''~'' s = [u, v]"
      "find_last_of CHR ''~'' s = Some (length u)"
      using tagged_parts [of s "CHR ''~''"] by (auto simp: regex_match_lang MSG_CHANNEL_INDICATOR_def simp del: lang.simps)
    have "IsNameValidBeforeTag u" "length s \<le> 31"
      using a(2) u(3) by (auto simp: IsTypeCheckNameValid_def MAX_NAME_LENGTH_def Let_def split: if_splits)
    then show ?thesis using assms(1) 3 u by (cases v) (simp_all add: GetParentName_def parent_index_def)
  qed
qed

section \<open>Names that pass and should not\<close>

text \<open>
  A restricted name may begin with punctuation after its \<open>$\<close>, since the test for leading punctuation looks at
  the \<open>$\<close>; the owner name derived from it is invalid.  Of a vote name with two carets only the first and
  the last part are looked at; its parent can be invalid.
\<close>

lemma restricted_leading_punctuation:
  "IsAssetNameValid ''$.ABC'' = Inr RESTRICTED \<and> RestrictedNameToOwnerName ''$.ABC'' = ''.ABC!'' \<and>
    isl (IsAssetNameValid (RestrictedNameToOwnerName ''$.ABC''))"
  by code_simp

lemma vote_name_middle_part:
  "IsAssetNameValid ''ABC^ ^V'' = Inr VOTE \<and> isl (IsAssetNameValid (GetParentName ''ABC^ ^V''))"
  by code_simp

end
