(* ===== verification/Props_Scripts.thy ===== *)
theory Props_Scripts
  imports AssetTypes AssetNames
begin

text \<open>
  Properties of scripts and assets: script numbers and \<open>FindAndDelete\<close> (src/src/script/script.h), the asset
  payloads in output scripts (src/src/assets/assettypes.h, src/src/script/script.cpp) and asset names
  (src/src/assets/assets.cpp).
\<close>

section \<open>Scripts\<close>

text \<open>C33: \<open>FindAndDelete\<close> returns on every pair of scripts, with what the reference gives: from the left,
  every occurrence of the pattern at an operation boundary is deleted and counted, operations between the
  occurrences are kept, and an unreadable rest is kept as it is.\<close>

theorem find_and_delete_total:
  "FindAndDelete b sc = Some (if b = [] then (0, sc) else delete_all b sc)"
  by (rule FindAndDelete_eq)

text \<open>Script numbers have one encoding.  For a number of magnitude below 2^63, the byte vectors of at
  most eight bytes that \<open>CScriptNum\<close> reads as that number when it requires minimal encoding are exactly the one that
  \<open>serialize\<close> writes.\<close>

lemma script_number_unique:
  assumes "\<bar>n\<bar> < 2 ^ 63"
  shows "CScriptNum vch True 8 = Inr n \<longleftrightarrow> vch = ScriptNum_serialize n"
  unfolding CScriptNum_minimal using serialize_set_vch [of vch] set_vch_serialize [OF assms] by auto

lemma script_number_unique_instance: "CScriptNum [0xff, 0x80] True 8 = Inr (- 255) \<and> ScriptNum_serialize (- 255) = [0xff, 0x80]"
proof -
  have s: "ScriptNum_serialize (- 255) = [0xff, 0x80]" by code_simp
  then show ?thesis using script_number_unique [of "- 255" "[0xff, 0x80]"] by simp
qed

section \<open>Assets\<close>

text \<open>C35: The amount of an asset output is read back.  \<open>GetAssetAmountFromScript\<close> on the script that
  \<open>ConstructTransaction\<close> makes of a new asset, a transfer or a reissue, appended to a pay-to-public-key-hash script,
  returns the amount of that asset, transfer or reissue.\<close>

theorem asset_amount_read_back:
  assumes "length p = 25" and "new_asset_ok a" and "transfer_ok t" and "reissue_ok r"
  shows "GetAssetAmountFromScript (CNewAsset_ConstructTransaction a p) = Some (na_nAmount a) \<and>
    GetAssetAmountFromScript (CAssetTransfer_ConstructTransaction t p) = Some (tr_nAmount t) \<and>
    GetAssetAmountFromScript (CReissueAsset_ConstructTransaction r p) = Some (re_nAmount r)"
  using constructed_amounts [OF assms(1)] assms by blast

definition ex_asset :: CNewAsset where
  "ex_asset = \<lparr>na_strName = [77, 89, 78, 84, 65], na_nAmount = 1000 * COIN, na_units = 8, na_nReissuable = 1, na_nHasIPFS = 0,
     na_strIPFSHash = []\<rparr>"
definition ex_transfer :: CAssetTransfer where
  "ex_transfer = \<lparr>tr_strName = [77, 89, 78, 84, 65], tr_nAmount = 7, tr_message = [], tr_nExpireTime = 0\<rparr>"
definition ex_reissue :: CReissueAsset where
  "ex_reissue = \<lparr>re_strName = [77, 89, 78, 84, 65], re_nAmount = 9, re_nUnits = 8, re_nReissuable = 1, re_strIPFSHash = []\<rparr>"

theorem asset_amount_read_back_witness:
  "GetAssetAmountFromScript (CNewAsset_ConstructTransaction ex_asset (replicate 25 0)) = Some (1000 * COIN) \<and>
   GetAssetAmountFromScript (CAssetTransfer_ConstructTransaction ex_transfer (replicate 25 0)) = Some 7 \<and>
   GetAssetAmountFromScript (CReissueAsset_ConstructTransaction ex_reissue (replicate 25 0)) = Some 9"
proof -
  have "new_asset_ok ex_asset" "transfer_ok ex_transfer" "reissue_ok ex_reissue"
    by (simp_all add: new_asset_ok_def transfer_ok_def reissue_ok_def asset_hash_ok_def
        ex_asset_def ex_transfer_def ex_reissue_def COIN_def)
  from asset_amount_read_back [OF _ this, of "replicate 25 0"] show ?thesis
    by (simp add: ex_asset_def ex_transfer_def ex_reissue_def)
qed

text \<open>C34: The owner of the parent.  The parent of a valid sub-asset, unique asset or message channel name
  has a valid owner token: the name that issuing under the parent asks for always exists.\<close>

theorem parent_owner_valid:
  assumes "IsAssetNameValid s = Inr t" and "t = SUB \<or> t = UNIQUE \<or> t = MSGCHANNEL"
  shows "IsAssetNameValid (GetParentName s @ ''!'') = Inr OWNER"
  using owner_valid parent_valid [OF assms] by blast

theorem parent_owner_valid_witness: "IsAssetNameValid (GetParentName ''MYNTA/SHOP#1'' @ ''!'') = Inr OWNER"
proof -
  have "IsAssetNameValid ''MYNTA/SHOP#1'' = Inr UNIQUE" by code_simp
  from parent_owner_valid [OF this] show ?thesis by simp
qed

end
