(* ===== verification/Equivocation.thy ===== *)
theory Equivocation
  imports MnManager "HOL-Library.Product_Lexorder"
begin

text \<open>
  Equivocation detection, src/src/llmq/equivocation.h and .cpp: records of the messages that quorum
  members signed, proofs that a member signed two messages for one context, and the callback that
  penalises the member in the Proof of Service manager.

  Signatures and public keys are byte strings, or \<open>None\<close> where the C++ object is not valid.  What
  src/src/bls/bls.cpp does through the blst library is a parameter: the record \<open>llmq_env\<close> has it beside
  the environment of the masternode manager and the genesis hash.
  The monitoring counters are not modelled.
\<close>

type_synonym CBLSPublicKey = "byte list option"

record llmq_env =
  le_evo :: evo_env
  VerifyInsecure :: "byte list \<Rightarrow> byte list \<Rightarrow> uint256 \<Rightarrow> bool"
  SignWithDomain :: "byte list \<Rightarrow> uint256 \<Rightarrow> string \<Rightarrow> CBLSSignature"
  RecoverThresholdSignatureWithIndices :: "CBLSSignature list \<Rightarrow> nat list \<Rightarrow> int \<Rightarrow> CBLSSignature"
  SetSecretKey :: "byte list \<Rightarrow> bool"
  GetPublicKey :: "byte list \<Rightarrow> CBLSPublicKey"
  GenesisBlockHash :: uint256

abbreviation le_Hash :: "llmq_env \<Rightarrow> byte list \<Rightarrow> uint256" where
  "le_Hash e \<equiv> env_Hash (le_evo e)"

definition BLS_PUBLIC_KEY_SIZE :: nat where "BLS_PUBLIC_KEY_SIZE = 48"
definition BLS_SIGNATURE_SIZE :: nat where "BLS_SIGNATURE_SIZE = 96"

definition CBLSSignature_SetBytes :: "llmq_env \<Rightarrow> byte list \<Rightarrow> CBLSSignature" where
  "CBLSSignature_SetBytes e b =
     (if length b = BLS_SIGNATURE_SIZE \<and> BLSSignature_SetBytes (env_crypto (le_evo e)) b then Some b else None)"

definition CBLSPublicKey_SetBytes :: "llmq_env \<Rightarrow> byte list \<Rightarrow> CBLSPublicKey" where
  "CBLSPublicKey_SetBytes e b =
     (if length b = BLS_PUBLIC_KEY_SIZE \<and> BLSPublicKey_SetBytes (env_crypto (le_evo e)) b then Some b else None)"

definition Serialize_CBLSSignature :: "CBLSSignature \<Rightarrow> byte list" where
  "Serialize_CBLSSignature s = Serialize_bytes (case s of Some b \<Rightarrow> b | None \<Rightarrow> replicate BLS_SIGNATURE_SIZE 0)"

definition Serialize_CBLSPublicKey :: "CBLSPublicKey \<Rightarrow> byte list" where
  "Serialize_CBLSPublicKey k = Serialize_bytes (case k of Some b \<Rightarrow> b | None \<Rightarrow> replicate BLS_PUBLIC_KEY_SIZE 0)"

definition Signature_VerifyInsecure :: "llmq_env \<Rightarrow> CBLSSignature \<Rightarrow> CBLSPublicKey \<Rightarrow> uint256 \<Rightarrow> bool" where
  "Signature_VerifyInsecure e s k h = (case (s, k) of (Some s, Some k) \<Rightarrow> VerifyInsecure e s k h | _ \<Rightarrow> False)"

definition Signature_VerifyWithDomain ::
  "llmq_env \<Rightarrow> CBLSSignature \<Rightarrow> CBLSPublicKey \<Rightarrow> uint256 \<Rightarrow> string \<Rightarrow> bool" where
  "Signature_VerifyWithDomain e s k h domain =
     (case (s, k) of (Some s, Some k) \<Rightarrow> VerifyWithDomain (env_crypto (le_evo e)) s k h domain | _ \<Rightarrow> False)"

section \<open>Proofs\<close>

record CEquivocationProof =
  ep_contextHash :: uint256
  ep_proTxHash :: uint256
  ep_msgHash1 :: uint256
  ep_sig1 :: CBLSSignature
  ep_msgHash2 :: uint256
  ep_sig2 :: CBLSSignature
  ep_quorumHash :: uint256
  ep_memberPubKey :: CBLSPublicKey
  ep_detectionTime :: int

definition Serialize_CEquivocationProof :: "CEquivocationProof \<Rightarrow> byte list" where
  "Serialize_CEquivocationProof p =
     Serialize_uint256 (ep_contextHash p) @ Serialize_uint256 (ep_proTxHash p) @
     Serialize_uint256 (ep_msgHash1 p) @ Serialize_CBLSSignature (ep_sig1 p) @
     Serialize_uint256 (ep_msgHash2 p) @ Serialize_CBLSSignature (ep_sig2 p) @
     Serialize_uint256 (ep_quorumHash p) @ Serialize_CBLSPublicKey (ep_memberPubKey p) @
     Serialize_int64 (ep_detectionTime p)"

definition EquivocationProof_GetHash :: "llmq_env \<Rightarrow> CEquivocationProof \<Rightarrow> uint256" where
  "EquivocationProof_GetHash e p = le_Hash e (Serialize_CEquivocationProof p)"

definition EquivocationProof_Verify :: "llmq_env \<Rightarrow> CEquivocationProof \<Rightarrow> bool" where
  "EquivocationProof_Verify e p =
     (if ep_contextHash p = uint256_null \<or> ep_proTxHash p = uint256_null then False
      else if ep_msgHash1 p = uint256_null \<or> ep_msgHash2 p = uint256_null then False
      else if ep_msgHash1 p = ep_msgHash2 p then False
      else if ep_sig1 p = None \<or> ep_sig2 p = None then False
      else if ep_memberPubKey p = None then False
      else Signature_VerifyInsecure e (ep_sig1 p) (ep_memberPubKey p) (ep_msgHash1 p) \<and>
        Signature_VerifyInsecure e (ep_sig2 p) (ep_memberPubKey p) (ep_msgHash2 p))"

section \<open>The manager\<close>

record CSignatureRecord =
  sr_quorumHash :: uint256
  sr_proTxHash :: uint256
  sr_msgHash :: uint256
  sr_sig :: CBLSSignature
  sr_timestamp :: int

text \<open>A callback acts on the Proof of Service manager, \<open>None\<close> where it does not exist.\<close>

type_synonym pose_world = "pose option"

record CEquivocationManager =
  sigRecords :: "(uint256 \<times> uint256, CSignatureRecord) omap"
  equivocationProofs :: "(uint256, CEquivocationProof) omap"
  equivocators :: "uint256 set"
  callbacks :: "(CEquivocationProof \<Rightarrow> pose_world \<Rightarrow> pose_world) list"
  eq_lastCleanupHeight :: int

definition CEquivocationManager_new :: CEquivocationManager where
  "CEquivocationManager_new = \<lparr>sigRecords = om_empty, equivocationProofs = om_empty, equivocators = {}, callbacks = [],
     eq_lastCleanupHeight = 0\<rparr>"

definition MAX_RECORDS :: nat where "MAX_RECORDS = 100000"
definition CLEANUP_INTERVAL :: int where "CLEANUP_INTERVAL = 1000"

definition NotifyEquivocation :: "CEquivocationProof \<Rightarrow> CEquivocationManager \<times> pose_world \<Rightarrow> CEquivocationManager \<times> pose_world" where
  "NotifyEquivocation proof = (\<lambda>(m, w). (m, fold (\<lambda>callback. callback proof) (callbacks m) w))"

definition RegisterCallback ::
  "(CEquivocationProof \<Rightarrow> pose_world \<Rightarrow> pose_world) \<Rightarrow> CEquivocationManager \<Rightarrow> CEquivocationManager" where
  "RegisterCallback callback m = m\<lparr>callbacks := callbacks m @ [callback]\<rparr>"

definition store_proof :: "llmq_env \<Rightarrow> CEquivocationProof \<Rightarrow> CEquivocationManager \<Rightarrow> CEquivocationManager" where
  "store_proof e proof m =
     m\<lparr>equivocationProofs := om_put (EquivocationProof_GetHash e proof) proof (equivocationProofs m),
       equivocators := insert (ep_proTxHash proof) (equivocators m)\<rparr>"

definition CreateEquivocationProof ::
  "llmq_env \<Rightarrow> int \<Rightarrow> uint256 \<Rightarrow> CSignatureRecord \<Rightarrow> CSignatureRecord \<Rightarrow> CBLSPublicKey \<Rightarrow>
   CEquivocationManager \<times> pose_world \<Rightarrow> CEquivocationManager \<times> pose_world" where
  "CreateEquivocationProof e now contextHash existing conflicting memberPubKey = (\<lambda>(m, w).
     (let proof = \<lparr>ep_contextHash = contextHash, ep_proTxHash = sr_proTxHash existing,
            ep_msgHash1 = sr_msgHash existing, ep_sig1 = sr_sig existing,
            ep_msgHash2 = sr_msgHash conflicting, ep_sig2 = sr_sig conflicting,
            ep_quorumHash = sr_quorumHash existing, ep_memberPubKey = memberPubKey, ep_detectionTime = now\<rparr>
      in if \<not> EquivocationProof_Verify e proof then (m, w)
         else NotifyEquivocation proof (store_proof e proof m, w)))"

definition RecordSignature ::
  "llmq_env \<Rightarrow> int \<Rightarrow> uint256 \<Rightarrow> uint256 \<Rightarrow> uint256 \<Rightarrow> uint256 \<Rightarrow> CBLSSignature \<Rightarrow> CBLSPublicKey \<Rightarrow>
   CEquivocationManager \<times> pose_world \<Rightarrow> bool \<times> CEquivocationManager \<times> pose_world" where
  "RecordSignature e now contextHash quorumHash member msgHash sig memberPubKey = (\<lambda>(m, w).
     (let record = \<lparr>sr_quorumHash = quorumHash, sr_proTxHash = member, sr_msgHash = msgHash, sr_sig = sig,
            sr_timestamp = now\<rparr>
      in case om_find (sigRecords m) (contextHash, member) of
           Some existing \<Rightarrow>
             if sr_msgHash existing = msgHash then (True, m, w)
             else (False, CreateEquivocationProof e now contextHash existing record memberPubKey (m, w))
         | None \<Rightarrow> (True, m\<lparr>sigRecords := om_put (contextHash, member) record (sigRecords m)\<rparr>, w)))"

definition HasEquivocated :: "CEquivocationManager \<Rightarrow> uint256 \<Rightarrow> bool" where
  "HasEquivocated m h \<longleftrightarrow> h \<in> equivocators m"

definition GetEquivocationProofs :: "CEquivocationManager \<Rightarrow> uint256 \<Rightarrow> CEquivocationProof list" where
  "GetEquivocationProofs m h = filter (\<lambda>p. ep_proTxHash p = h) (map snd (om_entries (equivocationProofs m)))"

definition ProcessEquivocationProof ::
  "llmq_env \<Rightarrow> CEquivocationProof \<Rightarrow> CEquivocationManager \<times> pose_world \<Rightarrow>
   reject option \<times> CEquivocationManager \<times> pose_world" where
  "ProcessEquivocationProof e proof = (\<lambda>(m, w).
     if \<not> EquivocationProof_Verify e proof then (Some (DoS 100 REJECT_INVALID ''bad-equivocation-proof''), m, w)
     else (let proofHash = EquivocationProof_GetHash e proof
       in if om_find (equivocationProofs m) proofHash \<noteq> None then (None, m, w)
          else (None, NotifyEquivocation proof (store_proof e proof m, w))))"

text \<open>The loop of \<open>Cleanup\<close> stops at the end or when half of the limit is left.\<close>

fun cleanup_records ::
  "int \<Rightarrow> ((uint256 \<times> uint256) \<times> CSignatureRecord) list \<Rightarrow> (uint256 \<times> uint256, CSignatureRecord) omap \<Rightarrow>
   (uint256 \<times> uint256, CSignatureRecord) omap" where
  "cleanup_records cutoffTime [] recs = recs"
| "cleanup_records cutoffTime ((key, r) # it) recs =
     (if om_size recs > MAX_RECORDS div 2
      then cleanup_records cutoffTime it (if sr_timestamp r < cutoffTime then om_erase key recs else recs)
      else recs)"

definition Equivocation_Cleanup :: "int \<Rightarrow> int \<Rightarrow> CEquivocationManager \<Rightarrow> CEquivocationManager" where
  "Equivocation_Cleanup now currentHeight m =
     (if currentHeight - eq_lastCleanupHeight m < CLEANUP_INTERVAL then m
      else (let m = m\<lparr>eq_lastCleanupHeight := currentHeight\<rparr>
        in if om_size (sigRecords m) > MAX_RECORDS
           then m\<lparr>sigRecords := cleanup_records (now - 24 * 60 * 60) (om_entries (sigRecords m)) (sigRecords m)\<rparr>
           else m))"

definition pose_callback :: "int \<Rightarrow> CEquivocationProof \<Rightarrow> pose_world \<Rightarrow> pose_world" where
  "pose_callback banPenalty proof = map_option (IncrementPenalty (ep_proTxHash proof) banPenalty)"

definition ConnectEquivocationToPoSe :: "Params \<Rightarrow> CEquivocationManager \<Rightarrow> CEquivocationManager" where
  "ConnectEquivocationToPoSe p = RegisterCallback (pose_callback (nPoSeBanThreshold p))"

definition InitEquivocationDetection :: "Params \<Rightarrow> CEquivocationManager" where
  "InitEquivocationDetection p = ConnectEquivocationToPoSe p CEquivocationManager_new"

section \<open>Every equivocator has a proof\<close>

definition equiv_ok :: "llmq_env \<Rightarrow> CEquivocationManager \<Rightarrow> bool" where
  "equiv_ok e m \<longleftrightarrow>
     (\<forall>h p. om_find (equivocationProofs m) h = Some p \<longrightarrow>
        EquivocationProof_Verify e p \<and> h = EquivocationProof_GetHash e p \<and> ep_proTxHash p \<in> equivocators m) \<and>
     (\<forall>h \<in> equivocators m. \<exists>p. EquivocationProof_Verify e p \<and> ep_proTxHash p = h) \<and>
     (\<forall>c h r. om_find (sigRecords m) (c, h) = Some r \<longrightarrow> sr_proTxHash r = h)"

lemma equiv_ok_Init: "equiv_ok e (InitEquivocationDetection p)"
  by (simp add: equiv_ok_def InitEquivocationDetection_def ConnectEquivocationToPoSe_def RegisterCallback_def
      CEquivocationManager_new_def)

lemma equiv_ok_store:
  assumes "equiv_ok e m" and "EquivocationProof_Verify e p"
  shows "equiv_ok e (store_proof e p m)"
  using assms by (auto simp: equiv_ok_def store_proof_def)

lemma equiv_ok_Create:
  "equiv_ok e m \<Longrightarrow> equiv_ok e (fst (CreateEquivocationProof e now c r r' k (m, w)))"
  by (simp add: CreateEquivocationProof_def NotifyEquivocation_def Let_def equiv_ok_store)

lemma equiv_ok_put: "equiv_ok e m \<Longrightarrow> sr_proTxHash r = h \<Longrightarrow> equiv_ok e (m\<lparr>sigRecords := om_put (c, h) r (sigRecords m)\<rparr>)"
  by (auto simp: equiv_ok_def)

lemma equiv_ok_Record: "equiv_ok e m \<Longrightarrow> equiv_ok e (fst (snd (RecordSignature e now c q h msg sig k (m, w))))"
  by (cases "om_find (sigRecords m) (c, h)")
    (auto simp: RecordSignature_def Let_def equiv_ok_Create equiv_ok_put)

lemma equiv_ok_Process: "equiv_ok e m \<Longrightarrow> equiv_ok e (fst (snd (ProcessEquivocationProof e p (m, w))))"
  by (simp add: ProcessEquivocationProof_def NotifyEquivocation_def Let_def equiv_ok_store)

lemma cleanup_records_sub:
  "om_find (cleanup_records t it recs) k = Some r \<Longrightarrow> om_find recs k = Some r"
  by (induction t it recs rule: cleanup_records.induct) (auto split: if_splits)

lemma equiv_ok_Cleanup: "equiv_ok e m \<Longrightarrow> equiv_ok e (Equivocation_Cleanup now height m)"
  by (auto simp: equiv_ok_def Equivocation_Cleanup_def Let_def dest: cleanup_records_sub)

text \<open>Only records older than a day are removed, and none once half of the limit is reached.\<close>

lemma cleanup_records_keeps:
  "om_find recs k = Some r \<Longrightarrow> \<forall>x \<in> set it. om_find recs (fst x) = Some (snd x) \<Longrightarrow> distinct (map fst it) \<Longrightarrow>
   t \<le> sr_timestamp r \<Longrightarrow> om_find (cleanup_records t it recs) k = Some r"
proof (induction t it recs rule: cleanup_records.induct)
  case (2 t key r' it recs)
  let ?recs = "if sr_timestamp r' < t then om_erase key recs else recs"
  have "om_find ?recs k = Some r" using "2.prems" by auto
  moreover have "\<forall>x \<in> set it. om_find ?recs (fst x) = Some (snd x)" using "2.prems"(2,3) by (auto simp: image_iff)
  ultimately show ?case using "2.IH" "2.prems" by (simp del: om_find_erase)
qed simp

lemma Cleanup_keeps_recent:
  assumes "om_find (sigRecords m) k = Some r" and "now - 24 * 60 * 60 \<le> sr_timestamp r"
  shows "om_find (sigRecords (Equivocation_Cleanup now height m)) k = Some r"
proof -
  have "\<forall>x \<in> set (om_entries (sigRecords m)). om_find (sigRecords m) (fst x) = Some (snd x)"
    by (metis om_entries_iff prod.collapse)
  then show ?thesis
    using cleanup_records_keeps [OF assms(1) _ om_distinct assms(2)] assms by (simp add: Equivocation_Cleanup_def Let_def)
qed

section \<open>Detection and punishment\<close>

lemma callbacks_simps [simp]:
  "callbacks (InitEquivocationDetection p) = [pose_callback (nPoSeBanThreshold p)]"
  "equivocationProofs (InitEquivocationDetection p) = om_empty" "sigRecords (InitEquivocationDetection p) = om_empty"
  "equivocators (InitEquivocationDetection p) = {}" "callbacks (store_proof e pr m) = callbacks m"
  "sigRecords (store_proof e pr m) = sigRecords m"
  by (simp_all add: InitEquivocationDetection_def ConnectEquivocationToPoSe_def RegisterCallback_def
      CEquivocationManager_new_def store_proof_def)

lemma NotifyEquivocation_pose:
  "callbacks m = [pose_callback ban] \<Longrightarrow>
   NotifyEquivocation p (m, w) = (m, map_option (IncrementPenalty (ep_proTxHash p) ban) w)"
  by (simp add: NotifyEquivocation_def pose_callback_def)

lemma GetPenaltyScore_Increment:
  "0 < a \<Longrightarrow> GetPenaltyScore (fst (IncrementPenalty h a w)) h = GetPenaltyScore (fst w) h + a"
  by (cases w) (auto simp: IncrementPenalty_def GetPenaltyScore_def state_or_default_def CPoSeState_default_def Let_def
      split: option.split)

lemma Create_pose:
  assumes "callbacks m = [pose_callback ban]"
    and "EquivocationProof_Verify e \<lparr>ep_contextHash = c, ep_proTxHash = sr_proTxHash r, ep_msgHash1 = sr_msgHash r,
        ep_sig1 = sr_sig r, ep_msgHash2 = sr_msgHash r', ep_sig2 = sr_sig r', ep_quorumHash = sr_quorumHash r,
        ep_memberPubKey = k, ep_detectionTime = now\<rparr>"
  obtains p where "EquivocationProof_Verify e p" and "ep_proTxHash p = sr_proTxHash r" and "ep_contextHash p = c"
    and "CreateEquivocationProof e now c r r' k (m, w) =
      (store_proof e p m, map_option (IncrementPenalty (sr_proTxHash r) ban) w)"
  using that [OF assms(2)] assms by (simp add: CreateEquivocationProof_def Let_def NotifyEquivocation_pose)

lemma RecordSignature_conflict:
  assumes "callbacks m = [pose_callback ban]" and "om_find (sigRecords m) (c, h) = Some r" and "sr_proTxHash r = h"
    and "sr_msgHash r \<noteq> msg" and "uint256_null \<notin> {c, h, sr_msgHash r, msg}"
    and "Signature_VerifyInsecure e (sr_sig r) k (sr_msgHash r)" and "Signature_VerifyInsecure e sig k msg"
  shows "\<exists>p. EquivocationProof_Verify e p \<and> ep_proTxHash p = h \<and> ep_contextHash p = c \<and>
    RecordSignature e now c q h msg sig k (m, w) = (False, store_proof e p m, map_option (IncrementPenalty h ban) w)"
proof -
  let ?r = "\<lparr>sr_quorumHash = q, sr_proTxHash = h, sr_msgHash = msg, sr_sig = sig, sr_timestamp = now\<rparr>"
  have some: "sr_sig r \<noteq> None" "sig \<noteq> None" "k \<noteq> None"
    using assms(6,7) by (auto simp: Signature_VerifyInsecure_def split: option.splits)
  have "EquivocationProof_Verify e \<lparr>ep_contextHash = c, ep_proTxHash = sr_proTxHash r, ep_msgHash1 = sr_msgHash r,
        ep_sig1 = sr_sig r, ep_msgHash2 = sr_msgHash ?r, ep_sig2 = sr_sig ?r, ep_quorumHash = sr_quorumHash r,
        ep_memberPubKey = k, ep_detectionTime = now\<rparr>"
    using assms some by (auto simp: EquivocationProof_Verify_def)
  then obtain p where p: "EquivocationProof_Verify e p" "ep_proTxHash p = sr_proTxHash r" "ep_contextHash p = c"
    "CreateEquivocationProof e now c r ?r k (m, w) = (store_proof e p m, map_option (IncrementPenalty (sr_proTxHash r) ban) w)"
    by (rule Create_pose [OF assms(1)])
  then show ?thesis using assms(2,3,4) by (auto simp: RecordSignature_def Let_def)
qed

text \<open>\<open>Verify\<close> does not look at whom the proof accuses.\<close>

lemma Verify_any_member:
  "EquivocationProof_Verify e p \<Longrightarrow> h \<noteq> uint256_null \<Longrightarrow> EquivocationProof_Verify e (p\<lparr>ep_proTxHash := h\<rparr>)"
  by (simp add: EquivocationProof_Verify_def split: if_splits)

lemma ProcessEquivocationProof_fresh:
  assumes "callbacks m = [pose_callback ban]" and "EquivocationProof_Verify e p"
    and "om_find (equivocationProofs m) (EquivocationProof_GetHash e p) = None"
  shows "ProcessEquivocationProof e p (m, w) = (None, store_proof e p m, map_option (IncrementPenalty (ep_proTxHash p) ban) w)"
  using assms by (simp add: ProcessEquivocationProof_def Let_def NotifyEquivocation_pose)

lemma stored_proof:
  "ep_proTxHash pr = h \<Longrightarrow> pr \<in> set (GetEquivocationProofs (store_proof e pr m) h) \<and> HasEquivocated (store_proof e pr m) h \<and>
    sigRecords (store_proof e pr m) = sigRecords m"
proof -
  assume h: "ep_proTxHash pr = h"
  have "pr \<in> snd ` set (om_entries (om_put (EquivocationProof_GetHash e pr) pr (equivocationProofs m)))"
    unfolding om_value_iff by (rule exI [of _ "EquivocationProof_GetHash e pr"]) simp
  then show ?thesis using h by (simp add: GetEquivocationProofs_def store_proof_def HasEquivocated_def)
qed

lemma GetPenaltyScore_Increment_other:
  "h2 \<noteq> h \<Longrightarrow> GetPenaltyScore (fst (IncrementPenalty h a w)) h2 = GetPenaltyScore (fst w) h2"
  by (cases w) (auto simp: IncrementPenalty_def GetPenaltyScore_def Let_def)

section \<open>The states of a running manager\<close>

text \<open>
  From start-up the manager records signatures, processes proofs and cleans up, in any order, while other
  components change the penalties.
\<close>

inductive equiv_run :: "llmq_env \<Rightarrow> Params \<Rightarrow> CEquivocationManager \<times> pose_world \<Rightarrow> bool" for e p where
  eq_init: "equiv_run e p (InitEquivocationDetection p, w)"
| eq_record: "equiv_run e p (m, w) \<Longrightarrow> RecordSignature e now c q h msg sig k (m, w) = (b, m', w') \<Longrightarrow> equiv_run e p (m', w')"
| eq_proof: "equiv_run e p (m, w) \<Longrightarrow> ProcessEquivocationProof e pr (m, w) = (r, m', w') \<Longrightarrow> equiv_run e p (m', w')"
| eq_cleanup: "equiv_run e p (m, w) \<Longrightarrow> equiv_run e p (Equivocation_Cleanup now height m, w)"
| eq_pose: "equiv_run e p (m, w) \<Longrightarrow> equiv_run e p (m, w')"

lemma callbacks_frame:
  "callbacks (fst (snd (RecordSignature e now c q h msg sig k (m, w)))) = callbacks m"
  "callbacks (fst (snd (ProcessEquivocationProof e pr (m, w)))) = callbacks m"
  "callbacks (Equivocation_Cleanup now height m) = callbacks m"
  by (auto simp: RecordSignature_def CreateEquivocationProof_def ProcessEquivocationProof_def NotifyEquivocation_def
      Equivocation_Cleanup_def Let_def split: option.split)

lemma equiv_run_ok:
  "equiv_run e p s \<Longrightarrow> equiv_ok e (fst s) \<and> callbacks (fst s) = [pose_callback (nPoSeBanThreshold p)]"
proof (induction rule: equiv_run.induct)
  case (eq_record m w now c q h msg sig k b m' w')
  then show ?case
    using equiv_ok_Record [of e m now c q h msg sig k w] callbacks_frame(1) [of e now c q h msg sig k m w] by simp
next
  case (eq_proof m w pr r m' w')
  then show ?case using equiv_ok_Process [of e m pr w] callbacks_frame(2) [of e pr m w] by simp
qed (simp_all add: equiv_ok_Init equiv_ok_Cleanup callbacks_frame)

end
