(* ===== verification/Quorums.thy ===== *)
theory Quorums
  imports Equivocation "HOL-Library.Multiset"
begin

text \<open>
  Long living masternode quorums, src/src/llmq/quorums.h and the part of quorums.cpp before the
  signing manager: the table of quorum types, the deterministic selection of the members from the
  masternode list of a block, the cache of built quorums, the active quorums at the tip and the
  choice of the quorum that signs a request.

  The maps that the code only looks up are HOL maps.  \<open>std::sort\<close> is the stable sort, one of the
  orders it may leave masternodes of equal score in; the theorems that need it assume distinct scores.
  The outer \<open>option\<close> is \<open>None\<close> where an assertion of the callee fails.
\<close>

section \<open>Quorum types\<close>

datatype LLMQType = LLMQ_NONE | LLMQ_50_60 | LLMQ_400_60 | LLMQ_400_85 | LLMQ_100_67 | LLMQ_5_60

fun LLMQType_value :: "LLMQType \<Rightarrow> byte" where
  "LLMQType_value LLMQ_NONE = 0"
| "LLMQType_value LLMQ_50_60 = 1"
| "LLMQType_value LLMQ_400_60 = 2"
| "LLMQType_value LLMQ_400_85 = 3"
| "LLMQType_value LLMQ_100_67 = 4"
| "LLMQType_value LLMQ_5_60 = 100"

record LLMQParams =
  lp_type :: LLMQType
  lp_name :: string
  lp_size :: int
  lp_minSize :: int
  lp_threshold :: int
  lp_dkgInterval :: int
  lp_dkgPhaseBlocks :: int
  lp_signingActiveQuorumCount :: int

definition llmqParams :: "(LLMQType \<times> LLMQParams) list" where
  "llmqParams =
    [(LLMQ_50_60, \<lparr>lp_type = LLMQ_50_60, lp_name = ''llmq_50_60'', lp_size = 50, lp_minSize = 40, lp_threshold = 60,
        lp_dkgInterval = 24, lp_dkgPhaseBlocks = 6, lp_signingActiveQuorumCount = 24\<rparr>),
     (LLMQ_400_60, \<lparr>lp_type = LLMQ_400_60, lp_name = ''llmq_400_60'', lp_size = 400, lp_minSize = 300,
        lp_threshold = 60, lp_dkgInterval = 288, lp_dkgPhaseBlocks = 20, lp_signingActiveQuorumCount = 4\<rparr>),
     (LLMQ_400_85, \<lparr>lp_type = LLMQ_400_85, lp_name = ''llmq_400_85'', lp_size = 400, lp_minSize = 350,
        lp_threshold = 85, lp_dkgInterval = 576, lp_dkgPhaseBlocks = 20, lp_signingActiveQuorumCount = 4\<rparr>),
     (LLMQ_100_67, \<lparr>lp_type = LLMQ_100_67, lp_name = ''llmq_100_67'', lp_size = 100, lp_minSize = 80,
        lp_threshold = 67, lp_dkgInterval = 24, lp_dkgPhaseBlocks = 6, lp_signingActiveQuorumCount = 24\<rparr>),
     (LLMQ_5_60, \<lparr>lp_type = LLMQ_5_60, lp_name = ''llmq_5_60'', lp_size = 5, lp_minSize = 3, lp_threshold = 60,
        lp_dkgInterval = 12, lp_dkgPhaseBlocks = 2, lp_signingActiveQuorumCount = 4\<rparr>)]"

definition GetLLMQParams :: "LLMQType \<Rightarrow> LLMQParams" where
  "GetLLMQParams type = (case map_of llmqParams type of
     None \<Rightarrow> \<lparr>lp_type = LLMQ_NONE, lp_name = ''none'', lp_size = 0, lp_minSize = 0, lp_threshold = 0,
        lp_dkgInterval = 0, lp_dkgPhaseBlocks = 0, lp_signingActiveQuorumCount = 0\<rparr>
   | Some params \<Rightarrow> params)"

section \<open>Quorums\<close>

record CQuorumMember =
  qm_proTxHash :: uint256
  pubKeyOperator :: CBLSPublicKey
  qm_valid :: bool

record CQuorum =
  llmqType :: LLMQType
  quorumHash :: uint256
  quorumHeight :: int
  q_members :: "CQuorumMember list"
  quorumPublicKey :: CBLSPublicKey
  q_fValid :: bool
  validMemberCount :: int

fun member_index :: "int \<Rightarrow> uint256 \<Rightarrow> CQuorumMember list \<Rightarrow> int" where
  "member_index i h [] = - 1"
| "member_index i h (m # ms) = (if qm_proTxHash m = h then i else member_index (i + 1) h ms)"

definition GetMemberIndex :: "CQuorum \<Rightarrow> uint256 \<Rightarrow> int" where
  "GetMemberIndex q h = member_index 0 h (q_members q)"

text \<open>The set that \<open>IsMember\<close> caches is computed from the members, which do not change afterwards.\<close>

definition IsMember :: "CQuorum \<Rightarrow> uint256 \<Rightarrow> bool" where
  "IsMember q h \<longleftrightarrow> h \<in> set (map qm_proTxHash (q_members q))"

definition GetMemberPublicKeys :: "CQuorum \<Rightarrow> CBLSPublicKey list" where
  "GetMemberPublicKeys q = map pubKeyOperator (filter qm_valid (q_members q))"

definition GetThreshold :: "CQuorum \<Rightarrow> int" where
  "GetThreshold q = (validMemberCount q * lp_threshold (GetLLMQParams (llmqType q)) + 99) div 100"

definition GetMinSize :: "CQuorum \<Rightarrow> int" where
  "GetMinSize q = lp_minSize (GetLLMQParams (llmqType q))"

section \<open>The quorum manager\<close>

record CQuorumManager =
  quorumCache :: "LLMQType \<times> uint256 \<rightharpoonup> CQuorum"
  activeQuorums :: "LLMQType \<rightharpoonup> CQuorum list"
  myProTxHash :: uint256

definition CQuorumManager_new :: CQuorumManager where
  "CQuorumManager_new = \<lparr>quorumCache = Map.empty, activeQuorums = Map.empty, myProTxHash = uint256_null\<rparr>"

definition SetMyProTxHash :: "uint256 \<Rightarrow> CQuorumManager \<Rightarrow> CQuorumManager" where
  "SetMyProTxHash h m = m\<lparr>myProTxHash := h\<rparr>"

definition CalcMemberScore :: "llmq_env \<Rightarrow> CDeterministicMN \<Rightarrow> uint256 \<Rightarrow> uint256" where
  "CalcMemberScore e mn quorumModifier =
     le_Hash e (Serialize_string ''LLMQ_SCORE'' @ Serialize_uint256 quorumModifier @ Serialize_uint256 (proTxHash mn))"

definition quorum_hash :: "llmq_env \<Rightarrow> string \<Rightarrow> LLMQType \<Rightarrow> CBlockIndex \<Rightarrow> uint256" where
  "quorum_hash e tag type i =
     le_Hash e (Serialize_string tag @ ser_writedata8 (LLMQType_value type) @ Serialize_uint256 (bi_hash i))"

definition SelectQuorumMembers ::
  "llmq_env \<Rightarrow> LLMQType \<Rightarrow> CBlockIndex \<Rightarrow> evo_state \<Rightarrow> (CDeterministicMN list \<times> evo_state) option" where
  "SelectQuorumMembers e type i st =
     (case GetListForBlock (le_evo e) st (Some i) of
       None \<Rightarrow> None
     | Some (mnList, st) \<Rightarrow>
         (let quorumModifier = quorum_hash e ''LLMQ_MODIFIER'' type i;
              scored = ForEachMN mnList True (\<lambda>mn scored.
                if vchOperatorPubKey (mn_state mn) = [] then scored
                else scored @ [(CalcMemberScore e mn quorumModifier, mn)]) []
          in Some (take (nat (lp_size (GetLLMQParams type))) (map snd (sort_key fst scored)), st)))"

definition quorum_member :: "llmq_env \<Rightarrow> CDeterministicMN \<Rightarrow> CQuorumMember" where
  "quorum_member e mn =
     (let opKey = (if vchOperatorPubKey (mn_state mn) = [] then None
                   else CBLSPublicKey_SetBytes e (vchOperatorPubKey (mn_state mn)))
      in \<lparr>qm_proTxHash = proTxHash mn, pubKeyOperator = opKey, qm_valid = (opKey \<noteq> None \<and> MN_IsValid mn)\<rparr>)"

definition CBLSPublicKey_AggregatePublicKeys :: "llmq_env \<Rightarrow> byte list list \<Rightarrow> CBLSPublicKey" where
  "CBLSPublicKey_AggregatePublicKeys e pks =
     (let agg = AggregatePublicKeys (env_crypto (le_evo e)) pks
      in if BLSPublicKey_IsValid (env_crypto (le_evo e)) agg then Some agg else None)"

definition new_quorum :: "llmq_env \<Rightarrow> LLMQType \<Rightarrow> uint256 \<Rightarrow> int \<Rightarrow> CDeterministicMN list \<Rightarrow> CQuorum" where
  "new_quorum e type hash height selectedMembers =
     (let ms = map (quorum_member e) selectedMembers;
          memberPubKeys = List.map_filter (\<lambda>m. if qm_valid m then pubKeyOperator m else None) ms
      in \<lparr>llmqType = type, quorumHash = hash, quorumHeight = height, q_members = ms,
          quorumPublicKey = (if memberPubKeys = [] then None else CBLSPublicKey_AggregatePublicKeys e memberPubKeys),
          q_fValid = int (length memberPubKeys) \<ge> lp_minSize (GetLLMQParams type),
          validMemberCount = int (length memberPubKeys)\<rparr>)"

definition BuildQuorum ::
  "llmq_env \<Rightarrow> LLMQType \<Rightarrow> CBlockIndex option \<Rightarrow> CQuorumManager \<times> evo_state \<Rightarrow>
   (CQuorum option \<times> CQuorumManager \<times> evo_state) option" where
  "BuildQuorum e type pindex = (\<lambda>(m, st).
     (case pindex of
       None \<Rightarrow> Some (None, m, st)
     | Some i \<Rightarrow>
         (let params = GetLLMQParams type in
          if lp_type params = LLMQ_NONE then Some (None, m, st)
          else
            (let hash = quorum_hash e ''LLMQ_QUORUM'' type i in
             case quorumCache m (type, hash) of
               Some quorum \<Rightarrow> Some (Some quorum, m, st)
             | None \<Rightarrow>
                 (case SelectQuorumMembers e type i st of
                   None \<Rightarrow> None
                 | Some (selectedMembers, st) \<Rightarrow>
                     if int (length selectedMembers) < lp_minSize params then Some (None, m, st)
                     else (let quorum = new_quorum e type hash (bi_nHeight i) selectedMembers
                       in Some (Some quorum, m\<lparr>quorumCache := (quorumCache m)((type, hash) \<mapsto> quorum)\<rparr>, st)))))))"

definition GetQuorum :: "CQuorumManager \<Rightarrow> LLMQType \<Rightarrow> uint256 \<Rightarrow> CQuorum option" where
  "GetQuorum m type h = quorumCache m (type, h)"

definition GetActiveQuorums :: "CQuorumManager \<Rightarrow> LLMQType \<Rightarrow> CQuorum list" where
  "GetActiveQuorums m type = (case activeQuorums m type of Some qs \<Rightarrow> qs | None \<Rightarrow> [])"

definition select_score :: "llmq_env \<Rightarrow> uint256 \<Rightarrow> CQuorum \<Rightarrow> uint256" where
  "select_score e selectionHash q =
     le_Hash e (Serialize_string ''LLMQ_SELECT'' @ Serialize_uint256 (quorumHash q) @ Serialize_uint256 selectionHash)"

fun best_quorum :: "llmq_env \<Rightarrow> uint256 \<Rightarrow> CQuorum list \<Rightarrow> (CQuorum \<times> uint256) option \<Rightarrow> (CQuorum \<times> uint256) option" where
  "best_quorum e h [] best = best"
| "best_quorum e h (q # qs) best =
     best_quorum e h qs
       (if \<not> q_fValid q then best
        else case best of
          None \<Rightarrow> Some (q, select_score e h q)
        | Some (_, bestScore) \<Rightarrow> if select_score e h q < bestScore then Some (q, select_score e h q) else best)"

definition SelectQuorumForSigning :: "llmq_env \<Rightarrow> CQuorumManager \<Rightarrow> LLMQType \<Rightarrow> uint256 \<Rightarrow> CQuorum option" where
  "SelectQuorumForSigning e m type selectionHash =
     map_option fst (best_quorum e selectionHash (GetActiveQuorums m type) None)"

text \<open>The inner loop of \<open>UpdatedBlockTip\<close>: \<open>n\<close> iterations are left.\<close>

fun active_loop ::
  "llmq_env \<Rightarrow> CBlockIndex \<Rightarrow> LLMQType \<Rightarrow> LLMQParams \<Rightarrow> nat \<Rightarrow> int \<Rightarrow> CQuorum list \<Rightarrow> CQuorumManager \<times> evo_state \<Rightarrow>
   (CQuorum list \<times> CQuorumManager \<times> evo_state) option" where
  "active_loop e i type params 0 height newActive s = Some (newActive, s)"
| "active_loop e i type params (Suc n) height newActive s =
     (if height > 0 then
        (case GetAncestor i height of
          None \<Rightarrow> None
        | Some None \<Rightarrow> active_loop e i type params n (height - lp_dkgInterval params) newActive s
        | Some (Some quorumIndex) \<Rightarrow>
            (case BuildQuorum e type (Some quorumIndex) s of
              None \<Rightarrow> None
            | Some (quorum, s) \<Rightarrow>
                active_loop e i type params n (height - lp_dkgInterval params)
                  (newActive @ (case quorum of Some q \<Rightarrow> if q_fValid q then [q] else [] | None \<Rightarrow> [])) s))
      else Some (newActive, s))"

fun update_types ::
  "llmq_env \<Rightarrow> CBlockIndex \<Rightarrow> (LLMQType \<times> LLMQParams) list \<Rightarrow> CQuorumManager \<times> evo_state \<Rightarrow>
   (CQuorumManager \<times> evo_state) option" where
  "update_types e i [] s = Some s"
| "update_types e i ((type, params) # rest) s =
     (if lp_type params = LLMQ_NONE then update_types e i rest s
      else
        (case active_loop e i type params (nat (lp_signingActiveQuorumCount params))
            (bi_nHeight i - bi_nHeight i smod lp_dkgInterval params) [] s of
          None \<Rightarrow> None
        | Some (newActive, m, st) \<Rightarrow>
            update_types e i rest (m\<lparr>activeQuorums := (activeQuorums m)(type \<mapsto> newActive)\<rparr>, st)))"

definition Quorums_UpdatedBlockTip ::
  "llmq_env \<Rightarrow> CBlockIndex option \<Rightarrow> CQuorumManager \<times> evo_state \<Rightarrow> (CQuorumManager \<times> evo_state) option" where
  "Quorums_UpdatedBlockTip e pindex s = (case pindex of None \<Rightarrow> Some s | Some i \<Rightarrow> update_types e i llmqParams s)"

definition IsQuorumMember :: "CQuorumManager \<Rightarrow> LLMQType \<Rightarrow> uint256 \<Rightarrow> bool" where
  "IsQuorumMember m type h \<longleftrightarrow>
     (if myProTxHash m = uint256_null then False
      else case GetQuorum m type h of None \<Rightarrow> False | Some q \<Rightarrow> IsMember q (myProTxHash m))"

section \<open>Eclipse protection\<close>

definition GetSubnet16 :: "CService \<Rightarrow> u32" where
  "GetSubnet16 a =
     (if IsIPv4 a then or (push_bit 8 (ucast (ip_bytes a ! 12))) (ucast (ip_bytes a ! 13))
      else or (or (or (push_bit 24 (ucast (ip_bytes a ! 0))) (push_bit 16 (ucast (ip_bytes a ! 1))))
        (push_bit 8 (ucast (ip_bytes a ! 2)))) (ucast (ip_bytes a ! 3)))"

definition GetQuorumSubnetDiversity :: "evo_state \<Rightarrow> CQuorum \<Rightarrow> nat" where
  "GetQuorumSubnetDiversity st q =
     length (remdups (List.map_filter (\<lambda>m.
       if qm_valid m then map_option (\<lambda>mn. GetSubnet16 (addr (mn_state mn))) (Manager_GetMN st (qm_proTxHash m))
       else None) (q_members q)))"

text \<open>The ratio is a double; for counts below two to the power 50 it is below a quarter exactly when the quotient is.\<close>

definition CheckQuorumDistribution :: "evo_state \<Rightarrow> CQuorum \<Rightarrow> bool" where
  "CheckQuorumDistribution st q =
     (if \<not> q_fValid q then False
      else if validMemberCount q = 0 then False
      else \<not> 4 * int (GetQuorumSubnetDiversity st q) < validMemberCount q)"

section \<open>Selection\<close>

definition eligible_mns :: "CDeterministicMNList \<Rightarrow> CDeterministicMN list" where
  "eligible_mns l = filter (\<lambda>mn. MN_IsValid mn \<and> vchOperatorPubKey (mn_state mn) \<noteq> []) (mns l)"

definition member_score :: "llmq_env \<Rightarrow> LLMQType \<Rightarrow> CBlockIndex \<Rightarrow> CDeterministicMN \<Rightarrow> uint256" where
  "member_score e type i mn = CalcMemberScore e mn (quorum_hash e ''LLMQ_MODIFIER'' type i)"

lemma fold_scored:
  "fold (\<lambda>mn a. if \<not> P mn then a else if Q mn then a else a @ [(s mn, mn)]) xs a =
     a @ map (\<lambda>mn. (s mn, mn)) (filter (\<lambda>mn. P mn \<and> \<not> Q mn) xs)"
  by (induction xs arbitrary: a) auto

lemma map_snd_sort_scored: "map snd (sort_key fst (map (\<lambda>x. (f x, x)) xs)) = sort_key f xs"
proof -
  have "sort_key fst (map (\<lambda>x. (f x, x)) xs) = map (\<lambda>x. (f x, x)) (sort_key f xs)"
  proof (induction xs)
    case (Cons x xs)
    have "insort_key fst (f x, x) (map (\<lambda>x. (f x, x)) ys) = map (\<lambda>x. (f x, x)) (insort_key f x ys)" for ys
      by (induction ys) auto
    then show ?case using Cons by simp
  qed simp
  then show ?thesis by (simp add: o_def)
qed

lemma SelectQuorumMembers_sort:
  "SelectQuorumMembers e type i st =
     map_option (\<lambda>(l, st). (take (nat (lp_size (GetLLMQParams type))) (sort_key (member_score e type i) (eligible_mns l)), st))
       (GetListForBlock (le_evo e) st (Some i))"
  by (simp add: SelectQuorumMembers_def ForEachMN_def fold_scored map_snd_sort_scored
      member_score_def [abs_def] eligible_mns_def Let_def split: option.split prod.split)

lemma take_sort_least:
  assumes "x \<in> set (take n (sort_key f xs))" and "y \<in> set xs" and "y \<notin> set (take n (sort_key f xs))"
  shows "f x \<le> f y"
proof -
  have "y \<in> set (take n (sort_key f xs) @ drop n (sort_key f xs))"
    using assms(2) by (metis append_take_drop_id set_sort)
  then have "y \<in> set (drop n (sort_key f xs))" using assms(3) by (simp only: set_append Un_iff) simp
  moreover have "sorted (map f (take n (sort_key f xs)) @ map f (drop n (sort_key f xs)))"
    by (metis append_take_drop_id map_append sorted_sort_key)
  ultimately show ?thesis using assms(1) by (auto simp: sorted_append)
qed

lemma sort_key_perm:
  assumes "inj_on f (set xs)" and "mset xs = mset ys"
  shows "sort_key f xs = sort_key f ys"
proof -
  have "mset (sort_key f xs) = mset ys" using assms(2) by simp
  moreover have "inj_on f (set ys)" using assms mset_eq_setD by metis
  moreover have "sorted (map f (sort_key f xs))" by simp
  ultimately have "map f (sort_key f ys) = map f (sort_key f xs)"
    by (metis mset_map mset_sort properties_for_sort sorted_sort_key)
  then show ?thesis
    using assms by (metis map_inj_on mset_sort set_mset_mset set_sort sup.idem)
qed

section \<open>Invariants of the manager\<close>

definition quorum_ok :: "llmq_env \<Rightarrow> CQuorum \<Rightarrow> bool" where
  "quorum_ok e q \<longleftrightarrow>
     llmqType q \<noteq> LLMQ_NONE \<and> (\<exists>i. quorumHash q = quorum_hash e ''LLMQ_QUORUM'' (llmqType q) i \<and> quorumHeight q = bi_nHeight i) \<and>
     validMemberCount q = int (length (filter qm_valid (q_members q))) \<and>
     lp_minSize (GetLLMQParams (llmqType q)) \<le> int (length (q_members q)) \<and>
     int (length (q_members q)) \<le> lp_size (GetLLMQParams (llmqType q)) \<and>
     (q_fValid q \<longleftrightarrow> lp_minSize (GetLLMQParams (llmqType q)) \<le> validMemberCount q) \<and>
     (\<forall>m \<in> set (q_members q). qm_valid m \<longrightarrow> pubKeyOperator m \<noteq> None)"

definition manager_ok :: "llmq_env \<Rightarrow> CQuorumManager \<Rightarrow> bool" where
  "manager_ok e m \<longleftrightarrow>
     (\<forall>type h q. quorumCache m (type, h) = Some q \<longrightarrow> llmqType q = type \<and> quorumHash q = h \<and> quorum_ok e q) \<and>
     (\<forall>type q. q \<in> set (GetActiveQuorums m type) \<longrightarrow> q_fValid q \<and> quorumCache m (type, quorumHash q) = Some q)"

lemma manager_ok_new: "manager_ok e CQuorumManager_new"
  by (simp add: manager_ok_def CQuorumManager_new_def GetActiveQuorums_def)

lemma params_type: "type \<noteq> LLMQ_NONE \<longleftrightarrow> lp_type (GetLLMQParams type) \<noteq> LLMQ_NONE"
  by (cases type) (simp_all add: GetLLMQParams_def llmqParams_def)

lemma params_size: "0 \<le> lp_size (GetLLMQParams type)"
  by (cases type) (simp_all add: GetLLMQParams_def llmqParams_def)

lemma member_keys:
  "length (List.map_filter (\<lambda>m. if qm_valid m then pubKeyOperator m else None) (map (quorum_member e) ms)) =
     length (filter qm_valid (map (quorum_member e) ms))"
  by (induction ms) (auto simp: List.map_filter_simps quorum_member_def Let_def split: option.split)

lemma new_quorum_ok:
  assumes "type \<noteq> LLMQ_NONE" and "lp_minSize (GetLLMQParams type) \<le> int (length ms)"
    and "int (length ms) \<le> lp_size (GetLLMQParams type)"
  shows "quorum_ok e (new_quorum e type (quorum_hash e ''LLMQ_QUORUM'' type i) (bi_nHeight i) ms)"
  using assms unfolding quorum_ok_def new_quorum_def Let_def member_keys
  by (auto simp: quorum_member_def Let_def)

lemma SelectQuorumMembers_size:
  "SelectQuorumMembers e type i st = Some (ms, st') \<Longrightarrow> int (length ms) \<le> lp_size (GetLLMQParams type)"
  using params_size [of type] by (auto simp: SelectQuorumMembers_sort min_def)

lemma manager_okD:
  assumes "manager_ok e m" and "quorumCache m (type, h) = Some q"
  shows "llmqType q = type" and "quorumHash q = h" and "quorum_ok e q"
  using assms unfolding manager_ok_def by blast+

lemma manager_activeD:
  assumes "manager_ok e m" and "q \<in> set (GetActiveQuorums m type)"
  shows "q_fValid q" and "quorumCache m (type, quorumHash q) = Some q"
  using assms unfolding manager_ok_def by blast+

lemma manager_ok_insert:
  assumes "manager_ok e m" and "quorum_ok e q" and "quorumCache m (llmqType q, quorumHash q) = None"
  shows "manager_ok e (m\<lparr>quorumCache := (quorumCache m)((llmqType q, quorumHash q) \<mapsto> q)\<rparr>)"
  unfolding manager_ok_def GetActiveQuorums_def
proof (intro conjI allI impI)
  fix type h q'
  assume c: "quorumCache (m\<lparr>quorumCache := (quorumCache m)((llmqType q, quorumHash q) \<mapsto> q)\<rparr>) (type, h) = Some q'"
  have "llmqType q' = type \<and> quorumHash q' = h \<and> quorum_ok e q'"
  proof (cases "(type, h) = (llmqType q, quorumHash q)")
    case True
    then show ?thesis using c assms(2) by auto
  next
    case False
    then have "quorumCache m (type, h) = Some q'" using c by (simp del: prod.inject)
    then show ?thesis using manager_okD [OF assms(1)] by blast
  qed
  then show "llmqType q' = type" "quorumHash q' = h" "quorum_ok e q'" by blast+
next
  fix type q'
  assume "q' \<in> set (case activeQuorums (m\<lparr>quorumCache := (quorumCache m)((llmqType q, quorumHash q) \<mapsto> q)\<rparr>) type of
    Some qs \<Rightarrow> qs | None \<Rightarrow> [])"
  then have q': "q_fValid q'" "quorumCache m (type, quorumHash q') = Some q'"
    using manager_activeD [OF assms(1)] by (simp_all add: GetActiveQuorums_def)
  then show "q_fValid q'" by simp
  show "quorumCache (m\<lparr>quorumCache := (quorumCache m)((llmqType q, quorumHash q) \<mapsto> q)\<rparr>) (type, quorumHash q') = Some q'"
    using q' assms(3) by auto
qed

lemma BuildQuorum_ok:
  assumes "BuildQuorum e type (Some i) (m, st) = Some (qo, m', st')" and "manager_ok e m"
  shows "manager_ok e m' \<and> activeQuorums m' = activeQuorums m \<and>
    (\<forall>q. qo = Some q \<longrightarrow> quorumCache m' (type, quorumHash q) = Some q) \<and> quorumCache m \<subseteq>\<^sub>m quorumCache m' \<and>
    myProTxHash m' = myProTxHash m"
proof (cases "lp_type (GetLLMQParams type) = LLMQ_NONE")
  case True
  then show ?thesis using assms by (simp add: BuildQuorum_def)
next
  case False
  let ?h = "quorum_hash e ''LLMQ_QUORUM'' type i"
  show ?thesis
  proof (cases "quorumCache m (type, ?h)")
    case (Some q)
    then have "quorumHash q = ?h" using manager_okD [OF assms(2)] by blast
    then show ?thesis using assms False Some by (auto simp: BuildQuorum_def Let_def)
  next
    case None
    with assms False obtain ms st1 where ms: "SelectQuorumMembers e type i st = Some (ms, st1)"
      by (auto simp: BuildQuorum_def Let_def split: option.splits)
    let ?q = "new_quorum e type ?h (bi_nHeight i) ms"
    have fields: "llmqType ?q = type" "quorumHash ?q = ?h" by (simp_all add: new_quorum_def Let_def)
    show ?thesis
    proof (cases "int (length ms) < lp_minSize (GetLLMQParams type)")
      case True
      then show ?thesis using assms False None ms by (simp add: BuildQuorum_def Let_def)
    next
      case big: False
      then have q: "quorum_ok e ?q"
        using new_quorum_ok SelectQuorumMembers_size [OF ms] False params_type by simp
      have "qo = Some ?q" "m' = m\<lparr>quorumCache := (quorumCache m)((type, ?h) \<mapsto> ?q)\<rparr>"
        using assms False None ms big by (auto simp: BuildQuorum_def Let_def)
      then show ?thesis using manager_ok_insert [OF assms(2) q] fields None by (auto simp: map_le_def)
    qed
  qed
qed

lemma active_loop_ok:
  "active_loop e i type params n height act (m, st) = Some (act', m', st') \<Longrightarrow> manager_ok e m \<Longrightarrow>
   \<forall>q \<in> set act. q_fValid q \<and> quorumCache m (type, quorumHash q) = Some q \<Longrightarrow>
   manager_ok e m' \<and> activeQuorums m' = activeQuorums m \<and> myProTxHash m' = myProTxHash m \<and>
   (\<forall>q \<in> set act'. q_fValid q \<and> quorumCache m' (type, quorumHash q) = Some q)"
proof (induction n arbitrary: height act m st)
  case (Suc n)
  show ?case
  proof (cases "height > 0")
    case True
    with Suc.prems(1) obtain ao where ao: "GetAncestor i height = Some ao" by (auto split: option.splits)
    show ?thesis
    proof (cases ao)
      case None
      then show ?thesis using Suc True ao by simp
    next
      case (Some j)
      with Suc.prems(1) True ao obtain qo m1 st1 where b: "BuildQuorum e type (Some j) (m, st) = Some (qo, m1, st1)"
        by (auto split: option.splits)
      note ok = BuildQuorum_ok [OF b Suc.prems(2)]
      let ?act = "act @ (case qo of Some q \<Rightarrow> if q_fValid q then [q] else [] | None \<Rightarrow> [])"
      have "quorumCache m1 k = Some v" if "quorumCache m k = Some v" for k v
        using ok that by (metis domI map_le_def)
      then have "\<forall>q \<in> set act. q_fValid q \<and> quorumCache m1 (type, quorumHash q) = Some q"
        using Suc.prems(3) by blast
      moreover have "\<forall>q. qo = Some q \<longrightarrow> quorumCache m1 (type, quorumHash q) = Some q" using ok by blast
      ultimately have valid: "\<forall>q \<in> set ?act. q_fValid q \<and> quorumCache m1 (type, quorumHash q) = Some q"
        by (cases qo) auto
      have loop: "active_loop e i type params n (height - lp_dkgInterval params) ?act (m1, st1) = Some (act', m', st')"
        using Suc.prems(1) True ao Some b by (simp del: append.simps)
      have m1: "manager_ok e m1" "activeQuorums m1 = activeQuorums m" "myProTxHash m1 = myProTxHash m"
        using ok by blast+
      from Suc.IH [OF loop m1(1) valid] show ?thesis unfolding m1(2,3) .
    qed
  next
    case False
    then show ?thesis using Suc.prems by simp
  qed
qed simp

lemma manager_ok_active:
  assumes "manager_ok e m" and "\<forall>q \<in> set act. q_fValid q \<and> quorumCache m (type, quorumHash q) = Some q"
  shows "manager_ok e (m\<lparr>activeQuorums := (activeQuorums m)(type \<mapsto> act)\<rparr>)"
  unfolding manager_ok_def GetActiveQuorums_def
proof (intro conjI allI impI)
  fix type' q
  assume "q \<in> set (case activeQuorums (m\<lparr>activeQuorums := (activeQuorums m)(type \<mapsto> act)\<rparr>) type' of
    Some qs \<Rightarrow> qs | None \<Rightarrow> [])"
  then consider "type' = type" "q \<in> set act" | "q \<in> set (GetActiveQuorums m type')"
    by (auto simp: GetActiveQuorums_def split: if_splits)
  then have "q_fValid q \<and> quorumCache m (type', quorumHash q) = Some q"
    using assms(2) manager_activeD [OF assms(1)] by cases auto
  then show "q_fValid q"
    and "quorumCache (m\<lparr>activeQuorums := (activeQuorums m)(type \<mapsto> act)\<rparr>) (type', quorumHash q) = Some q"
    by simp_all
qed (use manager_okD [OF assms(1)] in simp_all)

lemma update_types_ok:
  "update_types e i tps (m, st) = Some (m', st') \<Longrightarrow> manager_ok e m \<Longrightarrow> manager_ok e m' \<and> myProTxHash m' = myProTxHash m"
proof (induction tps arbitrary: m st)
  case (Cons tp tps)
  obtain type params where tp: "tp = (type, params)" by (cases tp)
  show ?case
  proof (cases "lp_type params = LLMQ_NONE")
    case True
    then show ?thesis using Cons tp by simp
  next
    case False
    with Cons.prems tp obtain act m1 st1 where
      a: "active_loop e i type params (nat (lp_signingActiveQuorumCount params))
            (bi_nHeight i - bi_nHeight i smod lp_dkgInterval params) [] (m, st) = Some (act, m1, st1)"
      by (auto split: option.splits)
    let ?m = "m1\<lparr>activeQuorums := (activeQuorums m1)(type \<mapsto> act)\<rparr>"
    note ok = active_loop_ok [OF a Cons.prems(2)]
    have "manager_ok e ?m" by (rule manager_ok_active) (use ok in simp_all)
    moreover have "myProTxHash ?m = myProTxHash m" using ok by simp
    ultimately show ?thesis using Cons.IH [of ?m st1] Cons.prems(1) tp False a by simp
  qed
qed simp

lemma UpdatedBlockTip_ok:
  "Quorums_UpdatedBlockTip e pindex (m, st) = Some (m', st') \<Longrightarrow> manager_ok e m \<Longrightarrow>
   manager_ok e m' \<and> myProTxHash m' = myProTxHash m"
  using update_types_ok by (cases pindex) (auto simp: Quorums_UpdatedBlockTip_def)

section \<open>The quorum that signs\<close>

lemma best_quorum_least:
  "best_quorum e h qs best = Some (q, s) \<Longrightarrow> (\<And>q s. best = Some (q, s) \<Longrightarrow> s = select_score e h q \<and> q_fValid q) \<Longrightarrow>
   s = select_score e h q \<and> q_fValid q \<and> (q \<in> set qs \<or> best = Some (q, s)) \<and>
   (\<forall>q' s'. best = Some (q', s') \<longrightarrow> s \<le> s') \<and> (\<forall>q' \<in> set qs. q_fValid q' \<longrightarrow> s \<le> select_score e h q')"
proof (induction qs arbitrary: best)
  case (Cons a qs)
  let ?best = "if \<not> q_fValid a then best
        else case best of
          None \<Rightarrow> Some (a, select_score e h a)
        | Some (_, bestScore) \<Rightarrow> if select_score e h a < bestScore then Some (a, select_score e h a) else best"
  have "s = select_score e h q \<and> q_fValid q \<and> (q \<in> set qs \<or> ?best = Some (q, s)) \<and>
   (\<forall>q' s'. ?best = Some (q', s') \<longrightarrow> s \<le> s') \<and> (\<forall>q' \<in> set qs. q_fValid q' \<longrightarrow> s \<le> select_score e h q')"
    by (rule Cons.IH) (use Cons.prems in \<open>auto split: if_splits option.splits prod.splits\<close>)
  then show ?case
    by (cases best) (auto split: if_splits)
qed auto

lemma best_quorum_None: "best_quorum e h qs best = None \<longleftrightarrow> best = None \<and> (\<forall>q \<in> set qs. \<not> q_fValid q)"
  by (induction qs arbitrary: best) (auto split: option.splits)

lemma SelectQuorumForSigning_Some:
  assumes "SelectQuorumForSigning e m type h = Some q"
  shows "q \<in> set (GetActiveQuorums m type)" and "q_fValid q"
    and "q' \<in> set (GetActiveQuorums m type) \<Longrightarrow> q_fValid q' \<Longrightarrow> select_score e h q \<le> select_score e h q'"
  using assms best_quorum_least [of e h "GetActiveQuorums m type" None q]
  by (auto simp: SelectQuorumForSigning_def)

section \<open>Quorum intersection\<close>

lemma threshold_params:
  assumes "type \<noteq> LLMQ_NONE"
  shows "60 \<le> lp_threshold (GetLLMQParams type)" and "lp_threshold (GetLLMQParams type) \<le> 100"
    and "0 < lp_minSize (GetLLMQParams type)"
  using assms by (cases type; simp add: GetLLMQParams_def llmqParams_def)+

lemma threshold_bounds:
  assumes "quorum_ok e q"
  shows "GetThreshold q \<le> validMemberCount q" and "3 * validMemberCount q \<le> 5 * GetThreshold q"
    and "q_fValid q \<Longrightarrow> 0 < GetThreshold q"
proof -
  let ?v = "validMemberCount q" and ?t = "lp_threshold (GetLLMQParams (llmqType q))"
  have t: "60 \<le> ?t" "?t \<le> 100" "0 < lp_minSize (GetLLMQParams (llmqType q))"
    using assms threshold_params unfolding quorum_ok_def by auto
  have v: "0 \<le> ?v" using assms by (simp add: quorum_ok_def)
  have "?v * ?t \<le> ?v * 100" "?v * 60 \<le> ?v * ?t" using t v by (simp_all add: mult_left_mono)
  then show "GetThreshold q \<le> ?v" and "3 * ?v \<le> 5 * GetThreshold q" by (simp_all add: GetThreshold_def)
  then show "0 < GetThreshold q" if "q_fValid q" using that t assms by (simp add: quorum_ok_def)
qed

text \<open>A set of signers is a set of positions of valid members.\<close>

definition signers :: "CQuorum \<Rightarrow> nat set \<Rightarrow> bool" where
  "signers q S \<longleftrightarrow> (\<forall>j \<in> S. j < length (q_members q) \<and> qm_valid (q_members q ! j))"

lemma signers_card: "quorum_ok e q \<Longrightarrow> signers q S \<Longrightarrow> int (card S) \<le> validMemberCount q"
proof -
  assume q: "quorum_ok e q" and S: "signers q S"
  let ?V = "{j. j < length (q_members q) \<and> qm_valid (q_members q ! j)}"
  have "card ?V = length (filter qm_valid (q_members q))" by (simp add: length_filter_conv_card)
  moreover have "card S \<le> card ?V" by (rule card_mono) (use S in \<open>auto simp: signers_def\<close>)
  ultimately show ?thesis using q by (simp add: quorum_ok_def)
qed

lemma signers_intersect:
  assumes "quorum_ok e q" and "signers q S" and "signers q T"
    and "GetThreshold q \<le> int (card S)" and "GetThreshold q \<le> int (card T)"
  shows "validMemberCount q \<le> 5 * int (card (S \<inter> T))"
proof -
  have fin: "finite S" "finite T"
    using assms(2,3) by (auto simp: signers_def intro: finite_subset [of _ "{..<length (q_members q)}"])
  have "signers q (S \<union> T)" using assms(2,3) by (auto simp: signers_def)
  then have "int (card (S \<union> T)) \<le> validMemberCount q" by (rule signers_card [OF assms(1)])
  moreover have "card S + card T = card (S \<union> T) + card (S \<inter> T)" using fin by (rule card_Un_Int)
  ultimately show ?thesis using threshold_bounds(2) [OF assms(1)] assms(4,5) by linarith
qed

end
