(* ===== verification/Signing.thy ===== *)
theory Signing
  imports Quorums "HOL-Library.Sublist"
begin

text \<open>
  Signing with quorums: the table of key generation sessions (\<open>CDKGSessionManager\<close> of
  src/src/llmq/dkg.cpp), the identity of the node and the signing manager (src/src/llmq/quorums.cpp).

  The sessions themselves (\<open>CDKGSession\<close>) are not modelled: a session is a value of a type \<open>'s\<close> with
  the operations of the record \<open>dkg_ops\<close>, and a message has a body of a type \<open>'b\<close> that only a session
  reads.  \<open>GetTime\<close> is the argument \<open>now\<close>.
\<close>

section \<open>Key generation sessions\<close>

record 'b dkg_message =
  dm_quorumHash :: uint256
  dm_proTxHash :: uint256
  dm_body :: 'b

record ('s, 'b) dkg_ops =
  Session_Init :: "uint256 \<Rightarrow> int \<Rightarrow> LLMQType \<Rightarrow> CDeterministicMN list \<Rightarrow> uint256 \<Rightarrow> 's option"
  Session_IsOurTurn :: "'s \<Rightarrow> bool"
  Session_SetOperatorKey :: "byte list \<Rightarrow> 's \<Rightarrow> 's"
  Session_ProcessContribution :: "'b dkg_message \<Rightarrow> 's \<Rightarrow> reject option \<times> 's"
  Session_ProcessComplaint :: "'b dkg_message \<Rightarrow> 's \<Rightarrow> reject option \<times> 's"
  Session_ProcessJustification :: "'b dkg_message \<Rightarrow> 's \<Rightarrow> reject option \<times> 's"
  Session_ProcessPrematureCommitment :: "'b dkg_message \<Rightarrow> 's \<Rightarrow> reject option \<times> 's"
  Session_ProcessFinalCommitment :: "'b dkg_message \<Rightarrow> 's \<Rightarrow> reject option \<times> 's"
  Session_AdvancePhase :: "int \<Rightarrow> 's \<Rightarrow> 's"
  Session_IsComplete :: "'s \<Rightarrow> bool"
  Session_GetSecretKeyShare :: "'s \<Rightarrow> byte list option"

record RateLimitEntry =
  windowStart :: int
  messageCount :: int

record ('s, 'b) CDKGSessionManager =
  activeSessions :: "(uint256, 's) omap"
  finalCommitments :: "(uint256, 'b dkg_message) omap"
  dkg_myProTxHash :: uint256
  myOperatorKey :: "byte list option"
  rateLimitMap :: "(uint256, RateLimitEntry) omap"

definition CDKGSessionManager_new :: "('s, 'b) CDKGSessionManager" where
  "CDKGSessionManager_new = \<lparr>activeSessions = om_empty, finalCommitments = om_empty, dkg_myProTxHash = uint256_null,
     myOperatorKey = None, rateLimitMap = om_empty\<rparr>"

definition MAX_MESSAGES_PER_WINDOW :: int where "MAX_MESSAGES_PER_WINDOW = 100"
definition RATE_LIMIT_WINDOW :: int where "RATE_LIMIT_WINDOW = 60"

definition DKG_SetMyProTxHash :: "uint256 \<Rightarrow> ('s, 'b) CDKGSessionManager \<Rightarrow> ('s, 'b) CDKGSessionManager" where
  "DKG_SetMyProTxHash h d = d\<lparr>dkg_myProTxHash := h\<rparr>"

definition SetMyOperatorKey ::
  "llmq_env \<Rightarrow> byte list \<Rightarrow> ('s, 'b) CDKGSessionManager \<Rightarrow> bool \<times> ('s, 'b) CDKGSessionManager" where
  "SetMyOperatorKey e operatorKey d =
     (if \<not> SetSecretKey e operatorKey then (False, d) else (True, d\<lparr>myOperatorKey := Some operatorKey\<rparr>))"

definition dkg_member_score :: "llmq_env \<Rightarrow> uint256 \<Rightarrow> CDeterministicMN \<Rightarrow> uint256" where
  "dkg_member_score e hash mn = le_Hash e (Serialize_uint256 hash @ Serialize_uint256 (proTxHash mn))"

definition StartSession ::
  "llmq_env \<Rightarrow> ('s, 'b) dkg_ops \<Rightarrow> LLMQType \<Rightarrow> CBlockIndex option \<Rightarrow> ('s, 'b) CDKGSessionManager \<times> evo_state \<Rightarrow>
   (bool \<times> ('s, 'b) CDKGSessionManager \<times> evo_state) option" where
  "StartSession e ops type pindex = (\<lambda>(d, st).
     (case pindex of
       None \<Rightarrow> Some (False, d, st)
     | Some i \<Rightarrow>
         (let params = GetLLMQParams type in
          if lp_type params = LLMQ_NONE then Some (False, d, st)
          else
            (let hash = quorum_hash e ''LLMQ_DKG'' type i in
             if om_find (activeSessions d) hash \<noteq> None then Some (False, d, st)
             else
               (case GetListForBlock (le_evo e) st (Some i) of
                 None \<Rightarrow> None
               | Some (mnList, st) \<Rightarrow>
                   (let members = ForEachMN mnList True (\<lambda>mn members. members @ [mn]) [] in
                    if int (length members) < lp_minSize params then Some (False, d, st)
                    else
                      (let members = take (nat (lp_size params)) (sort_key (dkg_member_score e hash) members) in
                       case Session_Init ops hash (bi_nHeight i) type members (dkg_myProTxHash d) of
                         None \<Rightarrow> Some (False, d, st)
                       | Some session \<Rightarrow>
                           (let session = (case myOperatorKey d of
                                Some key \<Rightarrow> if Session_IsOurTurn ops session then Session_SetOperatorKey ops key session else session
                              | None \<Rightarrow> session)
                            in Some (True, d\<lparr>activeSessions := om_put hash session (activeSessions d)\<rparr>, st)))))))))"

definition IsRateLimited ::
  "int \<Rightarrow> uint256 \<Rightarrow> ('s, 'b) CDKGSessionManager \<Rightarrow> bool \<times> ('s, 'b) CDKGSessionManager" where
  "IsRateLimited now h d =
     (case om_find (rateLimitMap d) h of
       None \<Rightarrow> (False, d\<lparr>rateLimitMap := om_put h \<lparr>windowStart = now, messageCount = 1\<rparr> (rateLimitMap d)\<rparr>)
     | Some entry \<Rightarrow>
         if now - windowStart entry \<ge> RATE_LIMIT_WINDOW
         then (False, d\<lparr>rateLimitMap := om_put h \<lparr>windowStart = now, messageCount = 1\<rparr> (rateLimitMap d)\<rparr>)
         else if messageCount entry \<ge> MAX_MESSAGES_PER_WINDOW then (True, d)
         else (False, d\<lparr>rateLimitMap := om_put h (entry\<lparr>messageCount := messageCount entry + 1\<rparr>) (rateLimitMap d)\<rparr>))"

definition process_member_message ::
  "('b dkg_message \<Rightarrow> 's \<Rightarrow> reject option \<times> 's) \<Rightarrow> int \<Rightarrow> 'b dkg_message \<Rightarrow> ('s, 'b) CDKGSessionManager \<Rightarrow>
   reject option \<times> ('s, 'b) CDKGSessionManager" where
  "process_member_message process now msg d =
     (case IsRateLimited now (dm_proTxHash msg) d of (limited, d) \<Rightarrow>
       if limited then (Some (DoS 10 REJECT_INVALID ''dkg-rate-limited''), d)
       else (case om_find (activeSessions d) (dm_quorumHash msg) of
           None \<Rightarrow> (Some (DoS 10 REJECT_INVALID ''bad-dkg-no-session''), d)
         | Some session \<Rightarrow>
             (case process msg session of (r, session) \<Rightarrow>
               (r, d\<lparr>activeSessions := om_put (dm_quorumHash msg) session (activeSessions d)\<rparr>))))"

definition ProcessContribution ::
  "('s, 'b) dkg_ops \<Rightarrow> int \<Rightarrow> 'b dkg_message \<Rightarrow> ('s, 'b) CDKGSessionManager \<Rightarrow> reject option \<times> ('s, 'b) CDKGSessionManager" where
  "ProcessContribution ops = process_member_message (Session_ProcessContribution ops)"

definition ProcessComplaint ::
  "('s, 'b) dkg_ops \<Rightarrow> int \<Rightarrow> 'b dkg_message \<Rightarrow> ('s, 'b) CDKGSessionManager \<Rightarrow> reject option \<times> ('s, 'b) CDKGSessionManager" where
  "ProcessComplaint ops = process_member_message (Session_ProcessComplaint ops)"

definition ProcessJustification ::
  "('s, 'b) dkg_ops \<Rightarrow> int \<Rightarrow> 'b dkg_message \<Rightarrow> ('s, 'b) CDKGSessionManager \<Rightarrow> reject option \<times> ('s, 'b) CDKGSessionManager" where
  "ProcessJustification ops = process_member_message (Session_ProcessJustification ops)"

definition ProcessPrematureCommitment ::
  "('s, 'b) dkg_ops \<Rightarrow> int \<Rightarrow> 'b dkg_message \<Rightarrow> ('s, 'b) CDKGSessionManager \<Rightarrow> reject option \<times> ('s, 'b) CDKGSessionManager" where
  "ProcessPrematureCommitment ops = process_member_message (Session_ProcessPrematureCommitment ops)"

definition ProcessFinalCommitment ::
  "('s, 'b) dkg_ops \<Rightarrow> 'b dkg_message \<Rightarrow> ('s, 'b) CDKGSessionManager \<Rightarrow> reject option \<times> ('s, 'b) CDKGSessionManager" where
  "ProcessFinalCommitment ops msg d =
     (let d = d\<lparr>finalCommitments := om_put (dm_quorumHash msg) msg (finalCommitments d)\<rparr>
      in case om_find (activeSessions d) (dm_quorumHash msg) of
           None \<Rightarrow> (None, d)
         | Some session \<Rightarrow>
             (case Session_ProcessFinalCommitment ops msg session of (r, session) \<Rightarrow>
               (r, d\<lparr>activeSessions := om_put (dm_quorumHash msg) session (activeSessions d)\<rparr>)))"

definition DKG_GetSecretKeyShare :: "('s, 'b) dkg_ops \<Rightarrow> ('s, 'b) CDKGSessionManager \<Rightarrow> uint256 \<Rightarrow> byte list option" where
  "DKG_GetSecretKeyShare ops d h =
     (case om_find (activeSessions d) h of Some session \<Rightarrow> Session_GetSecretKeyShare ops session | None \<Rightarrow> None)"

definition IsDKGComplete :: "('s, 'b) CDKGSessionManager \<Rightarrow> uint256 \<Rightarrow> bool" where
  "IsDKGComplete d h \<longleftrightarrow> om_find (finalCommitments d) h \<noteq> None"

fun start_sessions ::
  "llmq_env \<Rightarrow> ('s, 'b) dkg_ops \<Rightarrow> CBlockIndex \<Rightarrow> LLMQType list \<Rightarrow> ('s, 'b) CDKGSessionManager \<times> evo_state \<Rightarrow>
   (('s, 'b) CDKGSessionManager \<times> evo_state) option" where
  "start_sessions e ops i [] s = Some s"
| "start_sessions e ops i (type # types) s =
     (let params = GetLLMQParams type in
      if lp_type params = LLMQ_NONE then start_sessions e ops i types s
      else if bi_nHeight i smod lp_dkgInterval params = 0
      then (case StartSession e ops type (Some i) s of None \<Rightarrow> None | Some (_, s) \<Rightarrow> start_sessions e ops i types s)
      else start_sessions e ops i types s)"

definition DKG_UpdatedBlockTip ::
  "llmq_env \<Rightarrow> ('s, 'b) dkg_ops \<Rightarrow> CBlockIndex option \<Rightarrow> ('s, 'b) CDKGSessionManager \<times> evo_state \<Rightarrow>
   (('s, 'b) CDKGSessionManager \<times> evo_state) option" where
  "DKG_UpdatedBlockTip e ops pindex = (\<lambda>(d, st).
     (case pindex of
       None \<Rightarrow> Some (d, st)
     | Some i \<Rightarrow>
         start_sessions e ops i [LLMQ_5_60, LLMQ_50_60, LLMQ_400_60]
           (d\<lparr>activeSessions := fold (\<lambda>(h, session). om_put h (Session_AdvancePhase ops (bi_nHeight i) session))
              (om_entries (activeSessions d)) (activeSessions d)\<rparr>, st)))"

definition DKG_Cleanup :: "('s, 'b) dkg_ops \<Rightarrow> ('s, 'b) CDKGSessionManager \<Rightarrow> ('s, 'b) CDKGSessionManager" where
  "DKG_Cleanup ops d = d\<lparr>activeSessions := fold (\<lambda>(h, session). if Session_IsComplete ops session then om_erase h else id)
     (om_entries (activeSessions d)) (activeSessions d)\<rparr>"

section \<open>Recovered signatures\<close>

record CRecoveredSig =
  rs_llmqType :: LLMQType
  rs_quorumHash :: uint256
  rs_id :: uint256
  rs_msgHash :: uint256
  rs_sig :: CBLSSignature

definition Serialize_CRecoveredSig :: "CRecoveredSig \<Rightarrow> byte list" where
  "Serialize_CRecoveredSig r =
     ser_writedata8 (LLMQType_value (rs_llmqType r)) @ Serialize_uint256 (rs_quorumHash r) @
     Serialize_uint256 (rs_id r) @ Serialize_uint256 (rs_msgHash r) @ Serialize_CBLSSignature (rs_sig r)"

definition RecoveredSig_GetHash :: "llmq_env \<Rightarrow> CRecoveredSig \<Rightarrow> uint256" where
  "RecoveredSig_GetHash e r = le_Hash e (Serialize_CRecoveredSig r)"

definition BuildSignHash :: "llmq_env \<Rightarrow> CRecoveredSig \<Rightarrow> uint256" where
  "BuildSignHash e r =
     le_Hash e (Serialize_uint256 (GenesisBlockHash e) @ ser_writedata8 (LLMQType_value (rs_llmqType r)) @
       Serialize_uint256 (rs_quorumHash r) @ Serialize_uint256 (rs_id r) @ Serialize_uint256 (rs_msgHash r))"

section \<open>The signing manager\<close>

record CSigningManager =
  sigShares :: "(uint256, (uint256, CBLSSignature) omap) omap"
  recoveredSigs :: "(uint256, CRecoveredSig) omap"

definition CSigningManager_new :: CSigningManager where
  "CSigningManager_new = \<lparr>sigShares = om_empty, recoveredSigs = om_empty\<rparr>"

text \<open>\<open>sigShares[id][member] = sig\<close>; the subscript creates the inner map.\<close>

definition store_share :: "uint256 \<Rightarrow> uint256 \<Rightarrow> CBLSSignature \<Rightarrow> CSigningManager \<Rightarrow> CSigningManager" where
  "store_share rid member sig s = s\<lparr>sigShares :=
     om_put rid (om_put member sig (case om_find (sigShares s) rid of Some shares \<Rightarrow> shares | None \<Rightarrow> om_empty)) (sigShares s)\<rparr>"

definition GetSecretKeyShare ::
  "('s, 'b) dkg_ops \<Rightarrow> CQuorumManager \<Rightarrow> ('s, 'b) CDKGSessionManager \<Rightarrow> LLMQType \<Rightarrow> uint256 \<Rightarrow> byte list option" where
  "GetSecretKeyShare ops m d type h =
     (case GetQuorum m type h of None \<Rightarrow> None | Some _ \<Rightarrow> DKG_GetSecretKeyShare ops d h)"

fun collect_shares ::
  "CQuorum \<Rightarrow> int \<Rightarrow> (uint256 \<times> CBLSSignature) list \<Rightarrow> CBLSSignature list \<Rightarrow> nat list \<Rightarrow> CBLSSignature list \<times> nat list" where
  "collect_shares q threshold [] memberSigs memberIndices = (memberSigs, memberIndices)"
| "collect_shares q threshold ((h, sig) # shares) memberSigs memberIndices =
     (let memberIdx = GetMemberIndex q h in
      if memberIdx \<ge> 0 then
        (let memberSigs = memberSigs @ [sig]; memberIndices = memberIndices @ [nat (memberIdx + 1)]
         in if int (length memberSigs) \<ge> threshold then (memberSigs, memberIndices)
            else collect_shares q threshold shares memberSigs memberIndices)
      else collect_shares q threshold shares memberSigs memberIndices)"

definition TryRecoverSignature ::
  "llmq_env \<Rightarrow> CQuorumManager \<Rightarrow> CSigningManager \<Rightarrow> LLMQType \<Rightarrow> uint256 \<Rightarrow> uint256 \<Rightarrow> CRecoveredSig option" where
  "TryRecoverSignature e m s type rid msgHash =
     (case om_find (recoveredSigs s) rid of
       Some r \<Rightarrow> Some r
     | None \<Rightarrow>
         (case om_find (sigShares s) rid of
           None \<Rightarrow> None
         | Some shares \<Rightarrow>
             (case SelectQuorumForSigning e m type rid of
               None \<Rightarrow> None
             | Some quorum \<Rightarrow>
                 (let threshold = GetThreshold quorum in
                  if int (om_size shares) < threshold then None
                  else
                    (case collect_shares quorum threshold (om_entries shares) [] [] of (memberSigs, memberIndices) \<Rightarrow>
                       if int (length memberSigs) < threshold then None
                       else
                         (let recoveredSig = RecoverThresholdSignatureWithIndices e memberSigs memberIndices threshold in
                          if recoveredSig = None then None
                          else Some \<lparr>rs_llmqType = type, rs_quorumHash = quorumHash quorum, rs_id = rid, rs_msgHash = msgHash,
                            rs_sig = recoveredSig\<rparr>))))))"

definition async_sign_hash :: "llmq_env \<Rightarrow> LLMQType \<Rightarrow> uint256 \<Rightarrow> uint256 \<Rightarrow> uint256 \<Rightarrow> uint256" where
  "async_sign_hash e type hash rid msgHash =
     le_Hash e (ser_writedata8 (LLMQType_value type) @ Serialize_uint256 hash @ Serialize_uint256 rid @ Serialize_uint256 msgHash)"

definition AsyncSign ::
  "llmq_env \<Rightarrow> ('s, 'b) dkg_ops \<Rightarrow> CQuorumManager \<Rightarrow> ('s, 'b) CDKGSessionManager \<Rightarrow> LLMQType \<Rightarrow> uint256 \<Rightarrow> uint256 \<Rightarrow>
   CSigningManager \<Rightarrow> bool \<times> CSigningManager" where
  "AsyncSign e ops m d type rid msgHash s =
     (case SelectQuorumForSigning e m type rid of
       None \<Rightarrow> (False, s)
     | Some quorum \<Rightarrow>
         (case GetSecretKeyShare ops m d type (quorumHash quorum) of
           None \<Rightarrow> (False, s)
         | Some skShare \<Rightarrow>
             (let sigShare = SignWithDomain e skShare (async_sign_hash e type (quorumHash quorum) rid msgHash) QUORUM in
              if sigShare = None then (False, s)
              else
                (let s = store_share rid (myProTxHash m) sigShare s in
                 case TryRecoverSignature e m s type rid msgHash of
                   None \<Rightarrow> (True, s)
                 | Some recSig \<Rightarrow> (True, s\<lparr>recoveredSigs := om_put rid recSig (recoveredSigs s)\<rparr>)))))"

definition sig_context :: "llmq_env \<Rightarrow> uint256 \<Rightarrow> uint256 \<Rightarrow> uint256" where
  "sig_context e hash rid = le_Hash e (Serialize_string ''LLMQ_SIG_CONTEXT'' @ Serialize_uint256 hash @ Serialize_uint256 rid)"

definition ProcessSigShare ::
  "llmq_env \<Rightarrow> int \<Rightarrow> CQuorumManager \<Rightarrow> uint256 \<Rightarrow> uint256 \<Rightarrow> uint256 \<Rightarrow> CBLSSignature \<Rightarrow>
   CSigningManager \<times> CEquivocationManager option \<times> pose_world \<Rightarrow>
   bool \<times> CSigningManager \<times> CEquivocationManager option \<times> pose_world" where
  "ProcessSigShare e now m hash rid member sigShare = (\<lambda>(s, em, w).
     if sigShare = None then (False, s, em, w)
     else
       (case (em, GetQuorum m LLMQ_50_60 hash) of
         (Some eq, Some quorum) \<Rightarrow>
           (let memberIdx = GetMemberIndex quorum member in
            if memberIdx \<ge> 0 \<and> memberIdx < int (length (q_members quorum))
            then
              (case RecordSignature e now (sig_context e hash rid) hash member (le_Hash e (Serialize_uint256 rid)) sigShare
                  (pubKeyOperator (q_members quorum ! nat memberIdx)) (eq, w) of
                (recorded, eq, w) \<Rightarrow>
                  if \<not> recorded then (False, s, Some eq, w) else (True, store_share rid member sigShare s, Some eq, w))
            else (True, store_share rid member sigShare s, em, w))
       | _ \<Rightarrow> (True, store_share rid member sigShare s, em, w)))"

definition VerifyRecoveredSig :: "llmq_env \<Rightarrow> CQuorumManager \<Rightarrow> CRecoveredSig \<Rightarrow> bool" where
  "VerifyRecoveredSig e m r =
     (if rs_sig r = None then False
      else case GetQuorum m (rs_llmqType r) (rs_quorumHash r) of
        None \<Rightarrow> False
      | Some quorum \<Rightarrow>
          if \<not> q_fValid quorum then False
          else Signature_VerifyWithDomain e (rs_sig r) (quorumPublicKey quorum) (BuildSignHash e r) QUORUM)"

definition MAX_SHARES :: nat where "MAX_SHARES = 10000"
definition MAX_RECOVERED :: nat where "MAX_RECOVERED = 10000"

text \<open>The loop of \<open>Cleanup\<close>: \<open>n\<close> entries may still be removed.\<close>

fun evict :: "nat \<Rightarrow> nat \<Rightarrow> ('k::linorder \<times> 'v) list \<Rightarrow> ('k, 'v) omap \<Rightarrow> ('k, 'v) omap" where
  "evict limit n [] m = m"
| "evict limit 0 it m = m"
| "evict limit (Suc n) ((k, v) # it) m = (if om_size m > limit then evict limit n it (om_erase k m) else m)"

definition Signing_Cleanup :: "CSigningManager \<Rightarrow> CSigningManager" where
  "Signing_Cleanup s =
     (let s = (if om_size (sigShares s) > MAX_SHARES div 2
          then s\<lparr>sigShares := evict MAX_SHARES (om_size (sigShares s) - MAX_SHARES div 2) (om_entries (sigShares s)) (sigShares s)\<rparr>
          else s)
      in if om_size (recoveredSigs s) > MAX_RECOVERED div 2
         then s\<lparr>recoveredSigs := evict MAX_RECOVERED (om_size (recoveredSigs s) - MAX_RECOVERED div 2)
            (om_entries (recoveredSigs s)) (recoveredSigs s)\<rparr>
         else s)"

section \<open>The node's identity\<close>

definition c_isspace :: "char \<Rightarrow> bool" where
  "c_isspace c \<longleftrightarrow> of_char c \<in> {9, 10, 11, 12, 13, 32 :: nat}"

definition HexDigit :: "char \<Rightarrow> byte option" where
  "HexDigit c =
     (let n = of_char c :: nat in
      if 48 \<le> n \<and> n \<le> 57 then Some (of_nat (n - 48))
      else if 97 \<le> n \<and> n \<le> 102 then Some (of_nat (n - 87))
      else if 65 \<le> n \<and> n \<le> 70 then Some (of_nat (n - 55))
      else None)"

fun ParseHex :: "string \<Rightarrow> byte list" where
  "ParseHex [] = []"
| "ParseHex (c # cs) =
     (if c_isspace c then ParseHex cs
      else case HexDigit c of
        None \<Rightarrow> []
      | Some n \<Rightarrow>
          (case cs of
            [] \<Rightarrow> []
          | d # ds \<Rightarrow> (case HexDigit d of None \<Rightarrow> [] | Some n' \<Rightarrow> or (push_bit 4 n) n' # ParseHex ds)))"

record node_identity =
  pendingOperatorKeyHex :: string
  masternodeIdentityInitialized :: bool

definition SetPendingMasternodeKey :: "string \<Rightarrow> node_identity" where
  "SetPendingMasternodeKey hex = \<lparr>pendingOperatorKeyHex = hex, masternodeIdentityInitialized = False\<rparr>"

definition find_operator :: "llmq_env \<Rightarrow> CBLSPublicKey \<Rightarrow> CDeterministicMNList \<Rightarrow> uint256 option" where
  "find_operator e operatorPubKey mnList =
     ForEachMN mnList True (\<lambda>mn found.
       if found = None \<and> length (vchOperatorPubKey (mn_state mn)) = 48
       then (case CBLSPublicKey_SetBytes e (vchOperatorPubKey (mn_state mn)) of
           None \<Rightarrow> found
         | Some mnPubKey \<Rightarrow> if Some mnPubKey = operatorPubKey then Some (proTxHash mn) else found)
       else found) None"

definition InitMasternodeIdentity ::
  "llmq_env \<Rightarrow> string \<Rightarrow> evo_state \<Rightarrow> ('s, 'b) CDKGSessionManager \<Rightarrow> bool \<times> ('s, 'b) CDKGSessionManager" where
  "InitMasternodeIdentity e hex st d =
     (if hex = [] then (False, d)
      else (let keyBytes = ParseHex hex in
        if length keyBytes \<noteq> 32 then (False, d)
        else if \<not> SetSecretKey e keyBytes then (False, d)
        else if GetPublicKey e keyBytes = None then (False, d)
        else (case find_operator e (GetPublicKey e keyBytes) (GetListAtChainTip st) of
            None \<Rightarrow> (False, d)
          | Some h \<Rightarrow> SetMyOperatorKey e keyBytes (DKG_SetMyProTxHash h d))))"

definition TryInitMasternodeIdentity ::
  "llmq_env \<Rightarrow> evo_state \<Rightarrow> node_identity \<times> ('s, 'b) CDKGSessionManager \<Rightarrow> bool \<times> node_identity \<times> ('s, 'b) CDKGSessionManager" where
  "TryInitMasternodeIdentity e st = (\<lambda>(n, d).
     if masternodeIdentityInitialized n \<or> pendingOperatorKeyHex n = [] then (masternodeIdentityInitialized n, n, d)
     else (case InitMasternodeIdentity e (pendingOperatorKeyHex n) st d of (ok, d) \<Rightarrow>
       if ok then (True, n\<lparr>masternodeIdentityInitialized := True, pendingOperatorKeyHex := []\<rparr>, d) else (False, n, d)))"

section \<open>Notifications\<close>

record ('s, 'b) llmq_state =
  ll_quorums :: CQuorumManager
  ll_dkg :: "('s, 'b) CDKGSessionManager"
  ll_identity :: node_identity
  ll_signing :: CSigningManager
  ll_equivocation :: "CEquivocationManager option"

definition InitLLMQ :: "Params \<Rightarrow> node_identity \<Rightarrow> ('s, 'b) llmq_state" where
  "InitLLMQ p n = \<lparr>ll_quorums = CQuorumManager_new, ll_dkg = CDKGSessionManager_new, ll_identity = n,
     ll_signing = CSigningManager_new, ll_equivocation = Some (InitEquivocationDetection p)\<rparr>"

text \<open>
  \<open>CLLMQValidationInterface::UpdatedBlockTip\<close>.  The retry of the node's identity, with which
  \<open>CQuorumManager::UpdatedBlockTip\<close> starts, is made here because it changes the DKG manager.
\<close>

definition LLMQ_UpdatedBlockTip ::
  "llmq_env \<Rightarrow> ('s, 'b) dkg_ops \<Rightarrow> CBlockIndex option \<Rightarrow> bool \<Rightarrow> ('s, 'b) llmq_state \<times> evo_state \<Rightarrow>
   (('s, 'b) llmq_state \<times> evo_state) option" where
  "LLMQ_UpdatedBlockTip e ops pindexNew fInitialDownload = (\<lambda>(ll, st).
     if fInitialDownload then Some (ll, st)
     else
       (case (case pindexNew of
            None \<Rightarrow> (False, ll_identity ll, ll_dkg ll)
          | Some _ \<Rightarrow> TryInitMasternodeIdentity e st (ll_identity ll, ll_dkg ll)) of (_, n, d) \<Rightarrow>
         (case Quorums_UpdatedBlockTip e pindexNew (ll_quorums ll, st) of
           None \<Rightarrow> None
         | Some (m, st) \<Rightarrow>
             (case DKG_UpdatedBlockTip e ops pindexNew (d, st) of
               None \<Rightarrow> None
             | Some (d, st) \<Rightarrow> Some (ll\<lparr>ll_quorums := m, ll_dkg := d, ll_identity := n\<rparr>, st)))))"

section \<open>Recovery uses distinct members\<close>

lemma member_index_pos:
  "0 \<le> i \<Longrightarrow> member_index i h ms \<ge> 0 \<Longrightarrow>
   i \<le> member_index i h ms \<and> nat (member_index i h ms - i) < length ms \<and> qm_proTxHash (ms ! nat (member_index i h ms - i)) = h"
proof (induction i h ms rule: member_index.induct)
  case (2 i h m ms)
  show ?case
  proof (cases "qm_proTxHash m = h")
    case False
    then have "i + 1 \<le> member_index (i + 1) h ms" "nat (member_index (i + 1) h ms - (i + 1)) < length ms"
      "qm_proTxHash (ms ! nat (member_index (i + 1) h ms - (i + 1))) = h"
      using 2 by auto
    moreover from this(1) have "nat (member_index (i + 1) h ms - i) = Suc (nat (member_index (i + 1) h ms - (i + 1)))" by simp
    ultimately show ?thesis using False by simp
  qed simp
qed simp

lemma GetMemberIndex_pos:
  assumes "GetMemberIndex q h \<ge> 0"
  shows "nat (GetMemberIndex q h) < length (q_members q)" and "qm_proTxHash (q_members q ! nat (GetMemberIndex q h)) = h"
    and "IsMember q h"
proof -
  show i: "nat (GetMemberIndex q h) < length (q_members q)" "qm_proTxHash (q_members q ! nat (GetMemberIndex q h)) = h"
    using assms member_index_pos [of 0 h "q_members q"] by (auto simp: GetMemberIndex_def)
  then show "IsMember q h" unfolding IsMember_def by (metis image_eqI list.set_map nth_mem)
qed

definition share_index :: "CQuorum \<Rightarrow> uint256 \<times> CBLSSignature \<Rightarrow> nat" where
  "share_index q s = nat (GetMemberIndex q (fst s) + 1)"

lemma collect_shares_members:
  "collect_shares q t shares sigs idx = (sigs', idx') \<Longrightarrow>
   \<exists>ys. subseq ys shares \<and> sigs' = sigs @ map snd ys \<and> idx' = idx @ map (share_index q) ys \<and>
     (\<forall>y \<in> set ys. GetMemberIndex q (fst y) \<ge> 0) \<and> (int (length sigs) < t \<longrightarrow> int (length sigs') \<le> t)"
proof (induction q t shares sigs idx rule: collect_shares.induct)
  case (2 q t h sig shares sigs idx)
  show ?case
  proof (cases "GetMemberIndex q h \<ge> 0 \<and> \<not> int (length (sigs @ [sig])) \<ge> t")
    case True
    then obtain ys where ys: "subseq ys shares" "sigs' = (sigs @ [sig]) @ map snd ys"
        "idx' = (idx @ [share_index q (h, sig)]) @ map (share_index q) ys" "\<forall>y \<in> set ys. GetMemberIndex q (fst y) \<ge> 0"
        "int (length sigs') \<le> t"
      using "2.IH"(1) [OF refl _ refl refl] "2.prems" by (auto simp: share_index_def Let_def)
    then show ?thesis using True by (intro exI [of _ "(h, sig) # ys"]) auto
  next
    case False
    show ?thesis
    proof (cases "GetMemberIndex q h \<ge> 0")
      case pos: True
      then have "sigs' = sigs @ [sig]" "idx' = idx @ [share_index q (h, sig)]"
        using False "2.prems" by (auto simp: share_index_def Let_def)
      then show ?thesis using pos by (intro exI [of _ "[(h, sig)]"]) (auto simp: subseq_singleton_left)
    next
      case False
      then obtain ys where "subseq ys shares" "sigs' = sigs @ map snd ys" "idx' = idx @ map (share_index q) ys"
          "\<forall>y \<in> set ys. GetMemberIndex q (fst y) \<ge> 0" "int (length sigs) < t \<longrightarrow> int (length sigs') \<le> t"
        using "2.IH"(2) [OF refl] "2.prems" by (auto simp: Let_def)
      then show ?thesis by (intro exI [of _ ys]) auto
    qed
  qed
qed (auto intro: exI [of _ "[]"])

lemma share_index_inj:
  assumes "GetMemberIndex q (fst x) \<ge> 0" and "GetMemberIndex q (fst y) \<ge> 0" and "share_index q x = share_index q y"
  shows "fst x = fst y"
proof -
  have "GetMemberIndex q (fst x) = GetMemberIndex q (fst y)" using assms by (simp add: share_index_def)
  then show ?thesis using GetMemberIndex_pos(2) [OF assms(1)] GetMemberIndex_pos(2) [OF assms(2)] by metis
qed

lemma share_indices_distinct:
  assumes "distinct (map fst ys)" and "\<forall>y \<in> set ys. GetMemberIndex q (fst y) \<ge> 0"
  shows "distinct (map (share_index q) ys)"
proof -
  have "inj_on (share_index q) (set ys)"
    using assms share_index_inj by (metis (no_types, lifting) distinct_map inj_on_def)
  then show ?thesis using assms(1) by (simp add: distinct_map)
qed

lemma recovery_members:
  assumes "TryRecoverSignature e m s type rid msg = Some r" and "om_find (recoveredSigs s) rid = None"
    and "manager_ok e m"
  obtains q shares ys where "SelectQuorumForSigning e m type rid = Some q" and "om_find (sigShares s) rid = Some shares"
    and "int (length ys) = GetThreshold q" and "distinct (map fst ys)" and "distinct (map (share_index q) ys)"
    and "\<forall>y \<in> set ys. om_find shares (fst y) = Some (snd y) \<and> IsMember q (fst y)"
    and "r = \<lparr>rs_llmqType = type, rs_quorumHash = quorumHash q, rs_id = rid, rs_msgHash = msg,
      rs_sig = RecoverThresholdSignatureWithIndices e (map snd ys) (map (share_index q) ys) (GetThreshold q)\<rparr>"
    and "rs_sig r \<noteq> None"
proof -
  from assms(1,2) obtain q shares where q: "SelectQuorumForSigning e m type rid = Some q"
    and shares: "om_find (sigShares s) rid = Some shares"
    by (auto simp: TryRecoverSignature_def split: option.splits)
  obtain sigs idx where c: "collect_shares q (GetThreshold q) (om_entries shares) [] [] = (sigs, idx)" by fastforce
  have "\<exists>ys. subseq ys (om_entries shares) \<and> sigs = map snd ys \<and> idx = map (share_index q) ys \<and>
    (\<forall>y \<in> set ys. GetMemberIndex q (fst y) \<ge> 0) \<and> (0 < GetThreshold q \<longrightarrow> int (length sigs) \<le> GetThreshold q)"
    using collect_shares_members [OF c] by simp
  then obtain ys where ys: "subseq ys (om_entries shares)" "sigs = map snd ys" "idx = map (share_index q) ys"
    "\<forall>y \<in> set ys. GetMemberIndex q (fst y) \<ge> 0" "0 < GetThreshold q \<longrightarrow> int (length sigs) \<le> GetThreshold q" by blast
  note act = SelectQuorumForSigning_Some(1,2) [OF q]
  have "0 < GetThreshold q"
    by (rule threshold_bounds(3) [OF manager_okD(3) [OF assms(3) manager_activeD(2) [OF assms(3) act(1)]] act(2)])
  moreover have r: "\<not> int (length sigs) < GetThreshold q"
    "r = \<lparr>rs_llmqType = type, rs_quorumHash = quorumHash q, rs_id = rid, rs_msgHash = msg,
      rs_sig = RecoverThresholdSignatureWithIndices e sigs idx (GetThreshold q)\<rparr>" "rs_sig r \<noteq> None"
    using assms(1,2) q shares c by (auto simp: TryRecoverSignature_def Let_def split: if_splits)
  moreover have d: "distinct (map fst ys)"
    using subseq_map [OF ys(1), of fst] om_distinct [of shares] by (metis in_set_subseqs subseqs_distinctD)
  moreover have "\<forall>y \<in> set ys. om_find shares (fst y) = Some (snd y)"
  proof
    fix y assume "y \<in> set ys"
    then have "y \<in> set (om_entries shares)" using ys(1) by (auto elim: list_emb_set)
    then show "om_find shares (fst y) = Some (snd y)" by (simp add: om_entries_iff [symmetric])
  qed
  then have "\<forall>y \<in> set ys. om_find shares (fst y) = Some (snd y) \<and> IsMember q (fst y)"
    using ys(4) GetMemberIndex_pos(3) by blast
  moreover have "int (length ys) = GetThreshold q" using calculation(1) r(1) ys(2,5) by simp
  ultimately show ?thesis
    using that [OF q shares, of ys] share_indices_distinct [OF d ys(4)] unfolding ys(2,3) by blast
qed

section \<open>Where the quorum hashes come from\<close>

definition ancestors_in :: "CBlockIndex set \<Rightarrow> CBlockIndex \<Rightarrow> bool" where
  "ancestors_in B i \<longleftrightarrow> i \<in> B \<and> (\<forall>h j. GetAncestor i h = Some (Some j) \<longrightarrow> j \<in> B)"

definition hash_from :: "llmq_env \<Rightarrow> string \<Rightarrow> CBlockIndex set \<Rightarrow> uint256 \<Rightarrow> bool" where
  "hash_from e tag B h \<longleftrightarrow> (\<exists>type. \<exists>i \<in> B. h = quorum_hash e tag type i)"

definition quorums_from :: "llmq_env \<Rightarrow> CBlockIndex set \<Rightarrow> CQuorumManager \<Rightarrow> bool" where
  "quorums_from e B m \<longleftrightarrow> (\<forall>type h q. quorumCache m (type, h) = Some q \<longrightarrow> hash_from e ''LLMQ_QUORUM'' B h)"

definition sessions_from :: "llmq_env \<Rightarrow> CBlockIndex set \<Rightarrow> ('s, 'b) CDKGSessionManager \<Rightarrow> bool" where
  "sessions_from e B d \<longleftrightarrow> (\<forall>h s. om_find (activeSessions d) h = Some s \<longrightarrow> hash_from e ''LLMQ_DKG'' B h)"

lemma hash_fromI [intro]: "i \<in> B \<Longrightarrow> hash_from e tag B (quorum_hash e tag type i)"
  by (auto simp: hash_from_def)

lemma quorums_from_put:
  "quorums_from e B m \<Longrightarrow> hash_from e ''LLMQ_QUORUM'' B h \<Longrightarrow>
   quorums_from e B (m\<lparr>quorumCache := (quorumCache m)((type, h) \<mapsto> q)\<rparr>)"
  by (simp add: quorums_from_def)

lemma sessions_from_put:
  "sessions_from e B d \<Longrightarrow> hash_from e ''LLMQ_DKG'' B h \<Longrightarrow>
   sessions_from e B (d\<lparr>activeSessions := om_put h s (activeSessions d)\<rparr>)"
  by (simp add: sessions_from_def)

lemma sessions_from_dom: "sessions_from e B d \<longleftrightarrow> dom (om_find (activeSessions d)) \<subseteq> Collect (hash_from e ''LLMQ_DKG'' B)"
  by (auto simp: sessions_from_def)

lemma BuildQuorum_from:
  assumes "BuildQuorum e type (Some i) (m, st) = Some (qo, m', st')" and "quorums_from e B m" and "i \<in> B"
  shows "quorums_from e B m'"
proof -
  have "m' = m \<or> (\<exists>q. m' = m\<lparr>quorumCache := (quorumCache m)((type, quorum_hash e ''LLMQ_QUORUM'' type i) \<mapsto> q)\<rparr>)"
    using assms(1) by (auto simp: BuildQuorum_def Let_def split: if_splits option.splits)
  then show ?thesis using assms(2,3) by (auto intro: quorums_from_put)
qed

lemma active_loop_from:
  "active_loop e i type params n height act (m, st) = Some (act', m', st') \<Longrightarrow> quorums_from e B m \<Longrightarrow> ancestors_in B i \<Longrightarrow>
   quorums_from e B m'"
proof (induction n arbitrary: height act m st)
  case (Suc n)
  show ?case
  proof (cases "height > 0")
    case True
    with Suc.prems(1) obtain ao where ao: "GetAncestor i height = Some ao" by (auto split: option.splits)
    show ?thesis
    proof (cases ao)
      case None
      then show ?thesis using Suc True ao by simp
    next
      case (Some j)
      with Suc.prems(1) True ao obtain qo m1 st1 where b: "BuildQuorum e type (Some j) (m, st) = Some (qo, m1, st1)"
        by (auto split: option.splits)
      have "j \<in> B" using Suc.prems(3) ao Some unfolding ancestors_in_def by blast
      with b Suc.prems(2) have "quorums_from e B m1" by (rule BuildQuorum_from)
      then show ?thesis using Suc.IH Suc.prems(1,3) True ao Some b by simp
    qed
  next
    case False
    then show ?thesis using Suc.prems by simp
  qed
qed simp

lemma update_types_from:
  "update_types e i tps (m, st) = Some (m', st') \<Longrightarrow> quorums_from e B m \<Longrightarrow> ancestors_in B i \<Longrightarrow> quorums_from e B m'"
proof (induction tps arbitrary: m st)
  case (Cons tp tps)
  obtain type params where tp: "tp = (type, params)" by (cases tp)
  show ?case
  proof (cases "lp_type params = LLMQ_NONE")
    case True
    then show ?thesis using Cons tp by simp
  next
    case False
    with Cons.prems tp obtain act m1 st1 where
      a: "active_loop e i type params (nat (lp_signingActiveQuorumCount params))
            (bi_nHeight i - bi_nHeight i smod lp_dkgInterval params) [] (m, st) = Some (act, m1, st1)"
      by (auto split: option.splits)
    have "quorums_from e B (m1\<lparr>activeQuorums := (activeQuorums m1)(type \<mapsto> act)\<rparr>)"
      using active_loop_from [OF a Cons.prems(2,3)] by (simp add: quorums_from_def)
    then show ?thesis using Cons.IH Cons.prems(1,3) tp False a by simp
  qed
qed simp

lemma StartSession_from:
  assumes "StartSession e ops type (Some i) (d, st) = Some (b, d', st')" and "sessions_from e B d" and "i \<in> B"
  shows "sessions_from e B d'"
proof -
  have "d' = d \<or> (\<exists>s. d' = d\<lparr>activeSessions := om_put (quorum_hash e ''LLMQ_DKG'' type i) s (activeSessions d)\<rparr>)"
    using assms(1) by (auto simp: StartSession_def Let_def split: if_splits option.splits)
  then show ?thesis using assms(2,3) by (auto intro: sessions_from_put)
qed

lemma start_sessions_from:
  "start_sessions e ops i types (d, st) = Some (d', st') \<Longrightarrow> sessions_from e B d \<Longrightarrow> i \<in> B \<Longrightarrow> sessions_from e B d'"
proof (induction types arbitrary: d st)
  case (Cons type types)
  show ?case
  proof (cases "lp_type (GetLLMQParams type) \<noteq> LLMQ_NONE \<and> bi_nHeight i smod lp_dkgInterval (GetLLMQParams type) = 0")
    case True
    with Cons.prems(1) obtain b d1 st1 where s: "StartSession e ops type (Some i) (d, st) = Some (b, d1, st1)"
      by (auto simp: Let_def split: option.splits)
    then show ?thesis using Cons.IH Cons.prems True StartSession_from [OF s Cons.prems(2,3)] by (simp add: Let_def)
  next
    case False
    then show ?thesis using Cons by (auto simp: Let_def split: if_splits)
  qed
qed simp

lemma fold_put_dom:
  "dom (om_find (fold (\<lambda>(h, v). om_put h (f v)) it m)) = fst ` set it \<union> dom (om_find m)"
  by (induction it arbitrary: m) auto

lemma fold_erase_dom:
  "om_find (fold (\<lambda>(h, v). if P v then om_erase h else id) it m) h = Some s \<Longrightarrow> om_find m h = Some s"
proof (induction it arbitrary: m)
  case (Cons x it)
  have "fold (\<lambda>(h, v). if P v then om_erase h else id) (x # it) m =
    fold (\<lambda>(h, v). if P v then om_erase h else id) it (if P (snd x) then om_erase (fst x) m else m)"
    by (cases x) simp
  then have "om_find (if P (snd x) then om_erase (fst x) m else m) h = Some s" using Cons by metis
  then show ?case by (auto split: if_splits)
qed simp

lemma DKG_UpdatedBlockTip_from:
  assumes "DKG_UpdatedBlockTip e ops (Some i) (d, st) = Some (d', st')" and "sessions_from e B d" and "i \<in> B"
  shows "sessions_from e B d'"
proof -
  let ?d = "d\<lparr>activeSessions := fold (\<lambda>(h, session). om_put h (Session_AdvancePhase ops (bi_nHeight i) session))
              (om_entries (activeSessions d)) (activeSessions d)\<rparr>"
  have "dom (om_find (activeSessions ?d)) = dom (om_find (activeSessions d))"
    using om_key_iff [of _ "activeSessions d"] by (auto simp: fold_put_dom)
  then have "sessions_from e B ?d" using assms(2) unfolding sessions_from_dom by (simp only:)
  moreover have "start_sessions e ops i [LLMQ_5_60, LLMQ_50_60, LLMQ_400_60] (?d, st) = Some (d', st')"
    using assms(1) by (simp add: DKG_UpdatedBlockTip_def del: start_sessions.simps)
  ultimately show ?thesis using start_sessions_from assms(3) by blast
qed

lemma message_from:
  "sessions_from e B d \<Longrightarrow> sessions_from e B (snd (process_member_message process now msg d))"
  by (auto simp: sessions_from_def process_member_message_def IsRateLimited_def split: option.splits prod.splits)

lemma final_from: "sessions_from e B d \<Longrightarrow> sessions_from e B (snd (ProcessFinalCommitment ops msg d))"
  by (auto simp: sessions_from_def ProcessFinalCommitment_def Let_def split: option.splits prod.splits)

lemma DKG_Cleanup_from: "sessions_from e B d \<Longrightarrow> sessions_from e B (DKG_Cleanup ops d)"
  by (auto simp: sessions_from_def DKG_Cleanup_def dest!: fold_erase_dom)

lemma TryInit_sessions:
  "TryInitMasternodeIdentity e st (n, d) = (ok, n', d') \<Longrightarrow> activeSessions d' = activeSessions d"
  by (auto simp: TryInitMasternodeIdentity_def InitMasternodeIdentity_def SetMyOperatorKey_def DKG_SetMyProTxHash_def Let_def
      split: if_splits option.splits)

section \<open>Runs of the quorum subsystem\<close>

text \<open>
  The states that block notifications, key generation messages, signature shares, signing requests
  and cleanups lead to.  All blocks are in \<open>B\<close>, and the pairs of quorum hash and request of the shares
  received are in \<open>U\<close>; the masternode state and the Proof of Service state may be any.
\<close>

inductive llmq_run ::
  "llmq_env \<Rightarrow> ('s, 'b) dkg_ops \<Rightarrow> Params \<Rightarrow> CBlockIndex set \<Rightarrow> (uint256 \<times> uint256) set \<Rightarrow> ('s, 'b) llmq_state \<Rightarrow> bool"
  for e ops p B U where
  run_init: "llmq_run e ops p B U (InitLLMQ p n)"
| run_tip: "llmq_run e ops p B U ll \<Longrightarrow> pred_option (ancestors_in B) pindex \<Longrightarrow>
    LLMQ_UpdatedBlockTip e ops pindex ibd (ll, st) = Some (ll', st') \<Longrightarrow> llmq_run e ops p B U ll'"
| run_dkg: "llmq_run e ops p B U ll \<Longrightarrow>
    f \<in> {ProcessContribution ops, ProcessComplaint ops, ProcessJustification ops, ProcessPrematureCommitment ops} \<Longrightarrow>
    llmq_run e ops p B U (ll\<lparr>ll_dkg := snd (f now msg (ll_dkg ll))\<rparr>)"
| run_final: "llmq_run e ops p B U ll \<Longrightarrow>
    llmq_run e ops p B U (ll\<lparr>ll_dkg := snd (ProcessFinalCommitment ops msg (ll_dkg ll))\<rparr>)"
| run_dkg_cleanup: "llmq_run e ops p B U ll \<Longrightarrow> llmq_run e ops p B U (ll\<lparr>ll_dkg := DKG_Cleanup ops (ll_dkg ll)\<rparr>)"
| run_share: "llmq_run e ops p B U ll \<Longrightarrow> (hash, rid) \<in> U \<Longrightarrow>
    ProcessSigShare e now (ll_quorums ll) hash rid member sig (ll_signing ll, ll_equivocation ll, w) = (b, s, em, w') \<Longrightarrow>
    llmq_run e ops p B U (ll\<lparr>ll_signing := s, ll_equivocation := em\<rparr>)"
| run_sign: "llmq_run e ops p B U ll \<Longrightarrow>
    llmq_run e ops p B U (ll\<lparr>ll_signing := snd (AsyncSign e ops (ll_quorums ll) (ll_dkg ll) type rid msg (ll_signing ll))\<rparr>)"
| run_cleanup: "llmq_run e ops p B U ll \<Longrightarrow>
    llmq_run e ops p B U (ll\<lparr>ll_signing := Signing_Cleanup (ll_signing ll),
      ll_equivocation := map_option (Equivocation_Cleanup now height) (ll_equivocation ll)\<rparr>)"

definition contexts_separate :: "llmq_env \<Rightarrow> (uint256 \<times> uint256) set \<Rightarrow> bool" where
  "contexts_separate e U \<longleftrightarrow>
     (\<forall>(q, i) \<in> U. \<forall>(q', i') \<in> U. sig_context e q i = sig_context e q' i' \<longrightarrow> i = i')"

definition tags_separate :: "llmq_env \<Rightarrow> CBlockIndex set \<Rightarrow> bool" where
  "tags_separate e B \<longleftrightarrow> (\<forall>i \<in> B. \<forall>j \<in> B. \<forall>type type'.
     quorum_hash e ''LLMQ_QUORUM'' type i \<noteq> quorum_hash e ''LLMQ_DKG'' type' j)"

definition record_from :: "llmq_env \<Rightarrow> (uint256 \<times> uint256) set \<Rightarrow> uint256 \<Rightarrow> CSignatureRecord \<Rightarrow> bool" where
  "record_from e U c r \<longleftrightarrow> (\<exists>q i. (q, i) \<in> U \<and> c = sig_context e q i \<and> sr_msgHash r = le_Hash e (Serialize_uint256 i))"

definition records_ok :: "llmq_env \<Rightarrow> (uint256 \<times> uint256) set \<Rightarrow> CEquivocationManager \<Rightarrow> bool" where
  "records_ok e U m \<longleftrightarrow> equivocators m = {} \<and> equivocationProofs m = om_empty \<and>
     (\<forall>c h r. om_find (sigRecords m) (c, h) = Some r \<longrightarrow> record_from e U c r)"

lemma records_ok_Record:
  assumes "records_ok e U m" and "contexts_separate e U" and "(hash, rid) \<in> U"
    and "RecordSignature e now (sig_context e hash rid) hash member (le_Hash e (Serialize_uint256 rid)) sig k (m, w) = (b, m', w')"
  shows "b \<and> records_ok e U m' \<and> w' = w"
proof (cases "om_find (sigRecords m) (sig_context e hash rid, member)")
  case None
  let ?r = "\<lparr>sr_quorumHash = hash, sr_proTxHash = member, sr_msgHash = le_Hash e (Serialize_uint256 rid), sr_sig = sig,
    sr_timestamp = now\<rparr>"
  have "record_from e U (sig_context e hash rid) ?r" using assms(3) by (auto simp: record_from_def)
  then have "records_ok e U (m\<lparr>sigRecords := om_put (sig_context e hash rid, member) ?r (sigRecords m)\<rparr>)"
    using assms(1) by (simp add: records_ok_def)
  then show ?thesis using assms(4) None by (auto simp: RecordSignature_def Let_def)
next
  case (Some r)
  then obtain q i where qi: "(q, i) \<in> U" "sig_context e hash rid = sig_context e q i" "sr_msgHash r = le_Hash e (Serialize_uint256 i)"
    using assms(1) unfolding records_ok_def record_from_def by blast
  then have "i = rid" using assms(2,3) unfolding contexts_separate_def by blast
  then show ?thesis using Some qi(3) assms(1,4) by (simp add: RecordSignature_def Let_def)
qed

lemma records_ok_Cleanup: "records_ok e U m \<Longrightarrow> records_ok e U (Equivocation_Cleanup now height m)"
  by (auto simp: records_ok_def Equivocation_Cleanup_def Let_def dest: cleanup_records_sub)

lemma records_ok_Init: "records_ok e U (InitEquivocationDetection p)"
  by (simp add: records_ok_def)

definition quorums_inv :: "llmq_env \<Rightarrow> CBlockIndex set \<Rightarrow> ('s, 'b) llmq_state \<Rightarrow> bool" where
  "quorums_inv e B ll \<longleftrightarrow> manager_ok e (ll_quorums ll) \<and> quorums_from e B (ll_quorums ll) \<and>
     sessions_from e B (ll_dkg ll) \<and> myProTxHash (ll_quorums ll) = uint256_null"

lemma quorums_inv_tip:
  assumes "LLMQ_UpdatedBlockTip e ops pindex ibd (ll, st) = Some (ll', st')" and "quorums_inv e B ll"
    and "pred_option (ancestors_in B) pindex"
  shows "quorums_inv e B ll' \<and> ll_equivocation ll' = ll_equivocation ll"
proof (cases "ibd \<or> pindex = None")
  case True
  then have "ll' = ll" using assms(1)
    by (cases ibd; cases pindex) (auto simp: LLMQ_UpdatedBlockTip_def Quorums_UpdatedBlockTip_def DKG_UpdatedBlockTip_def)
  then show ?thesis using assms(2) by simp
next
  case False
  then obtain i where i: "pindex = Some i" "ancestors_in B i" "i \<in> B" using assms(3) by (auto simp: ancestors_in_def)
  obtain ok n d where t: "TryInitMasternodeIdentity e st (ll_identity ll, ll_dkg ll) = (ok, n, d)" by (metis prod_cases3)
  from assms(1) False i t obtain m st1 d' where
    q: "Quorums_UpdatedBlockTip e (Some i) (ll_quorums ll, st) = Some (m, st1)" and
    d: "DKG_UpdatedBlockTip e ops (Some i) (d, st1) = Some (d', st')" and
    ll': "ll' = ll\<lparr>ll_quorums := m, ll_dkg := d', ll_identity := n\<rparr>"
    by (auto simp: LLMQ_UpdatedBlockTip_def split: option.splits)
  have "sessions_from e B d" using assms(2) TryInit_sessions [OF t] by (simp add: quorums_inv_def sessions_from_def)
  then have "sessions_from e B d'" using DKG_UpdatedBlockTip_from [OF d] i(3) by blast
  moreover have "quorums_from e B m"
    using update_types_from i(2) q assms(2) by (auto simp: Quorums_UpdatedBlockTip_def quorums_inv_def)
  ultimately show ?thesis using UpdatedBlockTip_ok [OF q] assms(2) by (simp add: quorums_inv_def ll')
qed

lemma llmq_run_inv: "llmq_run e ops p B U ll \<Longrightarrow> quorums_inv e B ll"
proof (induction rule: llmq_run.induct)
  case (run_init n)
  have "manager_ok e (ll_quorums (InitLLMQ p n))" by (simp add: InitLLMQ_def manager_ok_new)
  then show ?case
    by (simp add: InitLLMQ_def quorums_inv_def quorums_from_def sessions_from_def CQuorumManager_new_def
        CDKGSessionManager_new_def)
next
  case (run_tip ll pindex ibd st ll' st')
  then show ?case using quorums_inv_tip by blast
next
  case (run_dkg ll f now msg)
  then show ?case
    by (auto simp: quorums_inv_def ProcessContribution_def ProcessComplaint_def ProcessJustification_def
        ProcessPrematureCommitment_def message_from)
qed (simp_all add: quorums_inv_def final_from DKG_Cleanup_from)

lemma ProcessSigShare_records:
  assumes "ProcessSigShare e now m hash rid member sig (s, Some eq, w) = (b, s', em, w')" and "records_ok e U eq"
    and "contexts_separate e U" and "(hash, rid) \<in> U"
  shows "\<exists>eq'. em = Some eq' \<and> records_ok e U eq' \<and> w' = w"
proof -
  consider "em = Some eq" "w' = w" |
    (rec) k b' eq' where "RecordSignature e now (sig_context e hash rid) hash member (le_Hash e (Serialize_uint256 rid)) sig k (eq, w)
      = (b', eq', w')" "em = Some eq'"
    using assms(1) by (auto simp: ProcessSigShare_def Let_def split: if_splits option.splits prod.splits)
  then show ?thesis using records_ok_Record [OF assms(2,3,4)] assms(2) by cases blast+
qed

lemma llmq_run_records:
  assumes "llmq_run e ops p B U ll" and "contexts_separate e U"
  shows "\<exists>m. ll_equivocation ll = Some m \<and> records_ok e U m"
  using assms(1)
proof (induction rule: llmq_run.induct)
  case (run_tip ll pindex ibd st ll' st')
  then show ?case using quorums_inv_tip llmq_run_inv by metis
next
  case (run_share ll hash rid now member sig w b s em w')
  then obtain m where m: "ll_equivocation ll = Some m" "records_ok e U m" by blast
  from ProcessSigShare_records [OF run_share(3) [unfolded m(1)] m(2) assms(2) run_share(2)]
  show ?case by auto
qed (auto simp: InitLLMQ_def records_ok_Init records_ok_Cleanup)

text \<open>A session is never found under the hash of a quorum.\<close>

lemma no_share:
  assumes "quorums_inv e B ll" and "tags_separate e B"
  shows "GetSecretKeyShare ops (ll_quorums ll) (ll_dkg ll) type h = None"
proof (cases "GetQuorum (ll_quorums ll) type h")
  case (Some q)
  then have "hash_from e ''LLMQ_QUORUM'' B h"
    using assms(1) by (auto simp: quorums_inv_def quorums_from_def GetQuorum_def)
  then have "\<not> hash_from e ''LLMQ_DKG'' B h"
    using assms(2) unfolding hash_from_def tags_separate_def by metis
  then have "om_find (activeSessions (ll_dkg ll)) h = None"
    using assms(1) unfolding quorums_inv_def sessions_from_def by (metis option.exhaust)
  then show ?thesis by (simp add: GetSecretKeyShare_def DKG_GetSecretKeyShare_def split: option.split)
qed (simp add: GetSecretKeyShare_def)

lemma AsyncSign_no_share:
  "(\<And>h. GetSecretKeyShare ops m d type h = None) \<Longrightarrow> AsyncSign e ops m d type rid msg s = (False, s)"
  by (simp add: AsyncSign_def split: option.split)

section \<open>What is signed is not what is verified\<close>

lemma sign_hash_mismatch:
  assumes "inj_on (le_Hash e)
    {ser_writedata8 (LLMQType_value (rs_llmqType r)) @ Serialize_uint256 (rs_quorumHash r) @ Serialize_uint256 (rs_id r) @
       Serialize_uint256 (rs_msgHash r),
     Serialize_uint256 (GenesisBlockHash e) @ ser_writedata8 (LLMQType_value (rs_llmqType r)) @
       Serialize_uint256 (rs_quorumHash r) @ Serialize_uint256 (rs_id r) @ Serialize_uint256 (rs_msgHash r)}"
  shows "async_sign_hash e (rs_llmqType r) (rs_quorumHash r) (rs_id r) (rs_msgHash r) \<noteq> BuildSignHash e r"
proof
  assume "async_sign_hash e (rs_llmqType r) (rs_quorumHash r) (rs_id r) (rs_msgHash r) = BuildSignHash e r"
  from inj_onD [OF assms this [unfolded async_sign_hash_def BuildSignHash_def]]
  have "ser_writedata8 (LLMQType_value (rs_llmqType r)) @ Serialize_uint256 (rs_quorumHash r) @
       Serialize_uint256 (rs_id r) @ Serialize_uint256 (rs_msgHash r) =
     Serialize_uint256 (GenesisBlockHash e) @ ser_writedata8 (LLMQType_value (rs_llmqType r)) @
       Serialize_uint256 (rs_quorumHash r) @ Serialize_uint256 (rs_id r) @ Serialize_uint256 (rs_msgHash r)"
    by blast
  from arg_cong [OF this, of length] show False by (simp add: Serialize_uint256_def)
qed

end
