(* ===== verification/InstantSend.thy ===== *)
theory InstantSend
  imports Signing
begin

text \<open>
  InstantSend, src/src/llmq/instantsend.h and .cpp: locks of a quorum on the inputs of a transaction,
  their three indexes, the pending transactions, the message handler of src/src/net_processing.cpp
  and the check that src/src/validation.cpp makes of a transaction for the memory pool.

  \<open>UpdatedBlockTip\<close> returns \<open>None\<close> where the C++ loop advances an iterator to an entry that a nested
  call erased, which is undefined behaviour.  \<open>GetTime\<close> is the argument \<open>now\<close>.
\<close>

definition INSTANTSEND_QUORUM_TYPE :: LLMQType where "INSTANTSEND_QUORUM_TYPE = LLMQ_50_60"
definition INSTANTSEND_MAX_INPUTS :: nat where "INSTANTSEND_MAX_INPUTS = 32"

section \<open>Locks\<close>

record CInstantSendLock =
  is_inputs :: "COutPoint list"
  is_txid :: uint256
  is_quorumHash :: uint256
  is_sig :: CBLSSignature

definition Serialize_CInstantSendLock :: "CInstantSendLock \<Rightarrow> byte list" where
  "Serialize_CInstantSendLock l =
     Serialize_vector Serialize_COutPoint (is_inputs l) @ Serialize_uint256 (is_txid l) @
     Serialize_uint256 (is_quorumHash l) @ Serialize_CBLSSignature (is_sig l)"

definition Lock_GetHash :: "llmq_env \<Rightarrow> CInstantSendLock \<Rightarrow> uint256" where
  "Lock_GetHash e l = le_Hash e (Serialize_CInstantSendLock l)"

definition request_hash :: "llmq_env \<Rightarrow> COutPoint list \<Rightarrow> uint256" where
  "request_hash e inputs = le_Hash e (Serialize_string ''islock_request'' @ concat (map Serialize_COutPoint inputs))"

definition Lock_GetRequestId :: "llmq_env \<Rightarrow> CInstantSendLock \<Rightarrow> uint256" where
  "Lock_GetRequestId e l = request_hash e (is_inputs l)"

definition Lock_GetSignHash :: "llmq_env \<Rightarrow> CInstantSendLock \<Rightarrow> uint256" where
  "Lock_GetSignHash e l =
     le_Hash e (Serialize_uint256 (GenesisBlockHash e) @ ser_writedata8 (LLMQType_value INSTANTSEND_QUORUM_TYPE) @
       Serialize_uint256 (is_quorumHash l) @ Serialize_uint256 (Lock_GetRequestId e l) @ Serialize_uint256 (is_txid l))"

section \<open>The lock database\<close>

record CInstantSendDb =
  inputLocks :: "(COutPoint, uint256) omap"
  locksById :: "(uint256, CInstantSendLock) omap"
  txidToLockHash :: "(uint256, uint256) omap"

definition CInstantSendDb_new :: CInstantSendDb where
  "CInstantSendDb_new = \<lparr>inputLocks = om_empty, locksById = om_empty, txidToLockHash = om_empty\<rparr>"

definition WriteLock :: "llmq_env \<Rightarrow> CInstantSendLock \<Rightarrow> CInstantSendDb \<Rightarrow> CInstantSendDb" where
  "WriteLock e l db =
     (let hash = Lock_GetHash e l in
      db\<lparr>locksById := om_put hash l (locksById db), txidToLockHash := om_put (is_txid l) hash (txidToLockHash db),
         inputLocks := fold (\<lambda>input. om_put input hash) (is_inputs l) (inputLocks db)\<rparr>)"

definition GetLock :: "CInstantSendDb \<Rightarrow> uint256 \<Rightarrow> CInstantSendLock option" where
  "GetLock db hash = om_find (locksById db) hash"

definition GetLockByTxid :: "CInstantSendDb \<Rightarrow> uint256 \<Rightarrow> CInstantSendLock option" where
  "GetLockByTxid db txid = (case om_find (txidToLockHash db) txid of None \<Rightarrow> None | Some hash \<Rightarrow> GetLock db hash)"

definition IsInputLocked :: "CInstantSendDb \<Rightarrow> COutPoint \<Rightarrow> bool" where
  "IsInputLocked db o' \<longleftrightarrow> om_find (inputLocks db) o' \<noteq> None"

definition IsTxLocked :: "CInstantSendDb \<Rightarrow> uint256 \<Rightarrow> bool" where
  "IsTxLocked db txid \<longleftrightarrow> om_find (txidToLockHash db) txid \<noteq> None"

definition GetLockForInput :: "CInstantSendDb \<Rightarrow> COutPoint \<Rightarrow> CInstantSendLock option" where
  "GetLockForInput db o' = (case om_find (inputLocks db) o' of None \<Rightarrow> None | Some hash \<Rightarrow> GetLock db hash)"

definition RemoveLock :: "uint256 \<Rightarrow> CInstantSendDb \<Rightarrow> CInstantSendDb" where
  "RemoveLock hash db =
     (case om_find (locksById db) hash of
       None \<Rightarrow> db
     | Some l \<Rightarrow> db\<lparr>inputLocks := fold om_erase (is_inputs l) (inputLocks db),
         txidToLockHash := om_erase (is_txid l) (txidToLockHash db), locksById := om_erase hash (locksById db)\<rparr>)"

text \<open>The set of transaction ids is visited in its order.\<close>

definition RemoveLocksForTxids :: "uint256 list \<Rightarrow> CInstantSendDb \<Rightarrow> CInstantSendDb" where
  "RemoveLocksForTxids txids db =
     fold (\<lambda>txid db. case om_find (txidToLockHash db) txid of None \<Rightarrow> db | Some hash \<Rightarrow> RemoveLock hash db)
       (sort (remdups txids)) db"

definition GetAllLockedOutpoints :: "CInstantSendDb \<Rightarrow> COutPoint set" where
  "GetAllLockedOutpoints db = fst ` set (om_entries (inputLocks db))"

section \<open>The manager\<close>

record CInstantSendManager =
  is_db :: CInstantSendDb
  pendingRequests :: "(uint256, int) omap"
  pendingTxs :: "(uint256, CTransaction) omap"
  is_myProTxHash :: uint256

definition CInstantSendManager_new :: CInstantSendManager where
  "CInstantSendManager_new = \<lparr>is_db = CInstantSendDb_new, pendingRequests = om_empty, pendingTxs = om_empty,
     is_myProTxHash = uint256_null\<rparr>"

definition InstantSend_SetMyProTxHash :: "uint256 \<Rightarrow> CInstantSendManager \<Rightarrow> CInstantSendManager" where
  "InstantSend_SetMyProTxHash h im = im\<lparr>is_myProTxHash := h\<rparr>"

definition IsInstantSendEnabled :: "CQuorumManager \<Rightarrow> bool" where
  "IsInstantSendEnabled m \<longleftrightarrow> GetActiveQuorums m INSTANTSEND_QUORUM_TYPE \<noteq> []"

definition CanTxBeLocked :: "CTransaction \<Rightarrow> bool" where
  "CanTxBeLocked tx = (if IsCoinBase tx then False else if length (vin tx) > INSTANTSEND_MAX_INPUTS then False else True)"

text \<open>A conflict: an input is locked by a lock of another transaction.\<close>

definition input_conflict :: "CInstantSendDb \<Rightarrow> uint256 \<Rightarrow> COutPoint \<Rightarrow> bool" where
  "input_conflict db txid input \<longleftrightarrow> IsInputLocked db input \<and>
     (case GetLockForInput db input of None \<Rightarrow> False | Some existingLock \<Rightarrow> is_txid existingLock \<noteq> txid)"

definition HasConflictingLock :: "CInstantSendDb \<Rightarrow> CTransaction \<Rightarrow> bool" where
  "HasConflictingLock db tx \<longleftrightarrow> list_ex (\<lambda>txin. input_conflict db (tx_hash tx) (prevout txin)) (vin tx)"

definition CheckCanLock :: "CQuorumManager \<Rightarrow> CInstantSendDb \<Rightarrow> CTransaction \<Rightarrow> bool" where
  "CheckCanLock m db tx =
     (if \<not> IsInstantSendEnabled m then False
      else if IsCoinBase tx then False
      else if length (vin tx) > INSTANTSEND_MAX_INPUTS then False
      else if HasConflictingLock db tx then False
      else True)"

definition VerifyInstantSendLock :: "llmq_env \<Rightarrow> CQuorumManager \<Rightarrow> CInstantSendLock \<Rightarrow> bool" where
  "VerifyInstantSendLock e m l =
     (if is_sig l = None then False
      else case GetQuorum m INSTANTSEND_QUORUM_TYPE (is_quorumHash l) of
        None \<Rightarrow> False
      | Some quorum \<Rightarrow>
          if \<not> q_fValid quorum then False
          else Signature_VerifyWithDomain e (is_sig l) (quorumPublicKey quorum) (Lock_GetSignHash e l) QUORUM)"

definition ProcessInstantSendLock ::
  "llmq_env \<Rightarrow> CQuorumManager \<Rightarrow> CInstantSendLock \<Rightarrow> CInstantSendManager \<Rightarrow> reject option \<times> CInstantSendManager" where
  "ProcessInstantSendLock e m l im =
     (if IsTxLocked (is_db im) (is_txid l) then (None, im)
      else if \<not> VerifyInstantSendLock e m l then (Some (DoS 100 REJECT_INVALID ''bad-islock-sig''), im)
      else if list_ex (input_conflict (is_db im) (is_txid l)) (is_inputs l)
      then (Some (DoS 100 REJECT_DUPLICATE ''islock-conflict''), im)
      else (None, im\<lparr>is_db := WriteLock e l (is_db im), pendingTxs := om_erase (is_txid l) (pendingTxs im),
              pendingRequests := om_erase (is_txid l) (pendingRequests im)\<rparr>))"

definition CreateRequestId :: "llmq_env \<Rightarrow> COutPoint list \<Rightarrow> uint256" where
  "CreateRequestId e inputs = request_hash e (sort inputs)"

definition islock_msgHash :: "llmq_env \<Rightarrow> CTransaction \<Rightarrow> uint256" where
  "islock_msgHash e tx =
     le_Hash e (Serialize_uint256 (CreateRequestId e (map prevout (vin tx))) @ Serialize_uint256 (tx_hash tx))"

definition TrySignInstantSendLock ::
  "llmq_env \<Rightarrow> ('s, 'b) dkg_ops \<Rightarrow> CQuorumManager \<Rightarrow> ('s, 'b) CDKGSessionManager \<Rightarrow> CTransaction \<Rightarrow>
   CInstantSendManager \<times> CSigningManager \<Rightarrow> bool \<times> CInstantSendManager \<times> CSigningManager" where
  "TrySignInstantSendLock e ops m d tx = (\<lambda>(im, s).
     if is_myProTxHash im = uint256_null then (False, im, s)
     else
       (let inputs = map prevout (vin tx);
            requestId = CreateRequestId e inputs;
            msgHash = islock_msgHash e tx
        in case AsyncSign e ops m d INSTANTSEND_QUORUM_TYPE requestId msgHash s of (ok, s) \<Rightarrow>
          if \<not> ok then (False, im, s)
          else (case TryRecoverSignature e m s INSTANTSEND_QUORUM_TYPE requestId msgHash of
              None \<Rightarrow> (True, im, s)
            | Some recSig \<Rightarrow>
                (True, snd (ProcessInstantSendLock e m
                   \<lparr>is_inputs = inputs, is_txid = tx_hash tx, is_quorumHash = rs_quorumHash recSig, is_sig = rs_sig recSig\<rparr> im), s))))"

definition ProcessTransaction ::
  "llmq_env \<Rightarrow> ('s, 'b) dkg_ops \<Rightarrow> int \<Rightarrow> CQuorumManager \<Rightarrow> ('s, 'b) CDKGSessionManager \<Rightarrow> CTransaction \<Rightarrow>
   CInstantSendManager \<times> CSigningManager \<Rightarrow> CInstantSendManager \<times> CSigningManager" where
  "ProcessTransaction e ops now m d tx = (\<lambda>(im, s).
     if \<not> IsInstantSendEnabled m then (im, s)
     else if \<not> CanTxBeLocked tx then (im, s)
     else if HasConflictingLock (is_db im) tx then (im, s)
     else snd (TrySignInstantSendLock e ops m d tx
       (im\<lparr>pendingTxs := om_put (tx_hash tx) tx (pendingTxs im), pendingRequests := om_put (tx_hash tx) now (pendingRequests im)\<rparr>, s)))"

definition InstantSend_ProcessBlock :: "CBlock \<Rightarrow> CInstantSendManager \<Rightarrow> CInstantSendManager" where
  "InstantSend_ProcessBlock block im =
     fold (\<lambda>tx im. im\<lparr>pendingTxs := om_erase (tx_hash tx) (pendingTxs im),
       pendingRequests := om_erase (tx_hash tx) (pendingRequests im)\<rparr>) (vtx block) im"

definition GetLocksForTxids :: "CInstantSendManager \<Rightarrow> uint256 list \<Rightarrow> CInstantSendLock list" where
  "GetLocksForTxids im txids = List.map_filter (GetLockByTxid (is_db im)) txids"

fun retry_pending ::
  "llmq_env \<Rightarrow> ('s, 'b) dkg_ops \<Rightarrow> CQuorumManager \<Rightarrow> ('s, 'b) CDKGSessionManager \<Rightarrow> (uint256 \<times> CTransaction) list \<Rightarrow>
   CInstantSendManager \<times> CSigningManager \<Rightarrow> (CInstantSendManager \<times> CSigningManager) option" where
  "retry_pending e ops m d [] (im, s) = Some (im, s)"
| "retry_pending e ops m d ((h, tx) # it) (im, s) =
     (if \<not> CanTxBeLocked tx \<or> HasConflictingLock (is_db im) tx
      then retry_pending e ops m d it (im\<lparr>pendingTxs := om_erase h (pendingTxs im)\<rparr>, s)
      else (case TrySignInstantSendLock e ops m d tx (im, s) of (_, im, s) \<Rightarrow>
        if om_find (pendingTxs im) h = None then None else retry_pending e ops m d it (im, s)))"

definition InstantSend_UpdatedBlockTip ::
  "llmq_env \<Rightarrow> ('s, 'b) dkg_ops \<Rightarrow> CQuorumManager \<Rightarrow> ('s, 'b) CDKGSessionManager \<Rightarrow>
   CInstantSendManager \<times> CSigningManager \<Rightarrow> (CInstantSendManager \<times> CSigningManager) option" where
  "InstantSend_UpdatedBlockTip e ops m d = (\<lambda>(im, s). retry_pending e ops m d (om_entries (pendingTxs im)) (im, s))"

definition InstantSend_Cleanup :: "int \<Rightarrow> CInstantSendManager \<Rightarrow> CInstantSendManager" where
  "InstantSend_Cleanup now im =
     fold (\<lambda>(h, t) im. if now - t > 60
         then im\<lparr>pendingTxs := om_erase h (pendingTxs im), pendingRequests := om_erase h (pendingRequests im)\<rparr> else im)
       (om_entries (pendingRequests im)) im"

definition CheckInputsForInstantSend :: "CQuorumManager \<Rightarrow> CInstantSendManager option \<Rightarrow> CTransaction \<Rightarrow> string option" where
  "CheckInputsForInstantSend m imo tx =
     (case imo of
       None \<Rightarrow> Some ''InstantSend not initialized''
     | Some im \<Rightarrow>
         if \<not> CheckCanLock m (is_db im) tx then Some ''Transaction cannot be locked''
         else if HasConflictingLock (is_db im) tx then Some ''Conflicting InstantSend lock exists''
         else None)"

text \<open>The handler of an ISLOCK message: whether the lock is sent on to every peer.\<close>

definition ISLOCK_message ::
  "llmq_env \<Rightarrow> CQuorumManager \<Rightarrow> CInstantSendLock \<Rightarrow> CInstantSendManager \<Rightarrow> bool \<times> CInstantSendManager" where
  "ISLOCK_message e m l im =
     (case ProcessInstantSendLock e m l im of (r, im) \<Rightarrow> (r = None, im))"

text \<open>The check of \<open>AcceptToMemoryPoolWorker\<close>.\<close>

definition mempool_islock_check :: "CInstantSendManager option \<Rightarrow> CTransaction \<Rightarrow> reject option" where
  "mempool_islock_check imo tx =
     (case imo of
       None \<Rightarrow> None
     | Some im \<Rightarrow> if HasConflictingLock (is_db im) tx then Some (DoS 10 REJECT_CONFLICT ''tx-islock-conflict'') else None)"

section \<open>The indexes represent a set of exclusive locks\<close>

text \<open>
  The contract of the database: a set of locks in which no two locks share an input or a transaction.
  The three maps index that set.
\<close>

definition exclusive :: "CInstantSendLock set \<Rightarrow> bool" where
  "exclusive L \<longleftrightarrow> (\<forall>l \<in> L. \<forall>l' \<in> L. l \<noteq> l' \<longrightarrow> is_txid l \<noteq> is_txid l' \<and> set (is_inputs l) \<inter> set (is_inputs l') = {})"

definition represents :: "llmq_env \<Rightarrow> CInstantSendLock set \<Rightarrow> CInstantSendDb \<Rightarrow> bool" where
  "represents e L db \<longleftrightarrow>
     (\<forall>h l. om_find (locksById db) h = Some l \<longleftrightarrow> l \<in> L \<and> h = Lock_GetHash e l) \<and>
     (\<forall>t h. om_find (txidToLockHash db) t = Some h \<longleftrightarrow> (\<exists>l \<in> L. is_txid l = t \<and> h = Lock_GetHash e l)) \<and>
     (\<forall>i h. om_find (inputLocks db) i = Some h \<longleftrightarrow> (\<exists>l \<in> L. i \<in> set (is_inputs l) \<and> h = Lock_GetHash e l))"

lemma representsD:
  assumes "represents e L db"
  shows "om_find (locksById db) h = Some l \<longleftrightarrow> l \<in> L \<and> h = Lock_GetHash e l"
    and "om_find (txidToLockHash db) t = Some h \<longleftrightarrow> (\<exists>l \<in> L. is_txid l = t \<and> h = Lock_GetHash e l)"
    and "om_find (inputLocks db) i = Some h \<longleftrightarrow> (\<exists>l \<in> L. i \<in> set (is_inputs l) \<and> h = Lock_GetHash e l)"
  using assms unfolding represents_def by blast+

lemma represents_new: "represents e {} CInstantSendDb_new"
  by (simp add: represents_def CInstantSendDb_new_def)

lemma fold_lock_inputs: "om_find (fold (\<lambda>i. om_put i h) is m) x = (if x \<in> set is then Some h else om_find m x)"
  by (induction "is" arbitrary: m) auto

lemma fold_erase_inputs: "om_find (fold om_erase is m) x = (if x \<in> set is then None else om_find m x)"
  by (induction "is" arbitrary: m) auto

lemma locked_iff:
  assumes "represents e L db"
  shows "IsTxLocked db t \<longleftrightarrow> (\<exists>l \<in> L. is_txid l = t)" and "IsInputLocked db i \<longleftrightarrow> (\<exists>l \<in> L. i \<in> set (is_inputs l))"
proof -
  have "(\<exists>h. om_find (txidToLockHash db) t = Some h) \<longleftrightarrow> (\<exists>l \<in> L. is_txid l = t)" using representsD(2) [OF assms] by blast
  then show "IsTxLocked db t \<longleftrightarrow> (\<exists>l \<in> L. is_txid l = t)" by (simp add: IsTxLocked_def)
  have "(\<exists>h. om_find (inputLocks db) i = Some h) \<longleftrightarrow> (\<exists>l \<in> L. i \<in> set (is_inputs l))" using representsD(3) [OF assms] by blast
  then show "IsInputLocked db i \<longleftrightarrow> (\<exists>l \<in> L. i \<in> set (is_inputs l))" by (simp add: IsInputLocked_def)
qed

lemma GetLockForInput_represents:
  assumes "represents e L db" and "l \<in> L" and "i \<in> set (is_inputs l)"
  shows "GetLockForInput db i = Some l"
proof -
  have "om_find (inputLocks db) i = Some (Lock_GetHash e l)" using representsD(3) [OF assms(1)] assms(2,3) by blast
  moreover have "om_find (locksById db) (Lock_GetHash e l) = Some l" using representsD(1) [OF assms(1)] assms(2) by blast
  ultimately show ?thesis by (simp add: GetLockForInput_def GetLock_def)
qed

lemma input_conflict_represents:
  assumes "represents e L db" and "exclusive L"
  shows "input_conflict db t i \<longleftrightarrow> (\<exists>l \<in> L. i \<in> set (is_inputs l) \<and> is_txid l \<noteq> t)"
proof (cases "\<exists>l \<in> L. i \<in> set (is_inputs l)")
  case True
  then obtain l where l: "l \<in> L" "i \<in> set (is_inputs l)" by blast
  have u: "\<forall>l' \<in> L. i \<in> set (is_inputs l') \<longrightarrow> l' = l" using l assms(2) unfolding exclusive_def by blast
  have "IsInputLocked db i" using locked_iff(2) [OF assms(1)] l by blast
  then have "input_conflict db t i \<longleftrightarrow> is_txid l \<noteq> t"
    by (simp add: input_conflict_def GetLockForInput_represents [OF assms(1) l])
  then show ?thesis using l u by blast
next
  case False
  then show ?thesis using locked_iff(2) [OF assms(1)] by (auto simp: input_conflict_def)
qed

lemma HasConflictingLock_represents:
  assumes "represents e L db" and "exclusive L"
  shows "HasConflictingLock db tx \<longleftrightarrow>
    (\<exists>l \<in> L. is_txid l \<noteq> tx_hash tx \<and> set (is_inputs l) \<inter> set (map prevout (vin tx)) \<noteq> {})"
proof -
  have "HasConflictingLock db tx \<longleftrightarrow> (\<exists>x \<in> set (vin tx). \<exists>l \<in> L. prevout x \<in> set (is_inputs l) \<and> is_txid l \<noteq> tx_hash tx)"
    unfolding HasConflictingLock_def list_ex_iff input_conflict_represents [OF assms] ..
  then show ?thesis by auto
qed

lemma WriteLock_represents:
  assumes r: "represents e L db" and t: "\<forall>l' \<in> L. is_txid l' \<noteq> is_txid l"
    and i: "\<forall>l' \<in> L. set (is_inputs l) \<inter> set (is_inputs l') = {}" and h: "Lock_GetHash e l \<notin> Lock_GetHash e ` L"
  shows "represents e (insert l L) (WriteLock e l db)"
  unfolding represents_def
proof (intro conjI allI)
  fix h' l'
  show "om_find (locksById (WriteLock e l db)) h' = Some l' \<longleftrightarrow> l' \<in> insert l L \<and> h' = Lock_GetHash e l'"
    using h representsD(1) [OF r, of h' l'] by (auto simp: WriteLock_def Let_def)
next
  fix t' h'
  show "om_find (txidToLockHash (WriteLock e l db)) t' = Some h' \<longleftrightarrow>
      (\<exists>l' \<in> insert l L. is_txid l' = t' \<and> h' = Lock_GetHash e l')"
    using t representsD(2) [OF r, of t' h'] by (cases "t' = is_txid l") (auto simp: WriteLock_def Let_def)
next
  fix i' h'
  show "om_find (inputLocks (WriteLock e l db)) i' = Some h' \<longleftrightarrow>
      (\<exists>l' \<in> insert l L. i' \<in> set (is_inputs l') \<and> h' = Lock_GetHash e l')"
    using i representsD(3) [OF r, of i' h'] by (cases "i' \<in> set (is_inputs l)") (auto simp: WriteLock_def Let_def fold_lock_inputs)
qed

lemma RemoveLock_represents:
  assumes r: "represents e L db" and x: "exclusive L" and l: "om_find (locksById db) h = Some l"
    and inj: "inj_on (Lock_GetHash e) L"
  shows "represents e (L - {l}) (RemoveLock h db)"
  unfolding represents_def
proof (intro conjI allI)
  have l': "l \<in> L" "h = Lock_GetHash e l" using representsD(1) [OF r] l by blast+
  have one: "l' = l" if "l' \<in> L" "is_txid l' = is_txid l \<or> (\<exists>i. i \<in> set (is_inputs l) \<and> i \<in> set (is_inputs l'))" for l'
    using x l'(1) that unfolding exclusive_def by (metis disjoint_iff)
  have hash: "Lock_GetHash e l2 = h \<longleftrightarrow> l2 = l" if "l2 \<in> L" for l2
    using inj l' that by (auto simp: inj_on_def)
  {
    fix h' l2
    show "om_find (locksById (RemoveLock h db)) h' = Some l2 \<longleftrightarrow> l2 \<in> L - {l} \<and> h' = Lock_GetHash e l2"
      using representsD(1) [OF r, of h' l2] hash [of l2] l by (auto simp: RemoveLock_def)
  next
    fix t' h'
    show "om_find (txidToLockHash (RemoveLock h db)) t' = Some h' \<longleftrightarrow>
        (\<exists>l' \<in> L - {l}. is_txid l' = t' \<and> h' = Lock_GetHash e l')"
      using representsD(2) [OF r, of t' h'] one l by (cases "t' = is_txid l") (auto simp: RemoveLock_def)
  next
    fix i' h'
    show "om_find (inputLocks (RemoveLock h db)) i' = Some h' \<longleftrightarrow>
        (\<exists>l' \<in> L - {l}. i' \<in> set (is_inputs l') \<and> h' = Lock_GetHash e l')"
      using representsD(3) [OF r, of i' h'] one l
      by (cases "i' \<in> set (is_inputs l)") (auto simp: RemoveLock_def fold_erase_inputs)
  }
qed

lemma exclusive_insert:
  "exclusive L \<Longrightarrow> \<forall>l' \<in> L. is_txid l' \<noteq> is_txid l \<Longrightarrow> \<forall>l' \<in> L. set (is_inputs l) \<inter> set (is_inputs l') = {} \<Longrightarrow>
   exclusive (insert l L)"
  unfolding exclusive_def by (metis inf_commute insert_iff)

lemma exclusive_subset: "exclusive L \<Longrightarrow> L' \<subseteq> L \<Longrightarrow> exclusive L'"
  unfolding exclusive_def by blast

section \<open>Runs of the manager\<close>

definition stored_locks :: "CInstantSendDb \<Rightarrow> CInstantSendLock set" where
  "stored_locks db = snd ` set (om_entries (locksById db))"

text \<open>
  Steps: a lock message, a transaction, the retry of a pending transaction, a block, an expiry and a
  removal.  All stored locks are in \<open>K\<close>.
\<close>

inductive is_run :: "llmq_env \<Rightarrow> ('s, 'b) dkg_ops \<Rightarrow> CInstantSendLock set \<Rightarrow> CInstantSendManager \<Rightarrow> bool" for e ops K where
  is_init: "is_run e ops K CInstantSendManager_new"
| is_lock: "is_run e ops K im \<Longrightarrow> ProcessInstantSendLock e m l im = (r, im') \<Longrightarrow> stored_locks (is_db im') \<subseteq> K \<Longrightarrow> is_run e ops K im'"
| is_tx: "is_run e ops K im \<Longrightarrow> ProcessTransaction e ops now m d tx (im, s) = (im', s') \<Longrightarrow> stored_locks (is_db im') \<subseteq> K \<Longrightarrow>
    is_run e ops K im'"
| is_retry: "is_run e ops K im \<Longrightarrow> TrySignInstantSendLock e ops m d tx (im, s) = (b, im', s') \<Longrightarrow>
    stored_locks (is_db im') \<subseteq> K \<Longrightarrow> is_run e ops K im'"
| is_block: "is_run e ops K im \<Longrightarrow> is_run e ops K (InstantSend_ProcessBlock block im)"
| is_cleanup: "is_run e ops K im \<Longrightarrow> is_run e ops K (InstantSend_Cleanup now im)"
| is_remove: "is_run e ops K im \<Longrightarrow> is_run e ops K (im\<lparr>is_db := RemoveLocksForTxids txids (is_db im)\<rparr>)"

definition locks_ok :: "llmq_env \<Rightarrow> CInstantSendLock set \<Rightarrow> CInstantSendDb \<Rightarrow> bool" where
  "locks_ok e K db \<longleftrightarrow> stored_locks db \<subseteq> K \<and> represents e (stored_locks db) db \<and> exclusive (stored_locks db)"

lemma stored_locks_represents: "represents e L db \<Longrightarrow> stored_locks db = L"
proof -
  assume r: "represents e L db"
  have "l \<in> stored_locks db \<longleftrightarrow> (\<exists>h. om_find (locksById db) h = Some l)" for l
    by (simp add: stored_locks_def om_value_iff)
  then show ?thesis using representsD(1) [OF r] by blast
qed

lemma locks_okI: "represents e L db \<Longrightarrow> exclusive L \<Longrightarrow> L \<subseteq> K \<Longrightarrow> locks_ok e K db"
  using stored_locks_represents [of e L db] by (simp add: locks_ok_def)

lemma WriteLock_ok:
  assumes "locks_ok e K db" and inj: "inj_on (Lock_GetHash e) K" and "\<not> IsTxLocked db (is_txid l)"
    and "\<not> list_ex (input_conflict db (is_txid l)) (is_inputs l)" and "l \<in> K"
  shows "locks_ok e K (WriteLock e l db)" and "stored_locks (WriteLock e l db) = insert l (stored_locks db)"
proof -
  let ?L = "stored_locks db"
  have r: "represents e ?L db" and x: "exclusive ?L" and K: "?L \<subseteq> K" using assms(1) by (simp_all add: locks_ok_def)
  have t: "\<forall>l' \<in> ?L. is_txid l' \<noteq> is_txid l" using assms(3) locked_iff(1) [OF r] by blast
  then have i: "\<forall>l' \<in> ?L. set (is_inputs l) \<inter> set (is_inputs l') = {}"
    using assms(4) input_conflict_represents [OF r x] by (fastforce simp: list_ex_iff)
  have "l \<notin> ?L" using t by blast
  then have "Lock_GetHash e l \<notin> Lock_GetHash e ` ?L" using inj K assms(5) by (auto simp: inj_on_def)
  then have w: "represents e (insert l ?L) (WriteLock e l db)" by (rule WriteLock_represents [OF r t i])
  show "locks_ok e K (WriteLock e l db)" by (rule locks_okI [OF w exclusive_insert [OF x t i]]) (use K assms(5) in simp)
  show "stored_locks (WriteLock e l db) = insert l ?L" by (rule stored_locks_represents [OF w])
qed

lemma WriteLock_stored: "l \<in> stored_locks (WriteLock e l db)"
  by (auto simp: stored_locks_def om_value_iff WriteLock_def Let_def)

lemma ProcessInstantSendLock_ok:
  assumes "locks_ok e K (is_db im)" and "inj_on (Lock_GetHash e) K"
    and "ProcessInstantSendLock e m l im = (r, im')" and "stored_locks (is_db im') \<subseteq> K"
  shows "locks_ok e K (is_db im') \<and> stored_locks (is_db im) \<subseteq> stored_locks (is_db im')"
proof (cases "is_db im' = is_db im")
  case False
  then have w: "\<not> IsTxLocked (is_db im) (is_txid l)" "\<not> list_ex (input_conflict (is_db im) (is_txid l)) (is_inputs l)"
    "is_db im' = WriteLock e l (is_db im)"
    using assms(3) by (auto simp: ProcessInstantSendLock_def split: if_splits)
  have "l \<in> K" using assms(4) WriteLock_stored unfolding w(3) by blast
  then show ?thesis using WriteLock_ok [OF assms(1,2) w(1,2)] unfolding w(3) by auto
qed (use assms in simp)

lemma TrySign_cases:
  assumes "TrySignInstantSendLock e ops m d tx (im, s) = (b, im', s')"
  obtains "im' = im" | l r where "ProcessInstantSendLock e m l im = (r, im')"
  using assms by (auto simp: TrySignInstantSendLock_def Let_def split: if_splits option.splits prod.splits)
    (metis prod.collapse)

lemma RemoveLock_ok: "locks_ok e K db \<Longrightarrow> inj_on (Lock_GetHash e) K \<Longrightarrow> locks_ok e K (RemoveLock h db)"
proof -
  assume a: "locks_ok e K db" and inj: "inj_on (Lock_GetHash e) K"
  then have r: "represents e (stored_locks db) db" and x: "exclusive (stored_locks db)" and K: "stored_locks db \<subseteq> K"
    by (simp_all add: locks_ok_def)
  show ?thesis
  proof (cases "om_find (locksById db) h")
    case None
    then show ?thesis using a by (simp add: RemoveLock_def)
  next
    case (Some l)
    from RemoveLock_represents [OF r x Some inj_on_subset [OF inj K]] show ?thesis
      by (rule locks_okI) (use K x in \<open>auto intro: exclusive_subset\<close>)
  qed
qed

lemma RemoveLocksForTxids_ok:
  assumes "locks_ok e K db" and "inj_on (Lock_GetHash e) K"
  shows "locks_ok e K (RemoveLocksForTxids txids db)"
proof -
  have "locks_ok e K (fold (\<lambda>txid db. case om_find (txidToLockHash db) txid of None \<Rightarrow> db | Some hash \<Rightarrow> RemoveLock hash db) ts db)" for ts
    using assms(1)
  proof (induction ts arbitrary: db)
    case (Cons t ts)
    then show ?case using RemoveLock_ok [OF _ assms(2)] by (cases "om_find (txidToLockHash db) t") auto
  qed simp
  then show ?thesis by (simp add: RemoveLocksForTxids_def)
qed

lemma is_db_pending:
  "is_db (InstantSend_ProcessBlock block im) = is_db im" "is_db (InstantSend_Cleanup now im) = is_db im"
proof -
  have "is_db (fold (\<lambda>tx im. im\<lparr>pendingTxs := om_erase (tx_hash tx) (pendingTxs im),
       pendingRequests := om_erase (tx_hash tx) (pendingRequests im)\<rparr>) txs im) = is_db im" for txs :: "CTransaction list"
    by (induction txs arbitrary: im) auto
  then show "is_db (InstantSend_ProcessBlock block im) = is_db im" by (simp add: InstantSend_ProcessBlock_def)
  have "is_db (fold (\<lambda>(h, t) im. if now - t > 60
         then im\<lparr>pendingTxs := om_erase h (pendingTxs im), pendingRequests := om_erase h (pendingRequests im)\<rparr> else im) it im)
       = is_db im" for it :: "(uint256 \<times> int) list"
    by (induction it arbitrary: im) auto
  then show "is_db (InstantSend_Cleanup now im) = is_db im" by (simp add: InstantSend_Cleanup_def)
qed

lemma TrySign_ok:
  assumes "TrySignInstantSendLock e ops m d tx (im, s) = (b, im', s')" and "locks_ok e K (is_db im)"
    and "inj_on (Lock_GetHash e) K" and "stored_locks (is_db im') \<subseteq> K"
  shows "locks_ok e K (is_db im')"
  using assms(1) by (rule TrySign_cases) (use assms(2,3,4) ProcessInstantSendLock_ok in blast)+

lemma is_run_ok: "is_run e ops K im \<Longrightarrow> inj_on (Lock_GetHash e) K \<Longrightarrow> locks_ok e K (is_db im)"
proof (induction rule: is_run.induct)
  case is_init
  show ?case using locks_okI [OF represents_new] by (simp add: CInstantSendManager_new_def exclusive_def)
next
  case (is_lock im m l r im')
  then show ?case using ProcessInstantSendLock_ok by blast
next
  case (is_tx im now m d tx s im' s')
  let ?im = "im\<lparr>pendingTxs := om_put (tx_hash tx) tx (pendingTxs im), pendingRequests := om_put (tx_hash tx) now (pendingRequests im)\<rparr>"
  have "im' = im \<or> (\<exists>b. TrySignInstantSendLock e ops m d tx (?im, s) = (b, im', s'))"
    using is_tx.hyps(2) by (auto simp: ProcessTransaction_def split: if_splits) (metis prod.collapse)
  then show ?case using TrySign_ok [of e ops m d tx ?im s _ im' s' K] is_tx by auto
next
  case (is_retry im m d tx s b im' s')
  then show ?case using TrySign_ok by blast
qed (simp_all add: is_db_pending RemoveLocksForTxids_ok)

end
