(* ===== verification/ChainLocks.thy ===== *)
theory ChainLocks
  imports Signing
begin

text \<open>
  ChainLocks, src/src/llmq/chainlocks.h and .cpp: the persistent table of locked blocks, the manager
  that receives, signs and activates locks, and the checks of blocks and of reorganisations, with
  \<open>LastCommonAncestor\<close> of src/src/chain.cpp and the check of \<open>ContextualCheckBlock\<close> in
  src/src/validation.cpp.

  The manager is a record, the evolution database is threaded beside it, and the block index and the
  active chain are the record \<open>chain_view\<close>.  \<open>UpdatedBlockTip\<close> returns \<open>None\<close> where the C++ loop
  erases through an iterator whose entry a nested call erased, which is undefined behaviour;
  \<open>LastCommonAncestor\<close> returns \<open>None\<close> where its assertion fails.
\<close>

definition CHAINLOCK_QUORUM_TYPE :: LLMQType where "CHAINLOCK_QUORUM_TYPE = LLMQ_400_60"
definition CHAINLOCK_MIN_ACTIVATION_HEIGHT :: int where "CHAINLOCK_MIN_ACTIVATION_HEIGHT = 1500"
definition CHAINLOCK_ACTIVATION_INTERVAL :: int where "CHAINLOCK_ACTIVATION_INTERVAL = 5000"
definition CHAINLOCK_REQUIRED_MASTERNODES :: int where "CHAINLOCK_REQUIRED_MASTERNODES = 300"

datatype ChainLockActivationReason = ENABLED | BEFORE_MIN_HEIGHT | INSUFFICIENT_MASTERNODES | NO_VALID_QUORUM
  | WAITING_NEXT_INTERVAL

record chain_view =
  mapBlockIndex :: "uint256 \<Rightarrow> CBlockIndex option"
  chainTip :: "CBlockIndex option"

definition chain_height :: "chain_view \<Rightarrow> int" where
  "chain_height v = (case chainTip v of Some i \<Rightarrow> bi_nHeight i | None \<Rightarrow> - 1)"

section \<open>Signatures\<close>

definition ChainLock_CreateRequestId :: "llmq_env \<Rightarrow> int \<Rightarrow> uint256" where
  "ChainLock_CreateRequestId e height = le_Hash e (Serialize_string ''clsig_request'' @ Serialize_int32 height)"

definition ChainLock_GetSignHash :: "llmq_env \<Rightarrow> CChainLockSig \<Rightarrow> uint256" where
  "ChainLock_GetSignHash e c =
     le_Hash e (Serialize_uint256 (GenesisBlockHash e) @ ser_writedata8 (LLMQType_value CHAINLOCK_QUORUM_TYPE) @
       Serialize_uint256 (ChainLock_CreateRequestId e (cl_nHeight c)) @ Serialize_uint256 (cl_blockHash c))"

section \<open>The table of locks\<close>

record CChainLocksDb =
  locksByHeight :: "(int, CChainLockSig) omap"
  locksByHash :: "(uint256, CChainLockSig) omap"
  bestChainLockHeight :: int
  bestChainLockHash :: uint256

definition CChainLocksDb_new :: CChainLocksDb where
  "CChainLocksDb_new = \<lparr>locksByHeight = om_empty, locksByHash = om_empty, bestChainLockHeight = 0, bestChainLockHash = uint256_null\<rparr>"

definition height_key :: "int \<Rightarrow> evo_key" where
  "height_key h = DB_CHAINLOCK_BY_HEIGHT (word_of_int h)"

definition read_hash :: "evodb \<Rightarrow> evo_key \<Rightarrow> uint256 \<Rightarrow> uint256" where
  "read_hash d k dflt = (case evo_Read d k of Some (V_HASH h) \<Rightarrow> h | _ \<Rightarrow> dflt)"

fun is_clsig_height :: "evo_key \<times> evo_val \<Rightarrow> bool" where
  "is_clsig_height (DB_CHAINLOCK_BY_HEIGHT w, v) = True"
| "is_clsig_height _ = False"

fun load_clsig :: "evo_key \<times> evo_val \<Rightarrow> CChainLocksDb \<Rightarrow> CChainLocksDb" where
  "load_clsig (DB_CHAINLOCK_BY_HEIGHT w, V_CLSIG c) db =
     db\<lparr>locksByHeight := om_put (sint w) c (locksByHeight db), locksByHash := om_put (cl_blockHash c) c (locksByHash db)\<rparr>"
| "load_clsig _ db = db"

definition ChainLocksDb_Init :: "CChainLocksDb \<times> evodb \<Rightarrow> CChainLocksDb \<times> evodb" where
  "ChainLocksDb_Init = (\<lambda>(db, d).
     (fold load_clsig (takeWhile is_clsig_height (seek d (height_key 0)))
        (db\<lparr>bestChainLockHeight := read_int d DB_CHAINLOCK_BEST_HEIGHT (bestChainLockHeight db),
            bestChainLockHash := read_hash d DB_CHAINLOCK_BEST_HASH (bestChainLockHash db)\<rparr>), d))"

definition ChainLocksDb_Flush :: "CChainLocksDb \<times> evodb \<Rightarrow> CChainLocksDb \<times> evodb" where
  "ChainLocksDb_Flush = (\<lambda>(db, d).
     (db, evo_Write DB_CHAINLOCK_BEST_HASH (V_HASH (bestChainLockHash db))
        (evo_Write DB_CHAINLOCK_BEST_HEIGHT (V_INT (bestChainLockHeight db)) d)))"

definition WriteChainLock :: "CChainLockSig \<Rightarrow> CChainLocksDb \<times> evodb \<Rightarrow> bool \<times> CChainLocksDb \<times> evodb" where
  "WriteChainLock c = (\<lambda>(db, d).
     if cl_nHeight c \<le> bestChainLockHeight db \<and> bestChainLockHeight db > 0 \<and> cl_nHeight c < bestChainLockHeight db
     then (False, db, d)
     else
       (let db' = db\<lparr>locksByHeight := om_put (cl_nHeight c) c (locksByHeight db),
                     locksByHash := om_put (cl_blockHash c) c (locksByHash db)\<rparr>;
            d' = evo_Write (DB_CHAINLOCK_BY_HASH (cl_blockHash c)) (V_CLSIG c) (evo_Write (height_key (cl_nHeight c)) (V_CLSIG c) d)
        in if cl_nHeight c > bestChainLockHeight db
           then (True, db'\<lparr>bestChainLockHeight := cl_nHeight c, bestChainLockHash := cl_blockHash c\<rparr>,
             evo_Write DB_CHAINLOCK_BEST_HASH (V_HASH (cl_blockHash c))
               (evo_Write DB_CHAINLOCK_BEST_HEIGHT (V_INT (cl_nHeight c)) d'))
           else (True, db', d')))"

definition GetChainLock :: "CChainLocksDb \<Rightarrow> int \<Rightarrow> CChainLockSig option" where
  "GetChainLock db h = om_find (locksByHeight db) h"

definition GetChainLockByHash :: "CChainLocksDb \<Rightarrow> uint256 \<Rightarrow> CChainLockSig option" where
  "GetChainLockByHash db h = om_find (locksByHash db) h"

definition IsChainLocked :: "CChainLocksDb \<Rightarrow> int \<Rightarrow> bool" where
  "IsChainLocked db h \<longleftrightarrow> om_find (locksByHeight db) h \<noteq> None"

definition HasChainLock :: "CChainLocksDb \<Rightarrow> uint256 \<Rightarrow> bool" where
  "HasChainLock db h \<longleftrightarrow> om_find (locksByHash db) h \<noteq> None"

fun remove_above :: "int \<Rightarrow> (int \<times> CChainLockSig) list \<Rightarrow> CChainLocksDb \<times> evodb \<Rightarrow> CChainLocksDb \<times> evodb" where
  "remove_above n [] s = s"
| "remove_above n ((h, c) # it) (db, d) =
     (if h > n
      then remove_above n it
        (db\<lparr>locksByHash := om_erase (cl_blockHash c) (locksByHash db), locksByHeight := om_erase h (locksByHeight db)\<rparr>,
         evo_Erase (DB_CHAINLOCK_BY_HASH (cl_blockHash c)) (evo_Erase (height_key h) d))
      else remove_above n it (db, d))"

definition RemoveAboveHeight :: "int \<Rightarrow> CChainLocksDb \<times> evodb \<Rightarrow> CChainLocksDb \<times> evodb" where
  "RemoveAboveHeight n s =
     (case remove_above n (om_entries (locksByHeight (fst s))) s of (db, d) \<Rightarrow>
       if bestChainLockHeight db > n
       then (let db' = db\<lparr>bestChainLockHeight := n,
                 bestChainLockHash := (case om_find (locksByHeight db) n of Some c \<Rightarrow> cl_blockHash c | None \<Rightarrow> uint256_null)\<rparr>
         in (db', evo_Write DB_CHAINLOCK_BEST_HASH (V_HASH (bestChainLockHash db'))
               (evo_Write DB_CHAINLOCK_BEST_HEIGHT (V_INT n) d)))
       else (db, d))"

section \<open>The manager\<close>

record CChainLocksManager =
  cl_db :: CChainLocksDb
  bestChainLock :: CChainLockSig
  bestChainLockBlockIndex :: "CBlockIndex option"
  pendingChainLocks :: "(int, CChainLockSig) omap"
  signingHeights :: "int set"
  cl_lastCleanupHeight :: int
  chainLockActivationHeight :: int

definition CChainLockSig_null :: CChainLockSig where
  "CChainLockSig_null = \<lparr>cl_nHeight = 0, cl_blockHash = uint256_null, cl_sig = None\<rparr>"

definition CChainLocksManager_new :: CChainLocksManager where
  "CChainLocksManager_new = \<lparr>cl_db = CChainLocksDb_new, bestChainLock = CChainLockSig_null, bestChainLockBlockIndex = None,
     pendingChainLocks = om_empty, signingHeights = {}, cl_lastCleanupHeight = 0, chainLockActivationHeight = 0\<rparr>"

definition ChainLocks_Init :: "chain_view \<Rightarrow> CChainLocksManager \<times> evodb \<Rightarrow> CChainLocksManager \<times> evodb" where
  "ChainLocks_Init v = (\<lambda>(cm, d).
     (let cm = cm\<lparr>chainLockActivationHeight := read_int d DB_CHAINLOCK_ACTIVATION_HEIGHT (chainLockActivationHeight cm),
            cl_db := fst (ChainLocksDb_Init (cl_db cm, d))\<rparr>
      in if bestChainLockHeight (cl_db cm) > 0
         then (case GetChainLock (cl_db cm) (bestChainLockHeight (cl_db cm)) of
             None \<Rightarrow> (cm, d)
           | Some c \<Rightarrow> (cm\<lparr>bestChainLock := c, bestChainLockBlockIndex :=
               (case mapBlockIndex v (cl_blockHash c) of Some i \<Rightarrow> Some i | None \<Rightarrow> bestChainLockBlockIndex cm)\<rparr>, d))
         else (cm, d)))"

definition InitChainLocks :: "chain_view \<Rightarrow> evodb \<Rightarrow> CChainLocksManager \<times> evodb" where
  "InitChainLocks v d = ChainLocks_Init v (CChainLocksManager_new, d)"

definition VerifyChainLock :: "llmq_env \<Rightarrow> CQuorumManager \<Rightarrow> CChainLockSig \<Rightarrow> bool" where
  "VerifyChainLock e m c =
     (if cl_sig c = None then False
      else case SelectQuorumForSigning e m CHAINLOCK_QUORUM_TYPE (ChainLock_CreateRequestId e (cl_nHeight c)) of
        None \<Rightarrow> False
      | Some quorum \<Rightarrow>
          if \<not> q_fValid quorum then False
          else Signature_VerifyWithDomain e (cl_sig c) (quorumPublicKey quorum) (ChainLock_GetSignHash e c) QUORUM)"

text \<open>The result of \<open>ProcessChainLock\<close> is the rejection, or whether it returned true.\<close>

definition ProcessChainLock ::
  "llmq_env \<Rightarrow> CQuorumManager \<Rightarrow> chain_view \<Rightarrow> CChainLockSig \<Rightarrow> CChainLocksManager \<times> evodb \<Rightarrow>
   (reject + bool) \<times> CChainLocksManager \<times> evodb" where
  "ProcessChainLock e m v c = (\<lambda>(cm, d).
     if HasChainLock (cl_db cm) (cl_blockHash c) then (Inr True, cm, d)
     else if cl_nHeight c \<le> bestChainLockHeight (cl_db cm) then
       (case GetChainLock (cl_db cm) (cl_nHeight c) of
         Some existing \<Rightarrow>
           if cl_blockHash existing \<noteq> cl_blockHash c then (Inl (DoS 100 REJECT_DUPLICATE ''chainlock-conflict''), cm, d)
           else (Inr True, cm, d)
       | None \<Rightarrow> (Inr True, cm, d))
     else if \<not> VerifyChainLock e m c then (Inl (DoS 100 REJECT_INVALID ''bad-chainlock-sig''), cm, d)
     else
       (case mapBlockIndex v (cl_blockHash c) of
         None \<Rightarrow> (Inr True, cm\<lparr>pendingChainLocks := om_put (cl_nHeight c) c (pendingChainLocks cm)\<rparr>, d)
       | Some pindex \<Rightarrow>
           if bi_nHeight pindex \<noteq> cl_nHeight c then (Inl (DoS 100 REJECT_INVALID ''chainlock-height-mismatch''), cm, d)
           else
             (case WriteChainLock c (cl_db cm, d) of (ok, db, d) \<Rightarrow>
               if \<not> ok then (Inr False, cm\<lparr>cl_db := db\<rparr>, d)
               else (Inr True, cm\<lparr>cl_db := db, bestChainLock := c, bestChainLockBlockIndex := Some pindex,
                 pendingChainLocks := om_erase (cl_nHeight c) (pendingChainLocks cm),
                 signingHeights := signingHeights cm - {cl_nHeight c}\<rparr>, d))))"

definition IsChainLockActive :: "CChainLocksManager \<Rightarrow> bool" where
  "IsChainLockActive cm \<longleftrightarrow> chainLockActivationHeight cm > 0"

definition TrySignChainLock ::
  "llmq_env \<Rightarrow> ('s, 'b) dkg_ops \<Rightarrow> CQuorumManager \<Rightarrow> ('s, 'b) CDKGSessionManager \<Rightarrow> chain_view \<Rightarrow> CBlockIndex option \<Rightarrow>
   CChainLocksManager \<times> evodb \<times> CSigningManager \<Rightarrow> bool \<times> CChainLocksManager \<times> evodb \<times> CSigningManager" where
  "TrySignChainLock e ops m dk v pindex = (\<lambda>(cm, d, s).
     (case pindex of
       None \<Rightarrow> (False, cm, d, s)
     | Some i \<Rightarrow>
         if \<not> IsChainLockActive cm then (False, cm, d, s)
         else if IsChainLocked (cl_db cm) (bi_nHeight i) then (True, cm, d, s)
         else if bi_nHeight i \<in> signingHeights cm then (False, cm, d, s)
         else
           (let cm = cm\<lparr>signingHeights := insert (bi_nHeight i) (signingHeights cm)\<rparr>;
                requestId = ChainLock_CreateRequestId e (bi_nHeight i);
                msgHash = le_Hash e (Serialize_uint256 requestId @ Serialize_uint256 (bi_hash i))
            in case AsyncSign e ops m dk CHAINLOCK_QUORUM_TYPE requestId msgHash s of (ok, s) \<Rightarrow>
              if \<not> ok then (False, cm\<lparr>signingHeights := signingHeights cm - {bi_nHeight i}\<rparr>, d, s)
              else
                (case TryRecoverSignature e m s CHAINLOCK_QUORUM_TYPE requestId msgHash of
                  None \<Rightarrow> (True, cm, d, s)
                | Some recSig \<Rightarrow>
                    (case ProcessChainLock e m v
                        \<lparr>cl_nHeight = bi_nHeight i, cl_blockHash = bi_hash i, cl_sig = rs_sig recSig\<rparr> (cm, d) of
                      (_, cm, d) \<Rightarrow> (True, cm, d, s))))))"

definition ProcessNewBlock ::
  "llmq_env \<Rightarrow> ('s, 'b) dkg_ops \<Rightarrow> CQuorumManager \<Rightarrow> ('s, 'b) CDKGSessionManager \<Rightarrow> chain_view \<Rightarrow> CBlockIndex option \<Rightarrow>
   CChainLocksManager \<times> evodb \<times> CSigningManager \<Rightarrow> CChainLocksManager \<times> evodb \<times> CSigningManager" where
  "ProcessNewBlock e ops m dk v pindex = (\<lambda>(cm, d, s).
     if \<not> IsChainLockActive cm then (cm, d, s)
     else if pindex = None then (cm, d, s)
     else if pindex \<noteq> chainTip v then (cm, d, s)
     else snd (TrySignChainLock e ops m dk v pindex (cm, d, s)))"

section \<open>Activation\<close>

definition GetNextActivationAttemptHeight :: "chain_view \<Rightarrow> CChainLocksManager \<Rightarrow> int" where
  "GetNextActivationAttemptHeight v cm =
     (if chainLockActivationHeight cm > 0 then 0
      else if chain_height v < CHAINLOCK_MIN_ACTIVATION_HEIGHT
      then (CHAINLOCK_MIN_ACTIVATION_HEIGHT div CHAINLOCK_ACTIVATION_INTERVAL + 1) * CHAINLOCK_ACTIVATION_INTERVAL
      else (chain_height v div CHAINLOCK_ACTIVATION_INTERVAL + 1) * CHAINLOCK_ACTIVATION_INTERVAL)"

definition GetEligibleMasternodeCount :: "evo_state \<Rightarrow> int" where
  "GetEligibleMasternodeCount st =
     ForEachMN (GetListAtChainTip st) True (\<lambda>mn count. if vchOperatorPubKey (mn_state mn) \<noteq> [] then count + 1 else count) 0"

definition has_valid_quorum :: "CQuorumManager \<Rightarrow> bool" where
  "has_valid_quorum m \<longleftrightarrow> list_ex q_fValid (GetActiveQuorums m CHAINLOCK_QUORUM_TYPE)"

definition GetActivationStatus :: "CQuorumManager \<Rightarrow> evo_state \<Rightarrow> chain_view \<Rightarrow> CChainLocksManager \<Rightarrow> ChainLockActivationReason" where
  "GetActivationStatus m st v cm =
     (if chainLockActivationHeight cm > 0 then ENABLED
      else if chain_height v < CHAINLOCK_MIN_ACTIVATION_HEIGHT then BEFORE_MIN_HEIGHT
      else if \<not> (chain_height v mod CHAINLOCK_ACTIVATION_INTERVAL = 0 \<and> chain_height v \<ge> CHAINLOCK_MIN_ACTIVATION_HEIGHT)
      then WAITING_NEXT_INTERVAL
      else if GetEligibleMasternodeCount st < CHAINLOCK_REQUIRED_MASTERNODES then INSUFFICIENT_MASTERNODES
      else if \<not> has_valid_quorum m then NO_VALID_QUORUM
      else ENABLED)"

definition ShouldAttemptActivation :: "CChainLocksManager \<Rightarrow> int \<Rightarrow> bool" where
  "ShouldAttemptActivation cm height =
     (if chainLockActivationHeight cm > 0 then False
      else if height < CHAINLOCK_MIN_ACTIVATION_HEIGHT then False
      else height mod CHAINLOCK_ACTIVATION_INTERVAL = 0)"

definition TryActivate ::
  "CQuorumManager \<Rightarrow> evo_state \<Rightarrow> int \<Rightarrow> CChainLocksManager \<times> evodb \<Rightarrow> bool \<times> CChainLocksManager \<times> evodb" where
  "TryActivate m st height = (\<lambda>(cm, d).
     if \<not> ShouldAttemptActivation cm height then (False, cm, d)
     else if chainLockActivationHeight cm > 0 then (True, cm, d)
     else if GetEligibleMasternodeCount st < CHAINLOCK_REQUIRED_MASTERNODES then (False, cm, d)
     else if \<not> has_valid_quorum m then (False, cm, d)
     else (True, cm\<lparr>chainLockActivationHeight := height\<rparr>, evo_Write DB_CHAINLOCK_ACTIVATION_HEIGHT (V_INT height) d))"

definition SetActivationHeight :: "int \<Rightarrow> CChainLocksManager \<times> evodb \<Rightarrow> CChainLocksManager \<times> evodb" where
  "SetActivationHeight height = (\<lambda>(cm, d).
     (cm\<lparr>chainLockActivationHeight := height\<rparr>,
      if height > 0 then evo_Write DB_CHAINLOCK_ACTIVATION_HEIGHT (V_INT height) d
      else evo_Erase DB_CHAINLOCK_ACTIVATION_HEIGHT d))"

section \<open>Notifications\<close>

fun process_pending ::
  "llmq_env \<Rightarrow> CQuorumManager \<Rightarrow> chain_view \<Rightarrow> (int \<times> CChainLockSig) list \<Rightarrow> CChainLocksManager \<times> evodb \<Rightarrow>
   (CChainLocksManager \<times> evodb) option" where
  "process_pending e m v [] s = Some s"
| "process_pending e m v ((h, c) # it) s =
     (case mapBlockIndex v (cl_blockHash c) of
       Some i \<Rightarrow>
         if bi_nHeight i = cl_nHeight c
         then (case ProcessChainLock e m v c s of (_, cm, d) \<Rightarrow>
             if om_find (pendingChainLocks cm) h = None then None
             else process_pending e m v it (cm\<lparr>pendingChainLocks := om_erase h (pendingChainLocks cm)\<rparr>, d))
         else process_pending e m v it s
     | None \<Rightarrow> process_pending e m v it s)"

definition ChainLocks_UpdatedBlockTip ::
  "llmq_env \<Rightarrow> ('s, 'b) dkg_ops \<Rightarrow> CQuorumManager \<Rightarrow> ('s, 'b) CDKGSessionManager \<Rightarrow> evo_state \<Rightarrow> chain_view \<Rightarrow>
   CBlockIndex option \<Rightarrow> CChainLocksManager \<times> evodb \<times> CSigningManager \<Rightarrow> (CChainLocksManager \<times> evodb \<times> CSigningManager) option" where
  "ChainLocks_UpdatedBlockTip e ops m dk st v pindex = (\<lambda>(cm, d, s).
     (case pindex of
       None \<Rightarrow> Some (cm, d, s)
     | Some i \<Rightarrow>
         (case (if ShouldAttemptActivation cm (bi_nHeight i) then snd (TryActivate m st (bi_nHeight i) (cm, d)) else (cm, d)) of
           (cm, d) \<Rightarrow>
             (case process_pending e m v (om_entries (pendingChainLocks cm)) (cm, d) of
               None \<Rightarrow> None
             | Some (cm, d) \<Rightarrow>
                 Some (if IsChainLockActive cm then snd (TrySignChainLock e ops m dk v pindex (cm, d, s)) else (cm, d, s))))))"

definition ChainLocks_Cleanup :: "chain_view \<Rightarrow> CChainLocksManager \<Rightarrow> CChainLocksManager" where
  "ChainLocks_Cleanup v cm =
     (let currentHeight = chain_height v in
      if currentHeight \<le> cl_lastCleanupHeight cm + 100 then cm
      else cm\<lparr>cl_lastCleanupHeight := currentHeight,
        signingHeights := {h \<in> signingHeights cm. \<not> h < currentHeight - 100},
        pendingChainLocks := fold (\<lambda>(h, c). if h < currentHeight - 100 then om_erase h else id)
          (om_entries (pendingChainLocks cm)) (pendingChainLocks cm)\<rparr>)"

text \<open>The handler of a CLSIG message: whether the lock is sent on to every peer.\<close>

definition CLSIG_message ::
  "llmq_env \<Rightarrow> CQuorumManager \<Rightarrow> chain_view \<Rightarrow> CChainLockSig \<Rightarrow> CChainLocksManager \<times> evodb \<Rightarrow> bool \<times> CChainLocksManager \<times> evodb" where
  "CLSIG_message e m v c s = (case ProcessChainLock e m v c s of (r, s) \<Rightarrow> (r = Inr True, s))"

section \<open>Checks of blocks and reorganisations\<close>

function common_walk :: "CBlockIndex option \<Rightarrow> CBlockIndex option \<Rightarrow> CBlockIndex option \<times> CBlockIndex option" where
  "common_walk pa pb =
     (if pa \<noteq> pb then
        (case (pa, pb) of (Some a, Some b) \<Rightarrow> common_walk (bi_pprev a) (bi_pprev b) | _ \<Rightarrow> (pa, pb))
      else (pa, pb))"
  by pat_completeness auto
termination
  by (relation "measure (\<lambda>(pa, _). case pa of Some a \<Rightarrow> Suc (size a) | None \<Rightarrow> 0)")
    (auto split: option.splits dest: pprev_smaller)

definition LastCommonAncestor :: "CBlockIndex \<Rightarrow> CBlockIndex \<Rightarrow> CBlockIndex option option" where
  "LastCommonAncestor pa pb =
     (let qa = (if bi_nHeight pa > bi_nHeight pb then GetAncestor pa (bi_nHeight pb) else Some (Some pa));
          qb = (if bi_nHeight pb > bi_nHeight pa then GetAncestor pb (bi_nHeight pa) else Some (Some pb))
      in case (qa, qb) of
           (Some qa, Some qb) \<Rightarrow> (case common_walk qa qb of (ra, rb) \<Rightarrow> if ra = rb then Some ra else None)
         | _ \<Rightarrow> None)"

definition CanReorg :: "CChainLocksManager \<Rightarrow> CBlockIndex option \<Rightarrow> CBlockIndex option \<Rightarrow> bool option" where
  "CanReorg cm pindexNew pindexOld =
     (case (pindexNew, pindexOld) of
       (Some new, Some old) \<Rightarrow>
         (case LastCommonAncestor new old of
           None \<Rightarrow> None
         | Some None \<Rightarrow> Some True
         | Some (Some pindexFork) \<Rightarrow> Some (\<not> bi_nHeight pindexFork < bestChainLockHeight (cl_db cm)))
     | _ \<Rightarrow> Some True)"

definition ShouldPreferChainLocked ::
  "(CBlockIndex \<Rightarrow> nat) \<Rightarrow> CChainLocksManager \<Rightarrow> CBlockIndex option \<Rightarrow> CBlockIndex option \<Rightarrow> bool" where
  "ShouldPreferChainLocked nChainWork cm pindexA pindexB =
     (case (pindexA, pindexB) of
       (Some a, Some b) \<Rightarrow>
         (let aLocked = HasChainLock (cl_db cm) (bi_hash a); bLocked = HasChainLock (cl_db cm) (bi_hash b)
          in if aLocked \<and> \<not> bLocked then True
             else if \<not> aLocked \<and> bLocked then False
             else nChainWork a > nChainWork b)
     | _ \<Rightarrow> False)"

definition CheckAgainstChainLocks ::
  "chain_view \<Rightarrow> CChainLocksManager option \<Rightarrow> CBlockIndex option \<Rightarrow> reject option option" where
  "CheckAgainstChainLocks v cmo pindex =
     (case (cmo, pindex) of
       (Some cm, Some i) \<Rightarrow>
         if IsChainLocked (cl_db cm) (bi_nHeight i) then
           (let c = bestChainLock cm in
            if cl_nHeight c \<ge> bi_nHeight i then
              if cl_nHeight c = bi_nHeight i \<and> cl_blockHash c \<noteq> bi_hash i
              then Some (Some (DoS 100 REJECT_INVALID ''chainlock-conflict''))
              else if cl_nHeight c > bi_nHeight i then
                (case mapBlockIndex v (cl_blockHash c) of
                  None \<Rightarrow> Some None
                | Some pClockBlock \<Rightarrow>
                    (case GetAncestor pClockBlock (bi_nHeight i) of
                      None \<Rightarrow> None
                    | Some None \<Rightarrow> Some None
                    | Some (Some pAncestor) \<Rightarrow>
                        if bi_hash pAncestor \<noteq> bi_hash i
                        then Some (Some (DoS 100 REJECT_INVALID ''chainlock-ancestor-conflict'')) else Some None))
              else Some None
            else Some None)
         else Some None
     | _ \<Rightarrow> Some None)"

text \<open>The part of \<open>ContextualCheckBlock\<close> about ChainLocks, for a block of the given hash.\<close>

definition contextual_chainlock_check ::
  "CChainLocksManager option \<Rightarrow> uint256 \<Rightarrow> CBlockIndex option \<Rightarrow> reject option" where
  "contextual_chainlock_check cmo hash pindexPrev =
     (case (cmo, pindexPrev) of
       (Some cm, Some prev) \<Rightarrow>
         (let nHeight = bi_nHeight prev + 1; chainLockHeight = bestChainLockHeight (cl_db cm)
          in if chainLockHeight > 0 \<and> nHeight \<le> chainLockHeight \<and> IsChainLocked (cl_db cm) nHeight \<and>
                nHeight = chainLockHeight \<and> hash \<noteq> cl_blockHash (bestChainLock cm)
             then Some (DoS 100 REJECT_INVALID ''bad-block-chainlock-conflict'') else None)
     | _ \<Rightarrow> None)"

declare common_walk.simps [simp del]

section \<open>The table and its copy in the database\<close>

definition int32 :: "int \<Rightarrow> bool" where
  "int32 h \<longleftrightarrow> - (2 ^ 31) \<le> h \<and> h < 2 ^ 31"

lemma sint_height: "int32 h \<Longrightarrow> sint (word_of_int h :: u32) = h"
  by (simp add: int32_def sint_word_ariths signed_take_bit_int_eq_self sint_sbintrunc')

lemma word_height: "int32 h \<Longrightarrow> word_of_int h = (w :: u32) \<longleftrightarrow> sint w = h"
proof -
  assume "int32 h"
  moreover have "word_of_int (sint w) = w" by simp
  ultimately show ?thesis using sint_height by metis
qed

lemma int32_sint: "int32 (sint (w :: u32))"
  using sint_greater_eq [of w] sint_less [of w] by (simp add: int32_def)

definition db_ok :: "CChainLocksDb \<Rightarrow> bool" where
  "db_ok db \<longleftrightarrow> 0 \<le> bestChainLockHeight db \<and>
     (\<forall>h c. om_find (locksByHeight db) h = Some c \<longrightarrow> cl_nHeight c = h \<and> 0 < h \<and> h \<le> bestChainLockHeight db \<and> int32 h) \<and>
     (\<forall>b c. om_find (locksByHash db) b = Some c \<longleftrightarrow> cl_blockHash c = b \<and> om_find (locksByHeight db) (cl_nHeight c) = Some c) \<and>
     (0 < bestChainLockHeight db \<longrightarrow>
        map_option cl_blockHash (om_find (locksByHeight db) (bestChainLockHeight db)) = Some (bestChainLockHash db)) \<and>
     (bestChainLockHeight db = 0 \<longrightarrow> bestChainLockHash db = uint256_null)"

definition disk_ok :: "CChainLocksDb \<Rightarrow> evodb \<Rightarrow> bool" where
  "disk_ok db d \<longleftrightarrow> idle d \<and>
     (\<forall>w. evo_Read d (DB_CHAINLOCK_BY_HEIGHT w) = map_option V_CLSIG (om_find (locksByHeight db) (sint w))) \<and>
     read_int d DB_CHAINLOCK_BEST_HEIGHT 0 = bestChainLockHeight db \<and>
     read_hash d DB_CHAINLOCK_BEST_HASH uint256_null = bestChainLockHash db"

lemma db_okD:
  assumes "db_ok db"
  shows "0 \<le> bestChainLockHeight db"
    and "om_find (locksByHeight db) h = Some c \<Longrightarrow> cl_nHeight c = h \<and> 0 < h \<and> h \<le> bestChainLockHeight db \<and> int32 h"
    and "om_find (locksByHash db) b = Some c \<longleftrightarrow> cl_blockHash c = b \<and> om_find (locksByHeight db) (cl_nHeight c) = Some c"
    and "0 < bestChainLockHeight db \<Longrightarrow>
      map_option cl_blockHash (om_find (locksByHeight db) (bestChainLockHeight db)) = Some (bestChainLockHash db)"
    and "bestChainLockHeight db = 0 \<Longrightarrow> bestChainLockHash db = uint256_null"
  using assms unfolding db_ok_def by blast+

lemma db_okI:
  assumes "0 \<le> bestChainLockHeight db"
    and "\<And>h c. om_find (locksByHeight db) h = Some c \<Longrightarrow> cl_nHeight c = h \<and> 0 < h \<and> h \<le> bestChainLockHeight db \<and> int32 h"
    and "\<And>b c. om_find (locksByHash db) b = Some c \<longleftrightarrow> cl_blockHash c = b \<and> om_find (locksByHeight db) (cl_nHeight c) = Some c"
    and "0 < bestChainLockHeight db \<Longrightarrow>
      map_option cl_blockHash (om_find (locksByHeight db) (bestChainLockHeight db)) = Some (bestChainLockHash db)"
    and "bestChainLockHeight db = 0 \<Longrightarrow> bestChainLockHash db = uint256_null"
  shows "db_ok db"
  using assms unfolding db_ok_def by blast

lemma db_ok_new: "db_ok CChainLocksDb_new"
  by (simp add: db_ok_def CChainLocksDb_new_def)

lemma WriteChainLock_higher:
  assumes "cl_nHeight c > bestChainLockHeight db" and "0 \<le> bestChainLockHeight db"
  shows "WriteChainLock c (db, d) =
    (True, db\<lparr>locksByHeight := om_put (cl_nHeight c) c (locksByHeight db), locksByHash := om_put (cl_blockHash c) c (locksByHash db),
        bestChainLockHeight := cl_nHeight c, bestChainLockHash := cl_blockHash c\<rparr>,
     evo_Write DB_CHAINLOCK_BEST_HASH (V_HASH (cl_blockHash c)) (evo_Write DB_CHAINLOCK_BEST_HEIGHT (V_INT (cl_nHeight c))
       (evo_Write (DB_CHAINLOCK_BY_HASH (cl_blockHash c)) (V_CLSIG c) (evo_Write (height_key (cl_nHeight c)) (V_CLSIG c) d))))"
  using assms by (simp add: WriteChainLock_def Let_def)

lemma WriteChainLock_ok:
  assumes ok: "db_ok db" and c: "cl_nHeight c > bestChainLockHeight db" "int32 (cl_nHeight c)"
    and fresh: "\<not> HasChainLock db (cl_blockHash c)" and w: "WriteChainLock c (db, d) = (b, db', d')"
  shows "b \<and> db_ok db' \<and> locksByHeight db' = om_put (cl_nHeight c) c (locksByHeight db) \<and>
    om_find (locksByHeight db) (cl_nHeight c) = None \<and> bestChainLockHeight db' = cl_nHeight c"
proof -
  note w' = w [unfolded WriteChainLock_higher [OF c(1) db_okD(1) [OF ok]]]
  have none: "om_find (locksByHeight db) (cl_nHeight c) = None"
    using db_okD(2) [OF ok, of "cl_nHeight c"] c(1) by (cases "om_find (locksByHeight db) (cl_nHeight c)") auto
  have hash: "om_find (locksByHash db) (cl_blockHash c) = None" using fresh by (simp add: HasChainLock_def)
  have best: "bestChainLockHeight db' = cl_nHeight c" "bestChainLockHash db' = cl_blockHash c" "b"
    "om_find (locksByHeight db') (cl_nHeight c) = Some c" "locksByHeight db' = om_put (cl_nHeight c) c (locksByHeight db)"
    using w' by auto
  have 1: "om_find (locksByHash db') b' = Some c' \<longleftrightarrow> cl_blockHash c' = b' \<and> om_find (locksByHeight db') (cl_nHeight c') = Some c'"
    for b' c'
  proof (cases "c' = c")
    case True
    then show ?thesis using w' hash db_okD(3) [OF ok, of b' c] by (auto split: if_splits)
  next
    case False
    have "cl_blockHash c' \<noteq> cl_blockHash c \<and> cl_nHeight c' \<noteq> cl_nHeight c" if "om_find (locksByHeight db) (cl_nHeight c') = Some c'"
      using that db_okD(3) [OF ok, of "cl_blockHash c'" c'] hash none by auto
    then show ?thesis using w' False db_okD(3) [OF ok, of b' c'] by (auto split: if_splits)
  qed
  have 2: "cl_nHeight c' = h \<and> 0 < h \<and> h \<le> bestChainLockHeight db' \<and> int32 h" if "om_find (locksByHeight db') h = Some c'" for h c'
    using that w' c db_okD(1) [OF ok] db_okD(2) [OF ok, of h c'] by (auto split: if_splits)
  have "db_ok db'" by (rule db_okI [OF _ 2 1]) (use best c(1) db_okD(1) [OF ok] in simp_all)
  then show ?thesis using best none by blast
qed

lemma WriteChainLock_disk:
  assumes "disk_ok db d" and "0 \<le> bestChainLockHeight db" and c: "cl_nHeight c > bestChainLockHeight db" "int32 (cl_nHeight c)"
    and w: "WriteChainLock c (db, d) = (b, db', d')"
  shows "disk_ok db' d'"
proof -
  note w' = w [unfolded WriteChainLock_higher [OF c(1) assms(2)]]
  have idle: "idle d" using assms(1) by (simp add: disk_ok_def)
  have eq: "word_of_int (cl_nHeight c) = w \<longleftrightarrow> sint w = cl_nHeight c" for w :: u32
    by (rule word_height [OF c(2)])
  have "evo_Read d' (DB_CHAINLOCK_BY_HEIGHT w) = map_option V_CLSIG (om_find (locksByHeight db') (sint w))" for w
    using w' idle assms(1) eq [of w] by (auto simp: evostore.get_put height_key_def disk_ok_def)
  then show ?thesis
    using w' idle by (auto simp: disk_ok_def evostore.get_put read_int_def read_hash_def height_key_def)
qed

section \<open>Loading the table\<close>

lemma clsig_scan:
  "takeWhile is_clsig_height (seek d (height_key 0)) = filter is_clsig_height (om_entries (evo_db d))"
proof -
  let ?Q = "\<lambda>k. \<exists>w. k = DB_CHAINLOCK_BY_HEIGHT w"
  have Q: "is_clsig_height e \<longleftrightarrow> ?Q (fst e)" for e
    by (cases e rule: is_clsig_height.cases) auto
  have zero: "ser_writedata32 0 \<le> ser_writedata32 w" for w :: u32
  proof -
    have "word_bytes n (0 :: u32) = replicate n 0" for n by (induction n) auto
    then show ?thesis using zeros_least [of "word_bytes 4 w"] by (simp add: ser_writedata32_def)
  qed
  have "takeWhile (\<lambda>e. ?Q (fst e)) (dropWhile (\<lambda>e. fst e < height_key 0) (om_entries (evo_db d))) =
      filter (\<lambda>e. ?Q (fst e)) (om_entries (evo_db d))"
  proof (rule scan_sorted)
    show "height_key 0 \<le> k" if "?Q k" for k
      using that zero by (auto simp: less_eq_evo_key_def key_tags height_key_def)
    show "\<not> ?Q k'" if "height_key 0 \<le> k" "\<not> ?Q k" "k < k'" for k k'
      using that by (cases k; cases k') (auto simp: less_eq_evo_key_def less_evo_key_def key_tags height_key_def)
  qed simp
  then show ?thesis by (simp add: seek_def Q [abs_def])
qed

lemma load_clsig_best:
  "bestChainLockHeight (fold load_clsig es db) = bestChainLockHeight db \<and> bestChainLockHash (fold load_clsig es db) = bestChainLockHash db"
proof (induction es arbitrary: db)
  case (Cons e es)
  then show ?case by (cases "(e, db)" rule: load_clsig.cases) auto
qed simp

lemma sint_u32_eq: "sint (a :: u32) = sint b \<longleftrightarrow> a = b"
  using word_height [OF int32_sint] by metis

lemma load_clsig_heights:
  "distinct (map fst es) \<Longrightarrow> om_find (locksByHeight (fold load_clsig es db)) (sint w) =
     (case map_of es (DB_CHAINLOCK_BY_HEIGHT w) of Some (V_CLSIG c) \<Rightarrow> Some c | _ \<Rightarrow> om_find (locksByHeight db) (sint w))"
proof (induction es arbitrary: db)
  case (Cons e es)
  then have "map_of es (fst e) = None" by (simp add: map_of_eq_None_iff)
  with Cons show ?case
    by (cases "(e, db)" rule: load_clsig.cases) (auto simp: sint_u32_eq split: option.splits evo_val.splits)
qed simp

lemma load_clsig_range: "\<not> int32 h \<Longrightarrow> om_find (locksByHeight (fold load_clsig es db)) h = om_find (locksByHeight db) h"
proof (induction es arbitrary: db)
  case (Cons e es)
  then show ?case using int32_sint by (cases "(e, db)" rule: load_clsig.cases) auto
qed simp

text \<open>The locks of a list of records.\<close>

fun clsig_of :: "evo_key \<times> evo_val \<Rightarrow> CChainLockSig option" where
  "clsig_of (DB_CHAINLOCK_BY_HEIGHT w, V_CLSIG c) = Some c"
| "clsig_of _ = None"

definition clsigs :: "(evo_key \<times> evo_val) list \<Rightarrow> CChainLockSig set" where
  "clsigs es = {c. \<exists>w. (DB_CHAINLOCK_BY_HEIGHT w, V_CLSIG c) \<in> set es}"

lemma clsigs_Cons: "clsigs (e # es) = set_option (clsig_of e) \<union> clsigs es"
  by (cases e rule: clsig_of.cases) (auto simp: clsigs_def)

lemma load_clsig_hash:
  "om_find (locksByHash (load_clsig e db)) b =
     (case clsig_of e of Some c \<Rightarrow> if b = cl_blockHash c then Some c else om_find (locksByHash db) b
      | None \<Rightarrow> om_find (locksByHash db) b)"
  by (cases e rule: clsig_of.cases) simp_all

lemma load_clsig_hashes_sound:
  "om_find (locksByHash (fold load_clsig es db)) b = Some c \<Longrightarrow>
   c \<in> clsigs es \<and> cl_blockHash c = b \<or> om_find (locksByHash db) b = Some c"
proof (induction es arbitrary: db)
  case (Cons e es)
  from Cons.IH [of "load_clsig e db"] Cons.prems
  have "c \<in> clsigs es \<and> cl_blockHash c = b \<or> om_find (locksByHash (load_clsig e db)) b = Some c" by simp
  then show ?case unfolding clsigs_Cons load_clsig_hash
    by (auto split: if_splits option.splits)
qed simp

lemma load_clsig_hashes_complete:
  "c \<in> clsigs es \<or> om_find (locksByHash db) b = Some c \<Longrightarrow> cl_blockHash c = b \<Longrightarrow>
   \<forall>c' \<in> clsigs es. cl_blockHash c' = b \<longrightarrow> c' = c \<Longrightarrow> om_find (locksByHash (fold load_clsig es db)) b = Some c"
proof (induction es arbitrary: db)
  case Nil
  then show ?case by (simp add: clsigs_def)
next
  case (Cons e es)
  have "c \<in> clsigs es \<or> om_find (locksByHash (load_clsig e db)) b = Some c"
    using Cons.prems unfolding clsigs_Cons load_clsig_hash by (auto split: option.splits)
  moreover have "\<forall>c' \<in> clsigs es. cl_blockHash c' = b \<longrightarrow> c' = c"
    using Cons.prems(3) unfolding clsigs_Cons by blast
  ultimately show ?case using Cons.IH [of "load_clsig e db"] Cons.prems(2) by simp
qed

definition height_records :: "evodb \<Rightarrow> (evo_key \<times> evo_val) list" where
  "height_records d = filter is_clsig_height (om_entries (evo_db d))"

lemma height_records_distinct: "distinct (map fst (height_records d))"
  by (simp add: height_records_def distinct_map_filter)

lemma height_records_iff:
  "disk_ok db d \<Longrightarrow> (DB_CHAINLOCK_BY_HEIGHT w, v) \<in> set (height_records d) \<longleftrightarrow>
     map_option V_CLSIG (om_find (locksByHeight db) (sint w)) = Some v"
  by (simp add: height_records_def om_entries_iff disk_ok_def evo_Read_def)

lemma height_records_map:
  assumes "disk_ok db d"
  shows "map_of (height_records d) (DB_CHAINLOCK_BY_HEIGHT w) = map_option V_CLSIG (om_find (locksByHeight db) (sint w))"
proof (cases "om_find (locksByHeight db) (sint w)")
  case None
  then have "DB_CHAINLOCK_BY_HEIGHT w \<notin> fst ` set (height_records d)" using height_records_iff [OF assms] by force
  then show ?thesis using None by (simp add: map_of_eq_None_iff)
next
  case (Some c)
  then have "(DB_CHAINLOCK_BY_HEIGHT w, V_CLSIG c) \<in> set (height_records d)" using height_records_iff [OF assms] by simp
  then show ?thesis using Some map_of_is_SomeI [OF height_records_distinct] by simp
qed

lemma loaded_heights:
  assumes ok: "db_ok db" and disk: "disk_ok db d" and empty: "locksByHeight start = om_empty"
  shows "locksByHeight (fold load_clsig (height_records d) start) = locksByHeight db"
proof (rule om_ext, rule ext)
  fix h
  show "om_find (locksByHeight (fold load_clsig (height_records d) start)) h = om_find (locksByHeight db) h"
  proof (cases "int32 h")
    case True
    then obtain w :: u32 where h: "h = sint w" using sint_height by metis
    show ?thesis unfolding h load_clsig_heights [OF height_records_distinct] height_records_map [OF disk] empty
      by (cases "om_find (locksByHeight db) (sint w)") simp_all
  next
    case False
    have "om_find (locksByHeight db) h = None"
      using db_okD(2) [OF ok, of h] False by (cases "om_find (locksByHeight db) h") auto
    then show ?thesis unfolding load_clsig_range [OF False] empty by simp
  qed
qed

lemma clsigs_height_records:
  assumes "db_ok db" and "disk_ok db d"
  shows "c \<in> clsigs (height_records d) \<longleftrightarrow> om_find (locksByHeight db) (cl_nHeight c) = Some c"
proof -
  have "c \<in> clsigs (height_records d) \<longleftrightarrow> (\<exists>w :: u32. om_find (locksByHeight db) (sint w) = Some c)"
    unfolding clsigs_def mem_Collect_eq height_records_iff [OF assms(2)] by auto
  also have "\<dots> \<longleftrightarrow> om_find (locksByHeight db) (cl_nHeight c) = Some c"
    using db_okD(2) [OF assms(1)] sint_height by metis
  finally show ?thesis .
qed

lemma loaded_hashes:
  assumes ok: "db_ok db" and disk: "disk_ok db d" and empty: "locksByHash start = om_empty"
  shows "locksByHash (fold load_clsig (height_records d) start) = locksByHash db"
proof (rule om_ext, rule ext)
  fix b
  let ?es = "height_records d"
  note clsigs = clsigs_height_records [OF ok disk]
  show "om_find (locksByHash (fold load_clsig ?es start)) b = om_find (locksByHash db) b"
  proof (cases "om_find (locksByHash db) b")
    case None
    then have "\<nexists>c. c \<in> clsigs ?es \<and> cl_blockHash c = b" using db_okD(3) [OF ok, of b] clsigs by auto
    then show ?thesis
      using load_clsig_hashes_sound [of ?es start b] None empty
      by (cases "om_find (locksByHash (fold load_clsig ?es start)) b") auto
  next
    case (Some c)
    have "om_find (locksByHash (fold load_clsig ?es start)) b = Some c"
    proof (rule load_clsig_hashes_complete)
      show "c \<in> clsigs ?es \<or> om_find (locksByHash start) b = Some c" "cl_blockHash c = b"
        using Some db_okD(3) [OF ok, of b c] clsigs [of c] by blast+
      show "\<forall>c' \<in> clsigs ?es. cl_blockHash c' = b \<longrightarrow> c' = c"
        using Some db_okD(3) [OF ok, of b] clsigs by (metis option.inject)
    qed
    then show ?thesis using Some by simp
  qed
qed

lemma Init_reloads:
  assumes "db_ok db" and "disk_ok db d"
  shows "ChainLocksDb_Init (CChainLocksDb_new, d) = (db, d)"
proof -
  let ?start = "CChainLocksDb_new\<lparr>bestChainLockHeight := bestChainLockHeight db, bestChainLockHash := bestChainLockHash db\<rparr>"
  have "locksByHeight ?start = om_empty" "locksByHash ?start = om_empty" by (simp_all add: CChainLocksDb_new_def)
  note loaded = loaded_heights [OF assms this(1)] loaded_hashes [OF assms this(2)]
  have "fold load_clsig (height_records d) ?start = db"
    using load_clsig_best [of "height_records d" ?start] by (intro CChainLocksDb.equality) (simp_all add: loaded)
  then show ?thesis
    using assms(2) by (simp add: ChainLocksDb_Init_def clsig_scan height_records_def disk_ok_def CChainLocksDb_new_def)
qed

section \<open>Invariant of the manager\<close>

definition cl_ok :: "CChainLocksManager \<times> evodb \<Rightarrow> bool" where
  "cl_ok = (\<lambda>(cm, d). db_ok (cl_db cm) \<and> disk_ok (cl_db cm) d \<and>
     read_int d DB_CHAINLOCK_ACTIVATION_HEIGHT 0 = chainLockActivationHeight cm \<and>
     (0 < bestChainLockHeight (cl_db cm) \<longrightarrow>
        om_find (locksByHeight (cl_db cm)) (bestChainLockHeight (cl_db cm)) = Some (bestChainLock cm)) \<and>
     (bestChainLockHeight (cl_db cm) = 0 \<longrightarrow> bestChainLock cm = CChainLockSig_null) \<and>
     (\<forall>h c. om_find (pendingChainLocks cm) h = Some c \<longrightarrow> int32 (cl_nHeight c)))"

text \<open>Locks stay, the best height does not fall and an activation stays.\<close>

definition extends :: "CChainLocksManager \<Rightarrow> CChainLocksManager \<Rightarrow> bool" where
  "extends cm cm' \<longleftrightarrow> om_find (locksByHeight (cl_db cm)) \<subseteq>\<^sub>m om_find (locksByHeight (cl_db cm')) \<and>
     bestChainLockHeight (cl_db cm) \<le> bestChainLockHeight (cl_db cm') \<and>
     (chainLockActivationHeight cm > 0 \<longrightarrow> chainLockActivationHeight cm' = chainLockActivationHeight cm)"

lemma extends_refl [simp]: "extends cm cm"
  by (simp add: extends_def)

lemma extends_trans: "extends a b \<Longrightarrow> extends b c \<Longrightarrow> extends a c"
  unfolding extends_def by (auto intro: map_le_trans)

lemma extends_same: "cl_db cm' = cl_db cm \<Longrightarrow> chainLockActivationHeight cm' = chainLockActivationHeight cm \<Longrightarrow> extends cm cm'"
  by (simp add: extends_def)

lemma activation_write:
  "disk_ok db d \<Longrightarrow> WriteChainLock c (db, d) = (b, db', d') \<Longrightarrow>
   read_int d' DB_CHAINLOCK_ACTIVATION_HEIGHT x = read_int d DB_CHAINLOCK_ACTIVATION_HEIGHT x"
  by (auto simp: WriteChainLock_def Let_def disk_ok_def read_int_def evostore.get_put height_key_def split: if_splits)

lemma ProcessChainLock_cases:
  assumes "ProcessChainLock e m v c (cm, d) = (r, cm', d')" and "db_ok (cl_db cm)"
  obtains (same) "cm' = cm" "d' = d"
  | (pending) "cm' = cm\<lparr>pendingChainLocks := om_put (cl_nHeight c) c (pendingChainLocks cm)\<rparr>" "d' = d"
      "mapBlockIndex v (cl_blockHash c) = None"
  | (stored) i db' where "\<not> HasChainLock (cl_db cm) (cl_blockHash c)" "cl_nHeight c > bestChainLockHeight (cl_db cm)"
      "WriteChainLock c (cl_db cm, d) = (True, db', d')" "mapBlockIndex v (cl_blockHash c) = Some i" "bi_nHeight i = cl_nHeight c"
      "VerifyChainLock e m c" "r = Inr True"
      "cm' = cm\<lparr>cl_db := db', bestChainLock := c, bestChainLockBlockIndex := Some i,
         pendingChainLocks := om_erase (cl_nHeight c) (pendingChainLocks cm), signingHeights := signingHeights cm - {cl_nHeight c}\<rparr>"
proof (cases "HasChainLock (cl_db cm) (cl_blockHash c) \<or> cl_nHeight c \<le> bestChainLockHeight (cl_db cm) \<or> \<not> VerifyChainLock e m c")
  case True
  then show ?thesis using assms(1) same by (auto simp: ProcessChainLock_def split: if_splits option.splits)
next
  case False
  obtain b db' d1 where w: "WriteChainLock c (cl_db cm, d) = (b, db', d1)" by (metis prod_cases3)
  then have b: b using WriteChainLock_higher [OF _ db_okD(1) [OF assms(2)]] False by (auto simp: not_le)
  show ?thesis
  proof (cases "mapBlockIndex v (cl_blockHash c)")
    case None
    then show ?thesis using assms(1) False pending by (auto simp: ProcessChainLock_def)
  next
    case (Some i)
    show ?thesis
    proof (cases "bi_nHeight i = cl_nHeight c")
      case True
      then show ?thesis using assms(1) False Some w b stored [of db' i] by (auto simp: ProcessChainLock_def)
    next
      case no: False
      then show ?thesis using assms(1) False Some same by (auto simp: ProcessChainLock_def)
    qed
  qed
qed

lemma ProcessChainLock_ok:
  assumes p: "ProcessChainLock e m v c (cm, d) = (r, cm', d')" and ok: "cl_ok (cm, d)" and c: "int32 (cl_nHeight c)"
  shows "cl_ok (cm', d') \<and> extends cm cm'"
proof -
  have db: "db_ok (cl_db cm)" and disk: "disk_ok (cl_db cm) d" using ok by (simp_all add: cl_ok_def)
  from p db show ?thesis
  proof (cases rule: ProcessChainLock_cases)
    case same
    then show ?thesis using ok by simp
  next
    case pending
    then show ?thesis using ok c by (simp add: cl_ok_def extends_same)
  next
    case (stored i db')
    note w = WriteChainLock_ok [OF db stored(2) c stored(1,3)]
    have "disk_ok db' d'" by (rule WriteChainLock_disk [OF disk db_okD(1) [OF db] stored(2) c stored(3)])
    moreover have "read_int d' DB_CHAINLOCK_ACTIVATION_HEIGHT 0 = chainLockActivationHeight cm"
      using activation_write [OF disk stored(3)] ok by (simp add: cl_ok_def)
    moreover have "bestChainLockHeight db' > 0" using w stored(2) db_okD(1) [OF db] by simp
    ultimately have "cl_ok (cm', d')" using w ok stored(8) by (auto simp: cl_ok_def)
    moreover have "extends cm cm'" using w stored(2,8) by (auto simp: extends_def map_le_def)
    ultimately show ?thesis ..
  qed
qed

lemma TryActivate_ok:
  assumes "TryActivate m st height (cm, d) = (b, cm', d')" and "cl_ok (cm, d)"
  shows "cl_ok (cm', d') \<and> extends cm cm' \<and> pendingChainLocks cm' = pendingChainLocks cm"
  using assms by (auto simp: TryActivate_def ShouldAttemptActivation_def cl_ok_def disk_ok_def extends_def read_int_def read_hash_def
      evostore.get_put split: if_splits)

lemma TrySignChainLock_ok:
  assumes "TrySignChainLock e ops m dk v (Some i) (cm, d, s) = (b, cm', d', s')" and "cl_ok (cm, d)" and "int32 (bi_nHeight i)"
  shows "cl_ok (cm', d') \<and> extends cm cm'"
proof -
  let ?cm = "cm\<lparr>signingHeights := insert (bi_nHeight i) (signingHeights cm)\<rparr>"
  have ok: "cl_ok (?cm, d)" "cl_ok (cm\<lparr>signingHeights := S\<rparr>, d)" for S using assms(2) by (simp_all add: cl_ok_def)
  have ext: "extends cm ?cm" "extends cm (cm\<lparr>signingHeights := S\<rparr>)" for S by (simp_all add: extends_same)
  consider S where "cm' = cm\<lparr>signingHeights := S\<rparr>" "d' = d"
    | c r where "ProcessChainLock e m v c (?cm, d) = (r, cm', d')" "cl_nHeight c = bi_nHeight i"
    using assms(1) by (auto simp: TrySignChainLock_def Let_def split: if_splits option.splits prod.splits) (metis CChainLocksManager.surjective CChainLocksManager.update_convs(5))+
  then show ?thesis
  proof cases
    case 1
    then show ?thesis using ok(2) ext(2) by simp
  next
    case 2
    then show ?thesis using ProcessChainLock_ok [OF 2(1) ok(1)] assms(3) extends_trans [OF ext(1)] by simp
  qed
qed

lemma process_pending_ok:
  "process_pending e m v it (cm, d) = Some (cm', d') \<Longrightarrow> cl_ok (cm, d) \<Longrightarrow> \<forall>x \<in> set it. int32 (cl_nHeight (snd x)) \<Longrightarrow>
   cl_ok (cm', d') \<and> extends cm cm'"
proof (induction it arbitrary: cm d)
  case (Cons x it)
  obtain h c where x: "x = (h, c)" by (cases x)
  show ?case
  proof (cases "\<exists>i. mapBlockIndex v (cl_blockHash c) = Some i \<and> bi_nHeight i = cl_nHeight c")
    case True
    obtain r cm1 d1 where p: "ProcessChainLock e m v c (cm, d) = (r, cm1, d1)" by (metis prod_cases3)
    let ?cm = "cm1\<lparr>pendingChainLocks := om_erase h (pendingChainLocks cm1)\<rparr>"
    have c: "int32 (cl_nHeight c)" using Cons.prems(3) x by simp
    note ok = ProcessChainLock_ok [OF p Cons.prems(2) c]
    have "cl_ok (?cm, d1)" using ok by (simp add: cl_ok_def)
    moreover have "process_pending e m v it (?cm, d1) = Some (cm', d')" using Cons.prems(1) True x p by (auto split: if_splits)
    ultimately have "cl_ok (cm', d') \<and> extends ?cm cm'" using Cons.IH Cons.prems(3) by simp
    moreover have "extends cm ?cm" using ok by (simp add: extends_def)
    ultimately show ?thesis using extends_trans by blast
  next
    case False
    then have "process_pending e m v it (cm, d) = Some (cm', d')" using Cons.prems(1) x by (auto split: option.splits if_splits)
    then show ?thesis using Cons by simp
  qed
qed simp

lemma UpdatedBlockTip_cl_ok:
  assumes "ChainLocks_UpdatedBlockTip e ops m dk st v pindex (cm, d, s) = Some (cm', d', s')" and ok: "cl_ok (cm, d)"
    and i: "pred_option (\<lambda>i. int32 (bi_nHeight i)) pindex"
  shows "cl_ok (cm', d') \<and> extends cm cm'"
proof (cases pindex)
  case None
  then show ?thesis using assms by (simp add: ChainLocks_UpdatedBlockTip_def)
next
  case (Some i)
  obtain cm1 d1 where a: "(if ShouldAttemptActivation cm (bi_nHeight i) then snd (TryActivate m st (bi_nHeight i) (cm, d))
      else (cm, d)) = (cm1, d1)" by fastforce
  have 1: "cl_ok (cm1, d1) \<and> extends cm cm1"
  proof (cases "ShouldAttemptActivation cm (bi_nHeight i)")
    case True
    with a obtain b where "TryActivate m st (bi_nHeight i) (cm, d) = (b, cm1, d1)" by (metis prod.collapse)
    then show ?thesis using TryActivate_ok ok by blast
  qed (use a ok in simp)
  with assms(1) Some a obtain cm2 d2 where p: "process_pending e m v (om_entries (pendingChainLocks cm1)) (cm1, d1) = Some (cm2, d2)"
    by (auto simp: ChainLocks_UpdatedBlockTip_def split: option.splits)
  have "\<forall>x \<in> set (om_entries (pendingChainLocks cm1)). int32 (cl_nHeight (snd x))"
    using 1 by (auto simp: cl_ok_def om_entries_iff)
  then have 2: "cl_ok (cm2, d2) \<and> extends cm cm2"
    using process_pending_ok [OF p] 1 extends_trans by blast
  show ?thesis
  proof (cases "IsChainLockActive cm2")
    case True
    then obtain b where "TrySignChainLock e ops m dk v (Some i) (cm2, d2, s) = (b, cm', d', s')"
      using assms(1) Some a p by (auto simp: ChainLocks_UpdatedBlockTip_def) (metis prod.collapse)
    moreover have "int32 (bi_nHeight i)" using i Some by simp
    ultimately show ?thesis using TrySignChainLock_ok 2 extends_trans by blast
  next
    case False
    then show ?thesis using assms(1) Some a p 2 by (auto simp: ChainLocks_UpdatedBlockTip_def)
  qed
qed

lemma ChainLocks_Init_ok:
  assumes "cl_ok (cm, d)" and "InitChainLocks v d = (cm', d')"
  shows "cl_ok (cm', d') \<and> cl_db cm' = cl_db cm \<and> bestChainLock cm' = bestChainLock cm \<and>
    chainLockActivationHeight cm' = chainLockActivationHeight cm \<and> d' = d"
proof -
  have db: "db_ok (cl_db cm)" and disk: "disk_ok (cl_db cm) d" using assms(1) by (simp_all add: cl_ok_def)
  note init = Init_reloads [OF db disk]
  have "cl_db cm' = cl_db cm" "chainLockActivationHeight cm' = chainLockActivationHeight cm" "d' = d"
      "bestChainLock cm' = bestChainLock cm" "pendingChainLocks cm' = om_empty"
    using assms init db_okD(1) [OF db]
    by (auto simp: InitChainLocks_def ChainLocks_Init_def CChainLocksManager_new_def Let_def cl_ok_def GetChainLock_def
        split: if_splits)
  then show ?thesis using assms(1) by (simp add: cl_ok_def)
qed

text \<open>A database without ChainLock records.\<close>

definition cl_fresh :: "evodb \<Rightarrow> bool" where
  "cl_fresh d \<longleftrightarrow> idle d \<and> (\<forall>w. evo_Read d (DB_CHAINLOCK_BY_HEIGHT w) = None) \<and>
     evo_Read d DB_CHAINLOCK_BEST_HEIGHT = None \<and> evo_Read d DB_CHAINLOCK_BEST_HASH = None \<and>
     evo_Read d DB_CHAINLOCK_ACTIVATION_HEIGHT = None"

lemma cl_ok_new: "cl_fresh d \<Longrightarrow> cl_ok (CChainLocksManager_new, d)"
  using db_ok_new
  by (simp add: cl_ok_def cl_fresh_def disk_ok_def CChainLocksManager_new_def read_int_def read_hash_def)
    (simp add: CChainLocksDb_new_def)

text \<open>
  Steps of the manager: a message, a notification, a new block, a cleanup, what other components
  write to the database, and a restart.
\<close>

inductive cl_step ::
  "llmq_env \<Rightarrow> ('s, 'b) dkg_ops \<Rightarrow> CChainLocksManager \<times> evodb \<Rightarrow> CChainLocksManager \<times> evodb \<Rightarrow> bool" for e ops where
  cl_msg: "ProcessChainLock e m v c (cm, d) = (r, cm', d') \<Longrightarrow> int32 (cl_nHeight c) \<Longrightarrow> cl_step e ops (cm, d) (cm', d')"
| cl_tip: "ChainLocks_UpdatedBlockTip e ops m dk st v pindex (cm, d, s) = Some (cm', d', s') \<Longrightarrow>
    pred_option (\<lambda>i. int32 (bi_nHeight i)) pindex \<Longrightarrow> cl_step e ops (cm, d) (cm', d')"
| cl_new_block: "ProcessNewBlock e ops m dk v pindex (cm, d, s) = (cm', d', s') \<Longrightarrow>
    pred_option (\<lambda>i. int32 (bi_nHeight i)) pindex \<Longrightarrow> cl_step e ops (cm, d) (cm', d')"
| cl_cleanup: "cl_step e ops (cm, d) (ChainLocks_Cleanup v cm, d)"
| cl_other: "idle d' \<Longrightarrow>
    (\<forall>w. evo_Read d' (DB_CHAINLOCK_BY_HEIGHT w) = evo_Read d (DB_CHAINLOCK_BY_HEIGHT w)) \<Longrightarrow>
    \<forall>k \<in> {DB_CHAINLOCK_BEST_HEIGHT, DB_CHAINLOCK_BEST_HASH, DB_CHAINLOCK_ACTIVATION_HEIGHT}. evo_Read d' k = evo_Read d k \<Longrightarrow>
    cl_step e ops (cm, d) (cm, d')"
| cl_restart: "InitChainLocks v d = (cm', d') \<Longrightarrow> cl_step e ops (cm, d) (cm', d')"

lemma fold_erase_sub:
  "om_find (fold (\<lambda>(h, c). if P h then om_erase h else id) it m) k = Some x \<Longrightarrow> om_find m k = Some x"
proof (induction it arbitrary: m)
  case (Cons y it)
  obtain h c where y: "y = (h, c)" by (cases y)
  show ?case
  proof (cases "P h")
    case True
    with Cons.prems y have "om_find (fold (\<lambda>(h, c). if P h then om_erase h else id) it (om_erase h m)) k = Some x" by simp
    from Cons.IH [OF this] show ?thesis by (simp split: if_splits)
  next
    case False
    with Cons.prems y have "om_find (fold (\<lambda>(h, c). if P h then om_erase h else id) it m) k = Some x" by simp
    then show ?thesis by (rule Cons.IH)
  qed
qed simp

lemma cl_step_ok: "cl_step e ops s s' \<Longrightarrow> cl_ok s \<Longrightarrow> cl_ok s' \<and> extends (fst s) (fst s')"
proof (induction rule: cl_step.induct)
  case (cl_msg m v c cm d r cm' d')
  then show ?case using ProcessChainLock_ok by (metis fst_conv)
next
  case (cl_tip m dk st v pindex cm d s cm' d' s')
  then show ?case using UpdatedBlockTip_cl_ok by (metis fst_conv)
next
  case (cl_new_block m dk v pindex cm d s cm' d' s')
  consider "cm' = cm" "d' = d" | b i where "pindex = Some i" "TrySignChainLock e ops m dk v (Some i) (cm, d, s) = (b, cm', d', s')"
    using cl_new_block(1) by (auto simp: ProcessNewBlock_def split: if_splits) (metis prod.collapse)
  then show ?case
  proof cases
    case 1
    then show ?thesis using cl_new_block(3) by simp
  next
    case 2
    from TrySignChainLock_ok [OF 2(2) cl_new_block(3)] show ?thesis using 2(1) cl_new_block(2) by simp
  qed
next
  case (cl_cleanup cm d v)
  then show ?case by (auto simp: ChainLocks_Cleanup_def Let_def cl_ok_def extends_def dest: fold_erase_sub)
next
  case (cl_other d' d cm)
  then show ?case by (auto simp: cl_ok_def disk_ok_def read_int_def read_hash_def)
next
  case (cl_restart v d cm' d' cm)
  from ChainLocks_Init_ok [OF cl_restart(2,1)] show ?case by (auto intro: extends_same)
qed

lemma cl_steps_ok: "(cl_step e ops)\<^sup>*\<^sup>* s s' \<Longrightarrow> cl_ok s \<Longrightarrow> cl_ok s' \<and> extends (fst s) (fst s')"
proof (induction rule: rtranclp_induct)
  case (step s' s'')
  then show ?case using cl_step_ok extends_trans by blast
qed simp

section \<open>Reorganisations\<close>

lemma chain_ok_pprev:
  "chain_ok i \<Longrightarrow> bi_pprev i = Some p \<Longrightarrow> chain_ok p \<and> bi_nHeight i = bi_nHeight p + 1"
  by (subst (asm) chain_ok.simps) simp

lemma chain_ok_genesis: "chain_ok i \<Longrightarrow> bi_pprev i = None \<longleftrightarrow> bi_nHeight i = 0"
proof (cases "bi_pprev i")
  case None
  then show "chain_ok i \<Longrightarrow> bi_pprev i = None \<longleftrightarrow> bi_nHeight i = 0" by (subst (asm) chain_ok.simps) simp
next
  case (Some p)
  then show "chain_ok i \<Longrightarrow> bi_pprev i = None \<longleftrightarrow> bi_nHeight i = 0" using chain_ok_pprev chain_ok_height by fastforce
qed

text \<open>\<open>r\<close> is the last block two chains of the given height have in common.\<close>

definition fork_at :: "CBlockIndex \<Rightarrow> CBlockIndex \<Rightarrow> int \<Rightarrow> CBlockIndex option \<Rightarrow> bool" where
  "fork_at a b n r \<longleftrightarrow>
     (\<forall>h. 0 \<le> h \<and> h \<le> n \<longrightarrow> (anc a h = anc b h \<longleftrightarrow> (\<exists>f. r = Some f \<and> h \<le> bi_nHeight f))) \<and>
     (\<forall>f. r = Some f \<longrightarrow> 0 \<le> bi_nHeight f \<and> bi_nHeight f \<le> n \<and> anc a (bi_nHeight f) = Some f)"

lemma common_walk_fork:
  "chain_ok a \<Longrightarrow> chain_ok b \<Longrightarrow> bi_nHeight a = bi_nHeight b \<Longrightarrow>
   \<exists>r. common_walk (Some a) (Some b) = (r, r) \<and> fork_at a b (bi_nHeight a) r"
proof (induction a arbitrary: b rule: chain_ok.induct)
  case (1 a)
  show ?case
  proof (cases "a = b")
    case True
    then show ?thesis using chain_ok_height [OF "1.prems"(1)] by (auto simp: common_walk.simps fork_at_def anc_self)
  next
    case ne: False
    have walk: "common_walk (Some a) (Some b) = common_walk (bi_pprev a) (bi_pprev b)"
      using ne by (simp add: common_walk.simps [of "Some a"])
    show ?thesis
    proof (cases "bi_pprev a")
      case None
      then have "bi_nHeight a = 0" "bi_pprev b = None"
        using chain_ok_genesis "1.prems" by auto
      moreover from this have "anc a 0 = Some a" "anc b 0 = Some b" using "1.prems"(3) anc_self by metis+
      ultimately show ?thesis using walk None ne by (auto simp: common_walk.simps [of None] fork_at_def)
    next
      case (Some p)
      then obtain q where q: "bi_pprev b = Some q" using chain_ok_genesis "1.prems" by (metis not_Some_eq)
      have ok: "chain_ok p" "chain_ok q" "bi_nHeight a = bi_nHeight p + 1" "bi_nHeight b = bi_nHeight q + 1"
        using chain_ok_pprev Some q "1.prems" by blast+
      have "bi_nHeight p = bi_nHeight q" using ok(3,4) "1.prems"(3) by simp
      from "1.IH" [OF Some ok(1,2) this]
      obtain r where r: "common_walk (Some p) (Some q) = (r, r)" "fork_at p q (bi_nHeight p) r" by blast
      have "fork_at a b (bi_nHeight a) r"
        unfolding fork_at_def
      proof (intro conjI allI impI)
        fix h assume h: "0 \<le> h \<and> h \<le> bi_nHeight a"
        show "anc a h = anc b h \<longleftrightarrow> (\<exists>f. r = Some f \<and> h \<le> bi_nHeight f)"
        proof (cases "h = bi_nHeight a")
          case True
          then have "anc a h \<noteq> anc b h" using ne anc_self "1.prems"(3) by (metis option.inject)
          then show ?thesis using r(2) ok(3) True unfolding fork_at_def by fastforce
        next
          case False
          then show ?thesis
            using r(2) h ok anc_below [OF Some] anc_below [OF q] "1.prems"(3) by (auto simp: fork_at_def)
        qed
      next
        fix f assume "r = Some f"
        then have "0 \<le> bi_nHeight f" "bi_nHeight f \<le> bi_nHeight p" "anc p (bi_nHeight f) = Some f"
          using r(2) by (auto simp: fork_at_def)
        then show "0 \<le> bi_nHeight f" "bi_nHeight f \<le> bi_nHeight a" "anc a (bi_nHeight f) = Some f"
          using ok(3) anc_below [OF Some] by auto
      qed
      then show ?thesis using walk Some q r(1) by auto
    qed
  qed
qed

lemma LastCommonAncestor_fork:
  assumes "chain_ok a" and "chain_ok b"
  shows "\<exists>r. LastCommonAncestor a b = Some r \<and> fork_at a b (min (bi_nHeight a) (bi_nHeight b)) r"
proof -
  let ?n = "min (bi_nHeight a) (bi_nHeight b)"
  have n: "0 \<le> ?n" using chain_ok_height assms by simp
  obtain a' where a': "anc a ?n = Some a'" "chain_ok a'" "bi_nHeight a' = ?n" using anc_exists [OF assms(1) n] by auto
  obtain b' where b': "anc b ?n = Some b'" "chain_ok b'" "bi_nHeight b' = ?n" using anc_exists [OF assms(2) n] by auto
  have sub: "anc a' h = anc a h" "anc b' h = anc b h" if "h \<le> ?n" for h
    using anc_anc [OF assms(1) a'(1) that] anc_anc [OF assms(2) b'(1) that] by simp_all
  obtain r where r: "common_walk (Some a') (Some b') = (r, r)" "fork_at a' b' ?n r"
    using common_walk_fork [OF a'(2) b'(2)] a'(3) b'(3) by auto
  have "fork_at a b ?n r" using r(2) sub by (auto simp: fork_at_def)
  moreover have "(if bi_nHeight a > bi_nHeight b then GetAncestor a (bi_nHeight b) else Some (Some a)) = Some (Some a')"
    using GetAncestor_anc [OF assms(1) n] a'(1) anc_self [of a] by (auto simp: min_def split: if_splits)
  moreover have "(if bi_nHeight b > bi_nHeight a then GetAncestor b (bi_nHeight a) else Some (Some b)) = Some (Some b')"
    using GetAncestor_anc [OF assms(2) n] b'(1) anc_self [of b] by (auto simp: min_def split: if_splits)
  ultimately show ?thesis using r(1) unfolding LastCommonAncestor_def Let_def by auto
qed

lemma CanReorg_iff:
  assumes "chain_ok new" and "chain_ok old" and "anc new 0 = anc old 0" and "0 \<le> bestChainLockHeight (cl_db cm)"
    and "bestChainLockHeight (cl_db cm) \<le> bi_nHeight new" and "bestChainLockHeight (cl_db cm) \<le> bi_nHeight old"
  shows "CanReorg cm (Some new) (Some old) =
    Some (anc new (bestChainLockHeight (cl_db cm)) = anc old (bestChainLockHeight (cl_db cm)))"
proof -
  obtain r where r: "LastCommonAncestor new old = Some r" "fork_at new old (min (bi_nHeight new) (bi_nHeight old)) r"
    using LastCommonAncestor_fork [OF assms(1,2)] by blast
  have "0 \<le> min (bi_nHeight new) (bi_nHeight old)" using chain_ok_height assms(1,2) by simp
  then obtain f where "r = Some f" using r(2) assms(3) unfolding fork_at_def by (meson order_refl)
  then show ?thesis using r assms(4,5,6) by (auto simp: CanReorg_def fork_at_def not_less)
qed

section \<open>Activation heights\<close>

lemma ProcessChainLock_activation:
  "ProcessChainLock e m v c (cm, d) = (r, cm', d') \<Longrightarrow> chainLockActivationHeight cm' = chainLockActivationHeight cm"
  by (auto simp: ProcessChainLock_def split: if_splits option.splits prod.splits)

lemma TrySignChainLock_activation:
  "TrySignChainLock e ops m dk v pindex (cm, d, s) = (b, cm', d', s') \<Longrightarrow>
   chainLockActivationHeight cm' = chainLockActivationHeight cm"
  by (auto simp: TrySignChainLock_def Let_def split: if_splits option.splits prod.splits dest!: ProcessChainLock_activation)

lemma process_pending_activation:
  "process_pending e m v it (cm, d) = Some (cm', d') \<Longrightarrow> chainLockActivationHeight cm' = chainLockActivationHeight cm"
proof (induction it arbitrary: cm d)
  case (Cons x it)
  then show ?case
    by (cases x) (fastforce split: if_splits option.splits prod.splits dest: ProcessChainLock_activation)
qed simp

lemma ProcessNewBlock_activation:
  "ProcessNewBlock e ops m dk v pindex (cm, d, s) = (cm', d', s') \<Longrightarrow>
   chainLockActivationHeight cm' = chainLockActivationHeight cm"
  by (cases "TrySignChainLock e ops m dk v pindex (cm, d, s)")
    (auto simp: ProcessNewBlock_def split: if_splits option.splits dest!: TrySignChainLock_activation)

text \<open>Where an activation can come from: a multiple of the interval past the minimum.\<close>

definition boundary :: "int \<Rightarrow> bool" where
  "boundary h \<longleftrightarrow> h mod CHAINLOCK_ACTIVATION_INTERVAL = 0 \<and> CHAINLOCK_MIN_ACTIVATION_HEIGHT \<le> h"

lemma boundary_first: "boundary h \<Longrightarrow> CHAINLOCK_ACTIVATION_INTERVAL \<le> h"
  by (auto simp: boundary_def CHAINLOCK_ACTIVATION_INTERVAL_def CHAINLOCK_MIN_ACTIVATION_HEIGHT_def elim: dvdE)

lemma UpdatedBlockTip_activation:
  assumes "ChainLocks_UpdatedBlockTip e ops m dk st v pindex (cm, d, s) = Some (cm', d', s')"
  shows "chainLockActivationHeight cm' = chainLockActivationHeight cm \<or>
    \<not> 0 < chainLockActivationHeight cm \<and> boundary (chainLockActivationHeight cm') \<and>
    CHAINLOCK_REQUIRED_MASTERNODES \<le> GetEligibleMasternodeCount st \<and> has_valid_quorum m \<and>
    (\<exists>i. pindex = Some i \<and> chainLockActivationHeight cm' = bi_nHeight i)"
proof (cases pindex)
  case (Some i)
  obtain cm1 d1 where a: "(if ShouldAttemptActivation cm (bi_nHeight i) then snd (TryActivate m st (bi_nHeight i) (cm, d))
      else (cm, d)) = (cm1, d1)" by fastforce
  with assms Some obtain cm2 d2 where p: "process_pending e m v (om_entries (pendingChainLocks cm1)) (cm1, d1) = Some (cm2, d2)"
    by (auto simp: ChainLocks_UpdatedBlockTip_def split: option.splits)
  have "cm' = cm2 \<or> (\<exists>b. TrySignChainLock e ops m dk v pindex (cm2, d2, s) = (b, cm', d', s'))"
    using assms Some a p by (auto simp: ChainLocks_UpdatedBlockTip_def split: if_splits) (metis prod.collapse)+
  then have "chainLockActivationHeight cm' = chainLockActivationHeight cm1"
    using process_pending_activation [OF p] TrySignChainLock_activation by metis
  then show ?thesis
    using a Some by (auto simp: TryActivate_def ShouldAttemptActivation_def boundary_def split: if_splits)
qed (use assms in \<open>simp add: ChainLocks_UpdatedBlockTip_def\<close>)

lemma cl_step_activation:
  "cl_step e ops s s' \<Longrightarrow> cl_ok s \<Longrightarrow>
   chainLockActivationHeight (fst s') = chainLockActivationHeight (fst s) \<or> boundary (chainLockActivationHeight (fst s'))"
proof (induction rule: cl_step.induct)
  case (cl_msg m v c cm d r cm' d')
  then show ?case using ProcessChainLock_activation by (metis fst_conv)
next
  case (cl_tip m dk st v pindex cm d s cm' d' s')
  then show ?case using UpdatedBlockTip_activation by (metis fst_conv)
next
  case (cl_new_block m dk v pindex cm d s cm' d' s')
  then show ?case using ProcessNewBlock_activation by (metis fst_conv)
next
  case (cl_cleanup cm d v)
  then show ?case by (simp add: ChainLocks_Cleanup_def Let_def)
next
  case (cl_restart v d cm' d' cm)
  from ChainLocks_Init_ok [OF cl_restart(2,1)] show ?case by simp
qed simp

lemma cl_steps_activation:
  "(cl_step e ops)\<^sup>*\<^sup>* s s' \<Longrightarrow> cl_ok s \<Longrightarrow> chainLockActivationHeight (fst s) = 0 \<Longrightarrow>
   chainLockActivationHeight (fst s') = 0 \<or> boundary (chainLockActivationHeight (fst s'))"
proof (induction rule: rtranclp_induct)
  case (step s' s'')
  then show ?case using cl_step_activation cl_steps_ok by metis
qed simp

end
