(* ===== verification/Props_Llmq.thy ===== *)
theory Props_Llmq
  imports InstantSend ChainLocks Examples
begin

text \<open>
  Properties of quorums, signing, equivocation detection, InstantSend and ChainLocks
  (src/src/llmq), each with a concrete instance.  The instances use a hash that is the length of its
  argument, which tells the preimages at hand apart.
\<close>

section \<open>Values for the instances\<close>

definition ex_lHash :: "byte list \<Rightarrow> uint256" where
  "ex_lHash bs = UINT256 (of_nat (length bs))"

definition ex_lenv :: llmq_env where
  "ex_lenv = \<lparr>le_evo = ex_env\<lparr>env_crypto := ex_crypto\<lparr>Hash := ex_lHash\<rparr>\<rparr>, VerifyInsecure = (\<lambda>s k h. True),
     SignWithDomain = (\<lambda>k h d. Some k), RecoverThresholdSignatureWithIndices = (\<lambda>sigs idx t. hd sigs),
     SetSecretKey = (\<lambda>k. True), GetPublicKey = (\<lambda>k. None), GenesisBlockHash = UINT256 1\<rparr>"

definition ex_ops :: "(unit, unit) dkg_ops" where
  "ex_ops = \<lparr>Session_Init = (\<lambda>h n t ms me. Some ()), Session_IsOurTurn = (\<lambda>s. True), Session_SetOperatorKey = (\<lambda>k s. s),
     Session_ProcessContribution = (\<lambda>m s. (None, s)), Session_ProcessComplaint = (\<lambda>m s. (None, s)),
     Session_ProcessJustification = (\<lambda>m s. (None, s)), Session_ProcessPrematureCommitment = (\<lambda>m s. (None, s)),
     Session_ProcessFinalCommitment = (\<lambda>m s. (None, s)), Session_AdvancePhase = (\<lambda>h s. s), Session_IsComplete = (\<lambda>s. False),
     Session_GetSecretKeyShare = (\<lambda>s. Some [1])\<rparr>"

definition ex_member :: "256 word \<Rightarrow> CDeterministicMN" where
  "ex_member n = ex_mn\<lparr>proTxHash := UINT256 n,
     mn_state := (mn_state ex_mn)\<lparr>vchOperatorPubKey := replicate 48 (ucast n)\<rparr>\<rparr>"

definition ex_q12 :: CBlockIndex where "ex_q12 = BlockIndex (UINT256 77) 12 0 0 0 None None"

definition ex_qlist :: CDeterministicMNList where
  "ex_qlist = (CDeterministicMNList_new (UINT256 77) 12)\<lparr>mnMap := om_put (UINT256 1) (ex_member 1)
     (om_put (UINT256 2) (ex_member 2) (om_put (UINT256 3) (ex_member 3) om_empty))\<rparr>"

definition ex_qst :: evo_state where
  "ex_qst = \<lparr>st_evoDb = CEvoDB_open om_empty, st_pose = None, mnListsCache = om_put (UINT256 77) ex_qlist om_empty,
     tipList = Some ex_qlist\<rparr>"

definition ex_quorum :: CQuorum where
  "ex_quorum = \<lparr>llmqType = LLMQ_5_60, quorumHash = UINT256 45, quorumHeight = 12,
     q_members = map (\<lambda>n. \<lparr>qm_proTxHash = UINT256 n, pubKeyOperator = Some (replicate 48 (ucast n)), qm_valid = True\<rparr>) [1, 2, 3],
     quorumPublicKey = Some [], q_fValid = True, validMemberCount = 3\<rparr>"

definition ex_quorums :: CQuorumManager where
  "ex_quorums = \<lparr>quorumCache = [(LLMQ_5_60, UINT256 45) \<mapsto> ex_quorum],
     activeQuorums = [LLMQ_50_60 \<mapsto> [], LLMQ_400_60 \<mapsto> [], LLMQ_400_85 \<mapsto> [], LLMQ_100_67 \<mapsto> [], LLMQ_5_60 \<mapsto> [ex_quorum]],
     myProTxHash = uint256_null\<rparr>"

lemma ex_len: "length (Serialize_uint256 h) = 32"
  by (simp add: Serialize_uint256_def)

lemma ex_qlist_mns: "mns ex_qlist = [ex_member 1, ex_member 2, ex_member 3]"
  by (simp add: mns_def ex_qlist_def om_eval less_uint256_def blob_data_def bytes_eval)

lemma ex_member_valid: "MN_IsValid (ex_member n)" "vchOperatorPubKey (mn_state (ex_member n)) \<noteq> []"
  by (simp_all add: ex_member_def ex_mn_def MN_IsValid_def CDeterministicMNState_default_def IsBanned_def)

lemma ex_qhash: "quorum_hash ex_lenv tag type i = UINT256 (of_nat (length (Serialize_string tag) + 33))"
  by (simp add: quorum_hash_def ex_lenv_def ex_lHash_def ex_len ser_writedata8_def)

lemma ex_score: "member_score ex_lenv type i mn = UINT256 75"
  by (simp add: member_score_def CalcMemberScore_def ex_lenv_def ex_lHash_def ex_len Serialize_string_def Serialize_bytes_def
      WriteCompactSize_def ser_writedata8_def)

lemma ex_get_list: "GetListForBlock (le_evo ex_lenv) ex_qst (Some ex_q12) = Some (ex_qlist, ex_qst)"
  by (simp add: GetListForBlock.simps ex_qst_def ex_q12_def ex_lenv_def ex_env_def ex_params_def)

lemma ex_select: "SelectQuorumMembers ex_lenv LLMQ_5_60 ex_q12 ex_qst = Some ([ex_member 1, ex_member 2, ex_member 3], ex_qst)"
  by (simp add: SelectQuorumMembers_sort ex_get_list eligible_mns_def ex_qlist_mns ex_member_valid ex_score GetLLMQParams_def
      llmqParams_def)


lemma ex_tag: "quorum_hash ex_lenv ''LLMQ_QUORUM'' type i = UINT256 45" "quorum_hash ex_lenv ''LLMQ_DKG'' type i = UINT256 42"
  by (simp_all add: ex_qhash Serialize_string_def Serialize_bytes_def WriteCompactSize_def ser_writedata8_def)

lemma ex_quorum_member:
  "quorum_member ex_lenv (ex_member n) = \<lparr>qm_proTxHash = UINT256 n, pubKeyOperator = Some (replicate 48 (ucast n)), qm_valid = True\<rparr>"
  using ex_member_valid [of n]
  by (simp add: quorum_member_def CBLSPublicKey_SetBytes_def BLS_PUBLIC_KEY_SIZE_def ex_lenv_def ex_env_def ex_crypto_def ex_member_def)

lemma ex_aggregate: "CBLSPublicKey_AggregatePublicKeys ex_lenv ks = Some []"
  by (simp add: CBLSPublicKey_AggregatePublicKeys_def ex_lenv_def ex_env_def ex_crypto_def)

lemma ex_new_quorum: "new_quorum ex_lenv LLMQ_5_60 (UINT256 45) 12 [ex_member 1, ex_member 2, ex_member 3] = ex_quorum"
  by (simp add: new_quorum_def ex_quorum_def ex_quorum_member map_filter_def ex_aggregate GetLLMQParams_def llmqParams_def)

lemma ex_build: "BuildQuorum ex_lenv LLMQ_5_60 (Some ex_q12) (m, ex_qst) =
  (case quorumCache m (LLMQ_5_60, UINT256 45) of Some q \<Rightarrow> Some (Some q, m, ex_qst)
   | None \<Rightarrow> Some (Some ex_quorum, m\<lparr>quorumCache := (quorumCache m)((LLMQ_5_60, UINT256 45) \<mapsto> ex_quorum)\<rparr>, ex_qst))"
  by (simp add: BuildQuorum_def ex_tag ex_select GetLLMQParams_def llmqParams_def ex_new_quorum ex_q12_def [THEN arg_cong [where f = bi_nHeight]]
      split: option.split)

lemma ex_ancestor: "GetAncestor ex_q12 12 = Some (Some ex_q12)"
  by (simp add: ex_q12_def GetAncestor_def ancestor_walk.simps)

lemma ex_tip: "Quorums_UpdatedBlockTip ex_lenv (Some ex_q12) (CQuorumManager_new, ex_qst) = Some (ex_quorums, ex_qst)"
proof -
  have h: "bi_nHeight ex_q12 = 12" "q_fValid ex_quorum" by (simp_all add: ex_q12_def ex_quorum_def)
  show ?thesis
    by (simp add: Quorums_UpdatedBlockTip_def llmqParams_def h ex_ancestor ex_build CQuorumManager_new_def ex_quorums_def numeral_eq_Suc)
qed


lemma ex_run: "llmq_run ex_lenv ex_ops ex_params UNIV U (InitLLMQ ex_params n)"
  by (rule run_init)

lemma ex_identity: "TryInitMasternodeIdentity e st (SetPendingMasternodeKey [], d) = (False, SetPendingMasternodeKey [], d)"
  by (simp add: TryInitMasternodeIdentity_def SetPendingMasternodeKey_def)

lemma ex_session: "DKG_UpdatedBlockTip ex_lenv ex_ops (Some ex_q12) (CDKGSessionManager_new, ex_qst) =
  Some (CDKGSessionManager_new\<lparr>activeSessions := om_put (UINT256 42) () om_empty\<rparr>, ex_qst)"
proof -
  have h: "bi_nHeight ex_q12 = 12" by (simp add: ex_q12_def)
  have m: "ForEachMN ex_qlist True (\<lambda>mn members. members @ [mn]) [] = [ex_member 1, ex_member 2, ex_member 3]"
    by (simp add: ForEachMN_def ex_qlist_mns ex_member_valid)
  have "StartSession ex_lenv ex_ops LLMQ_5_60 (Some ex_q12) (CDKGSessionManager_new, ex_qst) =
    Some (True, CDKGSessionManager_new\<lparr>activeSessions := om_put (UINT256 42) () om_empty\<rparr>, ex_qst)"
    by (simp add: StartSession_def h m ex_tag ex_get_list GetLLMQParams_def llmqParams_def CDKGSessionManager_new_def ex_ops_def)
  moreover have "om_entries (activeSessions (CDKGSessionManager_new :: (unit, unit) CDKGSessionManager)) = []"
    by (simp add: CDKGSessionManager_new_def om_eval)
  ultimately show ?thesis by (simp add: DKG_UpdatedBlockTip_def h GetLLMQParams_def llmqParams_def)
qed

definition ex_ll :: "(unit, unit) llmq_state" where
  "ex_ll = (InitLLMQ ex_params (SetPendingMasternodeKey []))\<lparr>ll_quorums := ex_quorums,
     ll_dkg := CDKGSessionManager_new\<lparr>activeSessions := om_put (UINT256 42) () om_empty\<rparr>\<rparr>"

lemma ex_ll_run: "llmq_run ex_lenv ex_ops ex_params UNIV U ex_ll"
proof (rule run_tip [OF ex_run [of U "SetPendingMasternodeKey []"], of "Some ex_q12" False ex_qst _ ex_qst])
  show "LLMQ_UpdatedBlockTip ex_lenv ex_ops (Some ex_q12) False (InitLLMQ ex_params (SetPendingMasternodeKey []), ex_qst) =
    Some (ex_ll, ex_qst)"
    by (simp add: LLMQ_UpdatedBlockTip_def InitLLMQ_def ex_identity ex_tip ex_session ex_ll_def)
qed (simp add: ancestors_in_def)

section \<open>Quorums\<close>

text \<open>C7: Quorum intersection.  Take any state a node reaches from start-up by new tips, distributed key generation
  messages, signature shares, signing and clean-up.  In an active quorum of that state any two sets of valid members,
  each as large as the signing threshold, have a member in common; they share at least a fifth of the valid members,
  and the threshold is positive and can be reached.
\<close>

theorem quorum_intersection:
  assumes "llmq_run e ops p B U ll" and "q \<in> set (GetActiveQuorums (ll_quorums ll) type)"
    and "signers q S" and "signers q T" and "GetThreshold q \<le> int (card S)" and "GetThreshold q \<le> int (card T)"
  shows "S \<inter> T \<noteq> {} \<and> validMemberCount q \<le> 5 * int (card (S \<inter> T)) \<and> 0 < GetThreshold q \<and> GetThreshold q \<le> validMemberCount q"
proof -
  have m: "manager_ok e (ll_quorums ll)" using llmq_run_inv [OF assms(1)] by (simp add: quorums_inv_def)
  note a = manager_activeD [OF m assms(2)]
  have q: "quorum_ok e q" by (rule manager_okD(3) [OF m a(2)])
  note b = threshold_bounds [OF q] signers_intersect [OF q assms(3-6)]
  from b a(1) show ?thesis by auto
qed

theorem quorum_intersection_witness:
  "signers ex_quorum {0, 1} \<and> {0, 1} \<inter> {1, 2::nat} \<noteq> {} \<and> 0 < GetThreshold ex_quorum"
proof -
  have s: "signers ex_quorum {0, 1}" "signers ex_quorum {1, 2}"
    by (simp_all add: signers_def ex_quorum_def)
  have "ex_quorum \<in> set (GetActiveQuorums (ll_quorums ex_ll) LLMQ_5_60)"
    by (simp add: GetActiveQuorums_def ex_ll_def ex_quorums_def)
  moreover have "GetThreshold ex_quorum = 2" by (simp add: GetThreshold_def ex_quorum_def GetLLMQParams_def llmqParams_def)
  ultimately show ?thesis
    using quorum_intersection [OF ex_ll_run _ s(1) s(2), of LLMQ_5_60] s by simp
qed

text \<open>C15: Member selection.  The members of a quorum are the eligible masternodes of the list at the quorum's block with
  the least scores, as many as the quorum's size or all there are.  When the scores differ, every order in which the
  eligible masternodes are visited gives the same members in the same order, so all nodes agree on them.
\<close>

theorem quorum_selection:
  assumes "SelectQuorumMembers e type i st = Some (sel, st')"
  shows "\<exists>l. GetListForBlock (le_evo e) st (Some i) = Some (l, st') \<and>
    length sel = min (nat (lp_size (GetLLMQParams type))) (length (eligible_mns l)) \<and> set sel \<subseteq> set (eligible_mns l) \<and>
    (\<forall>x \<in> set sel. \<forall>y \<in> set (eligible_mns l) - set sel. member_score e type i x \<le> member_score e type i y) \<and>
    (inj_on (member_score e type i) (set (eligible_mns l)) \<longrightarrow>
      (\<forall>ys. mset ys = mset (eligible_mns l) \<longrightarrow>
        take (nat (lp_size (GetLLMQParams type))) (sort_key (member_score e type i) ys) = sel))"
proof -
  let ?n = "nat (lp_size (GetLLMQParams type))" and ?f = "member_score e type i"
  from assms obtain l where l: "GetListForBlock (le_evo e) st (Some i) = Some (l, st')"
    and sel: "sel = take ?n (sort_key ?f (eligible_mns l))"
    by (auto simp: SelectQuorumMembers_sort)
  have "set sel \<subseteq> set (eligible_mns l)" unfolding sel by (metis set_sort set_take_subset)
  moreover have "\<forall>x \<in> set sel. \<forall>y \<in> set (eligible_mns l) - set sel. ?f x \<le> ?f y"
    unfolding sel by (intro ballI, rule take_sort_least [of _ ?n ?f "eligible_mns l"]) (simp_all only: Diff_iff simp_thms)
  moreover have "inj_on ?f (set (eligible_mns l)) \<longrightarrow> (\<forall>ys. mset ys = mset (eligible_mns l) \<longrightarrow> take ?n (sort_key ?f ys) = sel)"
    unfolding sel by (intro impI allI, subst sort_key_perm [of ?f "eligible_mns l"]) (simp_all only:)
  moreover have "length sel = min ?n (length (eligible_mns l))" unfolding sel by simp
  ultimately show ?thesis using l by blast
qed

text \<open>A hash that gives the three members different scores, the last one the least.\<close>

definition ex_renv :: llmq_env where
  "ex_renv = ex_lenv\<lparr>le_evo := ex_env\<lparr>env_crypto := ex_crypto\<lparr>Hash := \<lambda>bs. UINT256 (255 - ucast (bs ! (length bs - 32)))\<rparr>\<rparr>\<rparr>"

lemma ex_rscore: "member_score ex_renv type i mn = UINT256 (255 - ucast (Serialize_uint256 (proTxHash mn) ! 0))"
  by (simp add: member_score_def CalcMemberScore_def ex_renv_def ex_len nth_append)

lemma ex_rscores: "member_score ex_renv type i (ex_member 1) = UINT256 254" "member_score ex_renv type i (ex_member 2) = UINT256 253"
  "member_score ex_renv type i (ex_member 3) = UINT256 252"
  by (simp_all add: ex_rscore ex_member_def Serialize_uint256_def blob_data_def bytes_eval)

lemma ex_rorder: "UINT256 252 < UINT256 253" "UINT256 253 < UINT256 254" "UINT256 252 < UINT256 254"
  by (simp_all add: less_uint256_def blob_data_def bytes_eval)

lemma ex_member_inject: "ex_member m = ex_member n \<longleftrightarrow> m = n"
proof
  have "proTxHash (ex_member k) = UINT256 k" for k by (simp add: ex_member_def)
  then show "m = n" if "ex_member m = ex_member n" using that by (metis uint256.inject)
qed simp

lemma ex_rselect: "SelectQuorumMembers ex_renv LLMQ_5_60 ex_q12 ex_qst = Some ([ex_member 3, ex_member 2, ex_member 1], ex_qst)"
proof -
  have "GetListForBlock (le_evo ex_renv) ex_qst (Some ex_q12) = Some (ex_qlist, ex_qst)"
    by (simp add: GetListForBlock.simps ex_qst_def ex_q12_def ex_renv_def ex_env_def ex_params_def)
  then show ?thesis
    by (simp add: SelectQuorumMembers_sort eligible_mns_def ex_qlist_mns ex_member_valid ex_rscores GetLLMQParams_def
      llmqParams_def ex_rorder [THEN less_imp_le] ex_rorder [folded not_le])
qed

theorem quorum_selection_witness:
  "\<exists>l. GetListForBlock (le_evo ex_renv) ex_qst (Some ex_q12) = Some (l, ex_qst) \<and> length (eligible_mns l) = 3 \<and>
    inj_on (member_score ex_renv LLMQ_5_60 ex_q12) (set (eligible_mns l)) \<and>
    take 5 (sort_key (member_score ex_renv LLMQ_5_60 ex_q12) (rev (eligible_mns l))) = [ex_member 3, ex_member 2, ex_member 1]"
proof -
  have l: "GetListForBlock (le_evo ex_renv) ex_qst (Some ex_q12) = Some (ex_qlist, ex_qst)"
    by (simp add: GetListForBlock.simps ex_qst_def ex_q12_def ex_renv_def ex_env_def ex_params_def)
  have el: "eligible_mns ex_qlist = [ex_member 1, ex_member 2, ex_member 3]"
    by (simp add: eligible_mns_def ex_qlist_mns ex_member_valid)
  have inj: "inj_on (member_score ex_renv LLMQ_5_60 ex_q12) (set (eligible_mns ex_qlist))"
    by (simp add: inj_on_def el ex_rscores ex_member_inject)
  have "take 5 (sort_key (member_score ex_renv LLMQ_5_60 ex_q12) (rev (eligible_mns ex_qlist))) = [ex_member 3, ex_member 2, ex_member 1]"
    using quorum_selection [OF ex_rselect] l inj by (auto simp: GetLLMQParams_def llmqParams_def)
  then show ?thesis using l inj el by auto
qed


section \<open>Signing\<close>

text \<open>C14: Signature recovery.  When a threshold signature is recovered in a reachable state, it comes from exactly as many
  shares as the threshold of the quorum selected for the request asks for.  They are stored shares of distinct members
  of that quorum, and each is passed to the recovery with its member's own index, so the interpolation points differ.
\<close>

theorem recovery_sound:
  assumes "llmq_run e ops p B U ll" and "TryRecoverSignature e (ll_quorums ll) s type rid msg = Some r"
    and "om_find (recoveredSigs s) rid = None"
  shows "\<exists>q shares ys. SelectQuorumForSigning e (ll_quorums ll) type rid = Some q \<and> om_find (sigShares s) rid = Some shares \<and>
    int (length ys) = GetThreshold q \<and> distinct (map fst ys) \<and> distinct (map (share_index q) ys) \<and>
    (\<forall>y \<in> set ys. om_find shares (fst y) = Some (snd y) \<and> IsMember q (fst y)) \<and>
    r = \<lparr>rs_llmqType = type, rs_quorumHash = quorumHash q, rs_id = rid, rs_msgHash = msg,
      rs_sig = RecoverThresholdSignatureWithIndices e (map snd ys) (map (share_index q) ys) (GetThreshold q)\<rparr>"
proof -
  have m: "manager_ok e (ll_quorums ll)" using llmq_run_inv [OF assms(1)] by (simp add: quorums_inv_def)
  show ?thesis by (rule recovery_members [OF assms(2,3) m]) blast
qed

definition ex_shares :: CSigningManager where
  "ex_shares = CSigningManager_new\<lparr>sigShares := om_put (UINT256 9)
     (om_put (UINT256 1) (Some [1]) (om_put (UINT256 3) (Some [3]) om_empty)) om_empty\<rparr>"

lemma ex_selected: "SelectQuorumForSigning ex_lenv ex_quorums LLMQ_5_60 h = Some ex_quorum"
  by (simp add: SelectQuorumForSigning_def GetActiveQuorums_def ex_quorums_def ex_quorum_def)

lemma ex_threshold: "GetThreshold ex_quorum = 2"
  by (simp add: GetThreshold_def ex_quorum_def GetLLMQParams_def llmqParams_def)

lemma ex_recover: "TryRecoverSignature ex_lenv ex_quorums ex_shares LLMQ_5_60 (UINT256 9) (UINT256 4) =
  Some \<lparr>rs_llmqType = LLMQ_5_60, rs_quorumHash = UINT256 45, rs_id = UINT256 9, rs_msgHash = UINT256 4, rs_sig = Some [1]\<rparr>"
proof -
  have s: "om_entries (om_put (UINT256 1) (Some [1::8 word]) (om_put (UINT256 3) (Some [3]) om_empty)) =
    [(UINT256 1, Some [1]), (UINT256 3, Some [3])]"
    by (simp add: om_eval less_uint256_def blob_data_def bytes_eval)
  have i: "GetMemberIndex ex_quorum (UINT256 1) = 0" "GetMemberIndex ex_quorum (UINT256 3) = 2"
    by (simp_all add: GetMemberIndex_def ex_quorum_def)
  have r: "RecoverThresholdSignatureWithIndices ex_lenv = (\<lambda>sigs idx t. hd sigs)" "quorumHash ex_quorum = UINT256 45"
    by (simp_all add: ex_lenv_def ex_quorum_def)
  show ?thesis
    by (simp add: TryRecoverSignature_def ex_selected ex_threshold ex_shares_def CSigningManager_new_def s i om_size_def r)
qed

theorem recovery_sound_witness:
  "\<exists>q ys. SelectQuorumForSigning ex_lenv ex_quorums LLMQ_5_60 (UINT256 9) = Some q \<and> int (length ys) = GetThreshold q \<and>
    distinct (map (share_index q) ys)"
  using recovery_sound [OF ex_ll_run [of "{}"], of ex_shares LLMQ_5_60 "UINT256 9" "UINT256 4"] ex_recover
  by (auto simp: ex_ll_def ex_shares_def CSigningManager_new_def)

text \<open>C36: No share to sign with.  Distributed key generation files its sessions under a hash with the tag LLMQ\_DKG,
  while quorums are looked up under a hash with the tag LLMQ\_QUORUM.  As long as the hash keeps the two tags apart
  for the blocks the node sees, the node never finds its own key share: it never signs, whatever the quorum type, the request
  and the message, and it never takes itself for a member of a quorum.
\<close>

theorem node_never_signs:
  assumes "llmq_run e ops p B U ll" and "tags_separate e B"
  shows "AsyncSign e ops (ll_quorums ll) (ll_dkg ll) type rid msg s = (False, s) \<and> \<not> IsQuorumMember (ll_quorums ll) type h \<and>
    GetSecretKeyShare ops (ll_quorums ll) (ll_dkg ll) type h = None"
proof -
  note inv = llmq_run_inv [OF assms(1)]
  have "myProTxHash (ll_quorums ll) = uint256_null" using inv by (simp add: quorums_inv_def)
  then show ?thesis using AsyncSign_no_share [OF no_share [OF inv assms(2)]] no_share [OF inv assms(2)]
    by (simp add: IsQuorumMember_def)
qed

theorem node_never_signs_witness:
  "om_find (activeSessions (ll_dkg ex_ll)) (UINT256 42) = Some () \<and> GetQuorum (ll_quorums ex_ll) LLMQ_5_60 (UINT256 45) = Some ex_quorum \<and>
    fst (AsyncSign ex_lenv ex_ops (ll_quorums ex_ll) (ll_dkg ex_ll) LLMQ_5_60 (UINT256 9) (UINT256 4) ex_shares) = False"
proof -
  have "tags_separate ex_lenv UNIV" by (simp add: tags_separate_def ex_tag)
  then show ?thesis
    using node_never_signs [OF ex_ll_run [of "{}"], of LLMQ_5_60 "UINT256 9" "UINT256 4" ex_shares]
    by (simp add: ex_ll_def GetQuorum_def ex_quorums_def)
qed


section \<open>Equivocation\<close>

text \<open>C22: Detection of double signing.  Take any state of a running manager that holds the record of a member's
  signature in a context.  The same message again is accepted without a change.  A signature of that member in that context
  over another message, where both verify under the member's key, is refused: a proof for that context that verifies is
  kept, the member counts as an equivocator, its penalty grows by the ban threshold and no other member's penalty
  changes.  A signature in that context by a member without a record there is accepted and recorded, without a
  penalty, and the first record stays.  A clean-up keeps the record for a day.
\<close>

theorem double_signing_punished:
  assumes "equiv_run e p (m, Some w)" and "om_find (sigRecords m) (c, h) = Some r"
    and "msg \<noteq> sr_msgHash r" and "uint256_null \<notin> {c, h, sr_msgHash r, msg}" and "0 < nPoSeBanThreshold p"
    and "Signature_VerifyInsecure e (sr_sig r) k (sr_msgHash r)" and "Signature_VerifyInsecure e sig k msg"
  shows "RecordSignature e t c q h (sr_msgHash r) sig' k' (m, Some w) = (True, m, Some w) \<and>
    (\<exists>m' w'. RecordSignature e t c q h msg sig k (m, Some w) = (False, m', Some w') \<and> HasEquivocated m' h \<and>
      (\<exists>pr \<in> set (GetEquivocationProofs m' h). EquivocationProof_Verify e pr \<and> ep_contextHash pr = c) \<and>
      sigRecords m' = sigRecords m \<and>
      GetPenaltyScore (fst w') h = GetPenaltyScore (fst w) h + nPoSeBanThreshold p \<and>
      (\<forall>h2. h2 \<noteq> h \<longrightarrow> GetPenaltyScore (fst w') h2 = GetPenaltyScore (fst w) h2)) \<and>
    (\<forall>h2 msg2 sig2 k2. om_find (sigRecords m) (c, h2) = None \<longrightarrow>
      (\<exists>m'. RecordSignature e t c q h2 msg2 sig2 k2 (m, Some w) = (True, m', Some w) \<and>
        map_option sr_msgHash (om_find (sigRecords m') (c, h2)) = Some msg2 \<and> om_find (sigRecords m') (c, h) = Some r)) \<and>
    (now - 24 * 60 * 60 \<le> sr_timestamp r \<longrightarrow> om_find (sigRecords (Equivocation_Cleanup now height m)) (c, h) = Some r)"
proof (intro conjI allI impI)
  have m: "callbacks m = [pose_callback (nPoSeBanThreshold p)]" "sr_proTxHash r = h"
    using equiv_run_ok [OF assms(1)] assms(2) by (auto simp: equiv_ok_def)
  obtain pr where pr: "EquivocationProof_Verify e pr" "ep_proTxHash pr = h" "ep_contextHash pr = c"
    "RecordSignature e t c q h msg sig k (m, Some w) =
      (False, store_proof e pr m, map_option (IncrementPenalty h (nPoSeBanThreshold p)) (Some w))"
    using RecordSignature_conflict [OF m(1) assms(2) m(2) _ assms(4,6,7)] assms(3) by metis
  show "\<exists>m' w'. RecordSignature e t c q h msg sig k (m, Some w) = (False, m', Some w') \<and> HasEquivocated m' h \<and>
      (\<exists>pr \<in> set (GetEquivocationProofs m' h). EquivocationProof_Verify e pr \<and> ep_contextHash pr = c) \<and>
      sigRecords m' = sigRecords m \<and>
      GetPenaltyScore (fst w') h = GetPenaltyScore (fst w) h + nPoSeBanThreshold p \<and>
      (\<forall>h2. h2 \<noteq> h \<longrightarrow> GetPenaltyScore (fst w') h2 = GetPenaltyScore (fst w) h2)"
    using pr(1,3,4) stored_proof [OF pr(2), of e m] GetPenaltyScore_Increment [OF assms(5), of h w]
      GetPenaltyScore_Increment_other [of _ h "nPoSeBanThreshold p" w] by auto
next
  fix h2 msg2 sig2 k2 assume "om_find (sigRecords m) (c, h2) = None"
  then show "\<exists>m'. RecordSignature e t c q h2 msg2 sig2 k2 (m, Some w) = (True, m', Some w) \<and>
      map_option sr_msgHash (om_find (sigRecords m') (c, h2)) = Some msg2 \<and> om_find (sigRecords m') (c, h) = Some r"
    using assms(2) by (auto simp: RecordSignature_def Let_def)
qed (use assms(2) Cleanup_keeps_recent in \<open>auto simp: RecordSignature_def\<close>)

definition ex_recorded :: CEquivocationManager where
  "ex_recorded = Equivocation_Cleanup 6 50 (fst (snd (RecordSignature ex_lenv 5 (UINT256 3) (UINT256 1) (UINT256 6) (UINT256 8) (Some [1]) (Some [2])
    (snd (RecordSignature ex_lenv 4 (UINT256 3) (UINT256 1) (UINT256 7) (UINT256 8) (Some [1]) (Some [2])
      (InitEquivocationDetection ex_params, None))))))"

text \<open>Two members have signed in one context; the second message of one of them is punished.\<close>

theorem double_signing_punished_witness:
  "\<exists>m' w'. RecordSignature ex_lenv 9 (UINT256 3) (UINT256 1) (UINT256 7) (UINT256 9) (Some [1]) (Some [2])
      (ex_recorded, Some (CPoSeManager_new, CEvoDB_open om_empty)) = (False, m', Some w') \<and>
    HasEquivocated m' (UINT256 7) \<and> GetPenaltyScore (fst w') (UINT256 7) = 100 \<and> GetPenaltyScore (fst w') (UINT256 6) = 0"
proof -
  let ?w = "(CPoSeManager_new, CEvoDB_open om_empty)"
  obtain b1 m1 w1 where r1: "RecordSignature ex_lenv 4 (UINT256 3) (UINT256 1) (UINT256 7) (UINT256 8) (Some [1]) (Some [2])
      (InitEquivocationDetection ex_params, None) = (b1, m1, w1)" by (metis prod_cases3)
  obtain b2 m2 w2 where r2: "RecordSignature ex_lenv 5 (UINT256 3) (UINT256 1) (UINT256 6) (UINT256 8) (Some [1]) (Some [2])
      (m1, w1) = (b2, m2, w2)" by (metis prod_cases3)
  have m2: "ex_recorded = Equivocation_Cleanup 6 50 m2" using r1 r2 by (simp add: ex_recorded_def)
  have run: "equiv_run ex_lenv ex_params (ex_recorded, Some ?w)"
    unfolding m2 by (rule eq_pose [OF eq_cleanup [OF eq_record [OF eq_record [OF eq_init r1] r2]]])
  have "om_find (sigRecords m2) (UINT256 3, UINT256 7) = Some \<lparr>sr_quorumHash = UINT256 1, sr_proTxHash = UINT256 7,
      sr_msgHash = UINT256 8, sr_sig = Some [1], sr_timestamp = 4\<rparr>"
    using r1 r2 by (auto simp: RecordSignature_def Let_def)
  then have rec: "om_find (sigRecords ex_recorded) (UINT256 3, UINT256 7) = Some \<lparr>sr_quorumHash = UINT256 1, sr_proTxHash = UINT256 7,
      sr_msgHash = UINT256 8, sr_sig = Some [1], sr_timestamp = 4\<rparr>"
    unfolding m2 by (rule Cleanup_keeps_recent) simp
  have "Signature_VerifyInsecure ex_lenv (Some [1]) (Some [2]) h" for h
    by (simp add: Signature_VerifyInsecure_def ex_lenv_def)
  moreover have "nPoSeBanThreshold ex_params = 100" by (simp add: ex_params_def)
  ultimately have "\<exists>m' w'. RecordSignature ex_lenv 9 (UINT256 3) (UINT256 1) (UINT256 7) (UINT256 9) (Some [1]) (Some [2])
      (ex_recorded, Some ?w) = (False, m', Some w') \<and> HasEquivocated m' (UINT256 7) \<and>
      GetPenaltyScore (fst w') (UINT256 7) = GetPenaltyScore (fst ?w) (UINT256 7) + 100 \<and>
      GetPenaltyScore (fst w') (UINT256 6) = GetPenaltyScore (fst ?w) (UINT256 6)"
    using double_signing_punished [OF run rec, of "UINT256 9" "Some [2]" "Some [1]" 9 "UINT256 1"]
    by (simp add: uint256_null_def) fastforce
  then show ?thesis by (simp add: GetPenaltyScore_def CPoSeManager_new_def)
qed

text \<open>C37: Double signing over the network goes unnoticed.  The share handler records a share under the hash of its
  request, not of the message signed.  As long as the hash keeps different requests apart, no reachable state knows
  an equivocator or holds a proof, every share that is not the null signature is accepted, and no share costs a penalty.
\<close>

theorem equivocation_undetected:
  assumes "llmq_run e ops p B U ll" and "contexts_separate e U" and "(hash, rid) \<in> U"
    and "ProcessSigShare e now (ll_quorums ll) hash rid member sig (ll_signing ll, ll_equivocation ll, w) = (b, s', em', w')"
  shows "w' = w \<and> (b \<longleftrightarrow> sig \<noteq> None) \<and> (\<exists>m. ll_equivocation ll = Some m \<and> \<not> HasEquivocated m h \<and> GetEquivocationProofs m h = [])"
proof -
  obtain m where m: "ll_equivocation ll = Some m" "records_ok e U m" using llmq_run_records [OF assms(1,2)] by blast
  note rec = records_ok_Record [OF m(2) assms(2,3)]
  have "w' = w \<and> (b \<longleftrightarrow> sig \<noteq> None)"
    using assms(4) rec unfolding m(1) by (auto simp: ProcessSigShare_def Let_def split: if_splits option.splits prod.splits) blast+
  then show ?thesis
    using m by (auto simp: records_ok_def HasEquivocated_def GetEquivocationProofs_def om_eval)
qed

definition ex_senv :: llmq_env where
  "ex_senv = ex_lenv\<lparr>le_evo := ex_env\<lparr>env_crypto := ex_crypto\<lparr>Hash := \<lambda>bs. UINT256 (sum_list (map ucast bs))\<rparr>\<rparr>\<rparr>"

theorem equivocation_undetected_witness:
  "fst (ProcessSigShare ex_senv 4 CQuorumManager_new (UINT256 45) (UINT256 1) (UINT256 7) (Some [1])
    (CSigningManager_new, Some (InitEquivocationDetection ex_params), None)) = True"
proof -
  let ?ll = "InitLLMQ ex_params (SetPendingMasternodeKey []) :: (unit, unit) llmq_state"
  let ?U = "{(UINT256 45, UINT256 1), (UINT256 45, UINT256 2)}"
  have c: "contexts_separate ex_senv ?U"
    by (simp add: contexts_separate_def sig_context_def ex_senv_def Serialize_uint256_def blob_data_def bytes_eval)
  obtain b s em w where s: "ProcessSigShare ex_senv 4 (ll_quorums ?ll) (UINT256 45) (UINT256 1) (UINT256 7) (Some [1])
    (ll_signing ?ll, ll_equivocation ?ll, None) = (b, s, em, w)" by (metis prod_cases4)
  then have "b" using equivocation_undetected [OF run_init c _ s] by simp
  with s show ?thesis by (simp add: InitLLMQ_def)
qed

text \<open>C38: A proof can accuse anyone.  Nothing ties the key, the context or the messages of an equivocation proof to the masternode it
  names.  From one proof that verifies, the same proof with any other masternode's hash verifies too; a node that
  has no such proof yet accepts it, marks that masternode as an equivocator and charges it the ban threshold.
\<close>

theorem equivocation_framing:
  assumes "EquivocationProof_Verify e pr" and "h \<noteq> uint256_null" and "0 < nPoSeBanThreshold p"
  shows "\<exists>m w'. ProcessEquivocationProof e (pr\<lparr>ep_proTxHash := h\<rparr>) (InitEquivocationDetection p, Some w) = (None, m, Some w') \<and>
    HasEquivocated m h \<and> GetPenaltyScore (fst w') h = GetPenaltyScore (fst w) h + nPoSeBanThreshold p"
  using ProcessEquivocationProof_fresh [OF callbacks_simps(1) Verify_any_member [OF assms(1,2)], of p "Some w"]
    GetPenaltyScore_Increment [OF assms(3)]
  by (simp add: HasEquivocated_def store_proof_def)

definition ex_proof :: CEquivocationProof where
  "ex_proof = \<lparr>ep_contextHash = UINT256 3, ep_proTxHash = UINT256 7, ep_msgHash1 = UINT256 8, ep_sig1 = Some [1],
     ep_msgHash2 = UINT256 9, ep_sig2 = Some [1], ep_quorumHash = UINT256 1, ep_memberPubKey = Some [2], ep_detectionTime = 4\<rparr>"

theorem equivocation_framing_witness:
  "\<exists>m w'. ProcessEquivocationProof ex_lenv (ex_proof\<lparr>ep_proTxHash := UINT256 1\<rparr>)
      (InitEquivocationDetection ex_params, Some (CPoSeManager_new, CEvoDB_open om_empty)) = (None, m, Some w') \<and>
    HasEquivocated m (UINT256 1) \<and> GetPenaltyScore (fst w') (UINT256 1) = 100"
proof -
  have "EquivocationProof_Verify ex_lenv ex_proof"
    by (simp add: EquivocationProof_Verify_def ex_proof_def uint256_null_def Signature_VerifyInsecure_def ex_lenv_def)
  then show ?thesis
    using equivocation_framing [of ex_lenv ex_proof "UINT256 1" ex_params "(CPoSeManager_new, CEvoDB_open om_empty)"]
    by (simp add: uint256_null_def ex_params_def GetPenaltyScore_def CPoSeManager_new_def)
qed

section \<open>InstantSend\<close>

text \<open>C6: InstantSend locks exclude each other.  In every state reached from an empty one by incoming locks,
  transactions, signing, blocks, clean-up and removals, where the hash tells the locks seen apart, two different stored
  locks lock different transactions and no common input.  The memory pool refuses a transaction exactly when one
  of its inputs is locked for another transaction, and a lock for another transaction on a locked input, when that
  transaction is not locked itself, is refused without a change.
\<close>

theorem islocks_exclusive:
  assumes "is_run e ops K im" and "inj_on (Lock_GetHash e) K"
  shows "exclusive (stored_locks (is_db im)) \<and>
    (mempool_islock_check (Some im) tx \<noteq> None \<longleftrightarrow>
      (\<exists>l \<in> stored_locks (is_db im). is_txid l \<noteq> tx_hash tx \<and> set (is_inputs l) \<inter> set (map prevout (vin tx)) \<noteq> {})) \<and>
    (\<forall>l \<in> stored_locks (is_db im). set (is_inputs l) \<inter> set (is_inputs l') \<noteq> {} \<and> is_txid l \<noteq> is_txid l' \<and>
      \<not> IsTxLocked (is_db im) (is_txid l') \<longrightarrow> (\<exists>r. ProcessInstantSendLock e m l' im = (Some r, im)))"
proof -
  have ok: "represents e (stored_locks (is_db im)) (is_db im)" "exclusive (stored_locks (is_db im))"
    using is_run_ok [OF assms] by (simp_all add: locks_ok_def)
  have "\<exists>r. ProcessInstantSendLock e m l' im = (Some r, im)"
    if l: "l \<in> stored_locks (is_db im)" "set (is_inputs l) \<inter> set (is_inputs l') \<noteq> {}" "is_txid l \<noteq> is_txid l'"
      "\<not> IsTxLocked (is_db im) (is_txid l')" for l
  proof -
    have "list_ex (input_conflict (is_db im) (is_txid l')) (is_inputs l')"
      unfolding list_ex_iff input_conflict_represents [OF ok] using l by blast
    then show ?thesis using l(4) by (simp add: ProcessInstantSendLock_def)
  qed
  then show ?thesis using ok(2) HasConflictingLock_represents [OF ok, of tx] by (auto simp: mempool_islock_check_def)
qed

definition ex_islock :: CInstantSendLock where
  "ex_islock = \<lparr>is_inputs = [OutPoint (UINT256 5) 0], is_txid = UINT256 6, is_quorumHash = UINT256 45, is_sig = Some [1]\<rparr>"

definition ex_islocks :: CInstantSendManager where
  "ex_islocks = CInstantSendManager_new\<lparr>is_db := WriteLock ex_lenv ex_islock CInstantSendDb_new\<rparr>"

lemma ex_erase: "om_erase k om_empty = om_empty"
  by (rule om_ext) simp

lemma ex_islocks_run: "is_run ex_lenv ex_ops {ex_islock} ex_islocks"
proof (rule is_lock [OF is_init, of ex_lenv "ex_quorums\<lparr>quorumCache := [(INSTANTSEND_QUORUM_TYPE, UINT256 45) \<mapsto> ex_quorum]\<rparr>" ex_islock None])
  show "ProcessInstantSendLock ex_lenv (ex_quorums\<lparr>quorumCache := [(INSTANTSEND_QUORUM_TYPE, UINT256 45) \<mapsto> ex_quorum]\<rparr>) ex_islock
    CInstantSendManager_new = (None, ex_islocks)"
    by (simp add: ProcessInstantSendLock_def IsTxLocked_def CInstantSendManager_new_def CInstantSendDb_new_def VerifyInstantSendLock_def
        GetQuorum_def ex_islock_def ex_quorum_def Signature_VerifyWithDomain_def ex_lenv_def ex_env_def ex_crypto_def input_conflict_def
        IsInputLocked_def ex_islocks_def om_eval ex_erase)
  show "stored_locks (is_db ex_islocks) \<subseteq> {ex_islock}"
    by (simp add: stored_locks_def ex_islocks_def WriteLock_def CInstantSendDb_new_def om_eval Let_def)
qed

definition ex_spend :: CTransaction where
  "ex_spend = \<lparr>vin = [\<lparr>prevout = OutPoint (UINT256 5) 0, scriptSig = [], nSequence = 0, scriptWitness = []\<rparr>], vout = [], nVersion = 1,
     nType = 0, nLockTime = 0, vExtraPayload = [], tx_hash = UINT256 8\<rparr>"

theorem islocks_exclusive_witness: "mempool_islock_check (Some ex_islocks) ex_spend \<noteq> None"
proof -
  have "ex_islock \<in> stored_locks (is_db ex_islocks)"
    by (simp add: stored_locks_def ex_islocks_def WriteLock_def CInstantSendDb_new_def om_eval Let_def)
  moreover have "is_txid ex_islock \<noteq> tx_hash ex_spend" "set (is_inputs ex_islock) \<inter> set (map prevout (vin ex_spend)) \<noteq> {}"
    by (simp_all add: ex_islock_def ex_spend_def)
  ultimately show ?thesis using islocks_exclusive [OF ex_islocks_run, of ex_spend] by blast
qed

section \<open>ChainLocks\<close>

lemma cl_start: "cl_fresh d \<Longrightarrow> cl_ok (InitChainLocks v d) \<and> chainLockActivationHeight (fst (InitChainLocks v d)) = 0"
  using ChainLocks_Init_ok [OF cl_ok_new, of d v] by (cases "InitChainLocks v d") (simp add: CChainLocksManager_new_def)

lemma cl_reached: "cl_fresh d \<Longrightarrow> (cl_step e ops)\<^sup>*\<^sup>* (InitChainLocks v d) s \<Longrightarrow> cl_ok s"
  using cl_start cl_steps_ok by blast

text \<open>C5: ChainLocks are final.  Start with a database without ChainLock records and let the node process messages,
  tips, new blocks, clean-ups and restarts in any order.  A block once locked at a height stays the one locked there,
  the best locked height never falls and ChainLocks once active stay active from the same height.  A lock for another
  block at that height, when that block is not itself locked at another one, is refused as a conflict and changes nothing.
\<close>

theorem chainlock_final:
  assumes "cl_fresh d" and "(cl_step e ops)\<^sup>*\<^sup>* (InitChainLocks v d) s" and "(cl_step e ops)\<^sup>*\<^sup>* s s'"
    and "GetChainLock (cl_db (fst s)) h = Some c"
  shows "GetChainLock (cl_db (fst s')) h = Some c \<and>
    bestChainLockHeight (cl_db (fst s)) \<le> bestChainLockHeight (cl_db (fst s')) \<and>
    (IsChainLockActive (fst s) \<longrightarrow> chainLockActivationHeight (fst s') = chainLockActivationHeight (fst s)) \<and>
    (\<forall>c' m v'. cl_nHeight c' = h \<and> cl_blockHash c' \<noteq> cl_blockHash c \<and> \<not> HasChainLock (cl_db (fst s')) (cl_blockHash c') \<longrightarrow>
      ProcessChainLock e m v' c' s' = (Inl (DoS 100 REJECT_DUPLICATE ''chainlock-conflict''), s'))"
proof -
  have "cl_ok s" by (rule cl_reached [OF assms(1,2)])
  then have s': "cl_ok s'" "extends (fst s) (fst s')" using cl_steps_ok [OF assms(3)] by simp_all
  then have lock: "om_find (locksByHeight (cl_db (fst s'))) h = Some c"
    using assms(4) by (auto simp: extends_def GetChainLock_def map_le_def dom_def)
  have "db_ok (cl_db (fst s'))" using s'(1) by (auto simp: cl_ok_def)
  then have "h \<le> bestChainLockHeight (cl_db (fst s'))" using lock by (simp add: db_ok_def)
  then show ?thesis
    using s'(2) lock by (cases s') (auto simp: extends_def IsChainLockActive_def GetChainLock_def ProcessChainLock_def)
qed

definition ex_g0 :: CBlockIndex where "ex_g0 = BlockIndex (UINT256 70) 0 0 0 0 None None"
definition ex_l1 :: CBlockIndex where "ex_l1 = BlockIndex (UINT256 77) 1 0 0 0 (Some ex_g0) (Some ex_g0)"

definition ex_view :: chain_view where
  "ex_view = \<lparr>mapBlockIndex = [UINT256 77 \<mapsto> ex_l1], chainTip = Some ex_l1\<rparr>"

definition ex_clsig :: CChainLockSig where
  "ex_clsig = \<lparr>cl_nHeight = 1, cl_blockHash = UINT256 77, cl_sig = Some [1]\<rparr>"

definition ex_clquorums :: CQuorumManager where
  "ex_clquorums = \<lparr>quorumCache = (\<lambda>x. None), activeQuorums = [CHAINLOCK_QUORUM_TYPE \<mapsto> [ex_quorum]], myProTxHash = uint256_null\<rparr>"

definition ex_evodb :: evodb where "ex_evodb = CEvoDB_open om_empty"

definition ex_locked :: "CChainLocksManager \<times> evodb" where
  "ex_locked = snd (ProcessChainLock ex_lenv ex_clquorums ex_view ex_clsig (InitChainLocks ex_view ex_evodb))"

lemma ex_fresh: "cl_fresh ex_evodb"
  by (simp add: cl_fresh_def ex_evodb_def idle_cur CEvoDB_open_def evo_Read_def)

lemma ex_init: "InitChainLocks ex_view ex_evodb = (CChainLocksManager_new, ex_evodb)"
proof -
  have "seek ex_evodb k = []" for k by (simp add: ex_evodb_def CEvoDB_open_def seek_def om_eval)
  moreover have "evo_Read ex_evodb k = None" for k by (simp add: ex_evodb_def CEvoDB_open_def evo_Read_def)
  ultimately show ?thesis
    by (simp add: InitChainLocks_def ChainLocks_Init_def ChainLocksDb_Init_def CChainLocksManager_new_def CChainLocksDb_new_def
      read_int_def read_hash_def Let_def)
qed

lemma ex_clsig_ok: "VerifyChainLock ex_lenv ex_clquorums ex_clsig"
  by (simp add: VerifyChainLock_def ex_clsig_def SelectQuorumForSigning_def GetActiveQuorums_def ex_clquorums_def ex_quorum_def
      Signature_VerifyWithDomain_def ex_lenv_def ex_env_def ex_crypto_def)

lemma ex_locked_step: "cl_step ex_lenv ex_ops (InitChainLocks ex_view ex_evodb) ex_locked"
  unfolding ex_init by (rule cl_msg [of _ ex_clquorums ex_view ex_clsig _ _ "fst (ProcessChainLock ex_lenv ex_clquorums ex_view ex_clsig
      (CChainLocksManager_new, ex_evodb))" "fst ex_locked" "snd ex_locked", folded surjective_pairing])
    (simp_all add: ex_locked_def ex_init ex_clsig_def int32_def)

lemma ex_locked_db: "GetChainLock (cl_db (fst ex_locked)) 1 = Some ex_clsig" "bestChainLockHeight (cl_db (fst ex_locked)) = 1"
  "\<not> HasChainLock (cl_db (fst ex_locked)) (UINT256 78)"
proof -
  have c: "cl_nHeight ex_clsig = 1" "cl_blockHash ex_clsig = UINT256 77" "mapBlockIndex ex_view (UINT256 77) = Some ex_l1"
    "bi_nHeight ex_l1 = 1"
    by (simp_all add: ex_clsig_def ex_view_def ex_l1_def)
  show "GetChainLock (cl_db (fst ex_locked)) 1 = Some ex_clsig" "bestChainLockHeight (cl_db (fst ex_locked)) = 1"
    "\<not> HasChainLock (cl_db (fst ex_locked)) (UINT256 78)"
    by (simp_all add: ex_locked_def ex_init ProcessChainLock_def CChainLocksManager_new_def CChainLocksDb_new_def HasChainLock_def
        WriteChainLock_def GetChainLock_def c ex_clsig_ok Let_def)
qed

lemma ex_locked_steps: "(cl_step ex_lenv ex_ops)\<^sup>*\<^sup>* (InitChainLocks ex_view ex_evodb) ex_locked"
  using ex_locked_step by (rule r_into_rtranclp)

theorem chainlock_final_witness:
  "ProcessChainLock ex_lenv ex_clquorums ex_view (ex_clsig\<lparr>cl_blockHash := UINT256 78\<rparr>) ex_locked =
    (Inl (DoS 100 REJECT_DUPLICATE ''chainlock-conflict''), ex_locked)"
  using chainlock_final [OF ex_fresh ex_locked_steps rtranclp.rtrancl_refl ex_locked_db(1)] ex_locked_db(3)
  by (simp add: ex_clsig_def)

text \<open>C13: ChainLocks survive a restart.  In every state reached this way, reading the database back at start-up gives the same
  locks by height and by block, the same best lock and the same activation height, and writes nothing.
\<close>

theorem chainlock_restart:
  assumes "cl_fresh d" and "(cl_step e ops)\<^sup>*\<^sup>* (InitChainLocks v d) (cm, d')" and "InitChainLocks v' d' = (cm', d'')"
  shows "cl_db cm' = cl_db cm \<and> bestChainLock cm' = bestChainLock cm \<and>
    chainLockActivationHeight cm' = chainLockActivationHeight cm \<and> d'' = d'"
  using ChainLocks_Init_ok [OF cl_reached [OF assms(1,2)] assms(3)] by simp

theorem chainlock_restart_witness:
  "cl_db (fst (InitChainLocks ex_view (snd ex_locked))) = cl_db (fst ex_locked) \<and>
   GetChainLock (cl_db (fst (InitChainLocks ex_view (snd ex_locked)))) 1 = Some ex_clsig"
proof -
  obtain cm' d' where i: "InitChainLocks ex_view (snd ex_locked) = (cm', d')" by fastforce
  have "(cl_step ex_lenv ex_ops)\<^sup>*\<^sup>* (InitChainLocks ex_view ex_evodb) (fst ex_locked, snd ex_locked)"
    using ex_locked_steps by simp
  from chainlock_restart [OF ex_fresh this i] show ?thesis using i ex_locked_db(1) by simp
qed

text \<open>C12: Reorganisations.  In every state reached, for two tips with a common genesis block that are both at least as
  high as the best lock, \<open>CanReorg\<close> allows the change from one to the other exactly when both chains have the same block at
  the locked height; when the old chain holds the locked block, exactly when the new one holds it too.
\<close>

theorem reorg_respects_lock:
  assumes "cl_fresh d" and "(cl_step e ops)\<^sup>*\<^sup>* (InitChainLocks v d) s" and "chain_ok new" and "chain_ok old" and "anc new 0 = anc old 0"
    and "bestChainLockHeight (cl_db (fst s)) \<le> bi_nHeight new" and "bestChainLockHeight (cl_db (fst s)) \<le> bi_nHeight old"
  shows "CanReorg (fst s) (Some new) (Some old) =
    Some (anc new (bestChainLockHeight (cl_db (fst s))) = anc old (bestChainLockHeight (cl_db (fst s))))"
proof -
  have "db_ok (cl_db (fst s))" using cl_reached [OF assms(1,2)] by (auto simp: cl_ok_def)
  then show ?thesis using assms(3-7) by (intro CanReorg_iff) (simp_all add: db_ok_def)
qed

definition ex_r1 :: CBlockIndex where "ex_r1 = BlockIndex (UINT256 79) 1 0 0 0 (Some ex_g0) (Some ex_g0)"

theorem reorg_respects_lock_witness: "CanReorg (fst ex_locked) (Some ex_r1) (Some ex_l1) = Some False"
proof -
  have c: "chain_ok ex_g0" by (simp add: ex_g0_def chain_ok.simps)
  have "chain_ok ex_r1" "chain_ok ex_l1" "anc ex_r1 0 = anc ex_l1 0" "anc ex_r1 1 \<noteq> anc ex_l1 1"
    using c by (simp_all add: ex_r1_def ex_l1_def chain_ok.simps [of "BlockIndex _ 1 _ _ _ _ _"] ex_g0_def anc.simps
        GetSkipHeight_def)
  then show ?thesis
    using reorg_respects_lock [OF ex_fresh ex_locked_steps, of ex_r1 ex_l1] ex_locked_db(2)
    by (simp add: ex_r1_def ex_l1_def)
qed

text \<open>C39: What block validation checks.  In every state reached, the check of a new block against the ChainLocks fails
  exactly when the block is at the best locked height and is not the block locked there.  A block that conflicts with a
  lock at any lower height passes it.
\<close>

theorem only_best_lock_checked:
  assumes "cl_fresh d" and "(cl_step e ops)\<^sup>*\<^sup>* (InitChainLocks v d) s"
  shows "contextual_chainlock_check (Some (fst s)) hash (Some prev) \<noteq> None \<longleftrightarrow>
    bi_nHeight prev + 1 = bestChainLockHeight (cl_db (fst s)) \<and>
    (\<exists>c. GetChainLock (cl_db (fst s)) (bi_nHeight prev + 1) = Some c \<and> cl_blockHash c \<noteq> hash)"
proof -
  have ok: "cl_ok s" by (rule cl_reached [OF assms])
  then have "db_ok (cl_db (fst s))" by (auto simp: cl_ok_def)
  then have pos: "0 < h" if "om_find (locksByHeight (cl_db (fst s))) h = Some c" for h c
    using that by (simp add: db_ok_def)
  have "0 < bestChainLockHeight (cl_db (fst s)) \<longrightarrow>
    om_find (locksByHeight (cl_db (fst s))) (bestChainLockHeight (cl_db (fst s))) = Some (bestChainLock (fst s))"
    using ok by (auto simp: cl_ok_def)
  then show ?thesis
    using pos by (auto simp: contextual_chainlock_check_def Let_def GetChainLock_def IsChainLocked_def)
qed

theorem only_best_lock_checked_witness: "contextual_chainlock_check (Some (fst ex_locked)) (UINT256 79) (Some ex_g0) \<noteq> None"
proof -
  have "cl_blockHash ex_clsig \<noteq> UINT256 79" by (simp add: ex_clsig_def)
  then show ?thesis
    unfolding only_best_lock_checked [OF ex_fresh ex_locked_steps] using ex_locked_db by (simp add: ex_g0_def)
qed

text \<open>C40: A pending lock breaks the loop over pending locks.  In every state reached whose first pending lock has become
  storable (its block is known at its height, its signature verifies, it is above the best lock and new), the notification of
  a tip erases the map entry under the loop's iterator while storing the lock, and so has no defined result.
\<close>

theorem pending_lock_undefined:
  assumes "cl_fresh d" and "(cl_step e ops)\<^sup>*\<^sup>* (InitChainLocks v0 d) (cm, d')"
    and "om_entries (pendingChainLocks cm) = (cl_nHeight c, c) # it" and "mapBlockIndex v (cl_blockHash c) = Some b"
    and "bi_nHeight b = cl_nHeight c" and "VerifyChainLock e m c" and "bestChainLockHeight (cl_db cm) < cl_nHeight c"
    and "\<not> HasChainLock (cl_db cm) (cl_blockHash c)"
  shows "ChainLocks_UpdatedBlockTip e ops m dk st v (Some i) (cm, d', s) = None"
proof -
  have ok: "db_ok (cl_db cm)" using cl_reached [OF assms(1,2)] by (simp add: cl_ok_def)
  obtain cm1 d1 where a: "(if ShouldAttemptActivation cm (bi_nHeight i) then snd (TryActivate m st (bi_nHeight i) (cm, d'))
      else (cm, d')) = (cm1, d1)" by fastforce
  then have same: "cl_db cm1 = cl_db cm" "pendingChainLocks cm1 = pendingChainLocks cm"
    by (auto simp: TryActivate_def split: if_splits)
  obtain w db d2 where w: "WriteChainLock c (cl_db cm, d1) = (w, db, d2)" by (metis prod_cases3)
  then have "w" using WriteChainLock_higher [OF assms(7) db_okD(1) [OF ok], of d1] by simp
  then have "process_pending e m v ((cl_nHeight c, c) # it) (cm1, d1) = None"
    using w assms(4-8) by (simp add: ProcessChainLock_def same)
  then show ?thesis using a assms(3) by (simp add: ChainLocks_UpdatedBlockTip_def same)
qed

definition ex_pending :: "CChainLocksManager \<times> evodb" where
  "ex_pending = (CChainLocksManager_new\<lparr>pendingChainLocks := om_put 1 ex_clsig om_empty\<rparr>, ex_evodb)"

lemma ex_pending_steps: "(cl_step ex_lenv ex_ops)\<^sup>*\<^sup>* (InitChainLocks ex_view ex_evodb) ex_pending"
  unfolding ex_init ex_pending_def
proof (intro r_into_rtranclp cl_msg [of ex_lenv ex_clquorums "ex_view\<lparr>mapBlockIndex := \<lambda>h. None\<rparr>" ex_clsig _ _ "Inr True"])
  have "cl_nHeight ex_clsig = 1" by (simp add: ex_clsig_def)
  then show "int32 (cl_nHeight ex_clsig)" "ProcessChainLock ex_lenv ex_clquorums (ex_view\<lparr>mapBlockIndex := \<lambda>h. None\<rparr>) ex_clsig
      (CChainLocksManager_new, ex_evodb) =
    (Inr True, CChainLocksManager_new\<lparr>pendingChainLocks := om_put 1 ex_clsig om_empty\<rparr>, ex_evodb)"
    using ex_clsig_ok by (simp_all add: int32_def ProcessChainLock_def HasChainLock_def CChainLocksManager_new_def CChainLocksDb_new_def)
qed

theorem pending_lock_undefined_witness:
  "ChainLocks_UpdatedBlockTip ex_lenv ex_ops ex_clquorums CDKGSessionManager_new ex_qst ex_view (Some ex_l1)
    (fst ex_pending, snd ex_pending, CSigningManager_new) = None"
proof -
  have "om_entries (pendingChainLocks (fst ex_pending)) = [(cl_nHeight ex_clsig, ex_clsig)]" "cl_nHeight ex_clsig = 1"
    "mapBlockIndex ex_view (cl_blockHash ex_clsig) = Some ex_l1" "bi_nHeight ex_l1 = 1"
    "bestChainLockHeight (cl_db (fst ex_pending)) = 0" "\<not> HasChainLock (cl_db (fst ex_pending)) (cl_blockHash ex_clsig)"
    by (simp_all add: ex_pending_def om_eval ex_clsig_def ex_view_def ex_l1_def CChainLocksManager_new_def CChainLocksDb_new_def
        HasChainLock_def)
  moreover have "(cl_step ex_lenv ex_ops)\<^sup>*\<^sup>* (InitChainLocks ex_view ex_evodb) (fst ex_pending, snd ex_pending)"
    using ex_pending_steps by simp
  ultimately show ?thesis using pending_lock_undefined [OF ex_fresh, of ex_lenv ex_ops ex_view "fst ex_pending" "snd ex_pending" ex_clsig "[]"
      ex_view ex_l1 ex_clquorums] ex_clsig_ok by simp
qed

text \<open>C23: Activation of ChainLocks.  A node that starts without ChainLock records activates them only when it is notified of
  a tip at a multiple of 5000, so never below height 5000, with at least 300 eligible masternodes and a
  valid quorum of the signing type; once active, a tip leaves the activation height alone.
\<close>

theorem activation_boundaries:
  assumes "cl_fresh d" and "(cl_step e ops)\<^sup>*\<^sup>* (InitChainLocks v0 d) (cm, d')"
    and "ChainLocks_UpdatedBlockTip e ops m dk st v (Some i) (cm, d', s) = Some (cm', d'', s')" and "IsChainLockActive cm'"
  shows "chainLockActivationHeight cm' mod 5000 = 0 \<and> 5000 \<le> chainLockActivationHeight cm' \<and>
    (if IsChainLockActive cm then chainLockActivationHeight cm' = chainLockActivationHeight cm
     else chainLockActivationHeight cm' = bi_nHeight i \<and> 300 \<le> GetEligibleMasternodeCount st \<and> has_valid_quorum m)"
proof -
  have "chainLockActivationHeight cm = 0 \<or> boundary (chainLockActivationHeight cm)"
    using cl_steps_activation [OF assms(2)] cl_start [OF assms(1), of v0] by simp
  then have "boundary (chainLockActivationHeight cm')"
    using UpdatedBlockTip_activation [OF assms(3)] assms(4) by (auto simp: IsChainLockActive_def)
  moreover from boundary_first [OF this] have "5000 \<le> chainLockActivationHeight cm'"
    by (simp add: CHAINLOCK_ACTIVATION_INTERVAL_def)
  ultimately show ?thesis
    using UpdatedBlockTip_activation [OF assms(3)] assms(4)
    by (auto simp: boundary_def IsChainLockActive_def CHAINLOCK_ACTIVATION_INTERVAL_def CHAINLOCK_REQUIRED_MASTERNODES_def)
qed

lemma ex_find_many: "om_find (fold (\<lambda>n. om_put (f n) x) ns m) k = (if k \<in> f ` set ns then Some x else om_find m k)"
  by (induction ns arbitrary: m) auto

definition ex_many :: evo_state where
  "ex_many = ex_qst\<lparr>tipList := Some (ex_qlist\<lparr>mnMap :=
     fold (\<lambda>n. om_put (UINT256 (of_nat n)) (ex_member 1)) [0..<300] om_empty\<rparr>)\<rparr>"

lemma ex_many_count: "GetEligibleMasternodeCount ex_many = 300"
proof -
  let ?m = "fold (\<lambda>n. om_put (UINT256 (of_nat n)) (ex_member 1)) [0..<300] om_empty"
  have "dom (om_find ?m) = (\<lambda>n. UINT256 (of_nat n)) ` {0..<300::nat}"
    by (auto simp: ex_find_many dom_def)
  moreover have "inj_on (\<lambda>n. UINT256 (of_nat n)) {0..<300::nat}"
    by (auto simp: inj_on_def word_of_nat_eq_iff take_bit_nat_def)
  ultimately have n: "length (map snd (om_entries ?m)) = 300"
    using card_image [of "\<lambda>n. UINT256 (of_nat n)" "{0..<300::nat}"] om_size_card [of ?m] by (simp add: om_size_def)
  have "x = ex_member 1" if "x \<in> set (map snd (om_entries ?m))" for x
    using that om_value_iff [of x ?m] by (auto simp: ex_find_many split: if_splits)
  then have "map snd (om_entries ?m) = replicate 300 (ex_member 1)"
    using n replicate_eqI by metis
  moreover have "fold (\<lambda>mn a. if \<not> MN_IsValid mn then a else if vchOperatorPubKey (mn_state mn) \<noteq> [] then a + 1 else a)
      (replicate k (ex_member 1)) c = c + int k" for k c
    by (induction k arbitrary: c) (auto simp: ex_member_valid)
  ultimately show ?thesis
    by (simp add: GetEligibleMasternodeCount_def GetListAtChainTip_def ForEachMN_def mns_def ex_many_def)
qed

theorem activation_boundaries_witness:
  "\<exists>cm'. chainLockActivationHeight cm' = 5000 \<and> IsChainLockActive cm' \<and>
    (\<exists>d s. ChainLocks_UpdatedBlockTip ex_lenv ex_ops ex_clquorums CDKGSessionManager_new ex_many ex_view
      (Some (BlockIndex (UINT256 80) 5000 0 0 0 None None)) (CChainLocksManager_new, ex_evodb, CSigningManager_new) = Some (cm', d, s))"
proof -
  let ?i = "BlockIndex (UINT256 80) 5000 0 0 0 None None"
  let ?cm = "CChainLocksManager_new\<lparr>chainLockActivationHeight := 5000\<rparr>"
  obtain b cm' d s where t: "TrySignChainLock ex_lenv ex_ops ex_clquorums CDKGSessionManager_new ex_view (Some ?i)
      (?cm, evo_Write DB_CHAINLOCK_ACTIVATION_HEIGHT (V_INT 5000) ex_evodb, CSigningManager_new) = (b, cm', d, s)" by (metis prod_cases4)
  have q: "has_valid_quorum ex_clquorums" by (simp add: has_valid_quorum_def GetActiveQuorums_def ex_clquorums_def ex_quorum_def)
  have u: "ChainLocks_UpdatedBlockTip ex_lenv ex_ops ex_clquorums CDKGSessionManager_new ex_many ex_view (Some ?i)
      (CChainLocksManager_new, ex_evodb, CSigningManager_new) = Some (cm', d, s)"
    using t ex_many_count q
    by (simp add: ChainLocks_UpdatedBlockTip_def TryActivate_def ShouldAttemptActivation_def CHAINLOCK_MIN_ACTIVATION_HEIGHT_def
        CHAINLOCK_ACTIVATION_INTERVAL_def CHAINLOCK_REQUIRED_MASTERNODES_def CChainLocksManager_new_def IsChainLockActive_def om_eval)
  have a: "IsChainLockActive cm'" using TrySignChainLock_activation [OF t] by (simp add: IsChainLockActive_def)
  have "\<not> IsChainLockActive CChainLocksManager_new" by (simp add: IsChainLockActive_def CChainLocksManager_new_def)
  with activation_boundaries [OF ex_fresh _ u a, of ex_view] show ?thesis using u a by (auto simp: ex_init)
qed

end
