(* ===== verification/Spec2Isabelle.thy ===== *)
theory Spec2Isabelle
  imports Props_Encoding Props_Masternodes Props_Blocks Props_Transactions Props_Coins Props_Scripts Props_Llmq
begin

text \<open>
  Consensus rules of Mynta: the coins that blocks create and spend, the block reward, scripts and the
  assets in them, and the deterministic masternodes: the list of masternodes that every node computes
  from the chain, the special transactions that change it, the proof-of-service penalties, and the
  storage of all three; and the quorums of masternodes with the locks they sign on transactions and
  blocks.

  \<^bold>\<open>The program's parts and their theories.\<close>

  \<^item> \<open>Mynta_Prelude\<close>: bytes and words, \<open>uint256\<close> (\<open>uint256.h\<close>) with the order of \<open>memcmp\<close>,
    \<open>std::map\<close> as the type \<open>omap\<close> of sorted association lists, and the abstract notion of an exact
    index.
  \<^item> \<open>Serialization\<close> (\<open>serialize.h\<close>): integers, compact sizes, variable-length integers, byte vectors
    (read in blocks), vectors, pairs and maps.  A reader takes the bytes left in the stream and returns
    a value with the bytes after it, or \<open>None\<close> where the C++ reader throws.  The locales
    \<open>roundtrip\<close> and \<open>codec\<close> state what a pair of writer and reader promises and are interpreted for
    every type of the development that is stored or sent.
  \<^item> \<open>Primitives\<close> (\<open>primitives/transaction.h\<close>, \<open>coins.h\<close>, \<open>script/script.cpp\<close>, \<open>consensus/params.h\<close>),
    \<open>NetAddress\<close> (\<open>netaddress.cpp\<close>) and \<open>Chain\<close> (\<open>chain.h\<close>, \<open>chain.cpp\<close>): transactions with extra
    payload and witnesses, service addresses with their classes, and the block index with skip
    pointers.
  \<^item> \<open>MnList\<close> (\<open>CDeterministicMNState\<close>, \<open>CDeterministicMN\<close>, \<open>CDeterministicMNList\<close> of
    \<open>evo/deterministicmns.cpp\<close>): lookups, choice of the payee, addition, update, removal.  The
    invariant \<open>mnlist_ok\<close> says that the index of unique properties is exact.
  \<^item> \<open>EvoDb\<close> (\<open>evo/evodb.cpp\<close>): the database with its transactions.
  \<^item> \<open>Pose\<close> (\<open>evo/pose.cpp\<close>): penalty scores, their persistence and their undo data.
  \<^item> \<open>SpecialTx\<close> (\<open>evo/specialtx.h\<close>, \<open>evo/providertx.h\<close>): the five payloads, their serialisation
    and signature checks.
  \<^item> \<open>MnManager\<close> (\<open>CDeterministicMNManager\<close>): \<open>ProcessBlock\<close>, split along its stages, undo, the
    cache and the lookup of the list of a block with its rebuild.  \<open>GetListForBlock\<close> and
    \<open>ProcessBlock\<close> call each other as in the code; the recursion ends because the block index gets
    smaller.  \<open>MnBlock\<close> has the lemmas on the stages, \<open>MnStore\<close> those on cache and database.
  \<^item> \<open>ProviderTx\<close> (\<open>evo/providertx.cpp\<close>): the checks of each special transaction, of a block of them,
    and the undo of a block.  An early return with \<open>state.DoS\<close> is an entry of a list of conditions, in
    the order of the code; the first that holds decides.
  \<^item> \<open>Script\<close> (\<open>script/script.h\<close>, \<open>script/script.cpp\<close>): reading and pushing operations, script numbers,
    signature-operation counts, \<open>FindAndDelete\<close>, templates.  \<open>AssetTypes\<close> (\<open>assets/assettypes.h\<close>): the
    payloads of new assets, transfers and reissues, and the amounts read from scripts.  \<open>AssetNames\<close>
    (\<open>assets/assets.cpp\<close>): the name rules, with the regular expressions evaluated by derivatives.
  \<^item> \<open>CoinsCache\<close> (\<open>coins.cpp\<close>, \<open>txdb.cpp\<close>): the cached coins view over another cache or the database.
    \<open>cache_utxo\<close> is the map of unspent outputs a view shows; \<open>cache_ok\<close> says that the flags of the
    entries agree with the view below.  The locale \<open>refines\<close> states what an implementation of a
    specification by operations promises and is interpreted for the cache.
  \<^item> \<open>TxVerify\<close> (\<open>consensus/tx_verify.cpp\<close>): finality, sequence locks, input checks, the update of the
    coins.  \<open>BlockReward\<close> (\<open>validation.cpp\<close>, \<open>miner.cpp\<close>, \<open>consensus/devalloc.cpp\<close>): subsidy, development
    allocation, masternode payment, \<open>ContextualCheckBlock\<close> and the coinbase of the assembler.
    \<open>ConnectBlock\<close> (\<open>validation.cpp\<close>): \<open>CheckBlock\<close>, \<open>ConnectBlock\<close> and \<open>DisconnectBlock\<close>, which call the
    special-transaction rules and the coins view.
  \<^item> \<open>Equivocation\<close> (\<open>llmq/equivocation.cpp\<close>): proofs that a quorum member signed twice, the records
    that find them and the penalty they cost, through the proof-of-service manager; \<open>equiv_run\<close> are the
    states it reaches from start-up.  \<open>Quorums\<close>
    (\<open>llmq/quorums.cpp\<close>): quorum types, selection of members from the masternode list, the cache and
    the active quorums; \<open>manager_ok\<close> is their invariant.  \<open>Signing\<close> (\<open>llmq/quorums.cpp\<close>,
    \<open>llmq/dkg.cpp\<close>): signature shares and their recovery, the node's identity and the manager of the
    key-generation sessions.  A session itself is an opaque value with the operations of the record
    \<open>dkg_ops\<close>.  \<open>llmq_run\<close> are the states these managers reach from start-up.
  \<^item> \<open>InstantSend\<close> (\<open>llmq/instantsend.cpp\<close>): locks on transactions and their inputs, in three maps that
    \<open>represents\<close> relates to the set of locks; \<open>is_run\<close> are the reachable states.  \<open>ChainLocks\<close>
    (\<open>llmq/chainlocks.cpp\<close>, and the checks in \<open>validation.cpp\<close> and \<open>net_processing.cpp\<close> that call it): locks on
    blocks, their database, activation, and the choice between chains.  \<open>cl_ok\<close> relates memory and
    database and is kept by every step of \<open>cl_step\<close>, restarts included.
  \<^item> \<open>Examples\<close>: concrete values for the instances of the theorems.

  \<^bold>\<open>What the theorems show.\<close>  \<open>Props_Encoding\<close>: every stored or sent format is read back
  unchanged, and where the code checks it the encoding is unique; a database transaction is atomic.
  \<open>Props_Masternodes\<close>: the list operations keep the index exact, lookups through it and the choice of
  the payee are right, penalties are applied, undone and kept over a restart, and ancestors found
  over skip pointers are those found one block at a time.  \<open>Props_Blocks\<close>: a processed block keeps the
  list consistent, removes spent collaterals and wrong tiers, records the payee, bans at the threshold
  and keeps revocations; lists committed are found again, and undo gives back the parent's.  Where a block
  registers masternodes these theorems assume \<open>registers_free\<close>: each is new and its properties are free
  when it is applied, which the checks of the code ensure for blocks of registrations only.
  \<open>Props_Transactions\<close>: what an accepted registration guarantees, and that a block of accepted
  registrations leaves a consistent list.  \<open>Props_Coins\<close>: the cached view behaves as a map, a block
  adds no more value than the subsidy, disconnecting it restores the coins, the supply is bounded, and
  what the assembler builds the validator accepts, except with an operator's share.
  \<open>Props_Scripts\<close>: \<open>FindAndDelete\<close> returns and agrees with a reference, script numbers have one
  encoding, amounts are read back from asset scripts, and parents have valid owner tokens.
  \<open>Props_Llmq\<close>: two groups of signers of one quorum overlap, its members are those with the least
  scores, recovery uses shares of distinct members at their own points, InstantSend locks exclude each
  other, ChainLocks are final, survive a restart and stop reorganisations across them, and activate
  only at the boundaries, and a recorded signature makes a conflicting one of its member punishable; and where the code falls short of this: no node finds its key share, double
  signing seen over the network is not detected, a proof can name anyone, only the best lock is
  checked against new blocks, and a pending lock that becomes storable breaks the loop over them.

  \<^bold>\<open>Conventions.\<close>  Parameters stand for code that is not modelled: the hash function, ECDSA
  key recovery and BLS operations (records \<open>crypto\<close> and \<open>llmq_env\<close>), the coin view and the reading of blocks from disk
  (record \<open>evo_env\<close>).  Theorems that identify masternodes by hashed properties assume
  \<open>collision_free\<close>, that the hash function separates the finitely many properties in question; those on
  locks and quorums assume the same for the locks, requests or blocks seen (\<open>inj_on\<close>,
  \<open>contexts_separate\<close>, \<open>tags_separate\<close>).  An
  outer \<open>None\<close> is a failed assertion or, in the loops over pending locks, the use of an invalid iterator; \<open>DoS\<close> with its level, code and reason is a rejection.
  Heights and amounts are integers where the code has signed types whose overflow is undefined, and
  words where it has unsigned ones.  The locks are not modelled: each operation runs to its end.
  No fuel is used: every loop and recursion has a termination proof; the loop of \<open>FindAndDelete\<close> is a
  partial function, shown to return.  The field \<open>other_checks\<close> of \<open>connect_params\<close> stands for what
  \<open>ConnectBlock\<close> tests of a transaction besides the coins (assets, signature operations and scripts):
  the theorems hold whatever it answers.

  \<^bold>\<open>Not modelled.\<close>  The protocol inside one session of distributed key generation, which is
  arithmetic of the curve library, and the monitoring of quorums, which only counts and logs; the asset
  cache with the undo of assets in \<open>DisconnectBlock\<close>, the wallet, remote calls, networking apart from the handlers of the two locks, and the script
  interpreter; log messages and text output; the
  failure of a database write, which the code turns into a rejection.
\<close>

end
